(* ===== verification/Prelude.thy ===== *)
theory Prelude
  imports Main "HOL-Library.Word" "HOL-Library.Monad_Syntax" "HOL-Library.Signed_Division"
begin

text \<open>
  Shared vocabulary of the development: the C integer types of \<open>types.h\<close> as words, bounds
  checked array access, and generic facts on options, lists and words that the component theories
  use through the collections declared here.

  A C function that may leave defined behaviour (a page fault, an index outside an array, a call
  through a null function pointer) is modelled with result type \<open>option\<close>: \<^term>\<open>None\<close> is that
  event, so a theorem that an operation returns \<^term>\<open>Some\<close> is also the statement that it does
  not happen.  Error codes of the source (\<open>-1\<close>) are ordinary values.
\<close>

unbundle bit_operations_syntax

section \<open>C integer types\<close>

type_synonym u8 = "8 word"
type_synonym u16 = "16 word"
type_synonym u32 = "32 word"

text \<open>\<open>int32_t\<close> and \<open>int8_t\<close> are words read with \<^term>\<open>sint\<close> where the source compares them.\<close>

type_synonym i32 = "32 word"
type_synonym i8 = "8 word"

named_theorems arr_simps \<open>bounds checked array access\<close>
named_theorems mem_simps \<open>loads and stores through a memory interface\<close>
named_theorems frame_simps \<open>what an operation leaves unchanged\<close>
named_theorems inv_intros \<open>preservation of invariants\<close>

section \<open>Arrays with bounds\<close>

definition arr_get :: "'a list \<Rightarrow> nat \<Rightarrow> 'a option" where
  "arr_get xs i = (if i < length xs then Some (xs ! i) else None)"

definition arr_set :: "'a list \<Rightarrow> nat \<Rightarrow> 'a \<Rightarrow> 'a list option" where
  "arr_set xs i v = (if i < length xs then Some (xs[i := v]) else None)"

lemma arr_get_in [simp, arr_simps]: "i < length xs \<Longrightarrow> arr_get xs i = Some (xs ! i)"
  by (simp add: arr_get_def)

lemma arr_get_out [simp, arr_simps]: "length xs \<le> i \<Longrightarrow> arr_get xs i = None"
  by (simp add: arr_get_def)

lemma arr_set_in [simp, arr_simps]: "i < length xs \<Longrightarrow> arr_set xs i v = Some (xs[i := v])"
  by (simp add: arr_set_def)

lemma arr_set_out [simp, arr_simps]: "length xs \<le> i \<Longrightarrow> arr_set xs i v = None"
  by (simp add: arr_set_def)

lemma arr_get_Some_iff: "arr_get xs i = Some v \<longleftrightarrow> i < length xs \<and> xs ! i = v"
  by (auto simp: arr_get_def)

lemma arr_set_Some_iff: "arr_set xs i v = Some ys \<longleftrightarrow> i < length xs \<and> ys = xs[i := v]"
  by (auto simp: arr_set_def)

section \<open>Options\<close>

lemma bind_Some_iff: "Option.bind x f = Some y \<longleftrightarrow> (\<exists>a. x = Some a \<and> f a = Some y)"
  by (cases x) auto

lemma bind_eq_None_iff: "Option.bind x f = None \<longleftrightarrow> x = None \<or> (\<exists>a. x = Some a \<and> f a = None)"
  by (cases x) auto

section \<open>Counting loops\<close>

text \<open>\<open>for (k = i; k < i + n; k++)\<close> over a fallible body.\<close>

fun for_up :: "nat \<Rightarrow> nat \<Rightarrow> (nat \<Rightarrow> 's \<Rightarrow> 's option) \<Rightarrow> 's \<Rightarrow> 's option" where
  "for_up i 0 body s = Some s"
| "for_up i (Suc n) body s = do { s' \<leftarrow> body i s; for_up (Suc i) n body s' }"

lemma for_up_rule:
  assumes "I i s"
    and "\<And>k t. i \<le> k \<Longrightarrow> k < i + n \<Longrightarrow> I k t \<Longrightarrow> \<exists>t'. body k t = Some t' \<and> I (Suc k) t'"
  shows "\<exists>s'. for_up i n body s = Some s' \<and> I (i + n) s'"
  using assms
proof (induction n arbitrary: i s)
  case 0
  then show ?case by simp
next
  case (Suc n)
  from Suc.prems(2)[of i s] Suc.prems(1) obtain t where t: "body i s = Some t" "I (Suc i) t"
    by auto
  have "\<exists>s'. for_up (Suc i) n body t = Some s' \<and> I (Suc i + n) s'"
    by (rule Suc.IH[OF t(2)]) (use Suc.prems(2) in auto)
  with t(1) show ?case by auto
qed

text \<open>The same for a loop whose state after \<open>k\<close> steps is a function of \<open>k\<close>.\<close>

lemma for_up_run:
  assumes "\<And>k. k < n \<Longrightarrow> body k (f k) = Some (f (Suc k))"
  shows "for_up 0 n body (f 0) = Some (f n)"
  using for_up_rule[of "\<lambda>k t. t = f k" 0 "f 0" n body] assms by auto

lemma for_up_inv:
  assumes "\<And>k t t'. I t \<Longrightarrow> body k t = Some t' \<Longrightarrow> I t'" and "for_up i n body s = Some s'" and "I s"
  shows "I s'"
  using assms(2,3)
  by (induction n arbitrary: i s) (auto simp: bind_Some_iff dest: assms(1))

section \<open>Words\<close>

lemma of_nat_Suc_word: "a + of_nat (Suc n) = (a + 1 :: 'a::len word) + of_nat n"
  by simp

lemma unat_ucast8 [simp]: "unat (ucast (w :: u8) :: u32) = unat w"
proof -
  have "unat w < 2 ^ 8" using unsigned_less[of w] by simp
  then show ?thesis by (simp add: unsigned_ucast_eq take_bit_nat_eq_self)
qed

lemma of_nat_unat8 [simp]: "(of_nat (unat (w :: u8)) :: u32) = ucast w"
  by (metis unat_ucast8 of_nat_unat ucast_id)

text \<open>Signed and unsigned readings.\<close>

lemma u32_nat:
  obtains n where "unat (w :: u32) = n" "uint w = int n" "n < 4294967296"
  using unsigned_less[of w, where ?'a = nat] that[of "unat w"] by simp

lemma sint_u32: "sint (w :: u32) = (if unat w < 2 ^ 31 then int (unat w) else int (unat w) - 2 ^ 32)"
proof -
  obtain n where n: "unat w = n" "uint w = int n" "n < 4294967296" by (rule u32_nat)
  have s: "sint w = (int n + 2147483648) mod 4294967296 - 2147483648"
    by (simp add: sint_uint signed_take_bit_eq_take_bit_shift take_bit_eq_mod n(2))
  show ?thesis
  proof (cases "n < 2147483648")
    case True
    then show ?thesis by (simp add: s n(1) mod_pos_pos_trivial)
  next
    case False
    have "(int n + 2147483648) mod 4294967296 = (int n - 2147483648 + 4294967296) mod 4294967296" by (simp add: add.commute)
    also have "\<dots> = int n - 2147483648"
      using False n(3) by (simp only: mod_add_self2) (simp add: mod_pos_pos_trivial)
    finally show ?thesis using False s n(1) by simp
  qed
qed

text \<open>Little-endian composition of the bytes of a 32-bit field, and its bytes.\<close>

definition le32 :: "u8 \<Rightarrow> u8 \<Rightarrow> u8 \<Rightarrow> u8 \<Rightarrow> u32" where
  "le32 b0 b1 b2 b3 =
     ucast b0 + 256 * ucast b1 + 65536 * ucast b2 + 16777216 * ucast b3"

definition byte_of :: "u32 \<Rightarrow> nat \<Rightarrow> u8" where
  "byte_of w k = ucast (drop_bit (8 * k) w)"

end
