(* ===== verification/Memory.thy ===== *)
theory Memory
  imports Prelude
begin

text \<open>
  The byte memory interface the C library routines are written against.  A memory is a state with a
  reader \<open>rd\<close> and a writer \<open>wr\<close>, both partial: an address that is not backed yields \<^term>\<open>None\<close>.
  \<open>load_bytes\<close> and \<open>store_bytes\<close> are the reference block operations.  The locale \<open>memory\<close> states
  the laws every memory of the kernel obeys, through the cell an address denotes (its physical
  address under paging, its index in a C array), so that aliasing between addresses is visible.
  The locale is interpreted here for C arrays and for flat memory, and in \<open>Machine\<close> for the
  linear address space behind the page tables.
\<close>

section \<open>Block loads and stores\<close>

fun load_bytes :: "('s \<Rightarrow> u32 \<Rightarrow> u8 option) \<Rightarrow> 's \<Rightarrow> u32 \<Rightarrow> nat \<Rightarrow> u8 list option" where
  "load_bytes rd s a 0 = Some []"
| "load_bytes rd s a (Suc n) =
     do { b \<leftarrow> rd s a; bs \<leftarrow> load_bytes rd s (a + 1) n; Some (b # bs) }"

fun store_bytes :: "('s \<Rightarrow> u32 \<Rightarrow> u8 \<Rightarrow> 's option) \<Rightarrow> 's \<Rightarrow> u32 \<Rightarrow> u8 list \<Rightarrow> 's option" where
  "store_bytes wr s a [] = Some s"
| "store_bytes wr s a (b # bs) = do { s' \<leftarrow> wr s a b; store_bytes wr s' (a + 1) bs }"

definition load32 :: "('s \<Rightarrow> u32 \<Rightarrow> u8 option) \<Rightarrow> 's \<Rightarrow> u32 \<Rightarrow> u32 option" where
  "load32 rd s a =
     do { b0 \<leftarrow> rd s a; b1 \<leftarrow> rd s (a + 1); b2 \<leftarrow> rd s (a + 2); b3 \<leftarrow> rd s (a + 3);
          Some (le32 b0 b1 b2 b3) }"

definition store32 :: "('s \<Rightarrow> u32 \<Rightarrow> u8 \<Rightarrow> 's option) \<Rightarrow> 's \<Rightarrow> u32 \<Rightarrow> u32 \<Rightarrow> 's option" where
  "store32 wr s a w = store_bytes wr s a [byte_of w 0, byte_of w 1, byte_of w 2, byte_of w 3]"

lemma load_bytes_length: "load_bytes rd s a n = Some bs \<Longrightarrow> length bs = n"
  by (induction n arbitrary: a bs) (auto simp: bind_Some_iff)

lemma load_bytes_add [mem_simps]:
  "load_bytes rd s a (m + n) =
     do { xs \<leftarrow> load_bytes rd s a m; ys \<leftarrow> load_bytes rd s (a + of_nat m) n; Some (xs @ ys) }"
proof (induction m arbitrary: a)
  case 0
  then show ?case by simp
next
  case (Suc m)
  then show ?case by (simp add: algebra_simps)
qed

lemma load_bytes_nth:
  "load_bytes rd s a n = Some bs \<Longrightarrow> i < n \<Longrightarrow> rd s (a + of_nat i) = Some (bs ! i)"
proof (induction n arbitrary: a bs i)
  case 0
  then show ?case by simp
next
  case (Suc n)
  then show ?case
    by (cases i) (fastforce simp: bind_Some_iff algebra_simps)+
qed

lemma load_bytes_SomeI:
  "length bs = n \<Longrightarrow> (\<And>i. i < n \<Longrightarrow> rd s (a + of_nat i) = Some (bs ! i)) \<Longrightarrow>
     load_bytes rd s a n = Some bs"
proof (induction n arbitrary: a bs)
  case 0
  then show ?case by simp
next
  case (Suc n)
  from Suc.prems(1) obtain b bs' where bs: "bs = b # bs'" "length bs' = n"
    by (cases bs) auto
  have hd: "rd s a = Some b"
    using Suc.prems(2)[of 0] bs by simp
  have "rd s (a + 1 + of_nat i) = Some (bs' ! i)" if "i < n" for i
    using Suc.prems(2)[of "Suc i"] that bs by (simp add: algebra_simps)
  then have "load_bytes rd s (a + 1) n = Some bs'"
    using Suc.IH bs by blast
  with hd bs show ?case by simp
qed

lemma load_bytes_cong:
  "(\<And>i. i < n \<Longrightarrow> rd s (a + of_nat i) = rd' s' (a' + of_nat i)) \<Longrightarrow>
     load_bytes rd s a n = load_bytes rd' s' a' n"
proof (induction n arbitrary: a a')
  case 0
  then show ?case by simp
next
  case (Suc n)
  have 0: "rd s a = rd' s' a'"
    using Suc.prems[of 0] by simp
  have "rd s (a + 1 + of_nat i) = rd' s' (a' + 1 + of_nat i)" if "i < n" for i
    using Suc.prems[of "Suc i"] that by (simp add: algebra_simps)
  with 0 Suc.IH[of "a + 1" "a' + 1"] show ?case by simp
qed

lemma store_bytes_append [mem_simps]:
  "store_bytes wr s a (xs @ ys) =
     do { s' \<leftarrow> store_bytes wr s a xs; store_bytes wr s' (a + of_nat (length xs)) ys }"
  by (induction xs arbitrary: s a) (auto simp: algebra_simps split: bind_splits)

section \<open>The laws of a byte memory\<close>

text \<open>The cells a range of addresses denotes, under an address translation \<open>tr\<close>.\<close>

definition cells :: "('s \<Rightarrow> u32 \<Rightarrow> 'c option) \<Rightarrow> 's \<Rightarrow> u32 \<Rightarrow> nat \<Rightarrow> 'c set" where
  "cells tr s a n = {c. \<exists>i<n. tr s (a + of_nat i) = Some c}"

lemma cells_0 [simp]: "cells tr s a 0 = {}"
  by (simp add: cells_def)

lemma cells_Suc: "cells tr s a (Suc n) = set_option (tr s a) \<union> cells tr s (a + 1) n"
proof -
  have "(\<exists>i<Suc n. tr s (a + of_nat i) = Some c) \<longleftrightarrow>
        tr s a = Some c \<or> (\<exists>i<n. tr s (a + 1 + of_nat i) = Some c)" for c
    by (simp only: Ex_less_Suc2 of_nat_Suc_word) simp
  then show ?thesis by (auto simp: cells_def)
qed

lemma cells_add: "cells tr s a (m + n) = cells tr s a m \<union> cells tr s (a + of_nat m) n"
  by (induction m arbitrary: a) (auto simp: cells_Suc algebra_simps)

lemma cells_mono: "m \<le> n \<Longrightarrow> cells tr s a m \<subseteq> cells tr s a n"
  by (auto simp: cells_def intro: less_le_trans)

locale memory =
  fixes tr :: "'s \<Rightarrow> u32 \<Rightarrow> 'c option"
    and cell :: "'s \<Rightarrow> 'c \<Rightarrow> u8"
    and upd :: "'s \<Rightarrow> 'c \<Rightarrow> u8 \<Rightarrow> 's"
    and rd :: "'s \<Rightarrow> u32 \<Rightarrow> u8 option"
    and wr :: "'s \<Rightarrow> u32 \<Rightarrow> u8 \<Rightarrow> 's option"
  assumes rd_tr: "rd s a = map_option (cell s) (tr s a)"
    and wr_tr: "wr s a b = map_option (\<lambda>c. upd s c b) (tr s a)"
    and cell_upd: "tr s a = Some c \<Longrightarrow> cell (upd s c b) = (cell s)(c := b)"
    and tr_upd: "tr s a = Some c \<Longrightarrow> tr (upd s c b) = tr s"
begin

lemma wr_keeps_tr: "wr s a b = Some s' \<Longrightarrow> tr s' = tr s"
  by (auto simp: wr_tr dest: tr_upd)

lemma wr_cell: "wr s a b = Some s' \<Longrightarrow> tr s a = Some c \<Longrightarrow> cell s' = (cell s)(c := b)"
  by (auto simp: wr_tr dest: cell_upd)

lemma wr_cell_other: "wr s a b = Some s' \<Longrightarrow> tr s a \<noteq> Some c \<Longrightarrow> cell s' c = cell s c"
  by (auto simp: wr_tr cell_upd)

lemma wr_rd_other: "wr s a b = Some s' \<Longrightarrow> tr s a \<noteq> tr s a' \<Longrightarrow> rd s' a' = rd s a'"
  by (auto simp: rd_tr wr_tr tr_upd cell_upd intro!: map_option_cong)

lemma store_keeps_tr: "store_bytes wr s a bs = Some s' \<Longrightarrow> tr s' = tr s"
  by (induction bs arbitrary: s a) (auto simp: bind_Some_iff dest!: wr_keeps_tr)

lemma store_Some_iff:
  "(\<exists>s'. store_bytes wr s a bs = Some s') \<longleftrightarrow> (\<forall>i<length bs. tr s (a + of_nat i) \<noteq> None)"
proof (induction bs arbitrary: s a)
  case Nil
  then show ?case by simp
next
  case (Cons b bs)
  have "(\<forall>i<Suc (length bs). tr s (a + of_nat i) \<noteq> None) \<longleftrightarrow>
      tr s a \<noteq> None \<and> (\<forall>i<length bs. tr s (a + 1 + of_nat i) \<noteq> None)"
    by (simp only: All_less_Suc2 of_nat_Suc_word) simp
  moreover have "(\<exists>s'. store_bytes wr s a (b # bs) = Some s') \<longleftrightarrow>
      tr s a \<noteq> None \<and> (\<forall>i<length bs. tr s (a + 1 + of_nat i) \<noteq> None)"
  proof (cases "wr s a b")
    case None
    then show ?thesis by (auto simp: wr_tr)
  next
    case (Some t)
    then have "tr t = tr s" "tr s a \<noteq> None" by (auto simp: wr_tr dest: tr_upd)
    with Some Cons.IH[of t "a + 1"] show ?thesis by simp
  qed
  ultimately show ?case by simp
qed

lemma store_cell_other:
  "store_bytes wr s a bs = Some s' \<Longrightarrow> c \<notin> cells tr s a (length bs) \<Longrightarrow> cell s' c = cell s c"
proof (induction bs arbitrary: s a)
  case Nil
  then show ?case by simp
next
  case (Cons b bs)
  from Cons.prems(1) obtain t where t: "wr s a b = Some t" "store_bytes wr t (a + 1) bs = Some s'"
    by (auto simp: bind_Some_iff)
  have trt: "tr t = tr s" using t(1) by (rule wr_keeps_tr)
  from Cons.prems(2) have c: "tr s a \<noteq> Some c" "c \<notin> cells tr s (a + 1) (length bs)"
    by (auto simp: cells_Suc)
  have "cells tr t (a + 1) (length bs) = cells tr s (a + 1) (length bs)"
    by (simp add: cells_def trt)
  with Cons.IH[OF t(2)] c have "cell s' c = cell t c" by simp
  with wr_cell_other[OF t(1) c(1)] show ?case by simp
qed

lemma store_rd_other:
  assumes st: "store_bytes wr s a bs = Some s'"
    and ap: "set_option (tr s a') \<inter> cells tr s a (length bs) = {}"
  shows "rd s' a' = rd s a'"
  using store_keeps_tr[OF st] store_cell_other[OF st] ap
  by (cases "tr s a'") (auto simp: rd_tr)

lemma store_load_other:
  assumes st: "store_bytes wr s a bs = Some s'"
    and ap: "cells tr s a' n \<inter> cells tr s a (length bs) = {}"
  shows "load_bytes rd s' a' n = load_bytes rd s a' n"
proof (rule load_bytes_cong)
  fix i assume "i < n"
  then have "set_option (tr s (a' + of_nat i)) \<subseteq> cells tr s a' n"
    by (auto simp: cells_def)
  with ap have "set_option (tr s (a' + of_nat i)) \<inter> cells tr s a (length bs) = {}" by blast
  then show "rd s' (a' + of_nat i) = rd s (a' + of_nat i)" by (rule store_rd_other[OF st])
qed

text \<open>
  A store reads back, when the addresses of the range denote distinct cells.
\<close>

lemma store_load_same:
  "store_bytes wr s a bs = Some s' \<Longrightarrow>
     (\<And>i j. i < j \<Longrightarrow> j < length bs \<Longrightarrow> tr s (a + of_nat i) \<noteq> tr s (a + of_nat j)) \<Longrightarrow>
     load_bytes rd s' a (length bs) = Some bs"
proof (induction bs arbitrary: s a)
  case Nil
  then show ?case by simp
next
  case (Cons b bs)
  from Cons.prems(1) obtain t where t: "wr s a b = Some t" "store_bytes wr t (a + 1) bs = Some s'"
    by (auto simp: bind_Some_iff)
  have trt: "tr t = tr s" using t(1) by (rule wr_keeps_tr)
  have inj: "tr t (a + 1 + of_nat i) \<noteq> tr t (a + 1 + of_nat j)" if "i < j" "j < length bs" for i j
    using Cons.prems(2)[of "Suc i" "Suc j"] that trt by (simp add: algebra_simps)
  have IH: "load_bytes rd s' (a + 1) (length bs) = Some bs"
    using Cons.IH[OF t(2) inj] .
  from t(1) obtain c where c: "tr s a = Some c" by (auto simp: wr_tr)
  have "tr s (a + 1 + of_nat j) \<noteq> Some c" if "j < length bs" for j
    using Cons.prems(2)[of 0 "Suc j"] that c by (auto simp: algebra_simps)
  then have "c \<notin> cells tr t (a + 1) (length bs)" by (auto simp: cells_def trt)
  then have "cell s' c = b"
    using store_cell_other[OF t(2)] wr_cell[OF t(1) c] by simp
  moreover have "tr s' a = Some c" using store_keeps_tr[OF t(2)] trt c by simp
  ultimately have "rd s' a = Some b" by (simp add: rd_tr)
  with IH show ?case by simp
qed

end

section \<open>C arrays as memories\<close>

text \<open>An array object is addressed by its index; an index outside it is not backed.\<close>

definition array_tr :: "u8 list \<Rightarrow> u32 \<Rightarrow> nat option" where
  "array_tr xs a = (if unat a < length xs then Some (unat a) else None)"

definition array_rd :: "u8 list \<Rightarrow> u32 \<Rightarrow> u8 option" where
  "array_rd xs a = arr_get xs (unat a)"

definition array_wr :: "u8 list \<Rightarrow> u32 \<Rightarrow> u8 \<Rightarrow> u8 list option" where
  "array_wr xs a b = arr_set xs (unat a) b"

interpretation arrm: memory array_tr "\<lambda>xs i. xs ! i" "\<lambda>xs i b. xs[i := b]" array_rd array_wr
  by unfold_locales
    (auto simp: array_tr_def array_rd_def array_wr_def arr_get_def arr_set_def fun_eq_iff
      split: if_splits)

section \<open>Flat memory\<close>

text \<open>The memory of a user program: every address of its address space is backed.\<close>

type_synonym flat = "u32 \<Rightarrow> u8"

definition flat_rd :: "flat \<Rightarrow> u32 \<Rightarrow> u8 option" where
  "flat_rd m a = Some (m a)"

definition flat_wr :: "flat \<Rightarrow> u32 \<Rightarrow> u8 \<Rightarrow> flat option" where
  "flat_wr m a b = Some (m(a := b))"

interpretation flatm: memory "\<lambda>_ a. Some a" "\<lambda>m a. m a" "\<lambda>m a b. m(a := b)" flat_rd flat_wr
  by unfold_locales (auto simp: flat_rd_def flat_wr_def)

end
