(* ===== verification/Libc.thy ===== *)
theory Libc
  imports Memory
begin

text \<open>
  The string and memory routines of \<open>lib.c\<close>, over the byte memory interface: \<open>rd\<close> reads the
  byte at an address and \<open>wr\<close> writes it, in whatever memory the caller's pointers refer to.
  \<open>memcpy\<close>, \<open>memset\<close> and \<open>memmove\<close> follow the inline assembly instruction by instruction
  (byte prologue up to alignment, 4-byte string instruction, byte epilogue); the theorems show that
  they implement the plain block copy and fill.
\<close>

section \<open>Block copy\<close>

text \<open>\<open>rep movsb\<close> with the direction flag clear, and with it set.\<close>

fun rep_movsb :: "('s \<Rightarrow> u32 \<Rightarrow> u8 option) \<Rightarrow> ('s \<Rightarrow> u32 \<Rightarrow> u8 \<Rightarrow> 's option) \<Rightarrow>
    's \<Rightarrow> u32 \<Rightarrow> u32 \<Rightarrow> nat \<Rightarrow> 's option" where
  "rep_movsb rd wr s edi esi 0 = Some s"
| "rep_movsb rd wr s edi esi (Suc n) =
     do { b \<leftarrow> rd s esi; s' \<leftarrow> wr s edi b; rep_movsb rd wr s' (edi + 1) (esi + 1) n }"

fun rep_movsb_down :: "('s \<Rightarrow> u32 \<Rightarrow> u8 option) \<Rightarrow> ('s \<Rightarrow> u32 \<Rightarrow> u8 \<Rightarrow> 's option) \<Rightarrow>
    's \<Rightarrow> u32 \<Rightarrow> u32 \<Rightarrow> nat \<Rightarrow> 's option" where
  "rep_movsb_down rd wr s edi esi 0 = Some s"
| "rep_movsb_down rd wr s edi esi (Suc n) =
     do { b \<leftarrow> rd s esi; s' \<leftarrow> wr s edi b; rep_movsb_down rd wr s' (edi - 1) (esi - 1) n }"

text \<open>\<open>rep movsl\<close>: each step reads four bytes, then writes four bytes.\<close>

fun rep_movsl :: "('s \<Rightarrow> u32 \<Rightarrow> u8 option) \<Rightarrow> ('s \<Rightarrow> u32 \<Rightarrow> u8 \<Rightarrow> 's option) \<Rightarrow>
    's \<Rightarrow> u32 \<Rightarrow> u32 \<Rightarrow> nat \<Rightarrow> 's option" where
  "rep_movsl rd wr s edi esi 0 = Some s"
| "rep_movsl rd wr s edi esi (Suc n) =
     do { bs \<leftarrow> load_bytes rd s esi 4; s' \<leftarrow> store_bytes wr s edi bs;
          rep_movsl rd wr s' (edi + 4) (esi + 4) n }"

text \<open>The loop \<open>.memcpy_top\<close>: single bytes until the destination is aligned or the count is used up.\<close>

fun memcpy_top :: "('s \<Rightarrow> u32 \<Rightarrow> u8 option) \<Rightarrow> ('s \<Rightarrow> u32 \<Rightarrow> u8 \<Rightarrow> 's option) \<Rightarrow>
    's \<Rightarrow> u32 \<Rightarrow> u32 \<Rightarrow> nat \<Rightarrow> ('s \<times> u32 \<times> u32 \<times> nat) option" where
  "memcpy_top rd wr s edi esi 0 = Some (s, edi, esi, 0)"
| "memcpy_top rd wr s edi esi (Suc ecx) =
     (if edi AND 3 = 0 then Some (s, edi, esi, Suc ecx)
      else do { b \<leftarrow> rd s esi; s' \<leftarrow> wr s edi b;
                memcpy_top rd wr s' (edi + 1) (esi + 1) ecx })"

definition memcpy :: "('s \<Rightarrow> u32 \<Rightarrow> u8 option) \<Rightarrow> ('s \<Rightarrow> u32 \<Rightarrow> u8 \<Rightarrow> 's option) \<Rightarrow>
    's \<Rightarrow> u32 \<Rightarrow> u32 \<Rightarrow> u32 \<Rightarrow> 's option" where
  "memcpy rd wr s dest src n =
     do { (s1, edi, esi, ecx) \<leftarrow> memcpy_top rd wr s dest src (unat n);
          if ecx = 0 then Some s1
          else do { s2 \<leftarrow> rep_movsl rd wr s1 edi esi (ecx div 4);
                    rep_movsb rd wr s2 (edi + of_nat (4 * (ecx div 4)))
                      (esi + of_nat (4 * (ecx div 4))) (ecx mod 4) } }"

text \<open>
  \<open>memmove\<close> copies upwards when the source is not below the destination and downwards otherwise;
  it returns the direction flag it leaves behind (\<open>std\<close> is not undone).
\<close>

definition memmove :: "('s \<Rightarrow> u32 \<Rightarrow> u8 option) \<Rightarrow> ('s \<Rightarrow> u32 \<Rightarrow> u8 \<Rightarrow> 's option) \<Rightarrow>
    's \<Rightarrow> u32 \<Rightarrow> u32 \<Rightarrow> u32 \<Rightarrow> ('s \<times> bool) option" where
  "memmove rd wr s dest src n =
     (if dest \<le> src then
        do { s' \<leftarrow> rep_movsb rd wr s dest src (unat n); Some (s', False) }
      else
        do { s' \<leftarrow> rep_movsb_down rd wr s (dest + n - 1) (src + n - 1) (unat n); Some (s', True) })"

section \<open>Block fill\<close>

text \<open>\<open>rep stosl\<close> and \<open>rep stosw\<close>: the low bytes of \<open>eax\<close>, little-endian, at each step.\<close>

fun rep_stos :: "('s \<Rightarrow> u32 \<Rightarrow> u8 \<Rightarrow> 's option) \<Rightarrow> nat \<Rightarrow> u32 \<Rightarrow> 's \<Rightarrow> u32 \<Rightarrow> nat \<Rightarrow> 's option" where
  "rep_stos wr w eax s edi 0 = Some s"
| "rep_stos wr w eax s edi (Suc n) =
     do { s' \<leftarrow> store_bytes wr s edi (map (byte_of eax) [0..<w]);
          rep_stos wr w eax s' (edi + of_nat w) n }"

fun memset_top :: "('s \<Rightarrow> u32 \<Rightarrow> u8 \<Rightarrow> 's option) \<Rightarrow> u32 \<Rightarrow>
    's \<Rightarrow> u32 \<Rightarrow> nat \<Rightarrow> ('s \<times> u32 \<times> nat) option" where
  "memset_top wr eax s edi 0 = Some (s, edi, 0)"
| "memset_top wr eax s edi (Suc ecx) =
     (if edi AND 3 = 0 then Some (s, edi, Suc ecx)
      else do { s' \<leftarrow> wr s edi (byte_of eax 0); memset_top wr eax s' (edi + 1) ecx })"

definition memset :: "('s \<Rightarrow> u32 \<Rightarrow> u8 \<Rightarrow> 's option) \<Rightarrow> 's \<Rightarrow> u32 \<Rightarrow> i32 \<Rightarrow> u32 \<Rightarrow> 's option" where
  "memset wr s p c n =
     (let c' = c AND 0xFF;
          eax = push_bit 24 c' OR push_bit 16 c' OR push_bit 8 c' OR c' in
      do { (s1, edi, ecx) \<leftarrow> memset_top wr eax s p (unat n);
           if ecx = 0 then Some s1
           else do { s2 \<leftarrow> rep_stos wr 4 eax s1 edi (ecx div 4);
                     rep_stos wr 1 eax s2 (edi + of_nat (4 * (ecx div 4))) (ecx mod 4) } })"

definition memset_word :: "('s \<Rightarrow> u32 \<Rightarrow> u8 \<Rightarrow> 's option) \<Rightarrow> 's \<Rightarrow> u32 \<Rightarrow> i32 \<Rightarrow> u32 \<Rightarrow> 's option" where
  "memset_word wr s p c n = rep_stos wr 2 c s p (unat n)"

definition memset_dword :: "('s \<Rightarrow> u32 \<Rightarrow> u8 \<Rightarrow> 's option) \<Rightarrow> 's \<Rightarrow> u32 \<Rightarrow> i32 \<Rightarrow> u32 \<Rightarrow> 's option" where
  "memset_dword wr s p c n = rep_stos wr 4 c s p (unat n)"

section \<open>Strings\<close>

text \<open>The loops over NUL-terminated strings need not stop: without a NUL the result is \<^term>\<open>None\<close>.\<close>

partial_function (option) strlen_from :: "('s \<Rightarrow> u32 \<Rightarrow> u8 option) \<Rightarrow> 's \<Rightarrow> u32 \<Rightarrow> u32 \<Rightarrow> u32 option" where
  "strlen_from rd s p len =
     do { b \<leftarrow> rd s (p + len); if b \<noteq> 0 then strlen_from rd s p (len + 1) else Some len }"

definition strlen :: "('s \<Rightarrow> u32 \<Rightarrow> u8 option) \<Rightarrow> 's \<Rightarrow> u32 \<Rightarrow> u32 option" where
  "strlen rd s p = strlen_from rd s p 0"

text \<open>\<open>strncmp\<close> compares \<open>int8_t\<close>: the difference is of sign-extended bytes.\<close>

fun strncmp_loop :: "('s \<Rightarrow> u32 \<Rightarrow> u8 option) \<Rightarrow> 's \<Rightarrow> u32 \<Rightarrow> u32 \<Rightarrow> nat \<Rightarrow> i32 option" where
  "strncmp_loop rd s p q 0 = Some 0"
| "strncmp_loop rd s p q (Suc k) =
     do { a \<leftarrow> rd s p; b \<leftarrow> rd s q;
          if a \<noteq> b \<or> a = 0 then Some (scast a - scast b)
          else strncmp_loop rd s (p + 1) (q + 1) k }"

definition strncmp :: "('s \<Rightarrow> u32 \<Rightarrow> u8 option) \<Rightarrow> 's \<Rightarrow> u32 \<Rightarrow> u32 \<Rightarrow> u32 \<Rightarrow> i32 option" where
  "strncmp rd s s1 s2 n = strncmp_loop rd s s1 s2 (unat n)"

partial_function (option) strcpy_from :: "('s \<Rightarrow> u32 \<Rightarrow> u8 option) \<Rightarrow> ('s \<Rightarrow> u32 \<Rightarrow> u8 \<Rightarrow> 's option) \<Rightarrow>
    's \<Rightarrow> u32 \<Rightarrow> u32 \<Rightarrow> u32 \<Rightarrow> 's option" where
  "strcpy_from rd wr s dest src i =
     do { b \<leftarrow> rd s (src + i);
          if b \<noteq> 0 then do { s' \<leftarrow> wr s (dest + i) b; strcpy_from rd wr s' dest src (i + 1) }
          else wr s (dest + i) 0 }"

definition strcpy :: "('s \<Rightarrow> u32 \<Rightarrow> u8 option) \<Rightarrow> ('s \<Rightarrow> u32 \<Rightarrow> u8 \<Rightarrow> 's option) \<Rightarrow>
    's \<Rightarrow> u32 \<Rightarrow> u32 \<Rightarrow> 's option" where
  "strcpy rd wr s dest src = strcpy_from rd wr s dest src 0"

text \<open>
  The first loop of \<open>strncpy\<close> reads \<open>src[i]\<close> before it tests \<open>i < n\<close>, so it reads one byte more
  than it copies; the second loop pads with zeros.  The last argument counts \<open>n - i\<close>.
\<close>

fun strncpy_copy :: "('s \<Rightarrow> u32 \<Rightarrow> u8 option) \<Rightarrow> ('s \<Rightarrow> u32 \<Rightarrow> u8 \<Rightarrow> 's option) \<Rightarrow>
    's \<Rightarrow> u32 \<Rightarrow> u32 \<Rightarrow> nat \<Rightarrow> ('s \<times> u32 \<times> nat) option" where
  "strncpy_copy rd wr s d p 0 = do { b \<leftarrow> rd s p; Some (s, d, 0) }"
| "strncpy_copy rd wr s d p (Suc k) =
     do { b \<leftarrow> rd s p;
          if b \<noteq> 0 then do { s' \<leftarrow> wr s d b; strncpy_copy rd wr s' (d + 1) (p + 1) k }
          else Some (s, d, Suc k) }"

fun strncpy_pad :: "('s \<Rightarrow> u32 \<Rightarrow> u8 \<Rightarrow> 's option) \<Rightarrow> 's \<Rightarrow> u32 \<Rightarrow> nat \<Rightarrow> 's option" where
  "strncpy_pad wr s d 0 = Some s"
| "strncpy_pad wr s d (Suc k) = do { s' \<leftarrow> wr s d 0; strncpy_pad wr s' (d + 1) k }"

definition strncpy :: "('s \<Rightarrow> u32 \<Rightarrow> u8 option) \<Rightarrow> ('s \<Rightarrow> u32 \<Rightarrow> u8 \<Rightarrow> 's option) \<Rightarrow>
    's \<Rightarrow> u32 \<Rightarrow> u32 \<Rightarrow> u32 \<Rightarrow> 's option" where
  "strncpy rd wr s dest src n =
     do { (s', d, k) \<leftarrow> strncpy_copy rd wr s dest src (unat n); strncpy_pad wr s' d k }"

text \<open>In-place reversal with the two indices \<open>beg\<close> and \<open>end\<close>.\<close>

function strrev_loop :: "('s \<Rightarrow> u32 \<Rightarrow> u8 option) \<Rightarrow> ('s \<Rightarrow> u32 \<Rightarrow> u8 \<Rightarrow> 's option) \<Rightarrow>
    's \<Rightarrow> u32 \<Rightarrow> int \<Rightarrow> int \<Rightarrow> 's option" where
  "strrev_loop rd wr s p bg en =
     (if bg < en then
        do { tmp \<leftarrow> rd s (p + of_int en); b \<leftarrow> rd s (p + of_int bg);
             s1 \<leftarrow> wr s (p + of_int en) b; s2 \<leftarrow> wr s1 (p + of_int bg) tmp;
             strrev_loop rd wr s2 p (bg + 1) (en - 1) }
      else Some s)"
  by pat_completeness auto
termination
  by (relation "measure (\<lambda>(rd, wr, s, p, bg, en). nat (en - bg))") auto

declare strrev_loop.simps [simp del]

definition strrev :: "('s \<Rightarrow> u32 \<Rightarrow> u8 option) \<Rightarrow> ('s \<Rightarrow> u32 \<Rightarrow> u8 \<Rightarrow> 's option) \<Rightarrow>
    's \<Rightarrow> u32 \<Rightarrow> 's option" where
  "strrev rd wr s p = do { n \<leftarrow> strlen rd s p; strrev_loop rd wr s p 0 (sint (n - 1)) }"

text \<open>
  The digit loop of \<open>itoa\<close>: a zero radix is a division fault, and an index past the lookup
  string is outside the array.
\<close>

definition itoa_lookup :: "u8 list" where
  "itoa_lookup = map (\<lambda>c. of_char c) ''0123456789ABCDEFGHIJKLMNOPQRSTUVWXYZ'' @ [0]"

partial_function (option) itoa_loop :: "('s \<Rightarrow> u32 \<Rightarrow> u8 \<Rightarrow> 's option) \<Rightarrow>
    's \<Rightarrow> u32 \<Rightarrow> u32 \<Rightarrow> u32 \<Rightarrow> ('s \<times> u32) option" where
  "itoa_loop wr s newval newbuf radix =
     (if newval > 0 then
        (if radix = 0 then None
         else do { d \<leftarrow> arr_get itoa_lookup (unat (newval mod radix));
                   s' \<leftarrow> wr s newbuf d;
                   itoa_loop wr s' (newval div radix) (newbuf + 1) radix })
      else Some (s, newbuf))"

definition itoa :: "('s \<Rightarrow> u32 \<Rightarrow> u8 option) \<Rightarrow> ('s \<Rightarrow> u32 \<Rightarrow> u8 \<Rightarrow> 's option) \<Rightarrow>
    's \<Rightarrow> u32 \<Rightarrow> u32 \<Rightarrow> i32 \<Rightarrow> 's option" where
  "itoa rd wr s value buf radix =
     (if value = 0 then do { s' \<leftarrow> wr s buf 48; wr s' (buf + 1) 0 }
      else do { (s', newbuf) \<leftarrow> itoa_loop wr s value buf radix;
                s'' \<leftarrow> wr s' newbuf 0;
                strrev rd wr s'' buf })"

section \<open>The block routines copy and fill\<close>

text \<open>The reference copy: load the whole block, then store it.\<close>

definition block_copy :: "('s \<Rightarrow> u32 \<Rightarrow> u8 option) \<Rightarrow> ('s \<Rightarrow> u32 \<Rightarrow> u8 \<Rightarrow> 's option) \<Rightarrow>
    's \<Rightarrow> u32 \<Rightarrow> u32 \<Rightarrow> nat \<Rightarrow> 's option" where
  "block_copy rd wr s d p n = do { bs \<leftarrow> load_bytes rd s p n; store_bytes wr s d bs }"

lemma block_copy_0 [simp]: "block_copy rd wr s d p 0 = Some s"
  by (simp add: block_copy_def)

text \<open>
  What the copy routines need of the memory they work on: \<open>apart s d p n\<close> says that writing the
  \<open>n\<close> bytes at \<open>d\<close> does not disturb the \<open>n\<close> bytes at \<open>p\<close> that are still to be read.
\<close>

locale copier =
  fixes rd :: "'s \<Rightarrow> u32 \<Rightarrow> u8 option"
    and wr :: "'s \<Rightarrow> u32 \<Rightarrow> u8 \<Rightarrow> 's option"
    and apart :: "'s \<Rightarrow> u32 \<Rightarrow> u32 \<Rightarrow> nat \<Rightarrow> bool"
  assumes apart_left: "apart s d p (m + n) \<Longrightarrow> apart s d p m"
    and apart_load: "apart s d p (length xs + n) \<Longrightarrow> store_bytes wr s d xs = Some s' \<Longrightarrow>
      load_bytes rd s' (p + of_nat (length xs)) n = load_bytes rd s (p + of_nat (length xs)) n"
    and apart_right: "apart s d p (length xs + n) \<Longrightarrow> store_bytes wr s d xs = Some s' \<Longrightarrow>
      apart s' (d + of_nat (length xs)) (p + of_nat (length xs)) n"
begin

lemma block_copy_apart:
  "apart s d p (m + n) \<Longrightarrow> block_copy rd wr s d p m = Some s' \<Longrightarrow>
     apart s' (d + of_nat m) (p + of_nat m) n"
  by (auto simp: block_copy_def bind_Some_iff dest!: load_bytes_length apart_right)

lemma block_copy_add:
  assumes ap: "apart s d p (m + n)"
  shows "do { s' \<leftarrow> block_copy rd wr s d p m;
              block_copy rd wr s' (d + of_nat m) (p + of_nat m) n } =
         block_copy rd wr s d p (m + n)"
proof (cases "load_bytes rd s p m")
  case None
  then show ?thesis by (simp add: block_copy_def load_bytes_add)
next
  case (Some xs)
  then have len: "length xs = m" by (rule load_bytes_length)
  show ?thesis
  proof (cases "store_bytes wr s d xs")
    case None
    with Some show ?thesis
      by (auto simp: block_copy_def load_bytes_add store_bytes_append split: bind_splits)
  next
    case (Some s')
    with apart_load[OF _ Some, of p n] ap len \<open>load_bytes rd s p m = Some xs\<close> show ?thesis
      by (simp add: block_copy_def load_bytes_add store_bytes_append split: bind_splits)
  qed
qed

lemma block_copy_1: "block_copy rd wr s d p 1 = do { b \<leftarrow> rd s p; wr s d b }"
  by (auto simp: block_copy_def split: bind_splits)

lemma rep_movsb_copy:
  "apart s edi esi n \<Longrightarrow> rep_movsb rd wr s edi esi n = block_copy rd wr s edi esi n"
proof (induction n arbitrary: s edi esi)
  case 0
  then show ?case by simp
next
  case (Suc n)
  have ap: "apart s edi esi (1 + n)" using Suc.prems by simp
  have IH: "rep_movsb rd wr t (edi + 1) (esi + 1) n = block_copy rd wr t (edi + 1) (esi + 1) n"
    if "block_copy rd wr s edi esi 1 = Some t" for t
    using block_copy_apart[OF ap that] by (intro Suc.IH) simp
  have "rep_movsb rd wr s edi esi (Suc n) =
      do { t \<leftarrow> block_copy rd wr s edi esi 1; rep_movsb rd wr t (edi + 1) (esi + 1) n }"
    unfolding block_copy_1 by (simp split: bind_splits)
  also have "\<dots> = do { t \<leftarrow> block_copy rd wr s edi esi 1; block_copy rd wr t (edi + 1) (esi + 1) n }"
    using IH by (auto split: bind_splits)
  also have "\<dots> = block_copy rd wr s edi esi (1 + n)"
    using block_copy_add[OF ap] by simp
  finally show ?case by simp
qed

lemma rep_movsl_copy:
  "apart s edi esi (4 * n) \<Longrightarrow> rep_movsl rd wr s edi esi n = block_copy rd wr s edi esi (4 * n)"
proof (induction n arbitrary: s edi esi)
  case 0
  then show ?case by simp
next
  case (Suc n)
  have ap: "apart s edi esi (4 + 4 * n)" using Suc.prems by simp
  have IH: "rep_movsl rd wr t (edi + 4) (esi + 4) n = block_copy rd wr t (edi + 4) (esi + 4) (4 * n)"
    if "block_copy rd wr s edi esi 4 = Some t" for t
    using block_copy_apart[OF ap that] by (intro Suc.IH) simp
  have "rep_movsl rd wr s edi esi (Suc n) =
      do { t \<leftarrow> block_copy rd wr s edi esi 4; rep_movsl rd wr t (edi + 4) (esi + 4) n }"
    unfolding block_copy_def by (simp split: bind_splits)
  also have "\<dots> = do { t \<leftarrow> block_copy rd wr s edi esi 4;
      block_copy rd wr t (edi + 4) (esi + 4) (4 * n) }"
    using IH by (auto split: bind_splits)
  also have "\<dots> = block_copy rd wr s edi esi (4 + 4 * n)"
    using block_copy_add[OF ap] by simp
  finally show ?case by simp
qed

lemma memcpy_top_split:
  "\<exists>k\<le>n. \<forall>s esi. memcpy_top rd wr s edi esi n =
     do { s' \<leftarrow> rep_movsb rd wr s edi esi k;
          Some (s', edi + of_nat k, esi + of_nat k, n - k) }"
proof (induction n arbitrary: edi)
  case 0
  then show ?case by simp
next
  case (Suc n)
  show ?case
  proof (cases "edi AND 3 = 0")
    case True
    then show ?thesis by (intro exI[of _ 0]) simp
  next
    case False
    from Suc.IH[of "edi + 1"] obtain k where k: "k \<le> n"
      "\<forall>s esi. memcpy_top rd wr s (edi + 1) esi n =
         do { s' \<leftarrow> rep_movsb rd wr s (edi + 1) esi k;
              Some (s', edi + 1 + of_nat k, esi + of_nat k, n - k) }" by blast
    with False show ?thesis
      by (intro exI[of _ "Suc k"]) (auto simp: algebra_simps split: bind_splits)
  qed
qed

text \<open>The 4-byte loop followed by the byte epilogue.\<close>

lemma movsl_movsb_copy:
  assumes ap: "apart t d p m"
  shows "do { t2 \<leftarrow> rep_movsl rd wr t d p (m div 4);
        rep_movsb rd wr t2 (d + of_nat (4 * (m div 4))) (p + of_nat (4 * (m div 4))) (m mod 4) } =
      block_copy rd wr t d p m"
proof -
  let ?q = "4 * (m div 4)"
  have apq: "apart t d p (?q + m mod 4)" using ap by simp
  have "rep_movsb rd wr t2 (d + of_nat ?q) (p + of_nat ?q) (m mod 4) =
      block_copy rd wr t2 (d + of_nat ?q) (p + of_nat ?q) (m mod 4)"
    if "block_copy rd wr t d p ?q = Some t2" for t2
    by (rule rep_movsb_copy[OF block_copy_apart[OF apq that]])
  with rep_movsl_copy[OF apart_left[OF apq]] block_copy_add[OF apq] show ?thesis
    by (auto split: bind_splits)
qed

lemma memcpy_copy:
  assumes ap: "apart s dest src (unat n)"
  shows "memcpy rd wr s dest src n = block_copy rd wr s dest src (unat n)"
proof -
  obtain k where k: "k \<le> unat n"
    and top: "memcpy_top rd wr s dest src (unat n) =
       do { s' \<leftarrow> rep_movsb rd wr s dest src k;
            Some (s', dest + of_nat k, src + of_nat k, unat n - k) }"
    using memcpy_top_split[of "unat n" dest] by blast
  define m where "m = unat n - k"
  have n: "unat n = k + m" using k by (simp add: m_def)
  have apn: "apart s dest src (k + m)" using ap n by simp
  have tail: "(if m = 0 then Some t else do {
        t2 \<leftarrow> rep_movsl rd wr t (dest + of_nat k) (src + of_nat k) (m div 4);
        rep_movsb rd wr t2 (dest + of_nat k + of_nat (4 * (m div 4)))
          (src + of_nat k + of_nat (4 * (m div 4))) (m mod 4) }) =
      block_copy rd wr t (dest + of_nat k) (src + of_nat k) m"
    if "block_copy rd wr s dest src k = Some t" for t
    using movsl_movsb_copy[OF block_copy_apart[OF apn that]] by simp
  have "memcpy rd wr s dest src n =
      do { t \<leftarrow> block_copy rd wr s dest src k;
           block_copy rd wr t (dest + of_nat k) (src + of_nat k) m }"
    unfolding memcpy_def top rep_movsb_copy[OF apart_left[OF apn]] m_def[symmetric]
    using tail by (auto split: bind_splits)
  also have "\<dots> = block_copy rd wr s dest src (unat n)"
    using block_copy_add[OF apn] n by simp
  finally show ?thesis .
qed

end

text \<open>A byte memory is a copier on ranges that denote disjoint cells.\<close>

sublocale memory \<subseteq> copier rd wr "\<lambda>s d p n. cells tr s d n \<inter> cells tr s p n = {}"
proof unfold_locales
  fix s d p and m n :: nat
  assume "cells tr s d (m + n) \<inter> cells tr s p (m + n) = {}"
  then show "cells tr s d m \<inter> cells tr s p m = {}" by (auto simp: cells_add)
next
  fix s d p xs n s'
  assume ap: "cells tr s d (length xs + n) \<inter> cells tr s p (length xs + n) = {}"
    and st: "store_bytes wr s d xs = Some s'"
  from ap show "load_bytes rd s' (p + of_nat (length xs)) n = load_bytes rd s (p + of_nat (length xs)) n"
    by (intro store_load_other[OF st]) (auto simp: cells_add)
  have "cells tr s' = cells tr s" by (intro ext) (simp add: cells_def store_keeps_tr[OF st])
  with ap show "cells tr s' (d + of_nat (length xs)) n \<inter> cells tr s' (p + of_nat (length xs)) n = {}"
    by (auto simp: cells_add)
qed

text \<open>So is any memory together with a source outside it: a reader that ignores the memory.\<close>

lemma const_copier: "copier (\<lambda>_. r) wr (\<lambda>_ _ _ _. True)"
proof unfold_locales
  fix s s' d p xs n
  show "load_bytes (\<lambda>_. r) s' (p + of_nat (length xs)) n = load_bytes (\<lambda>_. r) s (p + of_nat (length xs)) n"
    by (rule load_bytes_cong) simp
qed simp_all

lemmas memcpy_from_outside = copier.memcpy_copy[OF const_copier, simplified]

lemma rep_stos_store:
  "rep_stos wr w eax s edi n =
     store_bytes wr s edi (concat (replicate n (map (byte_of eax) [0..<w])))"
  by (induction n arbitrary: s edi) (auto simp: store_bytes_append split: bind_splits)

lemma memset_top_split:
  "\<exists>k\<le>n. \<forall>s. memset_top wr eax s edi n =
     do { s' \<leftarrow> store_bytes wr s edi (replicate k (byte_of eax 0));
          Some (s', edi + of_nat k, n - k) }"
proof (induction n arbitrary: edi)
  case 0
  then show ?case by simp
next
  case (Suc n)
  show ?case
  proof (cases "edi AND 3 = 0")
    case True
    then show ?thesis by (intro exI[of _ 0]) simp
  next
    case False
    from Suc.IH[of "edi + 1"] obtain k where k: "k \<le> n"
      "\<forall>s. memset_top wr eax s (edi + 1) n =
         do { s' \<leftarrow> store_bytes wr s (edi + 1) (replicate k (byte_of eax 0));
              Some (s', edi + 1 + of_nat k, n - k) }" by blast
    with False show ?thesis
      by (intro exI[of _ "Suc k"]) (auto simp: algebra_simps split: bind_splits)
  qed
qed

lemma byte_of_spread:
  assumes "k < 4"
  shows "byte_of (push_bit 24 (c AND 0xFF) OR push_bit 16 (c AND 0xFF) OR
           push_bit 8 (c AND 0xFF) OR (c AND 0xFF)) k = ucast (c :: u32)"
proof -
  have m: "(0xFF :: u32) = mask 8" by (simp add: mask_eq_exp_minus_1)
  have "k = 0 \<or> k = 1 \<or> k = 2 \<or> k = 3" using assms by linarith
  then show ?thesis
    unfolding byte_of_def m
    by (elim disjE; intro bit_word_eqI) (auto simp: bit_simps)
qed

lemma concat_replicate_same: "concat (replicate n (replicate w b)) = replicate (n * w) b"
  by (induction n) (auto simp: replicate_add)

text \<open>\<open>memset\<close> fills the block with the low byte of its argument.\<close>

lemma memset_fill: "memset wr s p c n = store_bytes wr s p (replicate (unat n) (ucast c))"
proof -
  define eax where "eax = (push_bit 24 (c AND 0xFF) OR push_bit 16 (c AND 0xFF) OR
           push_bit 8 (c AND 0xFF) OR (c AND 0xFF) :: u32)"
  have bk: "byte_of eax j = ucast c" if "j < 4" for j
    unfolding eax_def using that by (rule byte_of_spread)
  obtain k where k: "k \<le> unat n" and top: "memset_top wr eax s p (unat n) =
     do { s' \<leftarrow> store_bytes wr s p (replicate k (byte_of eax 0));
          Some (s', p + of_nat k, unat n - k) }"
    using memset_top_split[of "unat n" wr eax p] by blast
  define m where "m = unat n - k"
  have b4: "map (byte_of eax) [0..<4] = replicate 4 (ucast c)"
    by (rule nth_equalityI) (auto simp: bk)
  have b1: "map (byte_of eax) [0..<1] = replicate 1 (ucast c)"
    by (simp add: bk)
  have split: "replicate m (ucast c :: u8) =
      replicate (m div 4 * 4) (ucast c) @ replicate (m mod 4 * 1) (ucast c)"
    using replicate_add[of "m div 4 * 4" "m mod 4 * 1" "ucast c :: u8"] by simp
  have fill: "do { s2 \<leftarrow> rep_stos wr 4 eax s1 a (m div 4);
        rep_stos wr 1 eax s2 (a + of_nat (4 * (m div 4))) (m mod 4) } =
      store_bytes wr s1 a (replicate m (ucast c))" for s1 a
    unfolding rep_stos_store b4 b1 concat_replicate_same split store_bytes_append
    by (simp add: mult.commute)
  have b0: "byte_of eax 0 = ucast c" by (simp add: bk)
  have n: "replicate (unat n) (ucast c :: u8) = replicate k (ucast c) @ replicate m (ucast c)"
    using k replicate_add[of k m "ucast c :: u8"] by (simp add: m_def)
  show ?thesis
    unfolding memset_def Let_def eax_def[symmetric] top n store_bytes_append b0 m_def[symmetric]
    using fill by (auto simp: m_def[symmetric] split: bind_splits)
qed

section \<open>Strings\<close>

text \<open>The C string \<open>xs\<close> stands at \<open>p\<close>: its bytes, none of them NUL, then a NUL.\<close>

definition cstring :: "('s \<Rightarrow> u32 \<Rightarrow> u8 option) \<Rightarrow> 's \<Rightarrow> u32 \<Rightarrow> u8 list \<Rightarrow> bool" where
  "cstring rd s p xs \<longleftrightarrow> 0 \<notin> set xs \<and> load_bytes rd s p (Suc (length xs)) = Some (xs @ [0])"

lemma cstring_nth:
  "cstring rd s p xs \<Longrightarrow> i < length xs \<Longrightarrow> rd s (p + of_nat i) = Some (xs ! i) \<and> xs ! i \<noteq> 0"
  unfolding cstring_def using load_bytes_nth[of rd s p "Suc (length xs)" "xs @ [0]" i]
  by (auto simp: nth_append dest: nth_mem)

lemma cstring_end: "cstring rd s p xs \<Longrightarrow> rd s (p + of_nat (length xs)) = Some 0"
  unfolding cstring_def using load_bytes_nth[of rd s p "Suc (length xs)" "xs @ [0]" "length xs"]
  by simp

lemma strlen_from_stop:
  "(\<And>i. i < n \<Longrightarrow> \<exists>b. rd s (p + len + of_nat i) = Some b \<and> b \<noteq> 0) \<Longrightarrow>
     rd s (p + len + of_nat n) = Some 0 \<Longrightarrow> strlen_from rd s p len = Some (len + of_nat n)"
proof (induction n arbitrary: len)
  case 0
  then show ?case by (subst strlen_from.simps) simp
next
  case (Suc n)
  have hd: "\<exists>b. rd s (p + len) = Some b \<and> b \<noteq> 0" using Suc.prems(1)[of 0] by simp
  have tl: "\<exists>b. rd s (p + (len + 1) + of_nat i) = Some b \<and> b \<noteq> 0" if "i < n" for i
    using Suc.prems(1)[of "Suc i"] that by (simp add: algebra_simps)
  have "strlen_from rd s p (len + 1) = Some (len + 1 + of_nat n)"
    using Suc.prems(2) tl by (intro Suc.IH) (simp_all add: algebra_simps)
  with hd show ?case by (subst strlen_from.simps) (auto simp: algebra_simps)
qed

lemma strlen_cstring: "cstring rd s p xs \<Longrightarrow> strlen rd s p = Some (of_nat (length xs))"
  unfolding strlen_def
  using strlen_from_stop[of "length xs" rd s p 0] cstring_nth[of rd s p xs] cstring_end[of rd s p xs]
  by auto

lemma strncpy_pad_store: "strncpy_pad wr s d k = store_bytes wr s d (replicate k 0)"
  by (induction k arbitrary: s d) simp_all

text \<open>
  The source of \<open>strncpy\<close> must keep its bytes while the destination is written; then the
  destination receives the string cut to \<open>n\<close> bytes and padded with zeros to \<open>n\<close> bytes.
\<close>

lemma strncpy_store:
  assumes str: "cstring rd s p xs"
    and stab: "\<And>bs s' j. store_bytes wr s d bs = Some s' \<Longrightarrow> length bs \<le> unat n \<Longrightarrow>
        j \<le> length xs \<Longrightarrow> rd s' (p + of_nat j) = rd s (p + of_nat j)"
  shows "strncpy rd wr s d p n =
     store_bytes wr s d (take (unat n) xs @ replicate (unat n - length xs) 0)"
proof -
  have copy: "i \<le> length xs \<Longrightarrow> i + k = unat n \<Longrightarrow> store_bytes wr s d (take i xs) = Some t \<Longrightarrow>
     do { (s', d', k') \<leftarrow> strncpy_copy rd wr t (d + of_nat i) (p + of_nat i) k;
          strncpy_pad wr s' d' k' } =
     store_bytes wr t (d + of_nat i)
       (take k (drop i xs) @ replicate (k - (length xs - i)) 0)" for i k t
  proof (induction k arbitrary: i t)
    case 0
    have "\<exists>b. rd s (p + of_nat i) = Some b"
      using cstring_nth[OF str] cstring_end[OF str] 0(1) by (cases "i = length xs") auto
    with 0 stab[OF 0(3), of i] show ?case by auto
  next
    case (Suc k)
    note r = stab[OF Suc.prems(3), of i]
    show ?case
    proof (cases "i = length xs")
      case True
      with r cstring_end[OF str] Suc.prems show ?thesis by (simp add: strncpy_pad_store)
    next
      case False
      with Suc.prems have i: "i < length xs" by simp
      with cstring_nth[OF str i] r Suc.prems have b: "rd t (p + of_nat i) = Some (xs ! i)" "xs ! i \<noteq> 0"
        by auto
      have dr: "drop i xs = xs ! i # drop (Suc i) xs" using i by (rule Cons_nth_drop_Suc[symmetric])
      have tk: "take (Suc i) xs = take i xs @ [xs ! i]" using i by (rule take_Suc_conv_app_nth)
      show ?thesis
      proof (cases "wr t (d + of_nat i) (xs ! i)")
        case None
        with b dr show ?thesis by simp
      next
        case (Some u)
        have "store_bytes wr s d (take (Suc i) xs) = Some u"
          unfolding tk store_bytes_append using Suc.prems i Some by simp
        from Suc.IH[OF _ _ this] Suc.prems i b Some dr show ?thesis
          by (simp add: algebra_simps)
      qed
    qed
  qed
  from copy[of 0 "unat n" s] show ?thesis by (simp add: strncpy_def)
qed

section \<open>In-place reversal\<close>

text \<open>The addresses of a range denote pairwise distinct cells.\<close>

definition inj_cells :: "('s \<Rightarrow> u32 \<Rightarrow> 'c option) \<Rightarrow> 's \<Rightarrow> u32 \<Rightarrow> nat \<Rightarrow> bool" where
  "inj_cells tr s p n \<longleftrightarrow>
     (\<forall>i<n. \<forall>j<n. i \<noteq> j \<longrightarrow> tr s (p + of_nat i) \<noteq> tr s (p + of_nat j))"

lemma inj_cells_cong: "tr s' = tr s \<Longrightarrow> inj_cells tr s' p n = inj_cells tr s p n"
  by (simp add: inj_cells_def)

lemma inj_cells_le: "inj_cells tr s p n \<Longrightarrow> m \<le> n \<Longrightarrow> inj_cells tr s p m"
  by (auto simp: inj_cells_def)

context memory
begin

lemma load_wr_in:
  assumes ld: "load_bytes rd s p n = Some xs" and inj: "inj_cells tr s p n" and i: "i < n"
  shows "\<exists>s'. wr s (p + of_nat i) b = Some s' \<and> load_bytes rd s' p n = Some (xs[i := b]) \<and>
     tr s' = tr s"
proof -
  from load_bytes_nth[OF ld i] obtain c where c: "tr s (p + of_nat i) = Some c"
    by (auto simp: rd_tr)
  then obtain s' where s': "wr s (p + of_nat i) b = Some s'" by (simp add: wr_tr)
  have t: "tr s' = tr s" using s' by (rule wr_keeps_tr)
  have "rd s' (p + of_nat j) = Some (xs[i := b] ! j)" if j: "j < n" for j
  proof (cases "j = i")
    case True
    with wr_cell[OF s' c] c t load_bytes_length[OF ld] i show ?thesis by (simp add: rd_tr)
  next
    case False
    with inj i j have "tr s (p + of_nat i) \<noteq> tr s (p + of_nat j)" by (auto simp: inj_cells_def)
    with wr_rd_other[OF s'] False load_bytes_nth[OF ld j] show ?thesis by simp
  qed
  with load_bytes_length[OF ld] have "load_bytes rd s' p n = Some (xs[i := b])"
    by (intro load_bytes_SomeI) auto
  with s' t show ?thesis by blast
qed

lemma strrev_loop_reverses:
  "load_bytes rd s p n = Some xs \<Longrightarrow> inj_cells tr s p n \<Longrightarrow> 0 \<le> bg \<Longrightarrow> en < int n \<Longrightarrow>
   \<exists>s' ys. strrev_loop rd wr s p bg en = Some s' \<and> tr s' = tr s \<and>
     load_bytes rd s' p n = Some ys \<and>
     (\<forall>i<n. ys ! i = (if bg \<le> int i \<and> int i \<le> en then xs ! nat (bg + en - int i) else xs ! i))"
proof (induction "nat (en - bg)" arbitrary: s xs bg en rule: less_induct)
  case less
  show ?case
  proof (cases "bg < en")
    case False
    then have "xs ! i = (if bg \<le> int i \<and> int i \<le> en then xs ! nat (bg + en - int i) else xs ! i)" for i
      by (cases "bg = en") auto
    with False less.prems show ?thesis by (subst strrev_loop.simps) simp
  next
    case True
    define i j where "i = nat bg" and "j = nat en"
    have ij: "i < j" "j < n" and pi: "p + of_int bg = p + of_nat i" "p + of_int en = p + of_nat j"
      using True less.prems by (auto simp: i_def j_def)
    have len: "length xs = n" using less.prems(1) by (rule load_bytes_length)
    from load_wr_in[OF less.prems(1,2) ij(2)] obtain s1 where
      s1: "wr s (p + of_nat j) (xs ! i) = Some s1" "load_bytes rd s1 p n = Some (xs[j := xs ! i])"
        "tr s1 = tr s" by blast
    have "inj_cells tr s1 p n" using less.prems(2) inj_cells_cong[OF s1(3)] by simp
    from load_wr_in[OF s1(2) this, of i "xs ! j"] ij obtain s2 where
      s2: "wr s1 (p + of_nat i) (xs ! j) = Some s2"
        "load_bytes rd s2 p n = Some (xs[j := xs ! i, i := xs ! j])" "tr s2 = tr s1" by auto
    have inj2: "inj_cells tr s2 p n" using less.prems(2) inj_cells_cong[of tr s2 s] s1(3) s2(3) by simp
    from less.hyps[of "en - 1" "bg + 1" s2 "xs[j := xs ! i, i := xs ! j]"] True less.prems s2(2) inj2
    obtain s' ys where r: "strrev_loop rd wr s2 p (bg + 1) (en - 1) = Some s'" "tr s' = tr s2"
      "load_bytes rd s' p n = Some ys"
      "\<forall>k<n. ys ! k = (if bg + 1 \<le> int k \<and> int k \<le> en - 1
          then xs[j := xs ! i, i := xs ! j] ! nat (bg + en - int k)
          else xs[j := xs ! i, i := xs ! j] ! k)" by auto
    have be: "bg = int i" "en = int j" using True less.prems(3) by (auto simp: i_def j_def)
    have "ys ! k = (if bg \<le> int k \<and> int k \<le> en then xs ! nat (bg + en - int k) else xs ! k)"
      if k: "k < n" for k
    proof -
      have sw: "xs[j := xs ! i, i := xs ! j] ! m =
          (if m = i then xs ! j else if m = j then xs ! i else xs ! m)" if "m < n" for m
        using that ij len by (auto simp: nth_list_update)
      have yk: "ys ! k = (if i < k \<and> k < j
          then xs[j := xs ! i, i := xs ! j] ! (i + j - k) else xs[j := xs ! i, i := xs ! j] ! k)"
        using r(4) k by (simp add: be nat_diff_distrib' nat_int_add flip: of_nat_add of_nat_diff)
      have nk: "nat (bg + en - int k) = i + j - k" by (simp add: be nat_diff_distrib' nat_int_add)
      consider "k = i" | "k = j" | "i < k" "k < j" | "k < i \<or> j < k" by linarith
      then show ?thesis
        unfolding yk nk using k ij sw[of k] sw[of "i + j - k"] by cases (auto simp: be)
    qed
    moreover have "strrev_loop rd wr s p bg en = Some s'"
      using True pi s1(1) s2(1) r(1) load_bytes_nth[OF less.prems(1)] ij
      by (subst strrev_loop.simps) simp
    ultimately show ?thesis using r s1(3) s2(3) by auto
  qed
qed

lemma strrev_cstring:
  assumes str: "cstring rd s p xs" and inj: "inj_cells tr s p (Suc (length xs))"
    and len: "length xs < 2 ^ 31"
  shows "\<exists>s'. strrev rd wr s p = Some s' \<and> cstring rd s' p (rev xs) \<and> tr s' = tr s"
proof -
  let ?n = "Suc (length xs)"
  have ld: "load_bytes rd s p ?n = Some (xs @ [0])" and nz: "0 \<notin> set xs"
    using str by (auto simp: cstring_def)
  have "of_nat (length xs) - 1 = (of_int (int (length xs) - 1) :: u32)" by simp
  then have e: "sint (of_nat (length xs) - 1 :: u32) = int (length xs) - 1"
    using len by (simp only: sint_sbintrunc') (simp add: signed_take_bit_int_eq_self)
  obtain s' ys where r: "strrev_loop rd wr s p 0 (int (length xs) - 1) = Some s'" "tr s' = tr s"
    "load_bytes rd s' p ?n = Some ys"
    "\<forall>i<?n. ys ! i = (if 0 \<le> int i \<and> int i \<le> int (length xs) - 1
        then (xs @ [0]) ! nat (0 + (int (length xs) - 1) - int i) else (xs @ [0]) ! i)"
    using strrev_loop_reverses[OF ld inj, of 0 "int (length xs) - 1"] by auto
  have "ys = rev xs @ [0]"
  proof (rule nth_equalityI)
    show "length ys = length (rev xs @ [0])" using load_bytes_length[OF r(3)] by simp
    fix i assume i: "i < length ys"
    then have "i < ?n" using load_bytes_length[OF r(3)] by simp
    then show "ys ! i = (rev xs @ [0]) ! i"
      using r(4) by (cases "i < length xs")
        (auto simp: nth_append rev_nth nat_diff_distrib' of_nat_diff intro!: arg_cong[where f="(!) xs"])
  qed
  with r nz have "cstring rd s' p (rev xs)" by (simp add: cstring_def)
  with r strlen_cstring[OF str] e show ?thesis by (simp add: strrev_def)
qed

end

section \<open>Number conversion\<close>

text \<open>The digits of a number, most significant first, and the number they denote.\<close>

fun digits :: "nat \<Rightarrow> nat \<Rightarrow> nat list" where
  "digits r v = (if r < 2 \<or> v < r then [v] else digits r (v div r) @ [v mod r])"

declare digits.simps [simp del]

definition radix_value :: "nat \<Rightarrow> nat list \<Rightarrow> nat" where
  "radix_value r ds = foldl (\<lambda>a d. a * r + d) 0 ds"

lemma radix_value_digits: "2 \<le> r \<Longrightarrow> radix_value r (digits r v) = v"
proof (induction r v rule: digits.induct)
  case (1 r v)
  then show ?case
    by (cases "v < r") (auto simp: digits.simps[of r v] radix_value_def)
qed

lemma digits_less: "2 \<le> r \<Longrightarrow> d \<in> set (digits r v) \<Longrightarrow> d < r"
proof (induction r v rule: digits.induct)
  case (1 r v)
  then show ?case by (cases "v < r") (auto simp: digits.simps[of r v])
qed

lemma digits_length: "2 \<le> r \<Longrightarrow> v < 2 ^ n \<Longrightarrow> 0 < n \<Longrightarrow> length (digits r v) \<le> n"
proof (induction n arbitrary: v)
  case 0
  then show ?case by simp
next
  case (Suc n)
  show ?case
  proof (cases "v < r")
    case True
    then show ?thesis by (simp add: digits.simps[of r v])
  next
    case False
    have "v div r \<le> v div 2" using Suc.prems by (intro div_le_mono2) auto
    also have "\<dots> < 2 ^ n" using Suc.prems by (simp add: less_mult_imp_div_less)
    finally have lt: "v div r < 2 ^ n" .
    have n: "0 < n"
    proof (rule ccontr)
      assume "\<not> 0 < n"
      with Suc.prems False show False by simp
    qed
    from Suc.IH[OF Suc.prems(1) lt n] False Suc.prems(1) show ?thesis
      by (simp add: digits.simps[of r v])
  qed
qed

definition digit_char :: "nat \<Rightarrow> u8" where
  "digit_char d = itoa_lookup ! d"

lemma itoa_lookup_length [simp]: "length itoa_lookup = 37"
  by (simp add: itoa_lookup_def)

lemma digit_char_nonzero: "d < 36 \<Longrightarrow> digit_char d \<noteq> 0"
proof -
  have "list_all (\<lambda>d. digit_char d \<noteq> 0) [0..<36]" by code_simp
  then show "d < 36 \<Longrightarrow> digit_char d \<noteq> 0" by (simp add: list_all_iff)
qed

lemma digit_char_inj: "d < 36 \<Longrightarrow> e < 36 \<Longrightarrow> digit_char d = digit_char e \<Longrightarrow> d = e"
proof -
  have "distinct (map digit_char [0..<36])" by code_simp
  then show "d < 36 \<Longrightarrow> e < 36 \<Longrightarrow> digit_char d = digit_char e \<Longrightarrow> d = e"
    by (auto simp: distinct_map inj_on_def)
qed

text \<open>The digit loop emits the digits least significant first.\<close>

lemma itoa_loop_digits:
  assumes r: "2 \<le> unat radix" "unat radix \<le> 36"
  shows "0 < unat v \<Longrightarrow> itoa_loop wr s v buf radix =
     do { s' \<leftarrow> store_bytes wr s buf (map digit_char (rev (digits (unat radix) (unat v))));
          Some (s', buf + of_nat (length (digits (unat radix) (unat v)))) }"
proof (induction "unat v" arbitrary: v s buf rule: less_induct)
  case less
  let ?r = "unat radix" and ?v = "unat v"
  have nz: "radix \<noteq> 0" "v > 0" using r less.prems by (auto simp: word_less_nat_alt)
  have ix: "unat (v mod radix) = ?v mod ?r" "unat (v div radix) = ?v div ?r"
    by (simp_all add: unat_mod unat_div)
  have lt: "?v mod ?r < 37" using r by (intro less_le_trans[OF mod_less_divisor]) auto
  have step: "itoa_loop wr s v buf radix =
      do { s' \<leftarrow> wr s buf (digit_char (?v mod ?r));
           itoa_loop wr s' (v div radix) (buf + 1) radix }"
    using nz lt by (subst itoa_loop.simps) (simp add: ix digit_char_def)
  show ?case
  proof (cases "?v < ?r")
    case True
    then have "v div radix = 0" using ix by (simp add: unat_eq_zero)
    then have "itoa_loop wr s' (v div radix) (buf + 1) radix = Some (s', buf + 1)" for s'
      by (subst itoa_loop.simps) simp
    with step True show ?thesis by (simp add: digits.simps[of ?r ?v] split: bind_splits)
  next
    case False
    have "?v div ?r < ?v" using False r by (intro div_less_dividend) auto
    moreover have "0 < ?v div ?r" using False r by (simp add: div_greater_zero_iff)
    ultimately have IH: "itoa_loop wr s' (v div radix) (buf + 1) radix =
        do { t \<leftarrow> store_bytes wr s' (buf + 1) (map digit_char (rev (digits ?r (?v div ?r))));
             Some (t, buf + 1 + of_nat (length (digits ?r (?v div ?r)))) }" for s'
      using less.hyps[of "v div radix" s' "buf + 1"] by (simp add: ix)
    have d: "digits ?r ?v = digits ?r (?v div ?r) @ [?v mod ?r]"
      using False r by (simp add: digits.simps[of ?r ?v])
    show ?thesis unfolding step IH d by (simp add: algebra_simps split: bind_splits)
  qed
qed

context memory
begin

lemma itoa_cstring:
  assumes r: "2 \<le> unat radix" "unat radix \<le> 36"
    and mapped: "\<forall>i<34. tr s (buf + of_nat i) \<noteq> None" and inj: "inj_cells tr s buf 34"
  shows "\<exists>s'. itoa rd wr s v buf radix = Some s' \<and>
     cstring rd s' buf (map digit_char (digits (unat radix) (unat v)))"
proof -
  define ds where "ds = digits (unat radix) (unat v)"
  define cs where "cs = map digit_char (rev ds)"
  have "unat v < 2 ^ 32" using unsigned_less[of v] by simp
  then have len: "length ds \<le> 32" unfolding ds_def using r by (intro digits_length) auto
  have dz: "digit_char d \<noteq> 0" if "d \<in> set ds" for d
    using digits_less[OF r(1)] that r(2) unfolding ds_def
    by (intro digit_char_nonzero) (meson less_le_trans)
  have nz: "0 \<notin> set cs"
  proof
    assume "0 \<in> set cs"
    then obtain d where "d \<in> set ds" "0 = digit_char d" unfolding cs_def by auto
    with dz[of d] show False by simp
  qed
  have "\<forall>i<length (cs @ [0]). tr s (buf + of_nat i) \<noteq> None" using mapped len by (auto simp: cs_def)
  then obtain t where t: "store_bytes wr s buf (cs @ [0]) = Some t" using store_Some_iff by blast
  have injn: "inj_cells tr s buf (Suc (length cs))"
    using inj len by (auto simp: cs_def elim: inj_cells_le)
  then have "load_bytes rd t buf (length (cs @ [0])) = Some (cs @ [0])"
    by (intro store_load_same[OF t]) (auto simp: inj_cells_def)
  with nz have str: "cstring rd t buf cs" by (simp add: cstring_def)
  show ?thesis
  proof (cases "v = 0")
    case True
    then have "ds = [0]" using r by (simp add: ds_def digits.simps)
    moreover have "digit_char 0 = 48" by code_simp
    ultimately have cs: "cs = [48]" by (simp add: cs_def)
    from t cs have "itoa rd wr s v buf radix = Some t" by (simp add: itoa_def True)
    with str cs \<open>ds = [0]\<close> \<open>digit_char 0 = 48\<close> show ?thesis by (auto simp: ds_def[symmetric])
  next
    case False
    then have "0 < unat v" by (simp add: unat_gt_0)
    note loop = itoa_loop_digits[OF r this, folded ds_def, folded cs_def]
    have "length cs < 2 ^ 31" using len by (simp add: cs_def)
    with strrev_cstring[OF str] injn inj_cells_cong[OF store_keeps_tr[OF t]] obtain u where
      u: "strrev rd wr t buf = Some u" "cstring rd u buf (rev cs)" by auto
    have "itoa rd wr s v buf radix = Some u"
      using t u(1) False unfolding store_bytes_append
      by (auto simp: itoa_def loop cs_def bind_Some_iff)
    with u(2) show ?thesis by (auto simp: cs_def ds_def[symmetric] rev_map)
  qed
qed

end

end
