(* ===== verification/Machine.thy ===== *)
theory Machine
  imports Libc
begin

text \<open>
  The part of the x86 machine the kernel drives: physical memory, the paging structures declared
  in \<open>paging.h\<close>, the stack registers, the interrupt flag, \<open>tss.esp0\<close> and the I/O ports.

  Linear addresses are translated exactly as the processor does with 4MB pages enabled: the page
  directory entry selects a 4MB frame or a page table, a clear present bit is a page fault
  (\<^term>\<open>None\<close>).  \<open>addr_pte\<close> and \<open>addr_pte_vid\<close> are the link-time addresses of the arrays
  \<open>pte\<close> and \<open>pte_vid\<close>.  \<open>tlb_stale\<close> records that an entry was written after the last load of
  CR3.  What \<open>inb\<close> returns is decided by the devices: \<open>port_in\<close> is that value per port, and
  \<open>port_out\<close> is the sequence of bytes sent so far.
\<close>

record machine =
  phys :: "u32 \<Rightarrow> u8"
  pdt :: "nat \<Rightarrow> u32"
  pte :: "nat \<Rightarrow> u32"
  pte_vid :: "nat \<Rightarrow> u32"
  addr_pte :: u32
  addr_pte_vid :: u32
  paging_on :: bool
  tlb_stale :: bool
  esp :: u32
  ebp :: u32
  tss_esp0 :: u32
  iflag :: bool
  port_in :: "u16 \<Rightarrow> u8"
  port_out :: "(u16 \<times> u8) list"

section \<open>Address translation\<close>

abbreviation entry_present :: "u32 \<Rightarrow> bool" where
  "entry_present e \<equiv> bit e 0"

abbreviation entry_user :: "u32 \<Rightarrow> bool" where
  "entry_user e \<equiv> bit e 2"

abbreviation entry_large :: "u32 \<Rightarrow> bool" where
  "entry_large e \<equiv> bit e 7"

definition pd_index :: "u32 \<Rightarrow> nat" where
  "pd_index a = unat a div 0x400000"

definition pt_index :: "u32 \<Rightarrow> nat" where
  "pt_index a = unat a div 0x1000 mod 1024"

definition page_table :: "('z machine_scheme) \<Rightarrow> u32 \<Rightarrow> (nat \<Rightarrow> u32) option" where
  "page_table s e =
     (let base = e AND 0xFFFFF000 in
      if base = addr_pte s then Some (pte s)
      else if base = addr_pte_vid s then Some (pte_vid s)
      else None)"

definition translate :: "('z machine_scheme) \<Rightarrow> u32 \<Rightarrow> u32 option" where
  "translate s a =
     (if \<not> paging_on s then Some a
      else let e = pdt s (pd_index a) in
        if \<not> entry_present e then None
        else if entry_large e then Some ((e AND 0xFFC00000) OR (a AND 0x003FFFFF))
        else do {
          t \<leftarrow> page_table s e;
          let p = t (pt_index a);
          if entry_present p then Some ((p AND 0xFFFFF000) OR (a AND 0xFFF)) else None })"

text \<open>
  The addresses user mode may touch: both levels must carry the user bit.
\<close>

definition user_ok :: "('z machine_scheme) \<Rightarrow> u32 \<Rightarrow> bool" where
  "user_ok s a =
     (let e = pdt s (pd_index a) in
      entry_present e \<and> entry_user e \<and>
      (entry_large e \<or>
        (case page_table s e of None \<Rightarrow> False
         | Some t \<Rightarrow> entry_present (t (pt_index a)) \<and> entry_user (t (pt_index a)))))"

section \<open>Memory access\<close>

definition vread :: "('z machine_scheme) \<Rightarrow> u32 \<Rightarrow> u8 option" where
  "vread s a = map_option (phys s) (translate s a)"

definition vwrite :: "('z machine_scheme) \<Rightarrow> u32 \<Rightarrow> u8 \<Rightarrow> ('z machine_scheme) option" where
  "vwrite s a b = map_option (\<lambda>p. s\<lparr>phys := (phys s)(p := b)\<rparr>) (translate s a)"

lemma translate_phys [simp, frame_simps]: "translate (s\<lparr>phys := p\<rparr>) = translate s"
  by (rule ext) (simp add: translate_def page_table_def Let_def)

text \<open>Translation reads the paging structures only.\<close>

lemma translate_cong:
  assumes "paging_on s = paging_on t" "pdt s = pdt t" "pte s = pte t" "pte_vid s = pte_vid t"
    and "addr_pte s = addr_pte t" "addr_pte_vid s = addr_pte_vid t"
  shows "translate s = translate t"
  by (rule ext) (simp add: translate_def page_table_def Let_def assms)

text \<open>Linear memory is a byte memory whose cells are physical addresses.\<close>

interpretation vm: memory translate phys "\<lambda>s c b. s\<lparr>phys := (phys s)(c := b)\<rparr>" vread vwrite
  by unfold_locales (auto simp: vread_def vwrite_def)

lemma vwrite_frame: "vwrite s a b = Some s' \<Longrightarrow> s' = s\<lparr>phys := phys s'\<rparr>"
  by (auto simp: vwrite_def)

lemma store_frame: "store_bytes vwrite s a bs = Some s' \<Longrightarrow> s' = s\<lparr>phys := phys s'\<rparr>"
proof (induction bs arbitrary: s a)
  case Nil
  then show ?case by simp
next
  case (Cons b bs)
  then obtain t where t: "vwrite s a b = Some t" "store_bytes vwrite t (a + 1) bs = Some s'"
    by (auto simp: bind_Some_iff)
  obtain p q where "t = s\<lparr>phys := p\<rparr>" "s' = t\<lparr>phys := q\<rparr>"
    using vwrite_frame[OF t(1)] Cons.IH[OF t(2)] by blast
  then show ?case by simp
qed

section \<open>Registers and ports\<close>

definition cli :: "('z machine_scheme) \<Rightarrow> 'z machine_scheme" where
  "cli s = s\<lparr>iflag := False\<rparr>"

definition sti :: "('z machine_scheme) \<Rightarrow> 'z machine_scheme" where
  "sti s = s\<lparr>iflag := True\<rparr>"

text \<open>\<open>inb\<close> returns the byte the device presents at the port, zero extended.\<close>

definition inb :: "('z machine_scheme) \<Rightarrow> u16 \<Rightarrow> u32" where
  "inb s port = ucast (port_in s port)"

text \<open>\<open>outb\<close> sends the low byte of its data to the port.\<close>

definition outb :: "u32 \<Rightarrow> u16 \<Rightarrow> ('z machine_scheme) \<Rightarrow> 'z machine_scheme" where
  "outb data port s = s\<lparr>port_out := port_out s @ [(port, ucast data)]\<rparr>"

text \<open>Loading CR3 with \<open>pdt\<close> drops every cached translation.\<close>

definition load_cr3 :: "('z machine_scheme) \<Rightarrow> 'z machine_scheme" where
  "load_cr3 s = s\<lparr>tlb_stale := False\<rparr>"

lemma outb_log [simp]: "port_out (outb d p s) = port_out s @ [(p, ucast d)]"
  by (simp add: outb_def)

end
