(* ===== verification/Paging.thy ===== *)
theory Paging
  imports Machine
begin

text \<open>
  \<open>paging.c\<close>: the boot-time page tables and the four operations that change them afterwards.
  The invariant \<open>paging_wf\<close> fixes every entry of the tables up to the few the kernel switches
  (the program page, the user video page and the page behind \<open>0xB8000\<close>); from it follow the
  translations the rest of the kernel relies on and the isolation of user programs.
\<close>

unbundle bit_operations_syntax

section \<open>Operations\<close>

definition PAGE_MB :: u32 where "PAGE_MB = 0x82"
definition PAGE_KB :: u32 where "PAGE_KB = 0x2"
definition EXEC :: nat where "EXEC = 32"
definition VID :: nat where "VID = 64"
definition FOURMB :: u32 where "FOURMB = 0x400000"
definition FOURKB :: u32 where "FOURKB = 0x1000"
definition START_ADDRESS :: u32 where "START_ADDRESS = 0x00800087"
definition VIDEO_MEMORY :: nat where "VIDEO_MEMORY = 184"
definition VIDEO_OFFSET :: u32 where "VIDEO_OFFSET = 0xb8000"

lemmas paging_consts = PAGE_MB_def PAGE_KB_def EXEC_def VID_def FOURMB_def FOURKB_def
  START_ADDRESS_def VIDEO_MEMORY_def VIDEO_OFFSET_def

text \<open>An assignment to a page table entry leaves a stale TLB until CR3 is loaded again.\<close>

definition set_pdt :: "nat \<Rightarrow> u32 \<Rightarrow> 'z machine_scheme \<Rightarrow> 'z machine_scheme" where
  "set_pdt i e s = s\<lparr>pdt := (pdt s)(i := e), tlb_stale := True\<rparr>"

definition set_pte :: "nat \<Rightarrow> u32 \<Rightarrow> 'z machine_scheme \<Rightarrow> 'z machine_scheme" where
  "set_pte i e s = s\<lparr>pte := (pte s)(i := e), tlb_stale := True\<rparr>"

definition set_pte_vid :: "nat \<Rightarrow> u32 \<Rightarrow> 'z machine_scheme \<Rightarrow> 'z machine_scheme" where
  "set_pte_vid i e s = s\<lparr>pte_vid := (pte_vid s)(i := e), tlb_stale := True\<rparr>"

fun init_tables :: "nat \<Rightarrow> 'z machine_scheme \<Rightarrow> 'z machine_scheme" where
  "init_tables 0 s = s"
| "init_tables (Suc i) s =
     set_pte i (PAGE_KB + FOURKB * of_nat i) (set_pdt i (PAGE_MB + FOURMB * of_nat i) (init_tables i s))"

definition init_paging :: "'z machine_scheme \<Rightarrow> 'z machine_scheme" where
  "init_paging s0 =
     (let s = init_tables 1024 s0;
          s = set_pdt 0 (addr_pte s OR 1) s;
          s = set_pdt 1 (pdt s 1 OR 1) s;
          s = set_pdt EXEC START_ADDRESS s;
          s = set_pdt VID (addr_pte_vid s) s;
          s = set_pte (VIDEO_MEMORY + 1) (pte s (VIDEO_MEMORY + 1) OR 1) s;
          s = set_pte (VIDEO_MEMORY + 2) (pte s (VIDEO_MEMORY + 2) OR 1) s;
          s = set_pte (VIDEO_MEMORY + 3) (pte s (VIDEO_MEMORY + 3) OR 1) s;
          s = set_pte (VIDEO_MEMORY + 4) (pte s (VIDEO_MEMORY + 4) - 0x4000) s;
          s = set_pte (VIDEO_MEMORY + 4) (pte s (VIDEO_MEMORY + 4) OR 1) s;
          s = set_pte VIDEO_MEMORY (pte s VIDEO_MEMORY OR 1) s
      in (load_cr3 s)\<lparr>paging_on := True\<rparr>)"

definition map_page_exec :: "u32 \<Rightarrow> 'z machine_scheme \<Rightarrow> 'z machine_scheme" where
  "map_page_exec idx s = load_cr3 (set_pdt EXEC (START_ADDRESS + FOURMB * idx) s)"

definition map_vid :: "u32 \<Rightarrow> 'z machine_scheme \<Rightarrow> (u32 \<times> 'z machine_scheme) option" where
  "map_vid screen_start s0 =
     (let s = set_pdt VID (addr_pte_vid s0 OR 7) s0;
          s = set_pte_vid 0 ((PAGE_KB + VIDEO_OFFSET) OR 5) s
      in do { s' \<leftarrow> store32 vwrite s screen_start (FOURMB * of_nat VID); Some (1, load_cr3 s') })"

definition clear_vid :: "'z machine_scheme \<Rightarrow> u32 \<times> 'z machine_scheme" where
  "clear_vid s = (1, load_cr3 (set_pte_vid 0 0 s))"

definition map_screen_buffer :: "u32 \<Rightarrow> 'z machine_scheme \<Rightarrow> u32 \<times> 'z machine_scheme" where
  "map_screen_buffer idx s =
     (if idx < 0 \<or> idx > 3 then (0, s)
      else (1, load_cr3 (set_pte VIDEO_MEMORY ((VIDEO_OFFSET + FOURKB * idx) OR 3) s)))"

lemmas paging_defs = set_pdt_def set_pte_def set_pte_vid_def map_page_exec_def map_vid_def
  clear_vid_def map_screen_buffer_def load_cr3_def

section \<open>The shape of the tables\<close>

definition video_entry :: "u32 \<Rightarrow> u32 \<Rightarrow> u32" where
  "video_entry k flags = (VIDEO_OFFSET + FOURKB * k) OR flags"

definition paging_wf :: "'z machine_scheme \<Rightarrow> bool" where
  "paging_wf s \<longleftrightarrow>
     paging_on s \<and>
     addr_pte s AND 0xFFF = 0 \<and> addr_pte_vid s AND 0xFFF = 0 \<and> addr_pte s \<noteq> addr_pte_vid s \<and>
     pdt s 0 = addr_pte s OR 1 \<and> pdt s 1 = 0x00400083 \<and>
     (\<exists>idx. pdt s EXEC = START_ADDRESS + FOURMB * idx) \<and>
     (pdt s VID = addr_pte_vid s \<or> pdt s VID = addr_pte_vid s OR 7) \<and>
     (\<forall>i<1024. i \<notin> {0, 1, EXEC, VID} \<longrightarrow> \<not> entry_present (pdt s i)) \<and>
     (\<exists>k\<le>3. pte s VIDEO_MEMORY = video_entry k 3) \<and>
     pte s 185 = video_entry 1 3 \<and> pte s 186 = video_entry 2 3 \<and> pte s 187 = video_entry 3 3 \<and>
     pte s 188 = video_entry 0 3 \<and>
     (\<forall>i<1024. i \<notin> {184, 185, 186, 187, 188} \<longrightarrow> \<not> entry_present (pte s i)) \<and>
     (pte_vid s 0 = 0 \<or> (\<exists>k\<le>3. pte_vid s 0 = video_entry k 7)) \<and>
     (\<forall>i<1024. i \<noteq> 0 \<longrightarrow> pte_vid s i = 0)"

section \<open>Page arithmetic\<close>

lemma low_mask: "(0x003FFFFF :: u32) = mask 22" "(0xFFF :: u32) = mask 12"
    "(0xFFC00000 :: u32) = NOT (mask 22)" "(0xFFFFF000 :: u32) = NOT (mask 12)"
  by (simp_all add: mask_eq_exp_minus_1)

lemma and_not_mask: "(a :: u32) AND NOT (mask n) = a - take_bit n a"
proof -
  have "a - take_bit n a = a AND NOT (take_bit n a)"
    by (rule disjunctive_diff) (simp add: bit_simps)
  also have "\<dots> = a AND NOT (mask n)"
    by (rule bit_word_eqI) (auto simp: bit_simps)
  finally show ?thesis by simp
qed

lemma frame_join:
  assumes "take_bit n f = 0"
  shows "f OR ((a :: u32) AND mask n) = f + (a - (a AND NOT (mask n)))"
proof -
  have "f OR (a AND mask n) = f + (a AND mask n)"
    by (rule disjunctive_add [symmetric])
      (use assms in \<open>auto simp: bit_simps bit_eq_iff\<close>)
  then show ?thesis by (simp add: and_not_mask take_bit_eq_mask)
qed

lemma page_base: "unat (a :: u32) div 2 ^ n = k \<Longrightarrow> a AND NOT (mask n) = of_nat (2 ^ n * k)"
proof -
  assume k: "unat a div 2 ^ n = k"
  have le: "unat (take_bit n a) \<le> unat a" and t: "unat (take_bit n a) = unat a mod 2 ^ n"
    by (simp_all only: unsigned_take_bit_eq take_bit_eq_mod[where ?'a = nat]) simp
  have "unat (a AND NOT (mask n)) = unat a - unat a mod 2 ^ n"
    unfolding and_not_mask using le t by (subst unat_sub) (simp_all add: word_le_nat_alt)
  also have "\<dots> = 2 ^ n * k" using k minus_mod_eq_mult_div[of "unat a" "2 ^ n"] by simp
  finally have "of_nat (unat (a AND NOT (mask n))) = (of_nat (2 ^ n * k) :: u32)" by simp
  then show ?thesis by simp
qed

lemma page_base12: "unat (a :: u32) div 0x1000 = k \<Longrightarrow> a AND NOT (mask 12) = of_nat (0x1000 * k)"
  using page_base[of a 12 k] by simp

lemma page_base22: "unat (a :: u32) div 0x400000 = k \<Longrightarrow> a AND NOT (mask 22) = of_nat (0x400000 * k)"
  using page_base[of a 22 k] by simp

lemma aligned_bit: "(x :: u32) AND 0xFFF = 0 \<Longrightarrow> i < 12 \<Longrightarrow> \<not> bit x i"
proof -
  assume "x AND 0xFFF = 0" and "i < 12"
  then have "\<not> bit (x AND mask 12) i" by (simp add: low_mask)
  with \<open>i < 12\<close> show ?thesis by (simp add: bit_simps)
qed

lemma aligned_or:
  assumes "(x :: u32) AND 0xFFF = 0" and "take_bit 12 f = f"
  shows "(x OR f) AND 0xFFFFF000 = x"
  unfolding low_mask
proof (rule bit_word_eqI)
  fix i assume "i < LENGTH(32)"
  have "bit f i \<Longrightarrow> i < 12" using assms(2) by (metis bit_take_bit_iff)
  with aligned_bit[OF assms(1)] \<open>i < LENGTH(32)\<close>
  show "bit ((x OR f) AND NOT (mask 12)) i = bit x i" by (auto simp: bit_simps)
qed

lemma take_bit22_add: "take_bit 22 (a + b :: u32) = take_bit 22 (take_bit 22 a + take_bit 22 b)"
  by transfer (simp add: take_bit_add)

lemma exec_entry:
  "(START_ADDRESS + FOURMB * idx) AND 0xFFC00000 = 0x800000 + FOURMB * idx"
  "entry_present (START_ADDRESS + FOURMB * idx)"
  "entry_user (START_ADDRESS + FOURMB * idx)"
  "entry_large (START_ADDRESS + FOURMB * idx)"
  "take_bit 22 (0x800000 + FOURMB * idx) = 0"
proof -
  have m: "FOURMB * idx = push_bit 22 idx" by (simp add: FOURMB_def push_bit_eq_mult)
  have t: "take_bit 22 (START_ADDRESS + FOURMB * idx) = 0x87"
    unfolding m START_ADDRESS_def using take_bit22_add[of "0x800087" "push_bit 22 idx"]
    by (simp add: take_bit_push_bit)
  have b: "bit (START_ADDRESS + FOURMB * idx) i = bit (0x87 :: u32) i" if "i < 22" for i
    using that by (simp add: bit_take_bit_iff flip: t)
  show "entry_present (START_ADDRESS + FOURMB * idx)" "entry_user (START_ADDRESS + FOURMB * idx)"
    "entry_large (START_ADDRESS + FOURMB * idx)" by (simp_all add: b)
  show "(START_ADDRESS + FOURMB * idx) AND 0xFFC00000 = 0x800000 + FOURMB * idx"
    unfolding low_mask and_not_mask t by (simp add: START_ADDRESS_def)
  show "take_bit 22 (0x800000 + FOURMB * idx) = 0"
    unfolding m using take_bit22_add[of "0x800000" "push_bit 22 idx"]
    by (simp add: take_bit_push_bit)
qed

lemma le3_cases: "(k :: u32) \<le> 3 \<Longrightarrow> k = 0 \<or> k = 1 \<or> k = 2 \<or> k = 3"
proof -
  assume "k \<le> 3"
  then have "unat k \<le> 3" by (simp add: word_le_nat_alt)
  then have "unat k \<in> {0, 1, 2, 3}" by auto
  then have "of_nat (unat k) \<in> (of_nat ` {0, 1, 2, 3} :: u32 set)" by (rule imageI)
  then show ?thesis by simp
qed

lemma lt3_cases: "(k :: u32) < 3 \<Longrightarrow> k = 0 \<or> k = 1 \<or> k = 2"
  using le3_cases[of k] by (auto simp: less_le)

lemma video_entry_bits:
  assumes "k \<le> 3" and "flags = 3 \<or> flags = 7"
  shows "video_entry k flags AND 0xFFFFF000 = 0xB8000 + 0x1000 * k"
    "entry_present (video_entry k flags)" "\<not> entry_large (video_entry k flags)"
    "entry_user (video_entry k flags) = (flags = 7)" "take_bit 12 (0xB8000 + 0x1000 * k) = 0"
  using le3_cases[OF assms(1)] assms(2) by (auto simp: video_entry_def paging_consts)

section \<open>Translations under the kernel's tables\<close>

lemma translate_large:
  assumes "paging_on s" and "unat a div 0x400000 = i" and "pdt s i = e"
    and "entry_present e" and "entry_large e" and "e AND 0xFFC00000 = f" and "take_bit 22 f = 0"
  shows "translate s a = Some (f + (a - of_nat (0x400000 * i)))"
  using assms page_base22[OF assms(2)]
  by (simp add: translate_def pd_index_def Let_def low_mask frame_join)

lemma translate_small:
  assumes "paging_on s" and "unat a div 0x400000 = i" and "pdt s i = e"
    and "entry_present e" and "\<not> entry_large e" and "page_table s e = Some t"
    and "unat a div 0x1000 = j" and "entry_present (t (j mod 1024))"
    and "t (j mod 1024) AND 0xFFFFF000 = f" and "take_bit 12 f = 0"
  shows "translate s a = Some (f + (a - of_nat (0x1000 * j)))"
  using assms page_base12[OF assms(7)]
  by (simp add: translate_def pd_index_def pt_index_def Let_def low_mask frame_join)

lemma pte_directory:
  assumes "paging_wf s"
  shows "entry_present (pdt s 0)" "\<not> entry_large (pdt s 0)" "\<not> entry_user (pdt s 0)"
    "page_table s (pdt s 0) = Some (pte s)"
  using assms aligned_bit[of "addr_pte s"] aligned_or[of "addr_pte s" 1]
  by (auto simp: paging_wf_def bit_or_iff page_table_def)

lemma translate_pte:
  assumes wf: "paging_wf s" and j: "unat a div 0x1000 = j" "j < 1024"
    and e: "pte s j = video_entry k 3" "k \<le> 3"
  shows "translate s a = Some (0xB8000 + 0x1000 * k + (a - of_nat (0x1000 * j)))"
proof (rule translate_small[where i = 0 and t = "pte s"])
  show "unat a div 0x400000 = 0"
    using j by (simp add: div_eq_0_iff)
  show "paging_on s" using wf by (simp add: paging_wf_def)
qed (use assms pte_directory[OF wf] video_entry_bits[OF e(2), of 3] in auto)

text \<open>The page behind \<open>video_mem\<close>, the three screen buffers, and the page behind \<open>key_video_mem\<close>.\<close>

lemma translate_video:
  "paging_wf s \<Longrightarrow> unat a div 0x1000 = 184 \<Longrightarrow> pte s VIDEO_MEMORY = video_entry k 3 \<Longrightarrow> k \<le> 3 \<Longrightarrow>
     translate s a = Some (a + 0x1000 * k)"
  using translate_pte[of s a 184 k] by (simp add: VIDEO_MEMORY_def)

lemma translate_buffer:
  assumes wf: "paging_wf s" and a: "unat a div 0x1000 \<in> {185, 186, 187}"
  shows "translate s a = Some a"
  using a wf translate_pte[OF wf, of a 185 1] translate_pte[OF wf, of a 186 2]
    translate_pte[OF wf, of a 187 3]
  by (auto simp: paging_wf_def)

lemma translate_key_video:
  "paging_wf s \<Longrightarrow> unat a div 0x1000 = 188 \<Longrightarrow> translate s a = Some (a - 0x4000)"
  using translate_pte[of s a 188 0] by (simp add: paging_wf_def)

lemma translate_kernel:
  assumes "paging_wf s" and "unat a div 0x400000 = 1"
  shows "translate s a = Some a"
  using assms translate_large[of s a 1 "0x400083" "0x400000"] by (simp add: paging_wf_def)

lemma translate_exec:
  assumes "paging_wf s" and "unat a div 0x400000 = 32" and e: "pdt s EXEC = START_ADDRESS + FOURMB * idx"
  shows "translate s a = Some (a - 0x7800000 + FOURMB * idx)"
  using assms translate_large[of s a 32 _ "0x800000 + FOURMB * idx", OF _ _ e[unfolded EXEC_def]]
    exec_entry[of idx]
  by (simp add: paging_wf_def algebra_simps)

lemma translate_other:
  assumes wf: "paging_wf s" and a: "unat a div 0x400000 \<notin> {0, 1, 32, 64}"
  shows "translate s a = None"
proof -
  have "unat a < 2 ^ 32" using unsigned_less[of a] by simp
  then have "unat a div 0x400000 < 1024" by (simp add: less_mult_imp_div_less)
  with wf a have "\<not> entry_present (pdt s (pd_index a))"
    unfolding paging_wf_def pd_index_def EXEC_def VID_def by blast
  with wf show ?thesis by (simp add: translate_def paging_wf_def Let_def)
qed

text \<open>In particular the null page faults.\<close>

lemma translate_null:
  assumes wf: "paging_wf s" and a: "unat a div 0x1000 < 184"
  shows "translate s a = None"
proof -
  let ?j = "unat a div 0x1000"
  have d: "pd_index a = 0" "pt_index a = ?j"
    using a by (auto simp: pd_index_def pt_index_def div_eq_0_iff less_mult_imp_div_less)
  have "?j < 1024" "?j \<notin> {184, 185, 186, 187, 188}" using a by auto
  then have "\<not> entry_present (pte s ?j)" using wf unfolding paging_wf_def by blast
  then show ?thesis
    using wf pte_directory[OF wf] d by (simp add: translate_def paging_wf_def Let_def)
qed

section \<open>Preservation\<close>

lemma paging_wf_phys [simp, frame_simps]: "paging_wf (s\<lparr>phys := p\<rparr>) = paging_wf s"
  by (simp add: paging_wf_def)

lemma paging_wf_cong:
  assumes "paging_on s = paging_on t" "pdt s = pdt t" "pte s = pte t" "pte_vid s = pte_vid t"
    and "addr_pte s = addr_pte t" "addr_pte_vid s = addr_pte_vid t"
  shows "paging_wf s = paging_wf t"
  by (simp add: paging_wf_def assms)

lemma vwrite_paging_wf: "vwrite s a b = Some s' \<Longrightarrow> paging_wf s' = paging_wf s"
  by (auto simp: vwrite_def)

lemma store_paging_wf: "store_bytes vwrite s a bs = Some s' \<Longrightarrow> paging_wf s' = paging_wf s"
  by (metis paging_wf_phys store_frame)

lemma map_page_exec_wf [inv_intros]: "paging_wf s \<Longrightarrow> paging_wf (map_page_exec idx s)"
  by (auto simp: paging_wf_def paging_defs EXEC_def VID_def)

lemma clear_vid_wf [inv_intros]: "paging_wf s \<Longrightarrow> paging_wf (snd (clear_vid s))"
  by (auto simp: paging_wf_def paging_defs)

lemma map_screen_buffer_wf [inv_intros]: "paging_wf s \<Longrightarrow> paging_wf (snd (map_screen_buffer idx s))"
  by (auto simp: paging_wf_def paging_defs VIDEO_MEMORY_def video_entry_def not_less)

lemma set_user_video_wf:
  "paging_wf s \<Longrightarrow> e = 0 \<or> (\<exists>k\<le>3. e = video_entry k 7) \<Longrightarrow> paging_wf (set_pte_vid 0 e s)"
  by (auto simp: paging_wf_def set_pte_vid_def)

lemma load_cr3_wf [simp]: "paging_wf (load_cr3 s) = paging_wf s"
  by (simp add: paging_wf_def load_cr3_def)

lemma map_vid_wf:
  assumes wf: "paging_wf s" and m: "map_vid p s = Some (r, s')"
  shows "paging_wf s'"
proof -
  let ?t = "set_pte_vid 0 ((PAGE_KB + VIDEO_OFFSET) OR 5) (set_pdt VID (addr_pte_vid s OR 7) s)"
  have "(PAGE_KB + VIDEO_OFFSET) OR 5 = video_entry 0 7" by (simp add: video_entry_def paging_consts)
  moreover have "paging_wf (set_pdt VID (addr_pte_vid s OR 7) s)"
    using wf by (auto simp: paging_wf_def set_pdt_def VID_def EXEC_def)
  ultimately have t: "paging_wf ?t" by (auto intro!: set_user_video_wf exI[of _ 0])
  from m obtain u where "store32 vwrite ?t p (FOURMB * of_nat VID) = Some u" "s' = load_cr3 u"
    by (auto simp: map_vid_def bind_Some_iff)
  with t store_paging_wf[OF this(1)[unfolded store32_def]] show ?thesis by simp
qed


lemma map_vid_iff:
  "map_vid p s = Some (r, s') \<longleftrightarrow>
     r = 1 \<and> (\<exists>u. store32 vwrite (set_pte_vid 0 (video_entry 0 7) (set_pdt VID (addr_pte_vid s OR 7) s))
        p 0x10000000 = Some u \<and> s' = load_cr3 u)"
  by (auto simp: map_vid_def bind_Some_iff video_entry_def paging_consts)

section \<open>Initialisation\<close>

lemma init_tables_eq:
  "init_tables n s = s\<lparr>pdt := (\<lambda>i. if i < n then PAGE_MB + FOURMB * of_nat i else pdt s i),
     pte := (\<lambda>i. if i < n then PAGE_KB + FOURKB * of_nat i else pte s i),
     tlb_stale := (0 < n \<or> tlb_stale s)\<rparr>"
proof (induction n)
  case 0
  then show ?case by simp
next
  case (Suc n)
  then show ?case
    by (intro machine.equality) (auto simp: set_pdt_def set_pte_def less_Suc_eq)
qed

lemma blank_entry:
  "\<not> bit (PAGE_MB + FOURMB * x) 0" "\<not> bit (PAGE_KB + FOURKB * x) 0"
  by (simp_all add: bit_0 paging_consts)

lemma init_pdt: "pdt (init_paging s) =
    (\<lambda>i. if i < 1024 then PAGE_MB + FOURMB * of_nat i else pdt s i)
      (0 := addr_pte s OR 1, 1 := 0x400083, 32 := START_ADDRESS, 64 := addr_pte_vid s)"
  by (simp add: init_paging_def init_tables_eq Let_def set_pdt_def set_pte_def load_cr3_def
      EXEC_def VID_def) (simp add: PAGE_MB_def FOURMB_def)

lemma init_pte: "pte (init_paging s) =
    (\<lambda>i. if i < 1024 then PAGE_KB + FOURKB * of_nat i else pte s i)
      (185 := video_entry 1 3, 186 := video_entry 2 3, 187 := video_entry 3 3,
       188 := video_entry 0 3, 184 := video_entry 0 3)"
  by (simp add: init_paging_def init_tables_eq Let_def set_pdt_def set_pte_def load_cr3_def
      VIDEO_MEMORY_def) (simp add: PAGE_KB_def FOURKB_def VIDEO_OFFSET_def video_entry_def)

lemma init_paging_rest [simp]:
  "paging_on (init_paging s)" "\<not> tlb_stale (init_paging s)" "phys (init_paging s) = phys s"
  "addr_pte (init_paging s) = addr_pte s" "addr_pte_vid (init_paging s) = addr_pte_vid s"
  "pte_vid (init_paging s) = pte_vid s"
  by (simp_all add: init_paging_def init_tables_eq Let_def set_pdt_def set_pte_def load_cr3_def)

lemma init_paging_wf:
  assumes "addr_pte s AND 0xFFF = 0" "addr_pte_vid s AND 0xFFF = 0" "addr_pte s \<noteq> addr_pte_vid s"
    and "\<forall>i<1024. pte_vid s i = 0"
  shows "paging_wf (init_paging s)"
  using assms blank_entry
  unfolding paging_wf_def init_pdt init_pte
  by (auto simp: EXEC_def VID_def VIDEO_MEMORY_def intro!: exI[of _ 0])

section \<open>What user mode can reach\<close>

lemma user_reach:
  assumes wf: "paging_wf s" and u: "user_ok s a" and e: "pdt s EXEC = START_ADDRESS + FOURMB * idx"
  shows "unat a div 0x400000 = 32 \<and> translate s a = Some (a - 0x7800000 + FOURMB * idx) \<or>
    unat a div 0x1000 = 0x10000 \<and> (\<exists>k\<le>3. pte_vid s 0 = video_entry k 7 \<and>
      translate s a = Some (a - 0x10000000 + 0xB8000 + 0x1000 * k))"
proof -
  have lt: "unat a < 2 ^ 32" using unsigned_less[of a] by simp
  let ?i = "unat a div 0x400000"
  have i: "?i < 1024" using lt by (simp add: less_mult_imp_div_less)
  have pres: "entry_present (pdt s ?i)" "entry_user (pdt s ?i)"
    using u by (simp_all add: user_ok_def pd_index_def Let_def)
  have "\<not> entry_user (pdt s 1)" using wf by (simp add: paging_wf_def)
  with pres wf i pte_directory(3)[OF wf] have ii: "?i = 32 \<or> ?i = 64"
    unfolding paging_wf_def EXEC_def VID_def by (metis insertE singletonD)
  show ?thesis
  proof (cases "?i = 32")
    case True
    with translate_exec[OF wf True e] show ?thesis by simp
  next
    case False
    with ii have i64: "?i = 64" by simp
    have al: "addr_pte_vid s AND 0xFFF = 0" using wf by (simp add: paging_wf_def)
    then have d: "pdt s 64 = addr_pte_vid s OR 7"
      using wf pres aligned_bit[of "addr_pte_vid s" 0] i64 by (auto simp: paging_wf_def VID_def)
    have nl: "\<not> entry_large (pdt s 64)"
      using aligned_bit[OF al, of 7] by (simp add: d bit_or_iff)
    have pt: "page_table s (pdt s 64) = Some (pte_vid s)"
      using wf aligned_or[OF al, of 7] by (auto simp: page_table_def d paging_wf_def)
    let ?j = "unat a div 0x1000"
    have p: "entry_present (pte_vid s (?j mod 1024))"
      using u nl pt i64 by (simp add: user_ok_def pd_index_def pt_index_def Let_def)
    then have j0: "?j mod 1024 = 0" using wf unfolding paging_wf_def
      by (metis bit_0_eq mod_less_divisor zero_less_numeral bot_apply bot_bool_def)
    have "?j div 1024 = 64" using i64 by (simp add: div_mult2_eq[symmetric])
    with j0 have j: "?j = 0x10000" using div_mult_mod_eq[of ?j 1024] by simp
    from p j0 wf obtain k where k: "k \<le> 3" "pte_vid s 0 = video_entry k 7"
      by (auto simp: paging_wf_def)
    have "translate s a = Some (0xB8000 + 0x1000 * k + (a - of_nat (0x1000 * 0x10000)))"
      using wf i64 pres nl pt j k video_entry_bits[OF k(1), of 7]
      by (intro translate_small[where i = 64 and t = "pte_vid s" and e = "pdt s 64"])
        (auto simp: paging_wf_def)
    with j k show ?thesis by (auto simp: algebra_simps)
  qed
qed

end
