(* ===== verification/Console.thy ===== *)
theory Console
  imports Paging
begin

text \<open>
  The text console of \<open>lib.c\<close>: three terminals of 80 by 25 cells, each with a cursor.  The visible
  terminal lives in video memory (physical page B8), terminal \<open>i\<close> that is not visible in the
  buffer page B9 + i.  The kernel reaches video memory through three linear pages: \<open>video_mem\<close>
  (page B8), which \<open>context_switch\<close> redirects to the page of the scheduled terminal, the buffers
  themselves, and \<open>key_video_mem\<close> (page BC), which always denotes the visible terminal.
\<close>

section \<open>State\<close>

record console = machine +
  screen_x :: "int list"
  screen_y :: "int list"
  visible_screen :: u32
  schedule_index :: u8
  counter1 :: int
  counter2 :: int
  counter3 :: int

text \<open>The console's own variables are no part of the paging structures.\<close>

lemma console_translate [simp, frame_simps]:
  "translate (s\<lparr>screen_x := xs\<rparr>) = translate s" "translate (s\<lparr>screen_y := xs\<rparr>) = translate s"
  "translate (s\<lparr>visible_screen := v\<rparr>) = translate s" "translate (s\<lparr>schedule_index := n\<rparr>) = translate s"
  "translate (s\<lparr>counter1 := c\<rparr>) = translate s" "translate (s\<lparr>counter2 := c\<rparr>) = translate s"
  "translate (s\<lparr>counter3 := c\<rparr>) = translate s"
  by (intro translate_cong; simp)+

lemma console_paging_wf [simp, frame_simps]:
  "paging_wf (s\<lparr>screen_x := xs\<rparr>) = paging_wf s" "paging_wf (s\<lparr>screen_y := xs\<rparr>) = paging_wf s"
  "paging_wf (s\<lparr>visible_screen := v\<rparr>) = paging_wf s" "paging_wf (s\<lparr>schedule_index := n\<rparr>) = paging_wf s"
  "paging_wf (s\<lparr>counter1 := c\<rparr>) = paging_wf s" "paging_wf (s\<lparr>counter2 := c\<rparr>) = paging_wf s"
  "paging_wf (s\<lparr>counter3 := c\<rparr>) = paging_wf s"
  by (intro paging_wf_cong; simp)+

definition VIDEO :: u32 where "VIDEO = 0xB8000"
definition KEYBOARD_VIDEO :: u32 where "KEYBOARD_VIDEO = 0xBC000"
definition NUM_COLS :: int where "NUM_COLS = 80"
definition NUM_ROWS :: int where "NUM_ROWS = 25"
definition ATTRIB :: u8 where "ATTRIB = 7"
definition SCREEN_SIZE :: int where "SCREEN_SIZE = 1920"

lemmas console_consts = VIDEO_def KEYBOARD_VIDEO_def NUM_COLS_def NUM_ROWS_def ATTRIB_def
  SCREEN_SIZE_def

abbreviation sched_ix :: "'z console_scheme \<Rightarrow> nat" where
  "sched_ix s \<equiv> unat (schedule_index s)"

abbreviation vis_ix :: "'z console_scheme \<Rightarrow> nat" where
  "vis_ix s \<equiv> unat (visible_screen s)"

text \<open>\<open>uint8_t\<close> and \<open>uint32_t\<close> are compared after conversion.\<close>

definition sched_visible :: "'z console_scheme \<Rightarrow> bool" where
  "sched_visible s \<longleftrightarrow> (ucast (schedule_index s) :: u32) = visible_screen s"

text \<open>The cell at \<open>base + (idx << 1)\<close>: a character byte and an attribute byte.\<close>

definition cell_addr :: "u32 \<Rightarrow> int \<Rightarrow> u32" where
  "cell_addr base idx = base + of_int (2 * idx)"

definition put_cell :: "u32 \<Rightarrow> int \<Rightarrow> u8 \<Rightarrow> u8 \<Rightarrow> 'z console_scheme \<Rightarrow> 'z console_scheme option" where
  "put_cell base idx c a s =
     do { s1 \<leftarrow> vwrite s (cell_addr base idx) c; vwrite s1 (cell_addr base idx + 1) a }"

definition copy_cell :: "u32 \<Rightarrow> int \<Rightarrow> u32 \<Rightarrow> int \<Rightarrow> 'z console_scheme \<Rightarrow> 'z console_scheme option" where
  "copy_cell dst i src j s =
     do { c \<leftarrow> vread s (cell_addr src j);
          s1 \<leftarrow> vwrite s (cell_addr dst i) c;
          a \<leftarrow> vread s1 (cell_addr src j + 1);
          vwrite s1 (cell_addr dst i + 1) a }"

section \<open>Operations\<close>

definition clear :: "'z console_scheme \<Rightarrow> 'z console_scheme option" where
  "clear s = for_up 0 2000 (\<lambda>i. put_cell VIDEO (int i) 32 ATTRIB) s"

text \<open>Where \<open>putc\<close> and \<open>scroll_screen\<close> write: video memory, or the buffer of the scheduled terminal.\<close>

definition out_base :: "'z console_scheme \<Rightarrow> u32" where
  "out_base s = (if sched_visible s then VIDEO
     else VIDEO + 0x1000 * (ucast (schedule_index s) + 1))"

definition scroll_screen :: "'z console_scheme \<Rightarrow> 'z console_scheme option" where
  "scroll_screen s0 =
     do { s \<leftarrow> for_up 0 24 (\<lambda>i. for_up 0 80 (\<lambda>j s.
            copy_cell (out_base s) (int i * NUM_COLS + int j)
              VIDEO (int i * NUM_COLS + int j + NUM_COLS) s)) s0;
          for_up 0 80 (\<lambda>i s. put_cell (out_base s) (SCREEN_SIZE + int i) 0 ATTRIB s) s }"

definition key_scroll_screen :: "'z console_scheme \<Rightarrow> 'z console_scheme option" where
  "key_scroll_screen s0 =
     do { s \<leftarrow> for_up 0 24 (\<lambda>i. for_up 0 80 (\<lambda>j.
            copy_cell KEYBOARD_VIDEO (int i * NUM_COLS + int j)
              KEYBOARD_VIDEO (int i * NUM_COLS + int j + NUM_COLS))) s0;
          for_up 0 80 (\<lambda>i. put_cell KEYBOARD_VIDEO (SCREEN_SIZE + int i) 0 ATTRIB) s }"

definition put_x :: "nat \<Rightarrow> int \<Rightarrow> 'z console_scheme \<Rightarrow> 'z console_scheme option" where
  "put_x i v s = map_option (\<lambda>xs. s\<lparr>screen_x := xs\<rparr>) (arr_set (screen_x s) i v)"

definition put_y :: "nat \<Rightarrow> int \<Rightarrow> 'z console_scheme \<Rightarrow> 'z console_scheme option" where
  "put_y i v s = map_option (\<lambda>ys. s\<lparr>screen_y := ys\<rparr>) (arr_set (screen_y s) i v)"

text \<open>
  The body \<open>putc\<close> and \<open>putc_keyboard\<close> share up to the terminal index, the page they write and
  the scroll routine they call.
\<close>

definition emit_char :: "nat \<Rightarrow> u32 \<Rightarrow> ('z console_scheme \<Rightarrow> 'z console_scheme option) \<Rightarrow>
    u8 \<Rightarrow> 'z console_scheme \<Rightarrow> 'z console_scheme option" where
  "emit_char ix base scroll c s0 =
     (if c = 0 then Some s0
      else do {
        y \<leftarrow> arr_get (screen_y s0) ix;
        x \<leftarrow> arr_get (screen_x s0) ix;
        s \<leftarrow> (if c = 10 \<or> c = 13 then do { s \<leftarrow> put_y ix (y + 1) s0; put_x ix 0 s }
              else do { s \<leftarrow> put_cell base (NUM_COLS * y + x) c ATTRIB s0;
                        s \<leftarrow> put_x ix (x + 1) s;
                        put_y ix (y + (x + 1) sdiv NUM_COLS) s });
        y \<leftarrow> arr_get (screen_y s) ix;
        s \<leftarrow> (if y = NUM_ROWS then do { s \<leftarrow> scroll s; put_y ix (y - 1) s } else Some s);
        x \<leftarrow> arr_get (screen_x s) ix;
        put_x ix (x smod NUM_COLS) s })"

definition putc :: "u8 \<Rightarrow> 'z console_scheme \<Rightarrow> 'z console_scheme option" where
  "putc c s = emit_char (sched_ix s) (out_base s) scroll_screen c s"

definition putc_keyboard :: "u8 \<Rightarrow> 'z console_scheme \<Rightarrow> 'z console_scheme option" where
  "putc_keyboard c s = emit_char (vis_ix s) KEYBOARD_VIDEO key_scroll_screen c s"

definition key_clear_screen :: "'z console_scheme \<Rightarrow> 'z console_scheme option" where
  "key_clear_screen s0 =
     do { s \<leftarrow> for_up 0 25 (\<lambda>i. for_up 0 80 (\<lambda>j.
            put_cell KEYBOARD_VIDEO (int i * NUM_COLS + int j) 0 7)) s0;
          s \<leftarrow> put_x (vis_ix s) 0 s;
          put_y (vis_ix s) 0 s }"

definition clear_screen :: "'z console_scheme \<Rightarrow> 'z console_scheme option" where
  "clear_screen s0 =
     do { s \<leftarrow> for_up 0 25 (\<lambda>i. for_up 0 80 (\<lambda>j.
            put_cell VIDEO (int i * NUM_COLS + int j) 0 ATTRIB)) s0;
          s \<leftarrow> put_x (sched_ix s) 0 s;
          put_y (sched_ix s) 0 s }"

definition visible_counter :: "'z console_scheme \<Rightarrow> int option" where
  "visible_counter s =
     (if visible_screen s = 0 then Some (counter1 s)
      else if visible_screen s = 1 then Some (counter2 s)
      else if visible_screen s = 2 then Some (counter3 s)
      else None)"

definition delete_char :: "'z console_scheme \<Rightarrow> 'z console_scheme option" where
  "delete_char s0 =
     do { x \<leftarrow> arr_get (screen_x s0) (vis_ix s0);
          y \<leftarrow> arr_get (screen_y s0) (vis_ix s0);
          if x = 0 \<and> y = 0 then Some s0
          else if visible_counter s0 = Some 0 then Some s0
          else do {
            s \<leftarrow> vwrite s0 (cell_addr KEYBOARD_VIDEO (NUM_COLS * y + x - 1)) 32;
            s \<leftarrow> vwrite s (cell_addr KEYBOARD_VIDEO (NUM_COLS * y + x) + 1) ATTRIB;
            if x = 0 then
              (if y = 0 then Some s
               else do { s \<leftarrow> put_x (vis_ix s) (NUM_COLS - 1) s; put_y (vis_ix s) (y - 1) s })
            else put_x (vis_ix s) (x - 1) s } }"

text \<open>\<open>puts\<close> prints until the NUL of its string, which it reads through \<open>rd\<close>.\<close>

partial_function (option) puts_from :: "('z console_scheme \<Rightarrow> u32 \<Rightarrow> u8 option) \<Rightarrow> u32 \<Rightarrow> u32 \<Rightarrow>
    'z console_scheme \<Rightarrow> (u32 \<times> 'z console_scheme) option" where
  "puts_from rd p index s =
     do { c \<leftarrow> rd s (p + index);
          if c \<noteq> 0 then do { s' \<leftarrow> putc c s; puts_from rd p (index + 1) s' }
          else Some (index, s) }"

definition puts :: "('z console_scheme \<Rightarrow> u32 \<Rightarrow> u8 option) \<Rightarrow> u32 \<Rightarrow>
    'z console_scheme \<Rightarrow> (u32 \<times> 'z console_scheme) option" where
  "puts rd p s = puts_from rd p 0 s"

text \<open>\<open>test_interrupts\<close> increments the character of each of the 2000 cells.\<close>

definition test_interrupts :: "'z console_scheme \<Rightarrow> 'z console_scheme option" where
  "test_interrupts s =
     for_up 0 2000 (\<lambda>i s. do { b \<leftarrow> vread s (cell_addr VIDEO (int i));
                              vwrite s (cell_addr VIDEO (int i)) (b + 1) }) s"

section \<open>The pages of the terminals\<close>

text \<open>\<open>pg P k\<close> is byte \<open>k\<close> of the page at \<open>P\<close>, and \<open>off P p\<close> the offset of \<open>p\<close> from \<open>P\<close>.\<close>

definition pg :: "u32 \<Rightarrow> nat \<Rightarrow> u32" where
  "pg P k = P + of_nat k"

definition off :: "u32 \<Rightarrow> u32 \<Rightarrow> nat" where
  "off P p = unat (p - P)"

lemma pg_0 [simp]: "pg P 0 = P"
  by (simp add: pg_def)

lemma off_pg [simp]: "k < 2 ^ 32 \<Longrightarrow> off P (pg P k) = k"
  by (simp add: off_def pg_def unat_of_nat take_bit_nat_eq_self)

lemma pg_off [simp]: "pg P (off P p) = p"
  by (simp add: off_def pg_def)

lemma eq_pg_iff: "k < 4096 \<Longrightarrow> p = pg P k \<longleftrightarrow> off P p = k"
  by auto

lemma pg_eq_iff [simp]: "k < 4096 \<Longrightarrow> l < 4096 \<Longrightarrow> pg P k = pg P l \<longleftrightarrow> k = l"
  by (simp add: eq_pg_iff)

lemma pg_div:
  assumes "k < 4096" and "j < 0x100000"
  shows "unat (pg (of_nat (0x1000 * j)) k) div 0x1000 = j"
proof -
  have "pg (of_nat (0x1000 * j)) k = of_nat (0x1000 * j + k)" by (simp add: pg_def)
  then have "unat (pg (of_nat (0x1000 * j)) k) = 0x1000 * j + k"
    using assms by (simp only: unat_of_nat) (simp add: take_bit_nat_eq_self)
  then show ?thesis using assms by simp
qed

lemma pg_div_num:
  assumes "k < 4096"
  shows "unat (pg 0xB8000 k) div 0x1000 = 184" "unat (pg 0xB9000 k) div 0x1000 = 185"
    "unat (pg 0xBA000 k) div 0x1000 = 186" "unat (pg 0xBB000 k) div 0x1000 = 187"
    "unat (pg 0xBC000 k) div 0x1000 = 188"
  using pg_div[OF assms, of 184] pg_div[OF assms, of 185] pg_div[OF assms, of 186]
    pg_div[OF assms, of 187] pg_div[OF assms, of 188] by simp_all

definition video_page :: "'z machine_scheme \<Rightarrow> u32" where
  "video_page s = pte s VIDEO_MEMORY AND 0xFFFFF000"

definition buffer_page :: "nat \<Rightarrow> u32" where
  "buffer_page i = 0xB9000 + 0x1000 * of_nat i"

text \<open>\<open>shows_page\<close>: the page at linear address \<open>base\<close> is the physical page \<open>P\<close>.\<close>

definition shows_page :: "'z machine_scheme \<Rightarrow> u32 \<Rightarrow> u32 \<Rightarrow> bool" where
  "shows_page s base P \<longleftrightarrow> (\<forall>k<4096. translate s (pg base k) = Some (pg P k))"

lemma shows_page_phys [simp, frame_simps]: "shows_page (s\<lparr>phys := m\<rparr>) = shows_page s"
  by (intro ext) (simp add: shows_page_def)

lemma shows_page_ext [simp, frame_simps]:
  "shows_page (s\<lparr>screen_x := xs\<rparr>) = shows_page s" "shows_page (s\<lparr>screen_y := xs\<rparr>) = shows_page s"
  by (intro ext; simp add: shows_page_def)+

lemma shows_video:
  assumes "paging_wf s"
  shows "shows_page s VIDEO (video_page s)"
proof -
  from assms obtain j where j: "j \<le> 3" "pte s VIDEO_MEMORY = video_entry j 3"
    by (auto simp: paging_wf_def)
  with translate_video[OF assms pg_div_num(1) j(2,1)] video_entry_bits(1)[OF j(1), of 3]
  show ?thesis by (auto simp: shows_page_def VIDEO_def video_page_def pg_def algebra_simps)
qed

lemma shows_buffer:
  assumes "paging_wf s" and "i < 3"
  shows "shows_page s (buffer_page i) (buffer_page i)"
proof -
  have "i = 0 \<or> i = 1 \<or> i = 2" using assms(2) by auto
  with pg_div_num show ?thesis
    by (auto intro!: translate_buffer[OF assms(1)] simp: buffer_page_def shows_page_def)
qed

lemma shows_key: "paging_wf s \<Longrightarrow> shows_page s KEYBOARD_VIDEO VIDEO"
  using translate_key_video[OF _ pg_div_num(5)]
  by (auto simp: shows_page_def console_consts pg_def algebra_simps)

section \<open>Loops over the cells of a page\<close>

lemma cell_addr_pg: "cell_addr base (int i) = pg base (2 * i)"
    "cell_addr base (int i) + 1 = pg base (2 * i + 1)"
    "pg base (2 * i) + 1 = pg base (2 * i + 1)"
  by (simp_all add: cell_addr_def pg_def)

lemma vread_page: "shows_page s base P \<Longrightarrow> k < 4096 \<Longrightarrow> vread s (pg base k) = Some (phys s (pg P k))"
  by (simp add: shows_page_def vread_def)

lemma vwrite_page: "shows_page s base P \<Longrightarrow> k < 4096 \<Longrightarrow>
    vwrite s (pg base k) b = Some (s\<lparr>phys := (phys s)(pg P k := b)\<rparr>)"
  by (simp add: shows_page_def vwrite_def)

lemma put_cell_page: "shows_page s base P \<Longrightarrow> i < 2000 \<Longrightarrow>
    put_cell base (int i) c a s =
      Some (s\<lparr>phys := (phys s)(pg P (2 * i) := c, pg P (2 * i + 1) := a)\<rparr>)"
  by (simp add: put_cell_def cell_addr_pg vwrite_page[of _ base P])

lemma copy_cell_page: "shows_page s d P \<Longrightarrow> shows_page s b P \<Longrightarrow> i < j \<Longrightarrow> j < 2000 \<Longrightarrow>
    copy_cell d (int i) b (int j) s =
      Some (s\<lparr>phys := (phys s)(pg P (2 * i) := phys s (pg P (2 * j)),
        pg P (2 * i + 1) := phys s (pg P (2 * j + 1)))\<rparr>)"
  by (simp add: copy_cell_def cell_addr_pg vwrite_page[of _ d P] vread_page[of _ b P])

text \<open>Memory after a scroll of the first \<open>n\<close> cells, and after a fill of cells \<open>m\<close> to \<open>m + n\<close>.\<close>

definition scrolled :: "u32 \<Rightarrow> nat \<Rightarrow> (u32 \<Rightarrow> u8) \<Rightarrow> u32 \<Rightarrow> u8" where
  "scrolled P n mem p = (if off P p < 2 * n then mem (pg P (off P p + 160)) else mem p)"

definition filled :: "u32 \<Rightarrow> nat \<Rightarrow> nat \<Rightarrow> u8 \<Rightarrow> u8 \<Rightarrow> (u32 \<Rightarrow> u8) \<Rightarrow> u32 \<Rightarrow> u8" where
  "filled P m n c a mem p =
     (if 2 * m \<le> off P p \<and> off P p < 2 * (m + n) then (if even (off P p) then c else a) else mem p)"

lemma scrolled_0 [simp]: "scrolled P 0 mem = mem"
  by (simp add: scrolled_def fun_eq_iff)

lemma filled_0 [simp]: "filled P m 0 c a mem = mem"
  by (auto simp: filled_def fun_eq_iff)

lemma scrolled_Suc:
  assumes "n < 1920"
  shows "(scrolled P n mem)(pg P (2 * n) := scrolled P n mem (pg P (2 * (n + 80))),
     pg P (2 * n + 1) := scrolled P n mem (pg P (2 * (n + 80) + 1))) = scrolled P (Suc n) mem"
proof
  fix p
  have "off P p < 2 * Suc n \<longleftrightarrow> off P p < 2 * n \<or> off P p = 2 * n \<or> off P p = 2 * n + 1" by auto
  with assms show "((scrolled P n mem)(pg P (2 * n) := scrolled P n mem (pg P (2 * (n + 80))),
     pg P (2 * n + 1) := scrolled P n mem (pg P (2 * (n + 80) + 1)))) p = scrolled P (Suc n) mem p"
    by (auto simp: scrolled_def eq_pg_iff algebra_simps)
qed

lemma filled_Suc:
  assumes "m + n < 2000"
  shows "(filled P m n c a mem)(pg P (2 * (m + n)) := c, pg P (2 * (m + n) + 1) := a) =
    filled P m (Suc n) c a mem"
proof
  fix p
  have "2 * m \<le> off P p \<and> off P p < 2 * (m + Suc n) \<longleftrightarrow>
      2 * m \<le> off P p \<and> off P p < 2 * (m + n) \<or> off P p = 2 * (m + n) \<or> off P p = 2 * (m + n) + 1"
    by auto
  with assms show "((filled P m n c a mem)(pg P (2 * (m + n)) := c, pg P (2 * (m + n) + 1) := a)) p =
      filled P m (Suc n) c a mem p"
    by (auto simp: filled_def eq_pg_iff)
qed

text \<open>A nest of loops over rows and columns visits the cells in order.\<close>

lemma for_up_nest:
  assumes "\<And>k. k < m * n \<Longrightarrow> body (k div n) (k mod n) (f k) = Some (f (Suc k))" and "0 < n"
  shows "for_up 0 m (\<lambda>i. for_up 0 n (body i)) (f 0) = Some (f (m * n))"
proof -
  have "for_up 0 n (body i) (f (i * n)) = Some (f (Suc i * n))" if "i < m" for i
  proof -
    have "for_up 0 n (body i) (f (i * n + 0)) = Some (f (i * n + n))"
    proof (rule for_up_run[where f = "\<lambda>j. f (i * n + j)"])
      fix j assume "j < n"
      moreover have "i * n + j < m * n"
        using that \<open>j < n\<close> by (metis add_less_cancel_left less_le_trans mult_Suc mult_le_mono1 add.commute Suc_leI)
      ultimately show "body i j (f (i * n + j)) = Some (f (i * n + Suc j))"
        using assms(1)[of "i * n + j"] by simp
    qed
    then show ?thesis by (simp add: add.commute)
  qed
  then show ?thesis using for_up_run[of m "\<lambda>i. for_up 0 n (body i)" "\<lambda>i. f (i * n)"] by simp
qed

lemma row_col: "int (k div 80) * NUM_COLS + int (k mod 80) = int k"
    "int k + NUM_COLS = int (k + 80)" "SCREEN_SIZE + int i = int (1920 + i)"
  by (simp_all add: console_consts zdiv_int zmod_int)

lemma fill_loop:
  assumes "shows_page s base P" and "m + n \<le> 2000"
  shows "for_up 0 n (\<lambda>i. put_cell base (int (m + i)) c a) s = Some (s\<lparr>phys := filled P m n c a (phys s)\<rparr>)"
proof -
  have "put_cell base (int (m + i)) c a (s\<lparr>phys := filled P m i c a (phys s)\<rparr>) =
      Some (s\<lparr>phys := filled P m (Suc i) c a (phys s)\<rparr>)" if "i < n" for i
    using assms that filled_Suc[of m i P c a "phys s"]
    by (subst put_cell_page[of _ base P]) simp_all
  then show ?thesis
    using for_up_run[of n "\<lambda>i. put_cell base (int (m + i)) c a"
        "\<lambda>i. s\<lparr>phys := filled P m i c a (phys s)\<rparr>"] by simp
qed

lemma fill_screen:
  assumes "shows_page s base P"
  shows "for_up 0 25 (\<lambda>i. for_up 0 80 (\<lambda>j. put_cell base (int i * NUM_COLS + int j) c a)) s =
    Some (s\<lparr>phys := filled P 0 2000 c a (phys s)\<rparr>)"
proof -
  have *: "put_cell base (int (k div 80) * NUM_COLS + int (k mod 80)) c a
      (s\<lparr>phys := filled P 0 k c a (phys s)\<rparr>) = Some (s\<lparr>phys := filled P 0 (Suc k) c a (phys s)\<rparr>)"
    if "k < 25 * 80" for k
    using assms that filled_Suc[of 0 k P] by (simp only: row_col) (simp add: put_cell_page[of _ base P])
  from for_up_nest[where f = "\<lambda>k. s\<lparr>phys := filled P 0 k c a (phys s)\<rparr>"
      and body = "\<lambda>i j. put_cell base (int i * NUM_COLS + int j) c a", OF *]
  show ?thesis by simp
qed

lemma scroll_loop:
  assumes "shows_page s d P" and "shows_page s b P"
  shows "for_up 0 24 (\<lambda>i. for_up 0 80 (\<lambda>j.
      copy_cell d (int i * NUM_COLS + int j) b (int i * NUM_COLS + int j + NUM_COLS))) s =
    Some (s\<lparr>phys := scrolled P 1920 (phys s)\<rparr>)"
proof -
  have *: "copy_cell d (int (k div 80) * NUM_COLS + int (k mod 80)) b
        (int (k div 80) * NUM_COLS + int (k mod 80) + NUM_COLS) (s\<lparr>phys := scrolled P k (phys s)\<rparr>) =
      Some (s\<lparr>phys := scrolled P (Suc k) (phys s)\<rparr>)" if "k < 24 * 80" for k
    using assms that scrolled_Suc[of k P]
    by (simp only: row_col) (simp add: copy_cell_page[of _ d P] del: of_nat_add)
  from for_up_nest[where f = "\<lambda>k. s\<lparr>phys := scrolled P k (phys s)\<rparr>" and body = "\<lambda>i j.
      copy_cell d (int i * NUM_COLS + int j) b (int i * NUM_COLS + int j + NUM_COLS)", OF *]
  show ?thesis by simp
qed

text \<open>The memory a scroll leaves: the rows move up and the last row is blank.\<close>

definition scroll_mem :: "u32 \<Rightarrow> (u32 \<Rightarrow> u8) \<Rightarrow> u32 \<Rightarrow> u8" where
  "scroll_mem P mem = filled P 1920 80 0 ATTRIB (scrolled P 1920 mem)"

lemma key_scroll_screen_eq:
  assumes "paging_wf s"
  shows "key_scroll_screen s = Some (s\<lparr>phys := scroll_mem VIDEO (phys s)\<rparr>)"
  using assms shows_key[OF assms] fill_loop[of "s\<lparr>phys := scrolled VIDEO 1920 (phys s)\<rparr>" KEYBOARD_VIDEO VIDEO 1920 80 0 ATTRIB]
  by (simp add: key_scroll_screen_def scroll_loop[of s _ VIDEO] row_col scroll_mem_def)

lemma out_base_phys [simp]: "out_base (s\<lparr>phys := m\<rparr>) = out_base s"
  by (simp add: out_base_def sched_visible_def)

text \<open>Loops whose body re-reads \<open>out_base\<close>, which memory writes do not change.\<close>

lemma for_up_cong_inv:
  assumes "\<And>k t. I t \<Longrightarrow> f k t = g k t" and "\<And>k t t'. I t \<Longrightarrow> g k t = Some t' \<Longrightarrow> I t'" and "I s"
  shows "for_up i n f s = for_up i n g s"
  using assms(3)
proof (induction n arbitrary: i s)
  case 0
  then show ?case by simp
next
  case (Suc n)
  then show ?case using assms(1,2) by (cases "g i s") auto
qed

lemma put_cell_frame: "put_cell b i c a s = Some s' \<Longrightarrow> \<exists>m. s' = s\<lparr>phys := m\<rparr>"
  by (auto simp: put_cell_def vwrite_def bind_Some_iff)

lemma copy_cell_frame: "copy_cell d i b j s = Some s' \<Longrightarrow> \<exists>m. s' = s\<lparr>phys := m\<rparr>"
  by (auto simp: copy_cell_def vwrite_def bind_Some_iff)

lemma scroll_screen_fixed:
  "scroll_screen s =
     do { s \<leftarrow> for_up 0 24 (\<lambda>i. for_up 0 80 (\<lambda>j.
            copy_cell (out_base s) (int i * NUM_COLS + int j)
              VIDEO (int i * NUM_COLS + int j + NUM_COLS))) s;
          for_up 0 80 (\<lambda>i. put_cell (out_base s) (SCREEN_SIZE + int i) 0 ATTRIB) s }"
proof -
  let ?B = "out_base s" and ?I = "\<lambda>t. out_base t = out_base s"
  let ?f = "\<lambda>i j s. copy_cell (out_base s) (int i * NUM_COLS + int j) VIDEO (int i * NUM_COLS + int j + NUM_COLS) s"
  let ?g = "\<lambda>i j. copy_cell ?B (int i * NUM_COLS + int j) VIDEO (int i * NUM_COLS + int j + NUM_COLS)"
  have step: "?I t'" if "?I t" "?g i j t = Some t'" for i j t t'
    using that copy_cell_frame[OF that(2)] by auto
  have inner: "for_up 0 80 (?f i) t = for_up 0 80 (?g i) t" if "?I t" for i t
    using that step by (intro for_up_cong_inv[where I = ?I]) auto
  have inner_inv: "?I t'" if "?I t" "for_up 0 80 (?g i) t = Some t'" for i t t'
    using for_up_inv[where I = ?I, OF _ that(2,1)] step by blast
  have outer: "for_up 0 24 (\<lambda>i. for_up 0 80 (?f i)) s = for_up 0 24 (\<lambda>i. for_up 0 80 (?g i)) s"
    by (rule for_up_cong_inv[where I = ?I]) (use inner inner_inv in blast)+
  have outer_inv: "?I t" if "for_up 0 24 (\<lambda>i. for_up 0 80 (?g i)) s = Some t" for t
    using for_up_inv[where I = ?I, OF _ that] inner_inv by blast
  have tail: "for_up 0 80 (\<lambda>i s. put_cell (out_base s) (SCREEN_SIZE + int i) 0 ATTRIB s) t =
      for_up 0 80 (\<lambda>i. put_cell ?B (SCREEN_SIZE + int i) 0 ATTRIB) t" if "?I t" for t
    using that by (intro for_up_cong_inv[where I = ?I]) (auto dest!: put_cell_frame)
  show ?thesis
    unfolding scroll_screen_def outer
    by (rule Option.bind_cong[OF refl]) (use outer_inv tail in auto)
qed

lemma scroll_screen_eq:
  assumes "shows_page s (out_base s) P" and "shows_page s VIDEO P"
  shows "scroll_screen s = Some (s\<lparr>phys := scroll_mem P (phys s)\<rparr>)"
  using assms fill_loop[of "s\<lparr>phys := scrolled P 1920 (phys s)\<rparr>" "out_base s" P 1920 80 0 ATTRIB]
  by (simp add: scroll_screen_fixed scroll_loop[of s _ P] row_col scroll_mem_def)


text \<open>Without any relation between the two pages a scroll still stays inside the page it writes.\<close>

definition same_outside :: "u32 \<Rightarrow> (u32 \<Rightarrow> u8) \<Rightarrow> (u32 \<Rightarrow> u8) \<Rightarrow> bool" where
  "same_outside P m m' \<longleftrightarrow> (\<forall>p. 4000 \<le> off P p \<longrightarrow> m' p = m p)"

lemma same_outside_refl [simp]: "same_outside P m m"
  by (simp add: same_outside_def)

lemma same_outside_upd:
  "same_outside P m m' \<Longrightarrow> k < 4000 \<Longrightarrow> same_outside P m (m'(pg P k := b))"
  by (auto simp: same_outside_def)

lemma same_outside_scroll [simp]: "same_outside P m (scroll_mem P m)"
  by (simp add: same_outside_def scroll_mem_def filled_def scrolled_def)

lemma same_outside_trans: "same_outside P a b \<Longrightarrow> same_outside P b c \<Longrightarrow> same_outside P a c"
  by (simp add: same_outside_def)

lemma copy_cell_total:
  assumes "shows_page t d P" "shows_page t b Q" "i < 2000" "j < 2000"
  shows "\<exists>m. copy_cell d (int i) b (int j) t = Some (t\<lparr>phys := m\<rparr>) \<and> same_outside P (phys t) m"
  using assms
  by (auto simp: copy_cell_def cell_addr_pg vwrite_page[of _ d P] vread_page[of _ b Q]
      intro!: same_outside_upd)

lemma scroll_screen_total:
  assumes "shows_page s (out_base s) P" and "shows_page s VIDEO Q"
  shows "\<exists>m. scroll_screen s = Some (s\<lparr>phys := m\<rparr>) \<and> same_outside P (phys s) m"
proof -
  let ?I = "\<lambda>_ t. \<exists>m. t = s\<lparr>phys := m\<rparr> \<and> same_outside P (phys s) m"
  have cp: "\<exists>t'. copy_cell (out_base s) (int i * NUM_COLS + int j) VIDEO
        (int i * NUM_COLS + int j + NUM_COLS) t = Some t' \<and> ?I () t'"
    if "?I () t" "i < 24" "j < 80" for i j t
  proof -
    have e: "int i * NUM_COLS + int j = int (i * 80 + j)"
      "int i * NUM_COLS + int j + NUM_COLS = int (i * 80 + j + 80)" by (simp_all add: console_consts)
    from that(1) obtain m where t: "t = s\<lparr>phys := m\<rparr>" "same_outside P (phys s) m" by blast
    have lt: "i * 80 + j < 1920" using that by simp
    show ?thesis
      unfolding e(2) unfolding e(1)
      using copy_cell_total[of t "out_base s" P VIDEO Q "i * 80 + j" "i * 80 + j + 80"] assms lt t
      by (auto dest: same_outside_trans)
  qed
  have row: "\<exists>t'. for_up 0 80 (\<lambda>j. copy_cell (out_base s) (int i * NUM_COLS + int j) VIDEO
        (int i * NUM_COLS + int j + NUM_COLS)) t = Some t' \<and> ?I () t'" if "?I () t" "i < 24" for i t
    using for_up_rule[of ?I 0 t 80] cp that by simp
  have rows: "\<exists>t'. for_up 0 24 (\<lambda>i. for_up 0 80 (\<lambda>j. copy_cell (out_base s) (int i * NUM_COLS + int j)
        VIDEO (int i * NUM_COLS + int j + NUM_COLS))) s = Some t' \<and> ?I () t'"
    using for_up_rule[of ?I 0 s 24] row by (simp add: exI[of _ "phys s"])
  have "\<exists>t'. for_up 0 80 (\<lambda>i. put_cell (out_base s) (SCREEN_SIZE + int i) 0 ATTRIB) t = Some t' \<and> ?I () t'"
    if "?I () t" for t
  proof -
    from that obtain m where t: "t = s\<lparr>phys := m\<rparr>" "same_outside P (phys s) m" by blast
    with fill_loop[of t "out_base s" P 1920 80 0 ATTRIB] assms show ?thesis
      by (auto simp: row_col same_outside_def filled_def)
  qed
  with rows show ?thesis unfolding scroll_screen_fixed by fastforce
qed

section \<open>The terminal as its users see it\<close>

record terminal =
  tbytes :: "u8 list"
  tx :: int
  ty :: int

definition term_page :: "'z console_scheme \<Rightarrow> nat \<Rightarrow> u32" where
  "term_page s i = (if i = vis_ix s then VIDEO else buffer_page i)"

definition term_view :: "'z console_scheme \<Rightarrow> nat \<Rightarrow> terminal" where
  "term_view s i = \<lparr>tbytes = map (\<lambda>k. phys s (pg (term_page s i) k)) [0..<4000],
     tx = screen_x s ! i, ty = screen_y s ! i\<rparr>"

definition term_scroll :: "u8 list \<Rightarrow> u8 list" where
  "term_scroll bs = drop 160 bs @ concat (replicate 80 [0, ATTRIB])"

definition term_advance :: "u8 \<Rightarrow> terminal \<Rightarrow> terminal" where
  "term_advance c t =
     (if c = 10 \<or> c = 13 then t\<lparr>tx := 0, ty := ty t + 1\<rparr>
      else let i = nat (80 * ty t + tx t);
               t' = t\<lparr>tbytes := (tbytes t)[2 * i := c, 2 * i + 1 := ATTRIB]\<rparr> in
        if tx t = 79 then t'\<lparr>tx := 0, ty := ty t + 1\<rparr> else t'\<lparr>tx := tx t + 1\<rparr>)"

text \<open>Printing a character: advance, and scroll when the cursor leaves the last row.\<close>

definition term_putc :: "u8 \<Rightarrow> terminal \<Rightarrow> terminal" where
  "term_putc c t =
     (if c = 0 then t
      else let t' = term_advance c t in
        if ty t' = 25 then t'\<lparr>tbytes := term_scroll (tbytes t'), ty := 24\<rparr> else t')"

definition cursor_ok :: "int \<Rightarrow> int \<Rightarrow> bool" where
  "cursor_ok x y \<longleftrightarrow> 0 \<le> x \<and> x < 80 \<and> 0 \<le> y \<and> y < 25"

definition console_wf :: "'z console_scheme \<Rightarrow> bool" where
  "console_wf s \<longleftrightarrow>
     paging_wf s \<and> length (screen_x s) = 3 \<and> length (screen_y s) = 3 \<and>
     (\<forall>i<3. cursor_ok (screen_x s ! i) (screen_y s ! i)) \<and>
     schedule_index s < 3 \<and> visible_screen s < 3"

text \<open>\<open>video_mem\<close> shows the scheduled terminal: what \<open>context_switch\<close> establishes.\<close>

definition coherent :: "'z console_scheme \<Rightarrow> bool" where
  "coherent s \<longleftrightarrow> video_page s = term_page s (sched_ix s)"


section \<open>Printing a character\<close>

lemma c_div_mod: "0 \<le> a \<Longrightarrow> a sdiv NUM_COLS = a div 80" "0 \<le> a \<Longrightarrow> a smod NUM_COLS = a mod 80"
  by (auto simp: NUM_COLS_def signed_divide_int_def signed_modulo_int_def minus_div_mult_eq_mod
      sgn_if mult.commute)

text \<open>The part of \<open>term_advance\<close> that concerns memory and the one that concerns the cursor.\<close>

definition next_xy :: "u8 \<Rightarrow> int \<Rightarrow> int \<Rightarrow> int \<times> int" where
  "next_xy c x y = (if c = 10 \<or> c = 13 \<or> x = 79 then (0, y + 1) else (x + 1, y))"

definition next_mem :: "u32 \<Rightarrow> u8 \<Rightarrow> int \<Rightarrow> int \<Rightarrow> (u32 \<Rightarrow> u8) \<Rightarrow> u32 \<Rightarrow> u8" where
  "next_mem P c x y m = (if c = 10 \<or> c = 13 then m
     else let i = nat (80 * y + x) in m(pg P (2 * i) := c, pg P (2 * i + 1) := ATTRIB))"

lemma emit_char_spec:
  assumes ix: "ix < length (screen_x s)" "ix < length (screen_y s)"
    and xy: "x = screen_x s ! ix" "y = screen_y s ! ix" "cursor_ok x y"
    and sp: "shows_page s base P" and c: "c \<noteq> 0"
    and n: "next_xy c x y = (x', y')"
    and sc: "\<And>m xs ys. \<exists>m'. scroll (s\<lparr>phys := m, screen_x := xs, screen_y := ys\<rparr>) =
        Some (s\<lparr>phys := m', screen_x := xs, screen_y := ys\<rparr>) \<and> R m m'"
  shows "\<exists>m'. emit_char ix base scroll c s =
      Some (s\<lparr>phys := m', screen_x := (screen_x s)[ix := x'],
        screen_y := (screen_y s)[ix := if y' = 25 then 24 else y']\<rparr>) \<and>
    (if y' = 25 then R (next_mem P c x y (phys s)) m' else m' = next_mem P c x y (phys s))"
proof -
  let ?m = "next_mem P c x y (phys s)"
  define x1 where "x1 = (if c = 10 \<or> c = 13 then 0 else x + 1)"
  have b: "0 \<le> x" "x < 80" "0 \<le> y" "y < 25" using xy(3) by (simp_all add: cursor_ok_def)
  define i where "i = nat (80 * y + x)"
  have i: "i < 2000" "NUM_COLS * y + x = int i" using b by (simp_all add: i_def NUM_COLS_def)
  have y': "y' = (if c = 10 \<or> c = 13 then y + 1 else y + (x + 1) sdiv NUM_COLS)"
    and x': "x' = x1 smod NUM_COLS"
    using n b by (auto simp: next_xy_def c_div_mod x1_def split: if_splits)
  have adv: "(if c = 10 \<or> c = 13 then do { s \<leftarrow> put_y ix (y + 1) s; put_x ix 0 s }
              else do { s \<leftarrow> put_cell base (NUM_COLS * y + x) c ATTRIB s;
                        s \<leftarrow> put_x ix (x + 1) s;
                        put_y ix (y + (x + 1) sdiv NUM_COLS) s }) =
      Some (s\<lparr>phys := ?m, screen_x := (screen_x s)[ix := x1], screen_y := (screen_y s)[ix := y']\<rparr>)"
    using ix put_cell_page[OF sp i(1)]
    by (auto simp: put_x_def put_y_def i(2) y' x1_def next_mem_def i_def[symmetric])
  obtain m' where "scroll (s\<lparr>phys := ?m, screen_x := (screen_x s)[ix := x1], screen_y := (screen_y s)[ix := y']\<rparr>) =
      Some (s\<lparr>phys := m', screen_x := (screen_x s)[ix := x1], screen_y := (screen_y s)[ix := y']\<rparr>)" "R ?m m'"
    using sc by blast
  then show ?thesis
    using ix c unfolding emit_char_def
    by (intro exI[of _ "if y' = 25 then m' else ?m"], cases "y' = 25")
      (simp_all add: xy(1,2)[symmetric] adv put_x_def put_y_def x' NUM_ROWS_def)
qed

text \<open>The specification of the terminal in the same two parts.\<close>

lemma term_putc_parts:
  assumes "c \<noteq> 0" and "next_xy c (tx t) (ty t) = (x', y')"
  shows "tx (term_putc c t) = x'" "ty (term_putc c t) = (if y' = 25 then 24 else y')"
  using assms by (auto simp: term_putc_def term_advance_def next_xy_def Let_def split: if_splits)

lemma blank_row_nth: "k < 160 \<Longrightarrow> concat (replicate n [0, a :: u8]) ! k = (if even k then 0 else a)" if "k < 2 * n"
  using that
proof (induction n arbitrary: k)
  case 0
  then show ?case by simp
next
  case (Suc n)
  show ?case
  proof (cases "k < 2")
    case True
    then show ?thesis by (cases k) (auto simp: less_Suc_eq)
  next
    case False
    then obtain l where k: "k = Suc (Suc l)" by (cases k; simp) (metis not0_implies_Suc not_less_eq numeral_2_eq_2 zero_less_Suc)
    then show ?thesis using Suc by simp
  qed
qed

lemma blank_row_length: "length (concat (replicate n [a, b])) = 2 * n"
  by (induction n) auto

lemma page_bytes_scroll:
  "map (\<lambda>k. scroll_mem P m (pg P k)) [0..<4000] = term_scroll (map (\<lambda>k. m (pg P k)) [0..<4000])"
proof (rule nth_equalityI)
  show "length (map (\<lambda>k. scroll_mem P m (pg P k)) [0..<4000]) =
      length (term_scroll (map (\<lambda>k. m (pg P k)) [0..<4000]))"
    by (simp add: term_scroll_def blank_row_length)
next
  fix k assume "k < length (map (\<lambda>k. scroll_mem P m (pg P k)) [0..<4000])"
  then have k: "k < 4000" by simp
  show "map (\<lambda>k. scroll_mem P m (pg P k)) [0..<4000] ! k =
      term_scroll (map (\<lambda>k. m (pg P k)) [0..<4000]) ! k"
  proof (cases "k < 3840")
    case True
    with k show ?thesis
      by (simp add: term_scroll_def nth_append scroll_mem_def filled_def scrolled_def add.commute)
  next
    case False
    with k show ?thesis
      by (simp add: term_scroll_def nth_append scroll_mem_def filled_def blank_row_nth)
  qed
qed

lemma page_bytes_upd:
  "k < 4000 \<Longrightarrow> map (\<lambda>j. (m(pg P k := b)) (pg P j)) [0..<4000] = (map (\<lambda>j. m (pg P j)) [0..<4000])[k := b]"
  by (rule nth_equalityI) (auto simp: nth_list_update)

lemma term_putc_bytes:
  assumes "c \<noteq> 0" "next_xy c (tx t) (ty t) = (x', y')" "cursor_ok (tx t) (ty t)"
    and "tbytes t = map (\<lambda>k. m (pg P k)) [0..<4000]"
  shows "tbytes (term_putc c t) = map (\<lambda>k. (if y' = 25 then scroll_mem P (next_mem P c (tx t) (ty t) m)
      else next_mem P c (tx t) (ty t) m) (pg P k)) [0..<4000]"
proof -
  have "nat (80 * ty t + tx t) < 2000" using assms(3) by (simp add: cursor_ok_def nat_less_iff)
  then have i: "2 * nat (80 * ty t + tx t) + 1 < 4000" by simp
  have "tbytes (term_advance c t) = map (\<lambda>k. next_mem P c (tx t) (ty t) m (pg P k)) [0..<4000]"
    using i assms(4) by (simp add: term_advance_def next_mem_def Let_def page_bytes_upd del: fun_upd_apply)
  moreover have "ty (term_advance c t) = y'"
    using assms(2) by (auto simp: term_advance_def next_xy_def Let_def split: if_splits)
  ultimately show ?thesis
    using assms(1) by (simp add: term_putc_def Let_def page_bytes_scroll)
qed


lemma next_xy_ok:
  "cursor_ok x y \<Longrightarrow> next_xy c x y = (x', y') \<Longrightarrow> cursor_ok x' (if y' = 25 then 24 else y')"
  by (auto simp: cursor_ok_def next_xy_def split: if_splits)

lemma next_mem_outside: "cursor_ok x y \<Longrightarrow> same_outside P m (next_mem P c x y m)"
proof -
  assume "cursor_ok x y"
  then have "nat (80 * y + x) < 2000" by (simp add: cursor_ok_def nat_less_iff)
  then have "2 * nat (80 * y + x) + 1 < 4000" by simp
  then show ?thesis by (auto simp: next_mem_def Let_def intro!: same_outside_upd)
qed

lemma console_wf_upd:
  assumes "console_wf s" "ix < 3" "cursor_ok x y"
  shows "console_wf (s\<lparr>phys := m, screen_x := (screen_x s)[ix := x], screen_y := (screen_y s)[ix := y]\<rparr>)"
  using assms by (auto simp: console_wf_def nth_list_update)

lemma emit_char_total:
  assumes wf: "console_wf s" and ix: "ix < 3" and sp: "shows_page s base P"
    and sc: "\<And>m xs ys. \<exists>m'. scroll (s\<lparr>phys := m, screen_x := xs, screen_y := ys\<rparr>) =
        Some (s\<lparr>phys := m', screen_x := xs, screen_y := ys\<rparr>) \<and> same_outside P m m'"
  shows "\<exists>m' x' y'. emit_char ix base scroll c s =
      Some (s\<lparr>phys := m', screen_x := (screen_x s)[ix := x'], screen_y := (screen_y s)[ix := y']\<rparr>) \<and>
    cursor_ok x' y' \<and> same_outside P (phys s) m'"
proof -
  let ?x = "screen_x s ! ix" and ?y = "screen_y s ! ix"
  have ok: "cursor_ok ?x ?y" "ix < length (screen_x s)" "ix < length (screen_y s)"
    using wf ix by (simp_all add: console_wf_def)
  show ?thesis
  proof (cases "c = 0")
    case True
    then show ?thesis using ok
      by (intro exI[of _ "phys s"] exI[of _ ?x] exI[of _ ?y]) (simp add: emit_char_def)
  next
    case False
    obtain x' y' where n: "next_xy c ?x ?y = (x', y')" by fastforce
    from emit_char_spec[OF ok(2,3) refl refl ok(1) sp False n sc] obtain m' where m':
      "emit_char ix base scroll c s = Some (s\<lparr>phys := m', screen_x := (screen_x s)[ix := x'],
        screen_y := (screen_y s)[ix := if y' = 25 then 24 else y']\<rparr>)"
      "if y' = 25 then same_outside P (next_mem P c ?x ?y (phys s)) m' else m' = next_mem P c ?x ?y (phys s)"
      by blast
    have "same_outside P (phys s) m'"
      using m'(2) next_mem_outside[OF ok(1), of P "phys s" c] by (auto dest: same_outside_trans split: if_splits)
    with m'(1) next_xy_ok[OF ok(1) n] show ?thesis by blast
  qed
qed

text \<open>On the page of terminal \<open>ix\<close>, with a scroll that moves it up, \<open>emit_char\<close> is \<^const>\<open>term_putc\<close>.\<close>

lemma emit_char_refines:
  assumes wf: "console_wf s" and ix: "ix < 3" and sp: "shows_page s base (term_page s ix)"
    and sc: "\<And>m xs ys. scroll (s\<lparr>phys := m, screen_x := xs, screen_y := ys\<rparr>) =
        Some (s\<lparr>phys := scroll_mem (term_page s ix) m, screen_x := xs, screen_y := ys\<rparr>)"
    and e: "emit_char ix base scroll c s = Some s'"
  shows "term_view s' ix = term_putc c (term_view s ix)"
proof (cases "c = 0")
  case True
  then show ?thesis using e by (simp add: emit_char_def term_putc_def)
next
  case False
  let ?x = "screen_x s ! ix" and ?y = "screen_y s ! ix" and ?P = "term_page s ix"
  have ok: "cursor_ok ?x ?y" "ix < length (screen_x s)" "ix < length (screen_y s)"
    using wf ix by (simp_all add: console_wf_def)
  obtain x' y' where n: "next_xy c ?x ?y = (x', y')" by fastforce
  have "\<exists>m'. emit_char ix base scroll c s = Some (s\<lparr>phys := m', screen_x := (screen_x s)[ix := x'],
        screen_y := (screen_y s)[ix := if y' = 25 then 24 else y']\<rparr>) \<and>
     (if y' = 25 then m' = scroll_mem ?P (next_mem ?P c ?x ?y (phys s)) else m' = next_mem ?P c ?x ?y (phys s))"
    by (rule emit_char_spec[OF ok(2,3) refl refl ok(1) sp False n]) (simp add: sc)
  then have s': "s' = s\<lparr>phys := (if y' = 25 then scroll_mem ?P (next_mem ?P c ?x ?y (phys s))
        else next_mem ?P c ?x ?y (phys s)), screen_x := (screen_x s)[ix := x'],
        screen_y := (screen_y s)[ix := if y' = 25 then 24 else y']\<rparr>"
    using e by (auto split: if_splits)
  let ?t = "term_view s ix"
  have t: "tx ?t = ?x" "ty ?t = ?y" "tbytes ?t = map (\<lambda>k. phys s (pg ?P k)) [0..<4000]"
    by (simp_all add: term_view_def)
  show ?thesis
  proof (rule terminal.equality)
    show "tbytes (term_view s' ix) = tbytes (term_putc c ?t)"
      using term_putc_bytes[OF False _ _ t(3), of x' y'] n ok(1) t(1,2) by (simp add: s' term_view_def term_page_def)
  qed (use term_putc_parts[OF False, of ?t x' y'] n ok t in \<open>simp_all add: s' term_view_def\<close>)
qed

section \<open>The console operations are safe and refine the terminals\<close>

definition video_area :: "u32 \<Rightarrow> bool" where
  "video_area p \<longleftrightarrow> 184 \<le> unat p div 0x1000 \<and> unat p div 0x1000 < 188"

definition screen_pages :: "u32 set" where
  "screen_pages = {0xB8000, 0xB9000, 0xBA000, 0xBB000}"

lemma screen_page_number:
  assumes "P \<in> screen_pages" and "k < 4096"
  shows "P = of_nat (0x1000 * (unat (pg P k) div 0x1000))" "video_area (pg P k)"
  using assms pg_div_num[OF assms(2)] by (auto simp: screen_pages_def video_area_def)

lemma same_outside_area:
  assumes "P \<in> screen_pages" and "same_outside P m m'" and "\<not> video_area p"
  shows "m' p = m p"
  using assms(2,3) screen_page_number(2)[OF assms(1), of "off P p"]
  by (cases "4000 \<le> off P p") (auto simp: same_outside_def)

text \<open>What the printing operations may change.\<close>

definition prints :: "'z console_scheme \<Rightarrow> 'z console_scheme \<Rightarrow> bool" where
  "prints s s' \<longleftrightarrow> (\<exists>m xs ys. s' = s\<lparr>phys := m, screen_x := xs, screen_y := ys\<rparr> \<and>
     (\<forall>p. \<not> video_area p \<longrightarrow> m p = phys s p))"

lemma prints_refl [simp]: "prints s s"
  unfolding prints_def by (intro exI[of _ "phys s"] exI[of _ "screen_x s"] exI[of _ "screen_y s"]) simp

lemma prints_trans: "prints s t \<Longrightarrow> prints t u \<Longrightarrow> prints s u"
  unfolding prints_def
proof (elim exE conjE, goal_cases)
  case (1 m m' xs xs' ys ys')
  then show ?case
    by (intro exI[of _ m'] exI[of _ xs'] exI[of _ ys']) simp
qed

lemma video_page_in: "paging_wf s \<Longrightarrow> video_page s \<in> screen_pages"
proof -
  assume "paging_wf s"
  then obtain j where j: "j \<le> 3" "pte s VIDEO_MEMORY = video_entry j 3" by (auto simp: paging_wf_def)
  with video_entry_bits(1)[OF j(1), of 3] le3_cases[OF j(1)] show ?thesis
    by (auto simp: video_page_def screen_pages_def)
qed

lemma buffer_page_in: "i < 3 \<Longrightarrow> buffer_page i \<in> screen_pages"
  by (auto simp: buffer_page_def screen_pages_def less_Suc_eq numeral_3_eq_3)

lemma ix_bounds: "console_wf s \<Longrightarrow> sched_ix s < 3" "console_wf s \<Longrightarrow> vis_ix s < 3"
  by (simp_all add: console_wf_def word_less_nat_alt)

lemma sched_visible_ix: "sched_visible s \<longleftrightarrow> sched_ix s = vis_ix s"
  unfolding sched_visible_def word_unat_eq_iff by simp

definition out_page :: "'z console_scheme \<Rightarrow> u32" where
  "out_page s = (if sched_visible s then video_page s else buffer_page (sched_ix s))"

lemma out_base_buffer: "\<not> sched_visible s \<Longrightarrow> out_base s = buffer_page (sched_ix s)"
  by (simp add: out_base_def buffer_page_def VIDEO_def algebra_simps)

lemma shows_out: "console_wf s \<Longrightarrow> shows_page s (out_base s) (out_page s)"
  using shows_video[of s] shows_buffer[of s "sched_ix s"] ix_bounds[of s]
  by (auto simp: out_page_def out_base_buffer console_wf_def) (simp add: out_base_def)

lemma out_page_in: "console_wf s \<Longrightarrow> out_page s \<in> screen_pages"
  using video_page_in[of s] buffer_page_in[of "sched_ix s"] ix_bounds[of s]
  by (auto simp: out_page_def console_wf_def)

lemma out_base_upd [simp]:
  "out_base (s\<lparr>screen_x := xs\<rparr>) = out_base s" "out_base (s\<lparr>screen_y := xs\<rparr>) = out_base s"
  by (simp_all add: out_base_def sched_visible_def)

lemma emit_prints:
  assumes "console_wf s" "ix < 3" "P \<in> screen_pages" "shows_page s base P"
    and "\<And>m xs ys. \<exists>m'. scroll (s\<lparr>phys := m, screen_x := xs, screen_y := ys\<rparr>) =
        Some (s\<lparr>phys := m', screen_x := xs, screen_y := ys\<rparr>) \<and> same_outside P m m'"
  shows "\<exists>s'. emit_char ix base scroll c s = Some s' \<and> console_wf s' \<and> prints s s' \<and>
    same_outside P (phys s) (phys s') \<and>
    (\<forall>i. i \<noteq> ix \<longrightarrow> screen_x s' ! i = screen_x s ! i \<and> screen_y s' ! i = screen_y s ! i)"
proof -
  from emit_char_total[OF assms(1,2,4,5)] obtain m' x' y' where e: "emit_char ix base scroll c s =
      Some (s\<lparr>phys := m', screen_x := (screen_x s)[ix := x'], screen_y := (screen_y s)[ix := y']\<rparr>)"
    and ok: "cursor_ok x' y'" and so: "same_outside P (phys s) m'" by blast
  have "\<forall>p. \<not> video_area p \<longrightarrow> m' p = phys s p" using same_outside_area[OF assms(3) so] by blast
  then have "prints s (s\<lparr>phys := m', screen_x := (screen_x s)[ix := x'], screen_y := (screen_y s)[ix := y']\<rparr>)"
    unfolding prints_def by blast
  with e console_wf_upd[OF assms(1,2) ok] so show ?thesis by auto
qed

lemma phys_xy:
  "s\<lparr>screen_x := xs, screen_y := ys, phys := m\<rparr> = s\<lparr>phys := m, screen_x := xs, screen_y := ys\<rparr>"
  by simp

lemma scroll_total:
  assumes "console_wf s"
  shows "\<exists>m'. scroll_screen (s\<lparr>phys := m, screen_x := xs, screen_y := ys\<rparr>) =
    Some (s\<lparr>phys := m', screen_x := xs, screen_y := ys\<rparr>) \<and> same_outside (out_page s) m m'"
  using scroll_screen_total[of "s\<lparr>phys := m, screen_x := xs, screen_y := ys\<rparr>" "out_page s" "video_page s"]
    shows_out[OF assms] shows_video[of s] assms
  by (auto simp: console_wf_def) (metis phys_xy)

lemma key_scroll_total:
  assumes "console_wf s"
  shows "key_scroll_screen (s\<lparr>phys := m, screen_x := xs, screen_y := ys\<rparr>) =
    Some (s\<lparr>phys := scroll_mem VIDEO m, screen_x := xs, screen_y := ys\<rparr>)"
  using key_scroll_screen_eq[of "s\<lparr>phys := m, screen_x := xs, screen_y := ys\<rparr>"] assms
  by (simp add: console_wf_def)

lemma putc_safe:
  assumes "console_wf s"
  shows "\<exists>s'. putc c s = Some s' \<and> console_wf s' \<and> prints s s' \<and>
    same_outside (out_page s) (phys s) (phys s') \<and>
    (\<forall>i. i \<noteq> sched_ix s \<longrightarrow> screen_x s' ! i = screen_x s ! i \<and> screen_y s' ! i = screen_y s ! i)"
  unfolding putc_def
  using emit_prints[OF assms ix_bounds(1)[OF assms] out_page_in[OF assms] shows_out[OF assms] scroll_total[OF assms]]
  by blast

lemma putc_keyboard_safe:
  assumes "console_wf s"
  shows "\<exists>s'. putc_keyboard c s = Some s' \<and> console_wf s' \<and> prints s s' \<and>
    same_outside VIDEO (phys s) (phys s') \<and>
    (\<forall>i. i \<noteq> vis_ix s \<longrightarrow> screen_x s' ! i = screen_x s ! i \<and> screen_y s' ! i = screen_y s ! i)"
  unfolding putc_keyboard_def
proof -
  have "VIDEO \<in> screen_pages" "paging_wf s"
    using assms by (simp_all add: screen_pages_def VIDEO_def console_wf_def)
  moreover have "\<exists>m'. key_scroll_screen (s\<lparr>phys := m, screen_x := xs, screen_y := ys\<rparr>) =
      Some (s\<lparr>phys := m', screen_x := xs, screen_y := ys\<rparr>) \<and> same_outside VIDEO m m'" for m xs ys
    using key_scroll_total[OF assms] by fastforce
  ultimately show "\<exists>s'. emit_char (vis_ix s) KEYBOARD_VIDEO key_scroll_screen c s = Some s' \<and>
    console_wf s' \<and> prints s s' \<and> same_outside VIDEO (phys s) (phys s') \<and>
    (\<forall>i. i \<noteq> vis_ix s \<longrightarrow> screen_x s' ! i = screen_x s ! i \<and> screen_y s' ! i = screen_y s ! i)"
    by (intro emit_prints[OF assms ix_bounds(2)[OF assms]] shows_key)
qed

text \<open>Distinct terminals occupy distinct pages, so printing on one leaves the others alone.\<close>

lemma screen_pages_apart:
  assumes "P \<in> screen_pages" "Q \<in> screen_pages" "P \<noteq> Q" "k < 4000"
  shows "4000 \<le> off P (pg Q k)"
proof (rule ccontr)
  let ?l = "off P (pg Q k)"
  assume "\<not> 4000 \<le> ?l"
  with screen_page_number(1)[OF assms(1), of ?l] screen_page_number(1)[OF assms(2), of k] assms(3,4)
  show False by simp
qed

lemma term_page_in: "console_wf s \<Longrightarrow> i < 3 \<Longrightarrow> term_page s i \<in> screen_pages"
  using buffer_page_in[of i] by (auto simp: term_page_def screen_pages_def VIDEO_def)

lemma buffer_page_inj: "i < 3 \<Longrightarrow> j < 3 \<Longrightarrow> buffer_page i = buffer_page j \<longleftrightarrow> i = j"
  by (auto simp: buffer_page_def less_Suc_eq numeral_3_eq_3)

lemma term_page_inj:
  "i < 3 \<Longrightarrow> j < 3 \<Longrightarrow> term_page s i = term_page s j \<longleftrightarrow> i = j"
  using buffer_page_inj[of i j]
  by (auto simp: term_page_def) (auto simp: buffer_page_def VIDEO_def less_Suc_eq numeral_3_eq_3)

lemma term_view_other:
  assumes wf: "console_wf s" and ij: "i < 3" "j < 3" "i \<noteq> j"
    and so: "same_outside (term_page s j) (phys s) (phys s')"
    and v: "visible_screen s' = visible_screen s"
    and xy: "screen_x s' ! i = screen_x s ! i" "screen_y s' ! i = screen_y s ! i"
  shows "term_view s' i = term_view s i"
proof -
  have "phys s' (pg (term_page s i) k) = phys s (pg (term_page s i) k)" if "k < 4000" for k
    using screen_pages_apart[OF term_page_in[OF wf ij(2)] term_page_in[OF wf ij(1)] _ that] so
      term_page_inj[OF ij(2,1)] ij(3)
    by (auto simp: same_outside_def)
  then show ?thesis using v xy by (simp add: term_view_def term_page_def)
qed

lemma coherent_shows:
  assumes "console_wf s" "coherent s"
  shows "out_page s = term_page s (sched_ix s)" "shows_page s VIDEO (out_page s)"
proof -
  show e: "out_page s = term_page s (sched_ix s)"
    using assms(2) by (auto simp: out_page_def coherent_def term_page_def sched_visible_ix)
  then show "shows_page s VIDEO (out_page s)"
    using assms shows_video[of s] by (simp add: coherent_def console_wf_def)
qed

lemma prints_fields:
  assumes "prints s s'"
  shows "visible_screen s' = visible_screen s" "schedule_index s' = schedule_index s"
    "video_page s' = video_page s" "translate s' = translate s" "paging_wf s' = paging_wf s"
    "\<not> video_area p \<Longrightarrow> phys s' p = phys s p"
  using assms by (auto simp: prints_def video_page_def)

lemma prints_coherent: "prints s s' \<Longrightarrow> coherent s' = coherent s"
  by (simp add: coherent_def prints_fields term_page_def)

lemma putc_step:
  assumes wf: "console_wf s" and co: "coherent s"
  shows "\<exists>s'. putc c s = Some s' \<and> console_wf s' \<and> coherent s' \<and> prints s s' \<and>
    (\<forall>i<3. term_view s' i = (if i = sched_ix s then term_putc c (term_view s i) else term_view s i))"
proof -
  from putc_safe[OF wf, of c] obtain s' where s': "putc c s = Some s'" "console_wf s'" "prints s s'"
    and so: "same_outside (out_page s) (phys s) (phys s')"
    and xy: "\<forall>i. i \<noteq> sched_ix s \<longrightarrow> screen_x s' ! i = screen_x s ! i \<and> screen_y s' ! i = screen_y s ! i"
    by blast
  note sh = coherent_shows[OF wf co] and ix = ix_bounds(1)[OF wf]
  have "term_view s' (sched_ix s) = term_putc c (term_view s (sched_ix s))"
  proof (rule emit_char_refines[OF wf ix])
    show "shows_page s (out_base s) (term_page s (sched_ix s))" using shows_out[OF wf] sh by simp
    show "scroll_screen (s\<lparr>phys := m, screen_x := xs, screen_y := ys\<rparr>) =
        Some (s\<lparr>phys := scroll_mem (term_page s (sched_ix s)) m, screen_x := xs, screen_y := ys\<rparr>)" for m xs ys
      using scroll_screen_eq[of "s\<lparr>phys := m, screen_x := xs, screen_y := ys\<rparr>" "out_page s"]
        shows_out[OF wf] sh by simp
  qed (use s'(1) in \<open>simp add: putc_def\<close>)
  moreover have "term_view s' i = term_view s i" if "i < 3" "i \<noteq> sched_ix s" for i
    by (rule term_view_other[OF wf that(1) ix that(2)]) (use so sh(1) xy that prints_fields(1)[OF s'(3)] in auto)
  ultimately show ?thesis using s' co prints_coherent[OF s'(3)] by auto
qed

lemma putc_keyboard_step:
  assumes wf: "console_wf s"
  shows "\<exists>s'. putc_keyboard c s = Some s' \<and> console_wf s' \<and> prints s s' \<and>
    (\<forall>i<3. term_view s' i = (if i = vis_ix s then term_putc c (term_view s i) else term_view s i))"
proof -
  from putc_keyboard_safe[OF wf, of c] obtain s' where s': "putc_keyboard c s = Some s'" "console_wf s'" "prints s s'"
    and so: "same_outside VIDEO (phys s) (phys s')"
    and xy: "\<forall>i. i \<noteq> vis_ix s \<longrightarrow> screen_x s' ! i = screen_x s ! i \<and> screen_y s' ! i = screen_y s ! i"
    by blast
  have p: "term_page s (vis_ix s) = VIDEO" by (simp add: term_page_def)
  note ix = ix_bounds(2)[OF wf]
  have "term_view s' (vis_ix s) = term_putc c (term_view s (vis_ix s))"
  proof (rule emit_char_refines[OF wf ix])
    show "shows_page s KEYBOARD_VIDEO (term_page s (vis_ix s))"
      using shows_key[of s] wf by (simp add: p console_wf_def)
  qed (use s'(1) key_scroll_total[OF wf] in \<open>simp_all add: putc_keyboard_def p\<close>)
  moreover have "term_view s' i = term_view s i" if "i < 3" "i \<noteq> vis_ix s" for i
    by (rule term_view_other[OF wf that(1) ix that(2)]) (use so p xy that prints_fields(1)[OF s'(3)] in auto)
  ultimately show ?thesis using s' by auto
qed

text \<open>
  C32: The echo path: \<open>putc_keyboard\<close> prints on the visible terminal, whichever process is
  scheduled, under the same specification and with the same guarantees.
\<close>

theorem putc_keyboard_refines:
  assumes wf: "console_wf s"
  shows "\<exists>s'. putc_keyboard c s = Some s' \<and> console_wf s' \<and> prints s s' \<and>
    (\<forall>i<3. term_view s' i = (if i = vis_ix s then term_putc c (term_view s i) else term_view s i))"
  by (rule putc_keyboard_step[OF wf])

section \<open>Clearing and deleting\<close>

lemma filled_outside [simp]: "m + n \<le> 2000 \<Longrightarrow> same_outside P mem (filled P m n c a mem)"
  by (auto simp: same_outside_def filled_def)

lemma prints_phys:
  assumes "P \<in> screen_pages" "same_outside P (phys s) m"
  shows "prints s (s\<lparr>phys := m, screen_x := xs, screen_y := ys\<rparr>)"
  unfolding prints_def using same_outside_area[OF assms] by blast

lemma VIDEO_in [simp]: "VIDEO \<in> screen_pages"
  by (simp add: screen_pages_def VIDEO_def)

lemma key_clear_screen_eq:
  assumes wf: "console_wf s"
  shows "key_clear_screen s = Some (s\<lparr>phys := filled VIDEO 0 2000 0 7 (phys s),
      screen_x := (screen_x s)[vis_ix s := 0], screen_y := (screen_y s)[vis_ix s := 0]\<rparr>)"
  using wf ix_bounds(2)[OF wf] fill_screen[OF shows_key, of s 0 7]
  by (simp add: key_clear_screen_def put_x_def put_y_def console_wf_def)

lemma clear_screen_eq:
  assumes wf: "console_wf s"
  shows "clear_screen s = Some (s\<lparr>phys := filled (video_page s) 0 2000 0 ATTRIB (phys s),
      screen_x := (screen_x s)[sched_ix s := 0], screen_y := (screen_y s)[sched_ix s := 0]\<rparr>)"
  using wf ix_bounds(1)[OF wf] fill_screen[OF shows_video, of s 0 ATTRIB]
  by (simp add: clear_screen_def put_x_def put_y_def console_wf_def)

lemma clear_safe:
  assumes wf: "console_wf s"
  shows "\<exists>s'. key_clear_screen s = Some s' \<and> console_wf s' \<and> prints s s'"
    and "\<exists>s'. clear_screen s = Some s' \<and> console_wf s' \<and> prints s s'"
  using wf console_wf_upd[OF wf ix_bounds(2)[OF wf], of 0 0] console_wf_upd[OF wf ix_bounds(1)[OF wf], of 0 0]
    video_page_in[of s]
  by (auto simp: key_clear_screen_eq clear_screen_eq cursor_ok_def prints_phys console_wf_def
      intro: prints_phys[of VIDEO] prints_phys[of "video_page s"])

lemma clear_eq: "paging_wf s \<Longrightarrow> clear s = Some (s\<lparr>phys := filled (video_page s) 0 2000 32 ATTRIB (phys s)\<rparr>)"
  using fill_loop[OF shows_video, of s 0 2000 32 ATTRIB] by (simp add: clear_def)

lemma delete_char_safe:
  assumes wf: "console_wf s"
  shows "\<exists>s'. delete_char s = Some s' \<and> console_wf s' \<and> prints s s'"
proof -
  let ?x = "screen_x s ! vis_ix s" and ?y = "screen_y s ! vis_ix s"
  note ix = ix_bounds(2)[OF wf]
  have ok: "cursor_ok ?x ?y" "vis_ix s < length (screen_x s)" "vis_ix s < length (screen_y s)" "paging_wf s"
    using wf ix by (simp_all add: console_wf_def)
  show ?thesis
  proof (cases "?x = 0 \<and> ?y = 0 \<or> visible_counter s = Some 0")
    case True
    then show ?thesis using ok wf by (auto simp: delete_char_def)
  next
    case False
    define i where "i = nat (80 * ?y + ?x)"
    have i: "i < 2000" "0 < i" "NUM_COLS * ?y + ?x = int i"
      using ok(1) False by (auto simp: i_def NUM_COLS_def cursor_ok_def nat_less_iff)
    have a: "cell_addr KEYBOARD_VIDEO (NUM_COLS * ?y + ?x - 1) = pg KEYBOARD_VIDEO (2 * (i - 1))"
      "cell_addr KEYBOARD_VIDEO (NUM_COLS * ?y + ?x) + 1 = pg KEYBOARD_VIDEO (2 * i + 1)"
      using i cell_addr_pg(1)[of KEYBOARD_VIDEO "i - 1"] by (simp_all add: cell_addr_pg of_nat_diff)
    let ?m = "(phys s)(pg VIDEO (2 * (i - 1)) := 32, pg VIDEO (2 * i + 1) := ATTRIB)"
    have so: "same_outside VIDEO (phys s) ?m"
      using i by (intro same_outside_upd) auto
    have w: "delete_char s = Some (s\<lparr>phys := ?m, 
        screen_x := (screen_x s)[vis_ix s := if ?x = 0 then NUM_COLS - 1 else ?x - 1],
        screen_y := (screen_y s)[vis_ix s := if ?x = 0 then ?y - 1 else ?y]\<rparr>)"
      using False ok i(1) shows_key[OF ok(4)] a
      by (cases "?x = 0") (auto simp: delete_char_def vwrite_page[of _ KEYBOARD_VIDEO VIDEO] put_x_def put_y_def)
    have "cursor_ok (if ?x = 0 then NUM_COLS - 1 else ?x - 1) (if ?x = 0 then ?y - 1 else ?y)"
      using ok(1) False by (auto simp: cursor_ok_def NUM_COLS_def)
    with w console_wf_upd[OF wf ix] prints_phys[OF VIDEO_in so] show ?thesis by blast
  qed
qed

section \<open>Strings\<close>

fun putcs :: "u8 list \<Rightarrow> 'z console_scheme \<Rightarrow> 'z console_scheme option" where
  "putcs [] s = Some s"
| "putcs (c # cs) s = do { s' \<leftarrow> putc c s; putcs cs s' }"

lemma putcs_append: "putcs (xs @ ys) s = do { s' \<leftarrow> putcs xs s; putcs ys s' }"
  by (induction xs arbitrary: s) (auto split: bind_splits)

text \<open>Printing a sequence is printing its characters one after the other on the terminal.\<close>

lemma putcs_safe: "console_wf s \<Longrightarrow> \<exists>s'. putcs cs s = Some s' \<and> console_wf s' \<and> prints s s'"
proof (induction cs arbitrary: s)
  case Nil
  then show ?case by simp
next
  case (Cons c cs)
  from putc_safe[OF Cons.prems, of c] obtain t where t: "putc c s = Some t" "console_wf t" "prints s t" by blast
  from Cons.IH[OF t(2)] t show ?case by (auto intro: prints_trans)
qed

lemma putcs_refines:
  "console_wf s \<Longrightarrow> coherent s \<Longrightarrow> \<exists>s'. putcs cs s = Some s' \<and> console_wf s' \<and> coherent s' \<and> prints s s' \<and>
    (\<forall>i<3. term_view s' i = (if i = sched_ix s then fold term_putc cs (term_view s i) else term_view s i))"
proof (induction cs arbitrary: s)
  case Nil
  then show ?case by simp
next
  case (Cons c cs)
  from putc_step[OF Cons.prems, of c] obtain t where t: "putc c s = Some t" "console_wf t" "coherent t" "prints s t"
    "\<forall>i<3. term_view t i = (if i = sched_ix s then term_putc c (term_view s i) else term_view s i)" by blast
  from Cons.IH[OF t(2,3)] t prints_fields(2)[OF t(4)] show ?case by (fastforce intro: prints_trans)
qed

lemma puts_from_eq:
  assumes "\<And>t i. prints s t \<Longrightarrow> i < length xs \<Longrightarrow> rd t (p + index + of_nat i) = Some (xs ! i) \<and> xs ! i \<noteq> 0"
    and "\<And>t. prints s t \<Longrightarrow> rd t (p + index + of_nat (length xs)) = Some 0" and "console_wf s"
  shows "puts_from rd p index s = map_option (Pair (index + of_nat (length xs))) (putcs xs s)"
  using assms
proof (induction xs arbitrary: s index)
  case Nil
  then show ?case by (subst puts_from.simps) simp
next
  case (Cons x xs)
  from putc_safe[OF Cons.prems(3), of x] obtain t where t: "putc x s = Some t" "console_wf t" "prints s t" by blast
  have x: "rd s (p + index) = Some x" "x \<noteq> 0" using Cons.prems(1)[of s 0] by simp_all
  have "puts_from rd p (index + 1) t = map_option (Pair (index + 1 + of_nat (length xs))) (putcs xs t)"
  proof (rule Cons.IH)
    fix u i assume u: "prints t u" "i < length xs"
    from Cons.prems(1)[of u "Suc i"] prints_trans[OF t(3) u(1)] u(2)
    show "rd u (p + (index + 1) + of_nat i) = Some (xs ! i) \<and> xs ! i \<noteq> 0" by (simp add: algebra_simps)
  next
    fix u assume "prints t u"
    with Cons.prems(2)[of u] prints_trans[OF t(3)] show "rd u (p + (index + 1) + of_nat (length xs)) = Some 0"
      by (simp add: algebra_simps)
  qed (rule t(2))
  with x t show ?case by (subst puts_from.simps) (simp add: algebra_simps)
qed

text \<open>\<open>puts\<close> on a string outside the screen pages prints its characters and returns its length.\<close>

lemma puts_string:
  assumes str: "cstring rd s p xs" and wf: "console_wf s"
    and stab: "\<And>t a. prints s t \<Longrightarrow> rd t a = rd s a"
  shows "puts rd p s = map_option (Pair (of_nat (length xs))) (putcs xs s)"
proof -
  have "rd t (p + 0 + of_nat i) = Some (xs ! i) \<and> xs ! i \<noteq> 0" if "prints s t" "i < length xs" for t i
    using cstring_nth[OF str that(2)] stab[OF that(1)] by simp
  moreover have "rd t (p + 0 + of_nat (length xs)) = Some 0" if "prints s t" for t
    using cstring_end[OF str] stab[OF that] by simp
  ultimately have "puts_from rd p 0 s = map_option (Pair (0 + of_nat (length xs))) (putcs xs s)"
    using wf by (rule puts_from_eq)
  then show ?thesis by (simp add: puts_def)
qed

text \<open>
  C3: \<open>putc\<close> refines the terminal specification.  While \<open>video_mem\<close> shows the scheduled
  terminal, printing a character returns without a fault, changes that terminal exactly as
  \<^const>\<open>term_putc\<close> says (cell write, wrap at column 80, newline, scroll at row 25), leaves the
  other two terminals and all memory outside the screen pages as they were, and keeps every cursor
  on its screen.
\<close>

theorem putc_refines:
  assumes wf: "console_wf s" and co: "coherent s"
  shows "\<exists>s'. putc c s = Some s' \<and> console_wf s' \<and> coherent s' \<and> prints s s' \<and>
    (\<forall>i<3. term_view s' i = (if i = sched_ix s then term_putc c (term_view s i) else term_view s i))"
  by (rule putc_step[OF wf co])

end
