(* ===== verification/Vidctl.thy ===== *)
theory Vidctl
  imports Console
begin

text \<open>
  \<open>vidctl.c\<close>: the screen buffers and the switch of the visible terminal.  \<open>switch_vid\<close> saves
  video memory into the buffer of the terminal that was visible, brings the buffer of the target
  to video memory and redirects the user video page; the theorem is that every terminal keeps its
  content over the switch.
\<close>

definition BUFFER_1 :: u32 where "BUFFER_1 = 0xB9000"
definition BUFFER_2 :: u32 where "BUFFER_2 = 0xBA000"
definition BUFFER_3 :: u32 where "BUFFER_3 = 0xBB000"
definition BYTES_COPY :: u32 where "BYTES_COPY = 4000"

definition init_vid :: "'z console_scheme \<Rightarrow> 'z console_scheme option" where
  "init_vid s0 =
     do { s \<leftarrow> for_up 0 2000 (\<lambda>i s. do {
            s \<leftarrow> put_cell BUFFER_1 (int i) 0 ATTRIB s;
            s \<leftarrow> put_cell BUFFER_2 (int i) 0 ATTRIB s;
            put_cell BUFFER_3 (int i) 0 ATTRIB s }) s0;
          Some (s\<lparr>visible_screen := 0\<rparr>) }"

definition copy_vid :: "i32 \<Rightarrow> u32" where
  "copy_vid target_screen = (if sint target_screen < -1 \<or> sint target_screen > 2 then 0 else 0)"

text \<open>The user video page that goes with a scheduled terminal, as \<open>switch_vid\<close> and \<open>context_switch\<close> set it.\<close>

definition user_video_entry :: "'z console_scheme \<Rightarrow> u32" where
  "user_video_entry s =
     (if visible_screen s \<noteq> ucast (schedule_index s)
      then (PAGE_KB + (VIDEO + 0x1000 * (ucast (schedule_index s) + 1))) OR 5
      else (PAGE_KB + VIDEO) OR 5)"

definition switch_vid :: "i32 \<Rightarrow> 'z console_scheme \<Rightarrow> (u32 \<times> 'z console_scheme) option" where
  "switch_vid target_screen s0 =
     (if sint target_screen < -1 \<or> sint target_screen > 2 then Some (0, s0)
      else if target_screen = visible_screen s0 then Some (1, s0)
      else do {
        let write = BUFFER_1 + 0x1000 * target_screen;
        let save = BUFFER_1 + 0x1000 * visible_screen s0;
        s \<leftarrow> memcpy vread vwrite s0 save KEYBOARD_VIDEO BYTES_COPY;
        s \<leftarrow> memcpy vread vwrite s KEYBOARD_VIDEO write BYTES_COPY;
        let s = s\<lparr>visible_screen := target_screen\<rparr>;
        let s = set_pte_vid 0 (user_video_entry s) s;
        Some (1, load_cr3 s) })"

section \<open>Block copies between pages\<close>

definition pasted :: "u32 \<Rightarrow> u8 list \<Rightarrow> (u32 \<Rightarrow> u8) \<Rightarrow> u32 \<Rightarrow> u8" where
  "pasted P bs m p = (if off P p < length bs then bs ! off P p else m p)"

lemma load_page:
  assumes "shows_page s base P" and "n \<le> 4096"
  shows "load_bytes vread s base n = Some (map (\<lambda>k. phys s (pg P k)) [0..<n])"
  using assms vread_page[OF assms(1), unfolded pg_def[of base]]
  by (intro load_bytes_SomeI) simp_all

lemma store_page:
  assumes "shows_page s base P" and "length bs \<le> 4096"
  shows "store_bytes vwrite s base bs = Some (s\<lparr>phys := pasted P bs (phys s)\<rparr>)"
  using assms(2)
proof (induction bs rule: rev_induct)
  case Nil
  then show ?case by (simp add: pasted_def)
next
  case (snoc b bs)
  have "(pasted P bs (phys s))(pg P (length bs) := b) = pasted P (bs @ [b]) (phys s)"
    using snoc.prems by (auto simp: fun_eq_iff pasted_def nth_append eq_pg_iff)
  with snoc assms(1) show ?case
    using vwrite_page[of "s\<lparr>phys := pasted P bs (phys s)\<rparr>" base P "length bs" b]
    by (simp add: store_bytes_append pg_def[of base])
qed

lemma page_cells:
  assumes "shows_page s base P" and "n \<le> 4096"
  shows "cells translate s base n = {p. off P p < n}"
proof -
  have "translate s (base + of_nat i) = Some (pg P i)" if "i < n" for i
    using assms that by (simp add: shows_page_def pg_def)
  then have "cells translate s base n = pg P ` {..<n}" by (auto simp: cells_def)
  also have "\<dots> = {p. off P p < n}"
  proof (intro set_eqI iffI)
    fix p assume "p \<in> {p. off P p < n}"
    then show "p \<in> pg P ` {..<n}" by (intro image_eqI[of _ _ "off P p"]) simp_all
  qed (use assms(2) in auto)
  finally show ?thesis .
qed

lemma memcpy_page:
  assumes d: "shows_page s dst P" and b: "shows_page s src Q"
    and pq: "P \<in> screen_pages" "Q \<in> screen_pages" "P \<noteq> Q"
  shows "memcpy vread vwrite s dst src 4000 =
    Some (s\<lparr>phys := pasted P (map (\<lambda>k. phys s (pg Q k)) [0..<4000]) (phys s)\<rparr>)"
proof -
  have "4000 \<le> off P p" if "off Q p < 4000" for p
    using screen_pages_apart[OF pq that] by simp
  then have "cells translate s dst 4000 \<inter> cells translate s src 4000 = {}"
    using page_cells[OF d, of 4000] page_cells[OF b, of 4000] by fastforce
  then have "memcpy vread vwrite s dst src 4000 = block_copy vread vwrite s dst src 4000"
    by (subst vm.memcpy_copy) simp_all
  with load_page[OF b, of 4000] store_page[OF d] show ?thesis
    by (simp add: block_copy_def)
qed

section \<open>Switching the visible terminal\<close>

lemma user_video_entry_eq:
  assumes "console_wf s"
  shows "\<exists>k\<le>3. user_video_entry s = video_entry k 7 \<and> 0xB8000 + 0x1000 * k = term_page s (sched_ix s)"
proof -
  let ?w = "ucast (schedule_index s) :: u32"
  have w: "?w \<le> 2" "of_nat (sched_ix s) = ?w"
    using ix_bounds(1)[OF assms] by (simp_all add: word_le_nat_alt)
  show ?thesis
  proof (cases "sched_visible s")
    case True
    then have "visible_screen s = ?w" "sched_ix s = vis_ix s"
      by (simp_all add: sched_visible_def flip: sched_visible_ix)
    then show ?thesis
      by (intro exI[of _ 0])
        (simp add: user_video_entry_def term_page_def video_entry_def paging_consts VIDEO_def)
  next
    case False
    then have n: "visible_screen s \<noteq> ?w" "sched_ix s \<noteq> vis_ix s"
      by (auto simp: sched_visible_def sched_visible_ix[symmetric])
    have "?w \<le> 3" using w(1) by (rule order_trans) simp
    with le3_cases[of ?w] w(1) have "?w = 0 \<or> ?w = 1 \<or> ?w = 2" by auto
    then have "(PAGE_KB + (VIDEO + 0x1000 * (?w + 1))) OR 5 = video_entry (?w + 1) 7 \<and> ?w + 1 \<le> 3"
      by (auto simp: video_entry_def paging_consts VIDEO_def)
    with n w(2) show ?thesis
      by (intro exI[of _ "?w + 1"])
        (simp add: user_video_entry_def term_page_def buffer_page_def algebra_simps)
  qed
qed

lemma pasted_same: "k < length bs \<Longrightarrow> length bs \<le> 4096 \<Longrightarrow> pasted P bs m (pg P k) = bs ! k"
  by (simp add: pasted_def)

lemma pasted_other:
  "P \<in> screen_pages \<Longrightarrow> Q \<in> screen_pages \<Longrightarrow> P \<noteq> Q \<Longrightarrow> length bs = 4000 \<Longrightarrow> k < 4000 \<Longrightarrow>
     pasted P bs m (pg Q k) = m (pg Q k)"
  using screen_pages_apart[of P Q k] by (simp add: pasted_def)

lemma pasted_area: "P \<in> screen_pages \<Longrightarrow> length bs = 4000 \<Longrightarrow> \<not> video_area p \<Longrightarrow> pasted P bs m p = m p"
  using screen_page_number(2)[of P "off P p"] by (auto simp: pasted_def)

lemma VIDEO_not_buffer: "i < 3 \<Longrightarrow> VIDEO \<noteq> buffer_page i" "i < 3 \<Longrightarrow> buffer_page i \<noteq> VIDEO"
  by (auto simp: VIDEO_def buffer_page_def less_Suc_eq numeral_3_eq_3)

text \<open>The memory a switch leaves: the old screen in its buffer, the target's buffer on the screen.\<close>

definition switched :: "nat \<Rightarrow> nat \<Rightarrow> (u32 \<Rightarrow> u8) \<Rightarrow> u32 \<Rightarrow> u8" where
  "switched v t m =
     pasted VIDEO (map (\<lambda>k. m (pg (buffer_page t) k)) [0..<4000])
       (pasted (buffer_page v) (map (\<lambda>k. m (pg VIDEO k)) [0..<4000]) m)"

lemma switched_pages:
  assumes "v < 3" "t < 3" "v \<noteq> t" "k < 4000"
  shows "switched v t m (pg VIDEO k) = m (pg (buffer_page t) k)"
    "switched v t m (pg (buffer_page v) k) = m (pg VIDEO k)"
    "i < 3 \<Longrightarrow> i \<noteq> v \<Longrightarrow> switched v t m (pg (buffer_page i) k) = m (pg (buffer_page i) k)"
    "\<not> video_area p \<Longrightarrow> switched v t m p = m p"
  using assms buffer_page_in VIDEO_not_buffer buffer_page_inj[of v i]
  by (simp_all add: switched_def pasted_same pasted_other pasted_area)

lemma switch_vid_eq:
  assumes wf: "console_wf s" and t: "t < 3" "t \<noteq> visible_screen s"
  shows "\<exists>s'. switch_vid t s = Some (1, s') \<and>
    s' = s\<lparr>phys := switched (vis_ix s) (unat t) (phys s), visible_screen := t,
      pte_vid := (pte_vid s)(0 := user_video_entry (s\<lparr>visible_screen := t\<rparr>)), tlb_stale := False\<rparr>"
proof -
  have pw: "paging_wf s" using wf by (simp add: console_wf_def)
  have ix: "vis_ix s < 3" "unat t < 3" "vis_ix s \<noteq> unat t"
    using ix_bounds(2)[OF wf] t by (simp_all add: word_less_nat_alt word_unat_eq_iff)
  note sk = shows_key[OF pw] and sv = shows_buffer[OF pw ix(1)] and st = shows_buffer[OF pw ix(2)]
  have b: "BUFFER_1 + 0x1000 * t = buffer_page (unat t)"
    "BUFFER_1 + 0x1000 * visible_screen s = buffer_page (vis_ix s)"
    by (simp_all add: BUFFER_1_def buffer_page_def)
  have "t = 0 \<or> t = 1 \<or> t = 2" using t(1) by (rule lt3_cases)
  then have g: "\<not> (sint t < -1 \<or> sint t > 2)" by auto
  let ?m1 = "pasted (buffer_page (vis_ix s)) (map (\<lambda>k. phys s (pg VIDEO k)) [0..<4000]) (phys s)"
  have c1: "memcpy vread vwrite s (buffer_page (vis_ix s)) KEYBOARD_VIDEO 4000 = Some (s\<lparr>phys := ?m1\<rparr>)"
    using memcpy_page[OF sv sk] buffer_page_in[OF ix(1)] VIDEO_not_buffer[OF ix(1)] by simp
  have e: "map (\<lambda>k. ?m1 (pg (buffer_page (unat t)) k)) [0..<4000] =
      map (\<lambda>k. phys s (pg (buffer_page (unat t)) k)) [0..<4000]"
    using ix buffer_page_in buffer_page_inj[of "vis_ix s" "unat t"] by (simp add: pasted_other)
  have c2: "memcpy vread vwrite (s\<lparr>phys := ?m1\<rparr>) KEYBOARD_VIDEO (buffer_page (unat t)) 4000 =
      Some (s\<lparr>phys := switched (vis_ix s) (unat t) (phys s)\<rparr>)"
    using memcpy_page[of "s\<lparr>phys := ?m1\<rparr>" KEYBOARD_VIDEO VIDEO "buffer_page (unat t)" "buffer_page (unat t)"]
      sk st buffer_page_in[OF ix(2)] VIDEO_not_buffer[OF ix(2)]
    by (simp add: switched_def e)
  from g t(2) c1 c2 show ?thesis
    by (simp add: switch_vid_def b BYTES_COPY_def set_pte_vid_def load_cr3_def user_video_entry_def)
qed


lemma switch_vid_step:
  assumes wf: "console_wf s" and t: "t < 3"
  shows "\<exists>s'. switch_vid t s = Some (1, s') \<and> console_wf s' \<and> visible_screen s' = t \<and>
    (\<forall>i<3. term_view s' i = term_view s i) \<and> (\<forall>p. \<not> video_area p \<longrightarrow> phys s' p = phys s p) \<and>
    (t \<noteq> visible_screen s \<longrightarrow> \<not> tlb_stale s' \<and> pte_vid s' 0 AND 0xFFFFF000 = term_page s' (sched_ix s'))"
proof (cases "t = visible_screen s")
  case True
  then have "t = 0 \<or> t = 1 \<or> t = 2" using t by (intro lt3_cases) simp
  then have "\<not> (sint t < -1 \<or> sint t > 2)" by auto
  with True wf show ?thesis by (auto simp: switch_vid_def)
next
  case False
  let ?v = "vis_ix s" and ?m = "switched (vis_ix s) (unat t) (phys s)"
  define s' where "s' = s\<lparr>phys := ?m, visible_screen := t,
      pte_vid := (pte_vid s)(0 := user_video_entry (s\<lparr>visible_screen := t\<rparr>)), tlb_stale := False\<rparr>"
  have r: "switch_vid t s = Some (1, s')" using switch_vid_eq[OF wf t False] by (simp add: s'_def)
  have ix: "?v < 3" "unat t < 3" "?v \<noteq> unat t"
    using ix_bounds(2)[OF wf] t False by (simp_all add: word_less_nat_alt word_unat_eq_iff)
  have wft: "console_wf (s\<lparr>visible_screen := t\<rparr>)" using wf t by (simp add: console_wf_def)
  obtain k where k: "k \<le> 3" "user_video_entry (s\<lparr>visible_screen := t\<rparr>) = video_entry k 7"
    "0xB8000 + 0x1000 * k = term_page (s\<lparr>visible_screen := t\<rparr>) (sched_ix s)"
    using user_video_entry_eq[OF wft] by auto
  have pw: "paging_wf s" using wf by (simp add: console_wf_def)
  have "paging_wf (set_pte_vid 0 (video_entry k 7) s)"
    using set_user_video_wf[OF pw] k(1) by blast
  moreover have "paging_wf s' = paging_wf (set_pte_vid 0 (video_entry k 7) s)"
    by (rule paging_wf_cong) (simp_all add: s'_def set_pte_vid_def k(2))
  ultimately have "paging_wf s'" by simp
  then have "console_wf s'" using wf t by (simp add: console_wf_def s'_def)
  moreover have "term_view s' i = term_view s i" if "i < 3" for i
    using that ix switched_pages[OF ix]
    by (cases "i = ?v"; cases "i = unat t") (auto simp: term_view_def term_page_def s'_def)
  moreover have "pte_vid s' 0 AND 0xFFFFF000 = term_page s' (sched_ix s')"
    using video_entry_bits(1)[OF k(1), of 7] k by (simp add: s'_def term_page_def)
  ultimately show ?thesis using r switched_pages(4)[OF ix, of 0] by (auto simp: s'_def)
qed

text \<open>
  C33: Switching the visible terminal (Alt-F1 to Alt-F3) loses nothing: \<open>switch_vid\<close> succeeds, makes
  the target visible, every one of the three terminals keeps its 80 by 25 cells and its cursor, no
  memory outside the screen pages changes, and the user video page follows the scheduled process
  to the page its terminal now lives on, with the TLB flushed.
\<close>

theorem switch_vid_preserves_terminals:
  assumes wf: "console_wf s" and t: "t < 3"
  shows "\<exists>s'. switch_vid t s = Some (1, s') \<and> console_wf s' \<and> visible_screen s' = t \<and>
    (\<forall>i<3. term_view s' i = term_view s i) \<and> (\<forall>p. \<not> video_area p \<longrightarrow> phys s' p = phys s p) \<and>
    (t \<noteq> visible_screen s \<longrightarrow> \<not> tlb_stale s' \<and> pte_vid s' 0 AND 0xFFFFF000 = term_page s' (sched_ix s'))"
  by (rule switch_vid_step[OF wf t])

text \<open>
  Finding: \<open>switch_vid\<close> does not redirect \<open>video_mem\<close> (entry 184 of the kernel page table).
  After a switch away from the scheduled terminal that entry still shows video memory although the
  scheduled terminal has moved to its buffer, so until the next context switch the reads of
  \<open>scroll_screen\<close> come from the wrong terminal.
\<close>

theorem switch_vid_breaks_coherence:
  assumes wf: "console_wf s" and co: "coherent s" and v: "visible_screen s = ucast (schedule_index s)"
    and t: "t < 3" "t \<noteq> visible_screen s"
  shows "\<exists>s'. switch_vid t s = Some (1, s') \<and> \<not> coherent s'"
proof -
  obtain s' where s': "switch_vid t s = Some (1, s')" "visible_screen s' = t"
    "schedule_index s' = schedule_index s" "video_page s' = video_page s"
    using switch_vid_eq[OF wf t] by (fastforce simp: video_page_def)
  have "sched_ix s = vis_ix s" "unat t \<noteq> sched_ix s" "sched_ix s < 3"
    using v t(2) ix_bounds(1)[OF wf] by (auto simp: word_unat_eq_iff)
  then show ?thesis
    using s' co VIDEO_not_buffer(1)[of "sched_ix s"] by (auto simp: coherent_def term_page_def)
qed

end
