(* ===== verification/Process.thy ===== *)
theory Process
  imports Vidctl
begin

text \<open>
  The process structures: the file descriptors of \<open>filesys.h\<close>, the process control blocks of
  \<open>process.h\<close> and \<open>process.c\<close>, and the table of the three scheduled terminals of \<open>scheduler.h\<close>.

  A process control block is kept under the address \<open>get_pcb\<close> computes for it.  A pointer to a
  \<open>fileop_table_t\<close> is the name of the table it points to, a pointer to a descriptor array the
  name of the array: the kernel's own or that of the control block at an address.
\<close>

section \<open>State\<close>

datatype table_ptr = NullTable | RtcTable | DirTable | FileTable | KeyboardTable

record fd_t =
  table_pointer :: table_ptr
  fd_inode :: u32
  file_position :: u32
  flags :: u32

datatype fd_ptr = KernelFdt | PcbFdt u32

record pcb_t =
  pcb_use :: u32
  parent_pid :: u32
  parent_esp0 :: u32
  parent_esp :: u32
  parent_ebp :: u32
  parent_fd :: fd_ptr
  fd_table :: "fd_t list"
  user_buf :: "u8 list"
  vid_set :: u32
  screen_idx :: u32

record switch_table_t =
  cur_pid :: u32
  cur_esp0 :: u32
  cur_esp :: u32
  cur_ebp :: u32
  cur_fd_ptr :: fd_ptr

record procs = console +
  pcbs :: "u32 \<Rightarrow> pcb_t"
  process_array :: "switch_table_t list"
  kernel_fdt :: "fd_t list"
  three_shells_executed :: u32

definition EIGHTK :: u32 where "EIGHTK = 0x2000"
definition ESP_MEM :: u32 where "ESP_MEM = 0x800000"
definition PCB_MEM :: u32 where "PCB_MEM = 0x7FE000"

lemmas process_consts = EIGHTK_def ESP_MEM_def PCB_MEM_def

section \<open>Control blocks and kernel stacks\<close>

definition get_pcb :: "u32 \<Rightarrow> u32" where
  "get_pcb idx = PCB_MEM - EIGHTK * (idx + 1)"

definition get_esp0 :: "u32 \<Rightarrow> u32" where
  "get_esp0 idx = ESP_MEM - EIGHTK * (idx + 1) - 4"

definition pcb_upd :: "u32 \<Rightarrow> (pcb_t \<Rightarrow> pcb_t) \<Rightarrow> 'z procs_scheme \<Rightarrow> 'z procs_scheme" where
  "pcb_upd a f s = s\<lparr>pcbs := (pcbs s)(a := f (pcbs s a))\<rparr>"

definition process_init :: "'z procs_scheme \<Rightarrow> 'z procs_scheme" where
  "process_init s = fold (\<lambda>i. pcb_upd (get_pcb (of_nat i)) (\<lambda>p. p\<lparr>pcb_use := 0\<rparr>)) [0..<8] s"

definition pcb_init :: "u32 \<Rightarrow> 'z procs_scheme \<Rightarrow> 'z procs_scheme" where
  "pcb_init idx s = s"

fun find_pcb :: "'z procs_scheme \<Rightarrow> nat \<Rightarrow> nat \<Rightarrow> i32" where
  "find_pcb s i 0 = -1"
| "find_pcb s i (Suc n) =
     (if pcb_use (pcbs s (get_pcb (of_nat i))) = 0 then of_nat i else find_pcb s (Suc i) n)"

definition get_avail_pcb :: "'z procs_scheme \<Rightarrow> i32" where
  "get_avail_pcb s = find_pcb s 0 8"

section \<open>The scheduled slot and its descriptors\<close>

definition cur_slot :: "'z procs_scheme \<Rightarrow> switch_table_t option" where
  "cur_slot s = arr_get (process_array s) (sched_ix s)"

definition slot_upd :: "(switch_table_t \<Rightarrow> switch_table_t) \<Rightarrow> 'z procs_scheme \<Rightarrow> 'z procs_scheme option" where
  "slot_upd f s =
     do { p \<leftarrow> cur_slot s;
          Some (s\<lparr>process_array := (process_array s)[sched_ix s := f p]\<rparr>) }"

definition fds_at :: "'z procs_scheme \<Rightarrow> fd_ptr \<Rightarrow> fd_t list" where
  "fds_at s p = (case p of KernelFdt \<Rightarrow> kernel_fdt s | PcbFdt a \<Rightarrow> fd_table (pcbs s a))"

definition put_fds :: "fd_ptr \<Rightarrow> fd_t list \<Rightarrow> 'z procs_scheme \<Rightarrow> 'z procs_scheme" where
  "put_fds p fds s = (case p of KernelFdt \<Rightarrow> s\<lparr>kernel_fdt := fds\<rparr>
     | PcbFdt a \<Rightarrow> pcb_upd a (\<lambda>b. b\<lparr>fd_table := fds\<rparr>) s)"

text \<open>\<open>process_array[schedule_index].cur_fd_ptr[fd]\<close>, read and updated.\<close>

definition get_fd :: "u32 \<Rightarrow> 'z procs_scheme \<Rightarrow> fd_t option" where
  "get_fd fd s = do { p \<leftarrow> cur_slot s; arr_get (fds_at s (cur_fd_ptr p)) (unat fd) }"

definition upd_fd :: "u32 \<Rightarrow> (fd_t \<Rightarrow> fd_t) \<Rightarrow> 'z procs_scheme \<Rightarrow> 'z procs_scheme option" where
  "upd_fd fd f s =
     do { p \<leftarrow> cur_slot s; d \<leftarrow> get_fd fd s;
          fds \<leftarrow> arr_set (fds_at s (cur_fd_ptr p)) (unat fd) (f d);
          Some (put_fds (cur_fd_ptr p) fds s) }"

definition set_fd :: "u32 \<Rightarrow> table_ptr \<Rightarrow> u32 \<Rightarrow> u32 \<Rightarrow> 'z procs_scheme \<Rightarrow> 'z procs_scheme option" where
  "set_fd fd t ino fl s =
     upd_fd fd (\<lambda>d. d\<lparr>table_pointer := t, fd_inode := ino, file_position := 0, flags := fl\<rparr>) s"

text \<open>\<open>get_avail_fd\<close> searches descriptors 2 to 7.\<close>

fun find_fd :: "'z procs_scheme \<Rightarrow> nat \<Rightarrow> nat \<Rightarrow> i32 option" where
  "find_fd s i 0 = Some (-1)"
| "find_fd s i (Suc n) =
     do { d \<leftarrow> get_fd (of_nat i) s; if flags d = 0 then Some (of_nat i) else find_fd s (Suc i) n }"

definition get_avail_fd :: "'z procs_scheme \<Rightarrow> i32 option" where
  "get_avail_fd s = find_fd s 2 6"

definition init_fd :: "'z procs_scheme \<Rightarrow> 'z procs_scheme option" where
  "init_fd s0 =
     do { s \<leftarrow> set_fd 0 KeyboardTable 0 1 s0;
          s \<leftarrow> set_fd 1 KeyboardTable 0 1 s;
          for_up 2 6 (\<lambda>i. set_fd (of_nat i) NullTable 0 0) s }"

section \<open>Layout\<close>

lemma pcb_block:
  assumes "i < 8"
  shows "unat (get_pcb (of_nat i)) + 0x2000 * (i + 2) = 0x800000"
    "unat (get_esp0 (of_nat i)) + 4 = unat (get_pcb (of_nat i)) + 0x2000"
proof -
  have "i \<in> {0, 1, 2, 3, 4, 5, 6, 7}" using assms by auto
  then show "unat (get_pcb (of_nat i)) + 0x2000 * (i + 2) = 0x800000"
    "unat (get_esp0 (of_nat i)) + 4 = unat (get_pcb (of_nat i)) + 0x2000"
    by (auto simp: get_pcb_def get_esp0_def process_consts)
qed

lemma get_pcb_inj: "i < 8 \<Longrightarrow> j < 8 \<Longrightarrow> get_pcb (of_nat i) = get_pcb (of_nat j) \<longleftrightarrow> i = j"
  using pcb_block(1)[of i] pcb_block(1)[of j] by (auto simp: word_unat_eq_iff)

text \<open>
  The eight process blocks do not collide.  Process \<open>i\<close> owns the 8KB block that starts at its
  control block and ends at the top of its kernel stack; the blocks of different processes are
  disjoint, lie in the kernel's 4MB page, and leave the stack room behind the 1184 bytes of the
  control block.
\<close>

theorem process_blocks_disjoint:
  assumes "i < 8" and "j < 8" and "i \<noteq> j"
  shows "unat (get_esp0 (of_nat i)) + 4 = unat (get_pcb (of_nat i)) + 0x2000 \<and>
    0x400000 \<le> unat (get_pcb (of_nat i)) \<and> unat (get_esp0 (of_nat i)) + 4 \<le> 0x800000 \<and>
    unat (get_pcb (of_nat i)) + 1184 < unat (get_esp0 (of_nat i)) \<and>
    {unat (get_pcb (of_nat i))..<unat (get_esp0 (of_nat i)) + 4} \<inter>
      {unat (get_pcb (of_nat j))..<unat (get_esp0 (of_nat j)) + 4} = {}"
proof -
  have "0x2000 * i + 0x2000 \<le> 0x2000 * j \<or> 0x2000 * j + 0x2000 \<le> 0x2000 * i" using assms(3) by auto
  moreover have "0x2000 * i \<le> 0xE000" "0x2000 * j \<le> 0xE000" using assms(1,2) by simp_all
  ultimately show ?thesis using pcb_block[OF assms(1)] pcb_block[OF assms(2)] by auto
qed

section \<open>Free control blocks\<close>

abbreviation pcb_free :: "'z procs_scheme \<Rightarrow> nat \<Rightarrow> bool" where
  "pcb_free s i \<equiv> pcb_use (pcbs s (get_pcb (of_nat i))) = 0"

lemma find_pcb_spec:
  "i + n \<le> 8 \<Longrightarrow>
    (case find (pcb_free s) [i..<i + n] of None \<Rightarrow> find_pcb s i n = -1
     | Some k \<Rightarrow> find_pcb s i n = of_nat k)"
proof (induction n arbitrary: i)
  case 0
  then show ?case by simp
next
  case (Suc n)
  then have "[i..<i + Suc n] = i # [Suc i..<Suc i + n]" by (simp add: upt_conv_Cons)
  with Suc.IH[of "Suc i"] Suc.prems show ?case by (simp del: upt_Suc split: option.splits)
qed

text \<open>
  \<open>get_avail_pcb\<close> returns the first free control block: \<open>-1\<close> exactly when all eight are in use,
  and otherwise the least index whose block is free.
\<close>

theorem get_avail_pcb_first:
  "get_avail_pcb s = (case find (pcb_free s) [0..<8] of None \<Rightarrow> -1 | Some k \<Rightarrow> of_nat k)"
  using find_pcb_spec[of 0 8 s] by (auto simp: get_avail_pcb_def split: option.splits)

section \<open>Well-formed process state\<close>

definition procs_wf :: "'z procs_scheme \<Rightarrow> bool" where
  "procs_wf s \<longleftrightarrow> console_wf s \<and> length (process_array s) = 3 \<and> length (kernel_fdt s) = 8 \<and>
     (\<forall>a. length (fd_table (pcbs s a)) = 8 \<and> length (user_buf (pcbs s a)) = 1024)"

lemma cur_slot_eq: "procs_wf s \<Longrightarrow> cur_slot s = Some (process_array s ! sched_ix s)"
  using ix_bounds(1)[of s] by (simp add: cur_slot_def procs_wf_def)

lemma fds_length: "procs_wf s \<Longrightarrow> length (fds_at s p) = 8"
  by (auto simp: fds_at_def procs_wf_def split: fd_ptr.splits)

abbreviation cur_fds :: "'z procs_scheme \<Rightarrow> fd_t list" where
  "cur_fds s \<equiv> fds_at s (cur_fd_ptr (process_array s ! sched_ix s))"

lemma get_fd_eq: "procs_wf s \<Longrightarrow> unat fd < 8 \<Longrightarrow> get_fd fd s = Some (cur_fds s ! unat fd)"
  using cur_slot_eq[of s] fds_length[of s] by (simp add: get_fd_def)

lemma get_fd_out: "procs_wf s \<Longrightarrow> 8 \<le> unat fd \<Longrightarrow> get_fd fd s = None"
  using cur_slot_eq[of s] fds_length[of s] by (simp add: get_fd_def)

lemma fds_put [simp]:
  "fds_at (put_fds p fds s) q = (if q = p then fds else fds_at s q)"
  by (auto simp: fds_at_def put_fds_def pcb_upd_def split: fd_ptr.splits)

lemma put_fds_fields [simp]:
  "process_array (put_fds p fds s) = process_array s" "schedule_index (put_fds p fds s) = schedule_index s"
  "visible_screen (put_fds p fds s) = visible_screen s" "phys (put_fds p fds s) = phys s"
  "pdt (put_fds p fds s) = pdt s" "pte (put_fds p fds s) = pte s" "pte_vid (put_fds p fds s) = pte_vid s"
  by (simp_all add: put_fds_def pcb_upd_def split: fd_ptr.splits)

lemma procs_translate [simp, frame_simps]:
  "translate (s\<lparr>pcbs := x1\<rparr>) = translate s" "translate (s\<lparr>process_array := x2\<rparr>) = translate s"
  "translate (s\<lparr>kernel_fdt := x3\<rparr>) = translate s" "translate (s\<lparr>three_shells_executed := x4\<rparr>) = translate s"
  by (intro translate_cong; simp)+

lemma console_wf_cong:
  assumes "paging_wf s = paging_wf t" "screen_x s = screen_x t" "screen_y s = screen_y t"
    "visible_screen s = visible_screen t" "schedule_index s = schedule_index t"
  shows "console_wf s = console_wf t"
  by (simp add: console_wf_def assms)

lemma procs_paging_wf [simp, frame_simps]:
  "paging_wf (s\<lparr>pcbs := x1\<rparr>) = paging_wf s" "paging_wf (s\<lparr>process_array := x2\<rparr>) = paging_wf s"
  "paging_wf (s\<lparr>kernel_fdt := x3\<rparr>) = paging_wf s" "paging_wf (s\<lparr>three_shells_executed := x4\<rparr>) = paging_wf s"
  by (intro paging_wf_cong; simp)+

lemma procs_console_wf [simp, frame_simps]:
  "console_wf (s\<lparr>pcbs := x1\<rparr>) = console_wf s" "console_wf (s\<lparr>process_array := x2\<rparr>) = console_wf s"
  "console_wf (s\<lparr>kernel_fdt := x3\<rparr>) = console_wf s" "console_wf (s\<lparr>three_shells_executed := x4\<rparr>) = console_wf s"
  by (intro console_wf_cong; simp)+

lemma put_fds_wf: "procs_wf s \<Longrightarrow> length fds = 8 \<Longrightarrow> procs_wf (put_fds p fds s)"
  by (auto simp: procs_wf_def put_fds_def pcb_upd_def split: fd_ptr.splits)

lemma upd_fd_eq:
  assumes "procs_wf s" "unat fd < 8"
  shows "upd_fd fd f s = Some (put_fds (cur_fd_ptr (process_array s ! sched_ix s))
      ((cur_fds s)[unat fd := f (cur_fds s ! unat fd)]) s)"
  using assms cur_slot_eq[OF assms(1)] fds_length[OF assms(1)] by (simp add: upd_fd_def get_fd_eq)

text \<open>Updating a descriptor: it is total for the eight descriptors and leaves the others alone.\<close>

lemma upd_fd_spec:
  assumes wf: "procs_wf s" and fd: "unat fd < 8"
  shows "\<exists>s'. upd_fd fd f s = Some s' \<and> procs_wf s' \<and>
    process_array s' = process_array s \<and> schedule_index s' = schedule_index s \<and>
    cur_fds s' = (cur_fds s)[unat fd := f (cur_fds s ! unat fd)] \<and>
    s' = s\<lparr>pcbs := pcbs s', kernel_fdt := kernel_fdt s'\<rparr>"
proof -
  let ?p = "cur_fd_ptr (process_array s ! sched_ix s)"
  let ?s' = "put_fds ?p ((cur_fds s)[unat fd := f (cur_fds s ! unat fd)]) s"
  have "?s' = s\<lparr>pcbs := pcbs ?s', kernel_fdt := kernel_fdt ?s'\<rparr>"
    by (simp add: put_fds_def pcb_upd_def split: fd_ptr.splits)
  then show ?thesis
    using upd_fd_eq[OF wf fd, of f] put_fds_wf[OF wf] fds_length[OF wf]
    by (intro exI[of _ ?s']) simp
qed

lemma small_not_minus1: "k < 8 \<Longrightarrow> (of_nat k :: u32) \<noteq> -1"
proof
  assume k: "k < 8" "(of_nat k :: u32) = -1"
  then have "unat (of_nat k :: u32) = unat (-1 :: u32)" by simp
  moreover have "unat (-1 :: u32) = 4294967295" by (simp add: unsigned_minus_1_eq_mask mask_eq_exp_minus_1)
  ultimately show False using k(1) by (simp add: unat_of_nat take_bit_nat_eq_self)
qed

text \<open>The range tests of the system calls on a signed descriptor.\<close>

lemma fd_range:
  "(sint (fd :: u32) < 0 \<or> 7 < sint fd) = (8 \<le> unat fd)"
  "(sint (fd :: u32) < 2 \<or> 7 < sint fd) = (unat fd < 2 \<or> 8 \<le> unat fd)"
proof -
  obtain n where n: "unat fd = n" "uint fd = int n" "n < 4294967296" by (rule u32_nat)
  show "(sint fd < 0 \<or> 7 < sint fd) = (8 \<le> unat fd)"
    "(sint fd < 2 \<or> 7 < sint fd) = (unat fd < 2 \<or> 8 \<le> unat fd)"
    unfolding sint_u32 n(1) using n(3) by auto
qed

section \<open>Free descriptors\<close>

lemma find_fd_spec:
  assumes wf: "procs_wf s"
  shows "i + n \<le> 8 \<Longrightarrow> find_fd s i n =
    Some (case find (\<lambda>k. flags (cur_fds s ! k) = 0) [i..<i + n] of None \<Rightarrow> -1 | Some k \<Rightarrow> of_nat k)"
proof (induction n arbitrary: i)
  case 0
  then show ?case by simp
next
  case (Suc n)
  then have c: "[i..<i + Suc n] = i # [Suc i..<Suc i + n]" by (simp add: upt_conv_Cons)
  have u: "unat (of_nat i :: u32) = i" using Suc.prems by (simp add: unat_of_nat take_bit_nat_eq_self)
  with Suc.IH[of "Suc i"] Suc.prems c get_fd_eq[OF wf, of "of_nat i"] show ?case
    by (simp add: u del: upt_Suc)
qed

text \<open>
  \<open>get_avail_fd\<close> hands out the first free descriptor among 2 to 7 and never stdin or stdout;
  it fails with \<open>-1\<close> exactly when all six are in use.
\<close>

theorem get_avail_fd_first:
  assumes "procs_wf s"
  shows "get_avail_fd s = Some (case find (\<lambda>k. flags (cur_fds s ! k) = 0) [2..<8] of
    None \<Rightarrow> -1 | Some k \<Rightarrow> of_nat k)"
  using find_fd_spec[OF assms, of 2 6] by (simp add: get_avail_fd_def)

end
