(* ===== verification/Filesys.thy ===== *)
theory Filesys
  imports Process
begin

text \<open>
  The read-only file system of \<open>filesys.c\<close>: a boot block with the directory entries, inodes of
  one block each, and data blocks, all in memory from \<open>FILEMEM\<close> on.  The structures are read from
  memory at the addresses the C pointer arithmetic gives.
\<close>

section \<open>State\<close>

record fsys = procs +
  FILEMEM :: u32
  fs_entries :: u32
  fs_inodes :: u32
  fs_dblocks :: u32

definition DENTRYSIZE :: u32 where "DENTRYSIZE = 64"
definition BLOCKSIZE :: u32 where "BLOCKSIZE = 4096"
definition NAMELEN :: nat where "NAMELEN = 32"

lemmas fs_consts = DENTRYSIZE_def BLOCKSIZE_def NAMELEN_def

section \<open>Initialisation\<close>

definition init_filesys :: "u32 \<Rightarrow> 'z fsys_scheme \<Rightarrow> (i32 \<times> 'z fsys_scheme) option" where
  "init_filesys offset s0 =
     do { let s = s0\<lparr>FILEMEM := offset\<rparr>;
          e \<leftarrow> load32 vread s offset;
          n \<leftarrow> load32 vread s (offset + 4);
          d \<leftarrow> load32 vread s (offset + 8);
          Some (0, s\<lparr>fs_entries := e, fs_inodes := n, fs_dblocks := d,
            kernel_fdt := replicate 8
              \<lparr>table_pointer = NullTable, fd_inode = 0, file_position = 0, flags = 0\<rparr>\<rparr>) }"

definition set_fileop_ptr :: "u32 \<Rightarrow> u32 \<Rightarrow> 'z procs_scheme \<Rightarrow> 'z procs_scheme option" where
  "set_fileop_ptr fd typ s =
     (if typ = 0 then upd_fd fd (\<lambda>d. d\<lparr>table_pointer := RtcTable\<rparr>) s
      else if typ = 1 then upd_fd fd (\<lambda>d. d\<lparr>table_pointer := DirTable\<rparr>) s
      else if typ = 2 then upd_fd fd (\<lambda>d. d\<lparr>table_pointer := FileTable\<rparr>) s
      else Some s)"

definition get_dblock_mem :: "'z fsys_scheme \<Rightarrow> u32 \<Rightarrow> u32 \<Rightarrow> u32" where
  "get_dblock_mem s idx offset = FILEMEM s + (1 + fs_inodes s + idx) * BLOCKSIZE + offset"

section \<open>Directory entries\<close>

text \<open>A \<open>dentry_t\<close> is its 64 bytes; \<open>type\<close> and \<open>inode\<close> are the words at offsets 32 and 36.\<close>

type_synonym dentry = "u8 list"

definition dentry_word :: "dentry \<Rightarrow> nat \<Rightarrow> u32" where
  "dentry_word d i = le32 (d ! i) (d ! (i + 1)) (d ! (i + 2)) (d ! (i + 3))"

abbreviation dentry_type :: "dentry \<Rightarrow> u32" where "dentry_type d \<equiv> dentry_word d 32"
abbreviation dentry_inode :: "dentry \<Rightarrow> u32" where "dentry_inode d \<equiv> dentry_word d 36"

definition dentry_addr :: "'z fsys_scheme \<Rightarrow> u32 \<Rightarrow> u32" where
  "dentry_addr s i = FILEMEM s + DENTRYSIZE * (1 + i)"

text \<open>
  The comparison loop over \<open>j\<close>: it stops at a common NUL, at a difference, or at \<open>NAMELEN\<close>.
\<close>

fun name_scan :: "(u32 \<Rightarrow> u8 option) \<Rightarrow> (u32 \<Rightarrow> u8 option) \<Rightarrow> nat \<Rightarrow> nat \<Rightarrow> (bool \<times> nat) option" where
  "name_scan fname name j 0 = Some (True, j)"
| "name_scan fname name j (Suc n) =
     do { a \<leftarrow> fname (of_nat j); b \<leftarrow> name (of_nat j);
          if a = b \<and> a = 0 then Some (True, j)
          else if a \<noteq> b then Some (False, j)
          else name_scan fname name (Suc j) n }"

definition name_found :: "(u32 \<Rightarrow> u8 option) \<Rightarrow> (u32 \<Rightarrow> u8 option) \<Rightarrow> bool option" where
  "name_found fname name =
     do { (found, j) \<leftarrow> name_scan fname name 0 NAMELEN;
          if j = NAMELEN then do { c \<leftarrow> fname (of_nat j); Some (found \<and> c = 0) }
          else Some found }"

fun dentry_search :: "'z fsys_scheme \<Rightarrow> (u32 \<Rightarrow> u8 option) \<Rightarrow> dentry \<Rightarrow> nat \<Rightarrow> nat \<Rightarrow>
    (i32 \<times> dentry) option" where
  "dentry_search s fname dent i 0 = Some (-1, dent)"
| "dentry_search s fname dent i (Suc n) =
     do { let p = dentry_addr s (of_nat i);
          found \<leftarrow> name_found fname (\<lambda>j. vread s (p + j));
          if found then do { dent' \<leftarrow> memcpy (\<lambda>_. vread s) array_wr dent 0 p DENTRYSIZE;
                             Some (0, dent') }
          else dentry_search s fname dent (Suc i) n }"

text \<open>
  \<open>fname\<close> reads the characters of the name, wherever the caller keeps it.  The callers pass the
  address of a local \<open>dentry_t\<close>, whose contents are \<open>dent\<close>; a null pointer is \<^term>\<open>None\<close>.
\<close>

definition read_dentry_by_name :: "'z fsys_scheme \<Rightarrow> (u32 \<Rightarrow> u8 option) \<Rightarrow> dentry option \<Rightarrow>
    (i32 \<times> dentry option) option" where
  "read_dentry_by_name s fname dentry =
     (case dentry of None \<Rightarrow> Some (-1, None)
      | Some dent \<Rightarrow> do { (r, d) \<leftarrow> dentry_search s fname dent 0 (unat (fs_entries s)); Some (r, Some d) })"

definition read_dentry_by_index :: "'z fsys_scheme \<Rightarrow> u32 \<Rightarrow> dentry option \<Rightarrow>
    (i32 \<times> dentry option) option" where
  "read_dentry_by_index s index dentry =
     (case dentry of None \<Rightarrow> Some (-1, None)
      | Some dent \<Rightarrow>
          if index > fs_entries s - 1 then Some (-1, Some dent)
          else do { d \<leftarrow> memcpy (\<lambda>_. vread s) array_wr dent 0 (dentry_addr s index) DENTRYSIZE;
                    Some (0, Some d) })"

section \<open>File data\<close>

text \<open>
  \<open>read_data\<close> copies into the memory \<open>d\<close> with reader \<open>rd\<close> and writer \<open>wr\<close>: the kernel state
  itself when \<open>buf\<close> is a linear address, a local array when \<open>buf\<close> points to one.  The loop runs
  \<open>end_block - start_block\<close> times; the last argument but one of \<open>read_blocks\<close> counts it down.
\<close>

definition inode_addr :: "'z fsys_scheme \<Rightarrow> u32 \<Rightarrow> u32" where
  "inode_addr s inode = FILEMEM s + BLOCKSIZE * (1 + inode)"

definition dblock :: "('d \<Rightarrow> u32 \<Rightarrow> u8 option) \<Rightarrow> 'd \<Rightarrow> u32 \<Rightarrow> u32 \<Rightarrow> u32 option" where
  "dblock rd d ptr i = load32 rd d (ptr + 4 + 4 * i)"

fun read_blocks :: "'z fsys_scheme \<Rightarrow> ('d \<Rightarrow> u32 \<Rightarrow> u8 option) \<Rightarrow> ('d \<Rightarrow> u32 \<Rightarrow> u8 \<Rightarrow> 'd option) \<Rightarrow>
    u32 \<Rightarrow> u32 \<Rightarrow> u32 \<Rightarrow> u32 \<Rightarrow> u32 \<Rightarrow> u32 \<Rightarrow> u32 \<Rightarrow> u32 \<Rightarrow> nat \<Rightarrow> 'd \<Rightarrow> (i32 \<times> 'd) option" where
  "read_blocks s rd wr ptr buf i start copy_len buf_position len total_len 0 d =
     do { d' \<leftarrow> memcpy rd wr d (buf + buf_position) start len; Some (total_len + len, d') }"
| "read_blocks s rd wr ptr buf i start copy_len buf_position len total_len (Suc n) d =
     do { d' \<leftarrow> memcpy rd wr d (buf + buf_position) start copy_len;
          b \<leftarrow> dblock rd d' ptr (i + 1);
          if b > fs_dblocks s - 1 then Some (total_len + copy_len, d')
          else read_blocks s rd wr ptr buf (i + 1) (get_dblock_mem s b 0) BLOCKSIZE
                 (buf_position + copy_len) (len - copy_len) (total_len + copy_len) n d' }"

definition read_data :: "'z fsys_scheme \<Rightarrow> ('d \<Rightarrow> u32 \<Rightarrow> u8 option) \<Rightarrow> ('d \<Rightarrow> u32 \<Rightarrow> u8 \<Rightarrow> 'd option) \<Rightarrow>
    u32 \<Rightarrow> u32 \<Rightarrow> u32 \<Rightarrow> u32 \<Rightarrow> 'd \<Rightarrow> (i32 \<times> 'd) option" where
  "read_data s rd wr inode offset buf len d =
     (let start_block = offset div BLOCKSIZE;
          end_block = (offset + len - 1) div BLOCKSIZE in
      if inode > fs_inodes s - 1 then Some (-1, d)
      else do {
        let ptr = inode_addr s inode;
        file_length \<leftarrow> load32 rd d ptr;
        let end_block = (if file_length < offset + len then (file_length - 1) div BLOCKSIZE
                         else end_block);
        b \<leftarrow> dblock rd d ptr start_block;
        if b > fs_dblocks s - 1 then Some (0, d)
        else if start_block > end_block then Some (0, d)
        else read_blocks s rd wr ptr buf start_block (get_dblock_mem s b (offset mod BLOCKSIZE))
               (BLOCKSIZE - offset mod BLOCKSIZE) 0 len 0 (unat end_block - unat start_block) d })"

section \<open>The file and directory drivers\<close>

definition file_open :: "u32 \<Rightarrow> u32 \<Rightarrow> 'z fsys_scheme \<Rightarrow> (i32 \<times> 'z fsys_scheme) option" where
  "file_open fd inode s =
     (if fd < 2 \<or> fd > 7 then Some (-1, s)
      else do { s' \<leftarrow> set_fd fd FileTable inode 1 s; Some (0, s') })"

definition file_close :: "u32 \<Rightarrow> 'z fsys_scheme \<Rightarrow> (i32 \<times> 'z fsys_scheme) option" where
  "file_close fd s =
     do { d \<leftarrow> get_fd fd s;
          if flags d = 0 then Some (-1, s)
          else do { s' \<leftarrow> set_fd fd NullTable (-1) 0 s; Some (0, s') } }"

definition file_read :: "u32 \<Rightarrow> u32 \<Rightarrow> i32 \<Rightarrow> 'z fsys_scheme \<Rightarrow> (i32 \<times> 'z fsys_scheme) option" where
  "file_read fd buf nbytes s =
     do { d \<leftarrow> get_fd fd s;
          if flags d = 0 then Some (-1, s)
          else do { (retval, s1) \<leftarrow> read_data s vread vwrite (fd_inode d) (file_position d) buf nbytes s;
                    s2 \<leftarrow> upd_fd fd (\<lambda>d. d\<lparr>file_position := file_position d + retval\<rparr>) s1;
                    Some (retval, s2) } }"

definition file_write :: "u32 \<Rightarrow> u32 \<Rightarrow> i32 \<Rightarrow> 'z fsys_scheme \<Rightarrow> (i32 \<times> 'z fsys_scheme) option" where
  "file_write fd buf nbytes s = Some (-1, s)"

definition directory_open :: "u32 \<Rightarrow> u32 \<Rightarrow> 'z fsys_scheme \<Rightarrow> (i32 \<times> 'z fsys_scheme) option" where
  "directory_open fd inode s =
     (if fd < 2 \<or> fd > 7 then Some (-1, s)
      else do { s' \<leftarrow> set_fd fd DirTable 0 1 s; Some (0, s') })"

definition directory_close :: "u32 \<Rightarrow> 'z fsys_scheme \<Rightarrow> (i32 \<times> 'z fsys_scheme) option" where
  "directory_close fd s =
     do { d \<leftarrow> get_fd fd s;
          if flags d = 0 then Some (-1, s)
          else do { s' \<leftarrow> set_fd fd NullTable (-1) 0 s; Some (0, s') } }"

text \<open>The final loop of \<open>directory_read\<close> finds the first NUL among the 32 bytes of the buffer.\<close>

fun count_name :: "(u32 \<Rightarrow> u8 option) \<Rightarrow> nat \<Rightarrow> nat \<Rightarrow> i32 option" where
  "count_name rd i 0 = Some (of_nat i)"
| "count_name rd i (Suc n) =
     do { b \<leftarrow> rd (of_nat i); if b = 0 then Some (of_nat i) else count_name rd (Suc i) n }"

text \<open>\<open>dent\<close> is what the local \<open>dentry_t\<close> holds on entry.\<close>

definition directory_read :: "dentry \<Rightarrow> u32 \<Rightarrow> u32 \<Rightarrow> i32 \<Rightarrow> 'z fsys_scheme \<Rightarrow>
    (i32 \<times> 'z fsys_scheme) option" where
  "directory_read dent fd buf nbytes s0 =
     (if sint fd < 2 \<or> sint fd > 7 then Some (-1, s0)
      else do {
        d \<leftarrow> get_fd fd s0;
        (r, dent') \<leftarrow> read_dentry_by_index s0 (file_position d) (Some dent);
        if r = -1 then Some (0, s0)
        else do {
          e \<leftarrow> dent';
          s \<leftarrow> memcpy (\<lambda>_. array_rd e) vwrite s0 buf 0 32;
          s \<leftarrow> vwrite s (buf + 32) 0;
          s \<leftarrow> upd_fd fd (\<lambda>d. d\<lparr>file_position := file_position d + 1\<rparr>) s;
          i \<leftarrow> count_name (\<lambda>j. vread s (buf + j)) 0 32;
          Some (i, s) } })"

definition directory_write :: "u32 \<Rightarrow> u32 \<Rightarrow> i32 \<Rightarrow> 'z fsys_scheme \<Rightarrow> (i32 \<times> 'z fsys_scheme) option" where
  "directory_write fd buf nbytes s = Some (-1, s)"

section \<open>Names\<close>

text \<open>The name a directory entry carries: its 32 bytes up to a NUL.\<close>

definition dentry_name :: "dentry \<Rightarrow> u8 list" where
  "dentry_name d = takeWhile (\<lambda>b. b \<noteq> 0) (take 32 d)"

text \<open>\<open>reads_string fname xs\<close>: the caller's string holds the characters \<open>xs\<close> and then a NUL.\<close>

definition reads_string :: "(u32 \<Rightarrow> u8 option) \<Rightarrow> u8 list \<Rightarrow> bool" where
  "reads_string fname xs \<longleftrightarrow> 0 \<notin> set xs \<and>
     (\<forall>i<length xs. fname (of_nat i) = Some (xs ! i)) \<and> fname (of_nat (length xs)) = Some 0"

lemma reads_string_nth:
  "reads_string fname xs \<Longrightarrow> i < length xs \<Longrightarrow> fname (of_nat i) = Some (xs ! i) \<and> xs ! i \<noteq> 0"
  unfolding reads_string_def by (metis nth_mem)

lemma array_reads_string:
  assumes "0 \<notin> set xs" "length xs < 2 ^ 32" "array_rd ys (of_nat (length xs)) = Some 0" "take (length xs) ys = xs"
  shows "reads_string (array_rd ys) xs"
proof -
  have "length xs < length ys" using assms(2,3)
    by (simp add: array_rd_def arr_get_def unat_of_nat take_bit_nat_eq_self split: if_splits)
  moreover have "xs ! i = ys ! i" if "i < length xs" for i using that assms(4) by (metis nth_take)
  ultimately show ?thesis
    using assms(1-3) by (simp add: reads_string_def array_rd_def unat_of_nat take_bit_nat_eq_self)
qed

lemma name_scan_spec:
  assumes f: "reads_string fname xs" and n: "\<And>j. j < 32 \<Longrightarrow> name (of_nat j) = Some (nm ! j)"
    and len: "length nm = 32"
  shows "j + n = 32 \<Longrightarrow> j \<le> length xs \<Longrightarrow> take j xs = take j nm \<Longrightarrow>
    \<exists>found k. name_scan fname name j n = Some (found, k) \<and> k \<le> 32 \<and>
      (if k = 32 then found \<and> 32 \<le> length xs \<and> take 32 xs = nm
       else found \<longleftrightarrow> xs = takeWhile (\<lambda>b. b \<noteq> 0) nm)"
proof (induction n arbitrary: j)
  case 0
  then show ?case using len by (intro exI[of _ True] exI[of _ j]) simp
next
  case (Suc n)
  then have j: "j < 32" by simp
  have nz: "\<forall>x\<in>set (take j nm). x \<noteq> 0"
    using f Suc.prems(3) unfolding reads_string_def by (metis in_set_takeD)
  have dn: "drop j nm = nm ! j # drop (Suc j) nm" using j len by (simp add: Cons_nth_drop_Suc)
  have tw: "takeWhile (\<lambda>b. b \<noteq> 0) nm = take j nm @ takeWhile (\<lambda>b. b \<noteq> 0) (drop j nm)"
    using nz by (subst append_take_drop_id[of j nm, symmetric], subst takeWhile_append2) auto
  show ?case
  proof (cases "j = length xs")
    case True
    then have fj: "fname (of_nat j) = Some 0" using f by (simp add: reads_string_def)
    have "xs = takeWhile (\<lambda>b. b \<noteq> 0) nm \<longleftrightarrow> nm ! j = 0"
    proof -
      have "xs = take j nm" using True Suc.prems(3) by simp
      then show ?thesis using tw dn by auto
    qed
    with fj n[OF j] j show ?thesis by (auto intro!: exI[of _ j])
  next
    case False
    then have jl: "j < length xs" using Suc.prems by simp
    then have fj: "fname (of_nat j) = Some (xs ! j)" "xs ! j \<noteq> 0"
      using reads_string_nth[OF f jl] by simp_all
    show ?thesis
    proof (cases "xs ! j = nm ! j")
      case True
      have "take (Suc j) xs = take (Suc j) nm"
        using True Suc.prems(3) jl j len by (simp add: take_Suc_conv_app_nth)
      with Suc.IH[of "Suc j"] Suc.prems jl fj n[OF j] True show ?thesis by simp
    next
      case ne: False
      have "xs \<noteq> takeWhile (\<lambda>b. b \<noteq> 0) nm"
      proof
        assume e: "xs = takeWhile (\<lambda>b. b \<noteq> 0) nm"
        then have "xs ! j = nm ! j" using jl by (metis takeWhile_nth)
        with ne show False by simp
      qed
      with fj n[OF j] ne j show ?thesis by (auto intro!: exI[of _ j])
    qed
  qed
qed

lemma name_found_spec:
  assumes f: "reads_string fname xs" and n: "\<And>j. j < 32 \<Longrightarrow> name (of_nat j) = Some (nm ! j)"
    and len: "length nm = 32"
  shows "name_found fname name = Some (xs = takeWhile (\<lambda>b. b \<noteq> 0) nm)"
proof -
  obtain found k where k: "name_scan fname name 0 32 = Some (found, k)" "k \<le> 32"
    "if k = 32 then found \<and> 32 \<le> length xs \<and> take 32 xs = nm
       else found \<longleftrightarrow> xs = takeWhile (\<lambda>b. b \<noteq> 0) nm"
    using name_scan_spec[OF f n len, of 0 32] by auto
  show ?thesis
  proof (cases "k = 32")
    case False
    with k show ?thesis by (simp add: name_found_def NAMELEN_def)
  next
    case True
    with k have nm: "found" "32 \<le> length xs" "nm = take 32 xs" by auto
    have "0 \<notin> set nm" using f nm(3) by (auto simp: reads_string_def dest: in_set_takeD)
    then have tw: "takeWhile (\<lambda>b. b \<noteq> 0) nm = nm" by (auto simp: takeWhile_eq_all_conv)
    have "fname 32 = Some (if length xs = 32 then 0 else xs ! 32)"
      using reads_string_nth[OF f, of 32] f nm(2) by (cases "length xs = 32") (auto simp: reads_string_def)
    moreover have "xs = nm \<longleftrightarrow> length xs = 32" using nm(3) len by (metis take_all_iff order_refl)
    moreover have "xs ! 32 \<noteq> 0" if "32 < length xs" using reads_string_nth[OF f that] by simp
    ultimately have "name_found fname name = Some (xs = nm)"
      using k(1) True nm(1,2) by (auto simp: name_found_def NAMELEN_def)
    then show ?thesis by (simp only: tw)
  qed
qed

section \<open>The directory\<close>

text \<open>The entries the boot block holds.\<close>

definition dir_image :: "'z fsys_scheme \<Rightarrow> dentry list \<Rightarrow> bool" where
  "dir_image s ds \<longleftrightarrow> length ds = unat (fs_entries s) \<and>
     (\<forall>i<length ds. load_bytes vread s (dentry_addr s (of_nat i)) 64 = Some (ds ! i))"

lemma array_store_all:
  "length bs = length xs \<Longrightarrow> length xs \<le> 2 ^ 32 - 1 \<Longrightarrow> store_bytes array_wr xs 0 bs = Some bs"
proof -
  have gen: "length ys + length bs = length xs \<Longrightarrow> length xs \<le> 2 ^ 32 - 1 \<Longrightarrow>
    store_bytes array_wr (ys @ drop (length ys) xs) (of_nat (length ys)) bs = Some (ys @ bs)" for ys bs xs
  proof (induction bs arbitrary: ys)
    case Nil
    then show ?case by simp
  next
    case (Cons b bs)
    have u: "unat (of_nat (length ys) :: u32) = length ys"
      using Cons.prems by (simp add: unat_of_nat take_bit_nat_eq_self)
    have d: "drop (length ys) xs = xs ! length ys # drop (Suc (length ys)) xs"
      using Cons.prems by (simp add: Cons_nth_drop_Suc)
    from Cons.IH[of "ys @ [b]"] Cons.prems show ?case
      by (simp add: array_wr_def u d list_update_append add.commute)
  qed
  assume "length bs = length xs" "length xs \<le> 2 ^ 32 - 1"
  with gen[of "[]" bs xs] show ?thesis by simp
qed

lemma memcpy_dentry:
  assumes "load_bytes vread s p 64 = Some d" and "length dent = 64"
  shows "memcpy (\<lambda>_. vread s) array_wr dent 0 p DENTRYSIZE = Some d"
proof -
  have "load_bytes (\<lambda>_. vread s) dent p 64 = load_bytes vread s p 64"
    by (rule load_bytes_cong) simp
  with assms load_bytes_length[OF assms(1)] array_store_all[of d dent] show ?thesis
    by (simp add: memcpy_from_outside block_copy_def DENTRYSIZE_def)
qed

lemma dentry_search_spec:
  assumes dir: "dir_image s ds" and f: "reads_string fname xs" and dent: "length dent = 64"
  shows "i + n = length ds \<Longrightarrow> dentry_search s fname dent i n =
    Some (case find (\<lambda>d. dentry_name d = xs) (drop i ds) of None \<Rightarrow> (-1, dent) | Some d \<Rightarrow> (0, d))"
proof (induction n arbitrary: i)
  case 0
  then show ?case by simp
next
  case (Suc n)
  then have i: "i < length ds" by simp
  let ?p = "dentry_addr s (of_nat i)"
  have ld: "load_bytes vread s ?p 64 = Some (ds ! i)" using dir i by (simp add: dir_image_def)
  have len: "length (ds ! i) = 64" by (rule load_bytes_length[OF ld])
  have "name_found fname (\<lambda>j. vread s (?p + j)) = Some (xs = takeWhile (\<lambda>b. b \<noteq> 0) (take 32 (ds ! i)))"
    by (rule name_found_spec[OF f]) (use load_bytes_nth[OF ld] len in auto)
  moreover have "drop i ds = ds ! i # drop (Suc i) ds" using i by (rule Cons_nth_drop_Suc[symmetric])
  ultimately show ?case
    using Suc.IH[of "Suc i"] Suc.prems memcpy_dentry[OF ld dent] by (auto simp: Let_def dentry_name_def)
qed

lemma dentry_by_name:
  assumes "dir_image s ds" and "reads_string fname xs" and "length dent = 64"
  shows "read_dentry_by_name s fname (Some dent) =
    Some (case find (\<lambda>d. dentry_name d = xs) ds of None \<Rightarrow> (-1, Some dent) | Some d \<Rightarrow> (0, Some d))"
  using dentry_search_spec[OF assms, of 0 "length ds"] assms(1)
  by (auto simp: read_dentry_by_name_def dir_image_def split: option.splits)

text \<open>
  Looking a file up by name is a linear search for an equal name: for every NUL-terminated name,
  of any length, \<open>read_dentry_by_name\<close> copies out the first directory entry whose (at most 32
  byte) name is exactly it, and returns \<open>-1\<close> leaving the destination alone when there is none.  A
  prefix or an extension of a name does not match.
\<close>

theorem read_dentry_by_name_finds:
  assumes "dir_image s ds" and "reads_string fname xs" and "length dent = 64"
  shows "read_dentry_by_name s fname (Some dent) =
    Some (case find (\<lambda>d. dentry_name d = xs) ds of None \<Rightarrow> (-1, Some dent) | Some d \<Rightarrow> (0, Some d))"
  by (rule dentry_by_name[OF assms])

lemma dentry_by_index:
  assumes "dir_image s ds" and "ds \<noteq> []" and "length dent = 64"
  shows "read_dentry_by_index s index (Some dent) =
    Some (if unat index < length ds then (0, Some (ds ! unat index)) else (-1, Some dent))"
proof -
  have e: "0 < unat (fs_entries s)" using assms(1,2) by (cases ds) (auto simp: dir_image_def)
  then have "unat (fs_entries s - 1) = unat (fs_entries s) - 1"
    by (simp add: unat_sub word_le_nat_alt)
  with e assms(1) have b: "index > fs_entries s - 1 \<longleftrightarrow> \<not> unat index < length ds"
    by (auto simp: word_less_nat_alt dir_image_def)
  show ?thesis
  proof (cases "unat index < length ds")
    case True
    then have "load_bytes vread s (dentry_addr s (of_nat (unat index))) 64 = Some (ds ! unat index)"
      using assms(1) unfolding dir_image_def by blast
    with memcpy_dentry[OF this assms(3)] True b show ?thesis by (simp add: read_dentry_by_index_def)
  qed (use b in \<open>simp add: read_dentry_by_index_def\<close>)
qed

text \<open>
  Reading a directory entry by its index returns that entry when the index is below the number
  of entries and \<open>-1\<close> otherwise; the bound is right because the boot block has at least one entry.
\<close>

theorem read_dentry_by_index_nth:
  assumes "dir_image s ds" and "ds \<noteq> []" and "length dent = 64"
  shows "read_dentry_by_index s index (Some dent) =
    Some (if unat index < length ds then (0, Some (ds ! unat index)) else (-1, Some dent))"
  by (rule dentry_by_index[OF assms])

section \<open>Block arithmetic\<close>

lemma word_div_4096: "a < 2 ^ 32 \<Longrightarrow> (of_nat a :: u32) div 4096 = of_nat (a div 4096)"
  unfolding word_unat_eq_iff
  by (simp add: unat_div unat_of_nat take_bit_nat_eq_self less_imp_diff_less div_le_dividend le_less_trans)

lemma word_mod_4096: "a < 2 ^ 32 \<Longrightarrow> (of_nat a :: u32) mod 4096 = of_nat (a mod 4096)"
  unfolding word_unat_eq_iff
  by (simp add: unat_mod unat_of_nat take_bit_nat_eq_self)

lemma block_split:
  obtains a r :: nat where "p = 4096 * a + r" "r < 4096" "p div 4096 = a" "p mod 4096 = r"
  by (rule that[of "p div 4096" "p mod 4096"]) simp_all

lemma block_range:
  fixes p L :: nat
  assumes "0 < L"
  shows "4096 * ((p + L - 1) div 4096 - p div 4096) \<le> p mod 4096 + L"
    "p mod 4096 + L \<le> 4096 * ((p + L - 1) div 4096 - p div 4096 + 1)"
proof -
  obtain a r where a: "p = 4096 * a + r" "r < 4096" "p div 4096 = a" "p mod 4096 = r" by (rule block_split)
  obtain b t where b: "p + L - 1 = 4096 * b + t" "t < 4096" "(p + L - 1) div 4096 = b" by (rule block_split)
  have "a \<le> b" unfolding a(3)[symmetric] b(3)[symmetric] using assms by (intro div_le_mono) simp
  then obtain n where n: "b = a + n" by (rule less_eqE)
  show "4096 * ((p + L - 1) div 4096 - p div 4096) \<le> p mod 4096 + L"
    "p mod 4096 + L \<le> 4096 * ((p + L - 1) div 4096 - p div 4096 + 1)"
    unfolding a(3,4) b(3) using a(1,2) b(1,2) assms by (simp_all add: n)
qed

lemma word_pred_div:
  assumes "0 < unat (w :: u32)"
  shows "(w - 1) div 4096 = of_nat ((unat w - 1) div 4096)"
proof -
  have u: "unat (w - 1) = unat w - 1" using assms by (simp add: unat_sub word_le_nat_alt)
  have "unat w - 1 < 2 ^ 32" using unsigned_less[of w, where ?'a = nat] by simp
  from word_div_4096[OF this] have "(of_nat (unat (w - 1)) :: u32) div 4096 = of_nat ((unat w - 1) div 4096)"
    by (simp only: u)
  then show ?thesis by simp
qed

lemma concat_blocks_length:
  "(\<And>k. a \<le> k \<Longrightarrow> k < a + n \<Longrightarrow> length (D k) = 4096) \<Longrightarrow> length (concat (map D [a..<a + n])) = 4096 * n"
  by (induction n) auto

lemma concat_blocks_nth:
  "(\<And>k. a \<le> k \<Longrightarrow> k < a + n \<Longrightarrow> length (D k) = 4096) \<Longrightarrow> j < 4096 * n \<Longrightarrow>
     concat (map D [a..<a + n]) ! j = D (a + j div 4096) ! (j mod 4096)"
proof (induction n)
  case 0
  then show ?case by simp
next
  case (Suc n)
  have len: "length (concat (map D [a..<a + n])) = 4096 * n"
    by (rule concat_blocks_length) (use Suc.prems(1) in simp)
  show ?case
  proof (cases "j < 4096 * n")
    case True
    with Suc len show ?thesis by (simp add: nth_append)
  next
    case False
    then have d: "j div 4096 = n" using Suc.prems(2) by (intro div_nat_eqI) simp_all
    then have "j mod 4096 = j - 4096 * n" using mult_div_mod_eq[of 4096 j] by linarith
    with d False len show ?thesis by (simp add: nth_append)
  qed
qed

section \<open>Files in the image\<close>

text \<open>
  The image of the file system as a list of bytes, and the abstract contents of a file in it: the
  data blocks its inode names, one after the other, cut to the length the inode gives.
\<close>

definition img_word :: "u8 list \<Rightarrow> nat \<Rightarrow> u32" where
  "img_word img o' = le32 (img ! o') (img ! (o' + 1)) (img ! (o' + 2)) (img ! (o' + 3))"

record geometry =
  g_inodes :: nat
  g_dblocks :: nat

definition geometry_of :: "'z fsys_scheme \<Rightarrow> geometry" where
  "geometry_of s = \<lparr>g_inodes = unat (fs_inodes s), g_dblocks = unat (fs_dblocks s)\<rparr>"

definition img_length :: "u8 list \<Rightarrow> nat \<Rightarrow> u32" where
  "img_length img ino = img_word img (4096 * (1 + ino))"

definition img_block :: "u8 list \<Rightarrow> nat \<Rightarrow> nat \<Rightarrow> u32" where
  "img_block img ino k = img_word img (4096 * (1 + ino) + 4 + 4 * k)"

definition block_off :: "geometry \<Rightarrow> u8 list \<Rightarrow> nat \<Rightarrow> nat \<Rightarrow> nat" where
  "block_off g img ino k = 4096 * (1 + g_inodes g + unat (img_block img ino k))"

definition img_data :: "geometry \<Rightarrow> u8 list \<Rightarrow> nat \<Rightarrow> nat \<Rightarrow> u8 list" where
  "img_data g img ino k = take 4096 (drop (block_off g img ino k) img)"

text \<open>The whole blocks of a file, and the part of them that is the file.\<close>

definition file_blocks :: "geometry \<Rightarrow> u8 list \<Rightarrow> nat \<Rightarrow> u8 list" where
  "file_blocks g img ino = concat (map (img_data g img ino) [0..<(unat (img_length img ino) + 4095) div 4096])"

definition file_contents :: "geometry \<Rightarrow> u8 list \<Rightarrow> nat \<Rightarrow> u8 list" where
  "file_contents g img ino =
     take (unat (img_length img ino))
       (concat (map (img_data g img ino) [0..<(unat (img_length img ino) + 4095) div 4096]))"

text \<open>An image of the right size in which the file names existing data blocks only.\<close>

definition image_ok :: "geometry \<Rightarrow> u8 list \<Rightarrow> bool" where
  "image_ok g img \<longleftrightarrow> length img = 4096 * (1 + g_inodes g + g_dblocks g) \<and> length img < 2 ^ 32 \<and>
     0 < g_inodes g \<and> 0 < g_dblocks g"

definition file_ok :: "geometry \<Rightarrow> u8 list \<Rightarrow> nat \<Rightarrow> bool" where
  "file_ok g img ino \<longleftrightarrow> ino < g_inodes g \<and> unat (img_length img ino) \<le> 4096 * 1023 \<and>
     (\<forall>k<(unat (img_length img ino) + 4095) div 4096. unat (img_block img ino k) < g_dblocks g)"

text \<open>
  What the copy loop transfers when it runs \<open>n\<close> times from byte \<open>r\<close> of block \<open>i\<close> on, asked for \<open>L\<close>
  bytes: the rest of each block but the last, and then the remaining count from the last one.
\<close>

fun chunk :: "geometry \<Rightarrow> u8 list \<Rightarrow> nat \<Rightarrow> nat \<Rightarrow> nat \<Rightarrow> nat \<Rightarrow> nat \<Rightarrow> u8 list" where
  "chunk g img ino i r L 0 = take L (drop (block_off g img ino i + r) img)"
| "chunk g img ino i r L (Suc n) =
     drop r (img_data g img ino i) @ chunk g img ino (Suc i) 0 (L - (4096 - r)) n"

lemma img_data_length:
  "image_ok g img \<Longrightarrow> unat (img_block img ino k) < g_dblocks g \<Longrightarrow> length (img_data g img ino k) = 4096"
  by (simp add: img_data_def block_off_def image_ok_def)

lemma chunk_nth:
  assumes "image_ok g img"
  shows "r < 4096 \<Longrightarrow> (\<And>k. i \<le> k \<Longrightarrow> k \<le> i + n \<Longrightarrow> unat (img_block img ino k) < g_dblocks g) \<Longrightarrow>
    4096 * n \<le> r + L \<Longrightarrow> r + L \<le> 4096 * (n + 1) \<Longrightarrow>
    length (chunk g img ino i r L n) = L \<and>
    (\<forall>j<L. chunk g img ino i r L n ! j = img_data g img ino (i + (r + j) div 4096) ! ((r + j) mod 4096))"
proof (induction n arbitrary: i r L)
  case 0
  then have b: "block_off g img ino i + 4096 \<le> length img"
    using assms 0(2)[of i] by (simp add: block_off_def image_ok_def)
  have "(r + j) div 4096 = 0" "(r + j) mod 4096 = r + j" if "j < L" for j using 0(4) that by simp_all
  with b 0(4) show ?case by (simp add: img_data_def add.assoc)
next
  case (Suc n)
  have len: "length (img_data g img ino i) = 4096" using img_data_length[OF assms] Suc.prems(2)[of i] by simp
  let ?L = "L - (4096 - r)"
  have IH: "length (chunk g img ino (Suc i) 0 ?L n) = ?L \<and>
    (\<forall>j<?L. chunk g img ino (Suc i) 0 ?L n ! j = img_data g img ino (Suc i + (0 + j) div 4096) ! ((0 + j) mod 4096))"
    by (rule Suc.IH) (use Suc.prems in auto)
  have L: "4096 - r \<le> L" using Suc.prems(1,3) by simp
  have "chunk g img ino i r L (Suc n) ! j = img_data g img ino (i + (r + j) div 4096) ! ((r + j) mod 4096)"
    if "j < L" for j
  proof (cases "j < 4096 - r")
    case True
    then have "(r + j) div 4096 = 0" "(r + j) mod 4096 = r + j" by simp_all
    with True len show ?thesis by (simp add: nth_append)
  next
    case False
    define j' where "j' = j - (4096 - r)"
    have j: "r + j = 4096 + j'" "j' < ?L" using False Suc.prems(1) that L by (auto simp: j'_def)
    have "(r + j) div 4096 = Suc (j' div 4096)" "(r + j) mod 4096 = j' mod 4096" unfolding j(1) by simp_all
    with IH j(2) False len Suc.prems(1) show ?thesis by (simp add: nth_append j'_def)
  qed
  with IH len L Suc.prems(1) show ?case by simp
qed

text \<open>Inside the file the transfer is the requested part of its contents.\<close>

lemma chunk_file:
  assumes img: "image_ok g img" and f: "file_ok g img ino" and L: "0 < L" "p + L \<le> unat (img_length img ino)"
  shows "chunk g img ino (p div 4096) (p mod 4096) L ((p + L - 1) div 4096 - p div 4096) =
    take L (drop p (file_contents g img ino))"
proof -
  let ?K = "(unat (img_length img ino) + 4095) div 4096" and ?n = "(p + L - 1) div 4096 - p div 4096"
  have le: "p div 4096 \<le> (p + L - 1) div 4096" using L(1) by (simp add: div_le_mono)
  have e: "p div 4096 + ?n = (p + L - 1) div 4096" using le by simp
  have eK: "(p + L - 1) div 4096 < ?K"
  proof -
    have "p + L - 1 + 4096 \<le> unat (img_length img ino) + 4095" using L by simp
    then have "(p + L - 1 + 4096) div 4096 \<le> ?K" by (rule div_le_mono)
    then show ?thesis by simp
  qed
  have v: "unat (img_block img ino k) < g_dblocks g" if "k < ?K" for k using f that by (simp add: file_ok_def)
  have D: "length (img_data g img ino k) = 4096" if "k < ?K" for k by (rule img_data_length[OF img v[OF that]])
  have pm: "p = 4096 * (p div 4096) + p mod 4096" by simp
  have c: "length (chunk g img ino (p div 4096) (p mod 4096) L ?n) = L \<and>
    (\<forall>j<L. chunk g img ino (p div 4096) (p mod 4096) L ?n ! j =
      img_data g img ino (p div 4096 + (p mod 4096 + j) div 4096) ! ((p mod 4096 + j) mod 4096))"
  proof (rule chunk_nth[OF img])
    show "4096 * ?n \<le> p mod 4096 + L" "p mod 4096 + L \<le> 4096 * (?n + 1)"
      using block_range[OF L(1)] by simp_all
  qed (use v eK e in auto)
  have len: "length (concat (map (img_data g img ino) [0..<?K])) = 4096 * ?K"
    using concat_blocks_length[of 0 ?K "img_data g img ino"] D by simp
  have fl: "unat (img_length img ino) \<le> 4096 * ?K" by simp
  show ?thesis
  proof (rule nth_equalityI)
    show "length (chunk g img ino (p div 4096) (p mod 4096) L ?n) = length (take L (drop p (file_contents g img ino)))"
      using c len fl L by (simp add: file_contents_def)
  next
    fix j assume "j < length (chunk g img ino (p div 4096) (p mod 4096) L ?n)"
    then have j: "j < L" using c by simp
    have "p + j < 4096 * ?K" using fl L j by linarith
    then have "concat (map (img_data g img ino) [0..<?K]) ! (p + j) = img_data g img ino ((p + j) div 4096) ! ((p + j) mod 4096)"
      using concat_blocks_nth[of 0 ?K "img_data g img ino" "p + j"] D by simp
    moreover obtain a r where a: "p = 4096 * a + r" "p div 4096 = a" "p mod 4096 = r" by (rule block_split)
    then have "(p + j) div 4096 = p div 4096 + (p mod 4096 + j) div 4096"
      "(p + j) mod 4096 = (p mod 4096 + j) mod 4096"
      unfolding a(2,3) by (simp_all add: a(1) add.assoc)
    ultimately show "chunk g img ino (p div 4096) (p mod 4096) L ?n ! j = take L (drop p (file_contents g img ino)) ! j"
      using c j L len fl by (simp add: file_contents_def)
  qed
qed

text \<open>
  The interface the block copies rely on: while \<open>ok\<close> holds, the image can be read at \<open>base\<close>; a copy
  from the image into the buffer of \<open>len\<close> bytes at \<open>buf\<close> is a store of the bytes of the image,
  and such stores keep \<open>ok\<close>.
\<close>

locale image_reader =
  fixes rd :: "'d \<Rightarrow> u32 \<Rightarrow> u8 option" and wr :: "'d \<Rightarrow> u32 \<Rightarrow> u8 \<Rightarrow> 'd option"
    and ok :: "'d \<Rightarrow> bool" and base :: u32 and img :: "u8 list" and buf :: u32 and len :: nat
  assumes ok_image: "ok d \<Longrightarrow> load_bytes rd d base (length img) = Some img"
    and ok_copy: "ok d \<Longrightarrow> p + n \<le> length img \<Longrightarrow> q + n \<le> len \<Longrightarrow>
      memcpy rd wr d (buf + of_nat q) (base + of_nat p) (of_nat n) =
        store_bytes wr d (buf + of_nat q) (take n (drop p img))"
    and ok_store: "ok d \<Longrightarrow> q + length bs \<le> len \<Longrightarrow>
      store_bytes wr d (buf + of_nat q) bs = Some d' \<Longrightarrow> ok d'"
begin

lemma load_in_image:
  assumes "ok d" and "p + n \<le> length img"
  shows "load_bytes rd d (base + of_nat p) n = Some (take n (drop p img))"
  using assms load_bytes_nth[OF ok_image[OF assms(1)]]
  by (intro load_bytes_SomeI) (simp_all add: algebra_simps flip: of_nat_add)

lemma load32_in_image:
  assumes "ok d" and "p + 4 \<le> length img"
  shows "load32 rd d (base + of_nat p) = Some (img_word img p)"
proof -
  have "rd d (base + of_nat (p + i)) = Some (img ! (p + i))" if "i < 4" for i
    using load_bytes_nth[OF ok_image[OF assms(1)], of "p + i"] assms(2) that by simp
  from this[of 0] this[of 1] this[of 2] this[of 3] show ?thesis
    by (simp add: load32_def img_word_def algebra_simps)
qed

lemma img_block_load:
  assumes "ok d" and "image_ok g img" and "ino < g_inodes g" and "k < 1023" and "FILEMEM s = base"
  shows "dblock rd d (inode_addr s (of_nat ino)) (of_nat k) = Some (img_block img ino k)"
proof -
  have "inode_addr s (of_nat ino) + 4 + 4 * of_nat k = base + of_nat (4096 * (1 + ino) + 4 + 4 * k)"
    using assms(5) by (simp add: inode_addr_def BLOCKSIZE_def algebra_simps)
  moreover have "4096 * (1 + ino) + 4 + 4 * k + 4 \<le> length img"
    using assms(2-4) by (simp add: image_ok_def)
  ultimately show ?thesis
    unfolding dblock_def img_block_def using load32_in_image[OF assms(1)] by (simp only:)
qed

lemma read_blocks_chunk:
  assumes fs: "FILEMEM s = base" "g = geometry_of s" "image_ok g img" "ino < g_inodes g"
  shows "ok d \<Longrightarrow> r < 4096 \<Longrightarrow> i + n < 1023 \<Longrightarrow>
    (\<And>k. i \<le> k \<Longrightarrow> k \<le> i + n \<Longrightarrow> unat (img_block img ino k) < g_dblocks g) \<Longrightarrow>
    4096 * n \<le> r + L \<Longrightarrow> block_off g img ino (i + n) + (r + L - 4096 * n) \<le> length img \<Longrightarrow> q + L \<le> len \<Longrightarrow>
    read_blocks s rd wr (inode_addr s (of_nat ino)) buf (of_nat i) (base + of_nat (block_off g img ino i + r))
      (of_nat (4096 - r)) (of_nat q) (of_nat L) (of_nat t) n d =
    do { d' \<leftarrow> store_bytes wr d (buf + of_nat q) (chunk g img ino i r L n); Some (of_nat (t + L), d') }"
proof (induction n arbitrary: d r i L q t)
  case 0
  then show ?case using ok_copy[of d "block_off g img ino i + r" L q] by (simp add: add.assoc)
next
  case (Suc n)
  let ?c = "4096 - r" and ?b = "img_block img ino (Suc i)"
  have L: "?c \<le> L" using Suc.prems(2,5) by simp
  have bi: "unat (img_block img ino i) < g_dblocks g" "unat ?b < g_dblocks g"
    using Suc.prems(4)[of i] Suc.prems(4)[of "Suc i"] by simp_all
  have "block_off g img ino i + 4096 \<le> length img"
    using bi(1) fs(3) by (simp add: block_off_def image_ok_def)
  then have cp: "memcpy rd wr d (buf + of_nat q) (base + of_nat (block_off g img ino i + r)) (of_nat ?c) =
      store_bytes wr d (buf + of_nat q) (drop r (img_data g img ino i))"
    using ok_copy[of d "block_off g img ino i + r" ?c q] Suc.prems(1,2,7) L
    by (simp add: img_data_def drop_take add.commute)
  have len_c: "length (drop r (img_data g img ino i)) = ?c"
    using \<open>block_off g img ino i + 4096 \<le> length img\<close> by (simp add: img_data_def)
  have nb: "\<not> ?b > fs_dblocks s - 1"
    using bi(2) fs(2,3) by (simp add: geometry_of_def image_ok_def word_less_nat_alt unat_sub word_le_nat_alt)
  have st: "get_dblock_mem s ?b 0 = base + of_nat (block_off g img ino (Suc i) + 0)"
    using fs(1,2) by (simp add: get_dblock_mem_def block_off_def geometry_of_def BLOCKSIZE_def algebra_simps)
  have arith: "of_nat q + of_nat ?c = (of_nat (q + ?c) :: u32)" "of_nat L - of_nat ?c = (of_nat (L - ?c) :: u32)"
    "of_nat t + of_nat ?c = (of_nat (t + ?c) :: u32)" "(of_nat i + 1 :: u32) = of_nat (Suc i)"
    "BLOCKSIZE = of_nat (4096 - 0)"
    using L by (simp_all add: of_nat_diff BLOCKSIZE_def)
  have rec: "read_blocks s rd wr (inode_addr s (of_nat ino)) buf (of_nat (Suc i))
        (base + of_nat (block_off g img ino (Suc i) + 0)) (of_nat (4096 - 0)) (of_nat (q + ?c))
        (of_nat (L - ?c)) (of_nat (t + ?c)) n d' =
      do { e \<leftarrow> store_bytes wr d' (buf + of_nat (q + ?c)) (chunk g img ino (Suc i) 0 (L - ?c) n);
           Some (of_nat (t + ?c + (L - ?c)), e) }" if "ok d'" for d'
  proof (rule Suc.IH[OF that])
    show "block_off g img ino (Suc i + n) + (0 + (L - ?c) - 4096 * n) \<le> length img"
      using Suc.prems(2,6) L by (simp add: algebra_simps)
  qed (use Suc.prems L in auto)
  have ok': "ok d'" if "store_bytes wr d (buf + of_nat q) (drop r (img_data g img ino i)) = Some d'" for d'
    using ok_store[OF Suc.prems(1) _ that] len_c Suc.prems(7) L by simp
  have db: "dblock rd d' (inode_addr s (of_nat ino)) (of_nat (Suc i)) = Some ?b" if "ok d'" for d'
    by (rule img_block_load[OF that fs(3,4) _ fs(1)]) (use Suc.prems(3) in simp)
  show ?case
    unfolding read_blocks.simps arith cp chunk.simps store_bytes_append len_c
    using ok' rec db nb st L by (auto simp: Let_def add.assoc split: bind_splits)
qed

text \<open>A read is decided by the inode: the block range, then the transfer of \<open>read_blocks\<close>.\<close>

lemma read_data_chunk:
  assumes fs: "FILEMEM s = base" "g = geometry_of s" "image_ok g img" "ino < g_inodes g"
    and ok: "ok d" and p: "p + L < 2 ^ 32" "0 < L" and len: "L \<le> len"
    and e: "e = (if unat (img_length img ino) < p + L then (unat (img_length img ino) - 1) div 4096
        else (p + L - 1) div 4096)"
    and fl: "0 < unat (img_length img ino)" and pe: "p div 4096 \<le> e" "e < 1023"
    and v: "\<And>k. p div 4096 \<le> k \<Longrightarrow> k \<le> e \<Longrightarrow> unat (img_block img ino k) < g_dblocks g"
    and room: "4096 * e \<le> p + L" "block_off g img ino e + (p + L - 4096 * e) \<le> length img"
  shows "read_data s rd wr (of_nat ino) (of_nat p) buf (of_nat L) d =
    do { d' \<leftarrow> store_bytes wr d buf (chunk g img ino (p div 4096) (p mod 4096) L (e - p div 4096));
         Some (of_nat L, d') }"
proof -
  let ?i = "p div 4096" and ?b = "img_block img ino (p div 4096)"
  have ni: "\<not> (of_nat ino :: u32) > fs_inodes s - 1"
    using fs(2-4) by (simp add: geometry_of_def image_ok_def word_less_nat_alt unat_sub word_le_nat_alt
        unat_of_nat take_bit_nat_eq_self)
  have "inode_addr s (of_nat ino) = base + of_nat (4096 * (1 + ino))"
    using fs(1) by (simp add: inode_addr_def BLOCKSIZE_def algebra_simps)
  then have fll: "load32 rd d (inode_addr s (of_nat ino)) = Some (img_length img ino)"
    using load32_in_image[OF ok, of "4096 * (1 + ino)"] fs(3,4) by (simp only: img_length_def) (simp add: image_ok_def)
  have plu: "of_nat p + of_nat L = (of_nat (p + L) :: u32)" by simp
  have pl: "unat (of_nat p + of_nat L :: u32) = p + L"
    unfolding plu using p(1) by (simp only: unat_of_nat) (simp add: take_bit_nat_eq_self)
  have e1: "(img_length img ino - 1) div BLOCKSIZE = of_nat ((unat (img_length img ino) - 1) div 4096)"
    using word_pred_div[OF fl] by (simp add: BLOCKSIZE_def)
  have e2: "(of_nat p + of_nat L - 1 :: u32) div BLOCKSIZE = of_nat ((p + L - 1) div 4096)"
    using word_pred_div[of "of_nat p + of_nat L"] pl p(2) by (simp add: BLOCKSIZE_def)
  have ew: "(if img_length img ino < of_nat p + of_nat L then (img_length img ino - 1) div BLOCKSIZE
      else (of_nat p + of_nat L - 1) div BLOCKSIZE) = (of_nat e :: u32)"
    unfolding e1 e2 e word_less_nat_alt pl by simp
  have ue: "unat (of_nat e :: u32) = e" "unat (of_nat ?i :: u32) = ?i"
    using pe by (simp_all add: unat_of_nat take_bit_nat_eq_self)
  have st: "(of_nat p :: u32) div BLOCKSIZE = of_nat ?i" "(of_nat p :: u32) mod BLOCKSIZE = of_nat (p mod 4096)"
    using p(1) by (simp_all add: BLOCKSIZE_def word_div_4096 word_mod_4096)
  have db: "dblock rd d (inode_addr s (of_nat ino)) (of_nat ?i) = Some ?b"
    by (rule img_block_load[OF ok fs(3,4) _ fs(1)]) (use pe in simp)
  have nb: "\<not> ?b > fs_dblocks s - 1"
    using v[of ?i] pe(1) fs(2,3) by (simp add: geometry_of_def image_ok_def word_less_nat_alt unat_sub word_le_nat_alt)
  have gb: "get_dblock_mem s ?b (of_nat (p mod 4096)) = base + of_nat (block_off g img ino ?i + p mod 4096)"
    using fs(1,2) by (simp add: get_dblock_mem_def block_off_def geometry_of_def BLOCKSIZE_def algebra_simps)
  have cl: "BLOCKSIZE - of_nat (p mod 4096) = of_nat (4096 - p mod 4096)"
    by (simp add: BLOCKSIZE_def of_nat_diff)
  have le: "\<not> (of_nat ?i :: u32) > of_nat e" using pe ue by (simp add: word_less_nat_alt)
  have pm: "p = 4096 * ?i + p mod 4096" by simp
  have rb: "read_blocks s rd wr (inode_addr s (of_nat ino)) buf (of_nat ?i)
      (base + of_nat (block_off g img ino ?i + p mod 4096)) (of_nat (4096 - p mod 4096)) (of_nat 0)
      (of_nat L) (of_nat 0) (e - ?i) d =
    do { d' \<leftarrow> store_bytes wr d (buf + of_nat 0) (chunk g img ino ?i (p mod 4096) L (e - ?i)); Some (of_nat (0 + L), d') }"
  proof (rule read_blocks_chunk[OF fs ok])
    obtain a r where a: "p = 4096 * a + r" "r < 4096" "p div 4096 = a" "p mod 4096 = r" by (rule block_split)
    obtain n where n: "e = ?i + n" using pe(1) by (rule less_eqE)
    have x: "p mod 4096 + L - 4096 * (e - ?i) = p + L - 4096 * e" using a n unfolding a(3,4) by simp
    show "4096 * (e - ?i) \<le> p mod 4096 + L" using room(1) a n unfolding a(3,4) by simp
    show "block_off g img ino (?i + (e - ?i)) + (p mod 4096 + L - 4096 * (e - ?i)) \<le> length img"
      unfolding x using room(2) pe(1) by simp
  qed (use pe v len in auto)
  show ?thesis
    unfolding read_data_def Let_def
    using ni fll db nb le rb by (simp add: ew st gb cl ue)
qed

end

text \<open>Linear memory, with the buffer on other cells than the image.\<close>

definition vm_image_ok :: "u32 \<Rightarrow> u8 list \<Rightarrow> u32 \<Rightarrow> nat \<Rightarrow> 'z machine_scheme \<Rightarrow> bool" where
  "vm_image_ok base img buf len d \<longleftrightarrow>
     load_bytes vread d base (length img) = Some img \<and> length img < 2 ^ 32 \<and>
     cells translate d buf len \<inter> cells translate d base (length img) = {}"

lemma cells_sub: "p + n \<le> m \<Longrightarrow> cells tr s (a + of_nat p) n \<subseteq> cells tr s a m"
  using cells_add[of tr s a p n] cells_mono[of "p + n" m tr s a] by auto

interpretation vmimg: image_reader vread vwrite "vm_image_ok base img buf len" base img buf len
  for base img buf len
proof unfold_locales
  fix d :: "'a machine_scheme" assume ok: "vm_image_ok base img buf len d"
  show "load_bytes vread d base (length img) = Some img" using ok by (simp add: vm_image_ok_def)
next
  fix d :: "'a machine_scheme" and p n q :: nat
  assume ok: "vm_image_ok base img buf len d" and p: "p + n \<le> length img" and q: "q + n \<le> len"
  have n: "unat (of_nat n :: u32) = n" using p ok by (simp add: vm_image_ok_def unat_of_nat take_bit_nat_eq_self)
  have "cells translate d (buf + of_nat q) n \<inter> cells translate d (base + of_nat p) n = {}"
    using ok cells_sub[OF p, of translate d base] cells_sub[OF q, of translate d buf]
    by (auto simp: vm_image_ok_def)
  then have "memcpy vread vwrite d (buf + of_nat q) (base + of_nat p) (of_nat n) =
      block_copy vread vwrite d (buf + of_nat q) (base + of_nat p) n"
    using vm.memcpy_copy[of d "buf + of_nat q" "of_nat n" "base + of_nat p"] n by simp
  moreover have "load_bytes vread d (base + of_nat p) n = Some (take n (drop p img))"
    using ok p load_bytes_nth[of vread d base "length img" img]
    by (intro load_bytes_SomeI) (simp_all add: vm_image_ok_def algebra_simps flip: of_nat_add)
  ultimately show "memcpy vread vwrite d (buf + of_nat q) (base + of_nat p) (of_nat n) =
      store_bytes vwrite d (buf + of_nat q) (take n (drop p img))"
    by (simp add: block_copy_def)
next
  fix d d' :: "'a machine_scheme" and q :: nat and bs
  assume ok: "vm_image_ok base img buf len d" and q: "q + length bs \<le> len"
    and st: "store_bytes vwrite d (buf + of_nat q) bs = Some d'"
  have "cells translate d base (length img) \<inter> cells translate d (buf + of_nat q) (length bs) = {}"
    using ok cells_sub[OF q, of translate d buf] by (auto simp: vm_image_ok_def)
  then have "load_bytes vread d' base (length img) = load_bytes vread d base (length img)"
    by (rule vm.store_load_other[OF st])
  moreover have "cells translate d' = cells translate d"
    by (intro ext) (simp add: cells_def vm.store_keeps_tr[OF st])
  ultimately show "vm_image_ok base img buf len d'" using ok by (simp add: vm_image_ok_def)
qed

text \<open>A local array as destination: the image is outside it.\<close>

definition arr_image_ok :: "(u32 \<Rightarrow> u8 option) \<Rightarrow> u32 \<Rightarrow> u8 list \<Rightarrow> u8 list \<Rightarrow> bool" where
  "arr_image_ok r base img d \<longleftrightarrow>
     load_bytes (\<lambda>_. r) () base (length img) = Some img \<and> length img < 2 ^ 32"

interpretation arrimg: image_reader "\<lambda>_. r" array_wr "arr_image_ok r base img" base img buf len
  for r base img buf len
proof unfold_locales
  fix d assume ok: "arr_image_ok r base img d"
  have "load_bytes (\<lambda>_. r) d base (length img) = load_bytes (\<lambda>_. r) () base (length img)"
    by (rule load_bytes_cong) simp
  then show ld: "load_bytes (\<lambda>_. r) d base (length img) = Some img" using ok by (simp add: arr_image_ok_def)
  fix p n q :: nat assume p: "p + n \<le> length img"
  have n: "unat (of_nat n :: u32) = n" using p ok by (simp add: arr_image_ok_def unat_of_nat take_bit_nat_eq_self)
  have "load_bytes (\<lambda>_. r) d (base + of_nat p) n = Some (take n (drop p img))"
    using p load_bytes_nth[OF ld] by (intro load_bytes_SomeI) (simp_all add: algebra_simps flip: of_nat_add)
  then show "memcpy (\<lambda>_. r) array_wr d (buf + of_nat q) (base + of_nat p) (of_nat n) =
      store_bytes array_wr d (buf + of_nat q) (take n (drop p img))"
    by (simp add: memcpy_from_outside block_copy_def n)
qed (simp add: arr_image_ok_def)

section \<open>Reading files\<close>

lemma chunk_length:
  assumes "image_ok g img"
  shows "r < 4096 \<Longrightarrow> (\<And>k. i \<le> k \<Longrightarrow> k \<le> i + n \<Longrightarrow> unat (img_block img ino k) < g_dblocks g) \<Longrightarrow>
    4096 * n \<le> r + L \<Longrightarrow> block_off g img ino (i + n) + (r + L - 4096 * n) \<le> length img \<Longrightarrow>
    length (chunk g img ino i r L n) = L"
proof (induction n arbitrary: i r L)
  case 0
  then show ?case by simp
next
  case (Suc n)
  have "length (img_data g img ino i) = 4096" using img_data_length[OF assms] Suc.prems(2)[of i] by simp
  moreover have "length (chunk g img ino (Suc i) 0 (L - (4096 - r)) n) = L - (4096 - r)"
  proof (rule Suc.IH)
    show "block_off g img ino (Suc i + n) + (0 + (L - (4096 - r)) - 4096 * n) \<le> length img"
      using Suc.prems(1,3,4) by (simp add: algebra_simps)
  qed (use Suc.prems in auto)
  ultimately show ?case using Suc.prems(1,3) by simp
qed

lemma last_block:
  assumes "file_ok g img ino" "0 < unat (img_length img ino)"
  shows "(unat (img_length img ino) - 1) div 4096 < 1023"
    "k \<le> (unat (img_length img ino) - 1) div 4096 \<Longrightarrow> unat (img_block img ino k) < g_dblocks g"
proof -
  have e: "(unat (img_length img ino) + 4095) div 4096 = (unat (img_length img ino) - 1) div 4096 + 1"
    using assms(2) div_add_self2[of 4096 "unat (img_length img ino) - 1"] by simp
  show "(unat (img_length img ino) - 1) div 4096 < 1023"
  proof (rule less_mult_imp_div_less)
    have "unat (img_length img ino) \<le> 4096 * 1023" using assms(1) by (simp add: file_ok_def)
    then show "unat (img_length img ino) - 1 < 1023 * 4096" using assms(2) by linarith
  qed
  assume "k \<le> (unat (img_length img ino) - 1) div 4096"
  then show "unat (img_block img ino k) < g_dblocks g" using assms(1) e by (simp add: file_ok_def)
qed

context image_reader
begin

lemma read_data_slice:
  assumes fs: "FILEMEM s = base" "g = geometry_of s" "image_ok g img" and f: "file_ok g img ino"
    and ok: "ok d" and L: "0 < L" "p + L \<le> unat (img_length img ino)" "L \<le> len"
  shows "read_data s rd wr (of_nat ino) (of_nat p) buf (of_nat L) d =
    do { d' \<leftarrow> store_bytes wr d buf (take L (drop p (file_contents g img ino))); Some (of_nat L, d') }"
proof -
  let ?fl = "unat (img_length img ino)" and ?e = "(p + L - 1) div 4096"
  have fl: "0 < ?fl" using L by simp
  have ee: "?e \<le> (?fl - 1) div 4096" using L by (intro div_le_mono) simp
  have pe: "p div 4096 \<le> ?e" using L(1) by (intro div_le_mono) simp
  obtain b t where b: "p + L - 1 = 4096 * b + t" "t < 4096" "?e = b" by (rule block_split)
  have ino: "ino < g_inodes g" "?fl \<le> 4096 * 1023" using f by (simp_all add: file_ok_def)
  have v: "unat (img_block img ino k) < g_dblocks g" if "k \<le> ?e" for k
    using last_block(2)[OF f fl] that ee by simp
  have "block_off g img ino ?e + 4096 \<le> length img"
    using v[of ?e] fs(3) by (simp add: block_off_def image_ok_def)
  then have room: "4096 * ?e \<le> p + L" "block_off g img ino ?e + (p + L - 4096 * ?e) \<le> length img"
    using b L(1) unfolding b(3) by linarith+
  have "read_data s rd wr (of_nat ino) (of_nat p) buf (of_nat L) d =
    do { d' \<leftarrow> store_bytes wr d buf (chunk g img ino (p div 4096) (p mod 4096) L (?e - p div 4096));
         Some (of_nat L, d') }"
    by (rule read_data_chunk[OF fs ino(1) ok _ L(1,3) _ fl pe _ _ room])
      (use L ino v last_block(1)[OF f fl] ee in auto)
  then show ?thesis by (simp only: chunk_file[OF fs(3) f L(1,2)])
qed

text \<open>Beyond the end of the file, in its last block, the request is served in full.\<close>

lemma read_data_beyond:
  assumes fs: "FILEMEM s = base" "g = geometry_of s" "image_ok g img" and f: "file_ok g img ino"
    and ok: "ok d" and fl: "0 < unat (img_length img ino)"
    and L: "unat (img_length img ino) < p + L" "p + L < 2 ^ 32" "0 < L" "L \<le> len"
    and e: "e = (unat (img_length img ino) - 1) div 4096" "p div 4096 \<le> e"
    and room: "block_off g img ino e + (p + L - 4096 * e) \<le> length img"
  shows "\<exists>bs. length bs = L \<and> read_data s rd wr (of_nat ino) (of_nat p) buf (of_nat L) d =
    do { d' \<leftarrow> store_bytes wr d buf bs; Some (of_nat L, d') }"
proof -
  let ?bs = "chunk g img ino (p div 4096) (p mod 4096) L (e - p div 4096)"
  have v: "unat (img_block img ino k) < g_dblocks g" if "k \<le> e" for k using last_block(2)[OF f fl] that e by simp
  have ino: "ino < g_inodes g" using f by (simp add: file_ok_def)
  have "4096 * e \<le> unat (img_length img ino) - 1" unfolding e(1) by simp
  then have e4: "4096 * e \<le> p + L" using L(1) by simp
  obtain a r where a: "p = 4096 * a + r" "r < 4096" "p div 4096 = a" "p mod 4096 = r" by (rule block_split)
  obtain n where n: "e = a + n" using e(2) a(3) by (metis less_eqE)
  have "length ?bs = L"
    by (rule chunk_length[OF fs(3)]) (use a n e4 room v in \<open>auto simp: a(3,4)\<close>)
  moreover have "read_data s rd wr (of_nat ino) (of_nat p) buf (of_nat L) d =
    do { d' \<leftarrow> store_bytes wr d buf ?bs; Some (of_nat L, d') }"
    by (rule read_data_chunk[OF fs ino ok L(2-4) _ fl e(2) _ _ e4 room])
      (use L(1) e v last_block(1)[OF f fl] in auto)
  ultimately show ?thesis by blast
qed

text \<open>
  A request that stays inside one block, the last one included, is served in full from the blocks of
  the file; at the end of the last block it returns 0.
\<close>

lemma read_data_in_block:
  assumes fs: "FILEMEM s = base" "g = geometry_of s" "image_ok g img" and f: "file_ok g img ino" "0 < unat (img_length img ino)"
    and ok: "ok d" and L: "0 < L" "p mod 4096 + L \<le> 4096" "L \<le> len"
    and p: "p div 4096 \<le> (unat (img_length img ino) - 1) div 4096"
    and past: "unat (img_length img ino) < p + L \<Longrightarrow> p div 4096 = (unat (img_length img ino) - 1) div 4096"
  shows "read_data s rd wr (of_nat ino) (of_nat p) buf (of_nat L) d =
    do { d' \<leftarrow> store_bytes wr d buf (take L (drop p (file_blocks g img ino))); Some (of_nat L, d') }"
proof -
  let ?fl = "unat (img_length img ino)" and ?K = "(unat (img_length img ino) + 4095) div 4096"
  obtain a r where a: "p = 4096 * a + r" "r < 4096" "p div 4096 = a" "p mod 4096 = r" by (rule block_split)
  have e: "a = (if ?fl < p + L then (?fl - 1) div 4096 else (p + L - 1) div 4096)"
    using past a L(1,2) div_nat_eqI[of 4096 a "p + L - 1"] by (auto simp: a(3))
  have K: "?K = (?fl - 1) div 4096 + 1" using f(2) div_add_self2[of 4096 "?fl - 1"] by simp
  have ino: "ino < g_inodes g" "?fl \<le> 4096 * 1023" using f by (simp_all add: file_ok_def)
  have aK: "a < ?K" using p by (simp add: K a(3))
  have v: "unat (img_block img ino k) < g_dblocks g" if "k < ?K" for k using last_block(2)[OF f] that K by simp
  have bo: "block_off g img ino a + 4096 \<le> length img" using v[OF aK] fs(3) by (simp add: block_off_def image_ok_def)
  have pL: "p + L < 2 ^ 32" 
  proof -
    have "p + L < 4294967296" using last_block(1)[OF f] aK K a(1) L(2) unfolding a(4) by linarith
    then show ?thesis by simp
  qed
  have "read_data s rd wr (of_nat ino) (of_nat p) buf (of_nat L) d =
    do { d' \<leftarrow> store_bytes wr d buf (chunk g img ino (p div 4096) (p mod 4096) L (a - p div 4096)); Some (of_nat L, d') }"
    by (rule read_data_chunk[OF fs ino(1) ok pL L(1,3) e f(2)])
      (use a aK K v bo L last_block(1)[OF f] in \<open>auto simp: a(3,4)\<close>)
  moreover have "chunk g img ino (p div 4096) (p mod 4096) L (a - p div 4096) = take L (drop p (file_blocks g img ino))"
  proof (rule nth_equalityI)
    have D: "length (img_data g img ino k) = 4096" if "k < ?K" for k by (rule img_data_length[OF fs(3) v[OF that]])
    have len: "length (file_blocks g img ino) = 4096 * ?K"
      using concat_blocks_length[of 0 ?K "img_data g img ino"] D by (simp add: file_blocks_def)
    have room: "p + L \<le> 4096 * ?K" using aK a L(2) unfolding a(4) by linarith
    show "length (chunk g img ino (p div 4096) (p mod 4096) L (a - p div 4096)) = length (take L (drop p (file_blocks g img ino)))"
      using bo L(2) len room by (simp add: a(3,4))
    fix j assume "j < length (chunk g img ino (p div 4096) (p mod 4096) L (a - p div 4096))"
    then have j: "j < L" using bo L(2) by (simp add: a(3,4))
    have "(p + j) div 4096 = a" 
  proof -
      have "r + j < 4096" using j L(2) unfolding a(4) by linarith
      then show ?thesis by (simp add: a(1) add.assoc)
    qed
    moreover from this have "(p + j) mod 4096 = r + j" using a(1) mult_div_mod_eq[of 4096 "p + j"] by simp
    ultimately have "file_blocks g img ino ! (p + j) = img_data g img ino a ! (r + j)"
      using concat_blocks_nth[of 0 ?K "img_data g img ino" "p + j"] D room j by (simp add: file_blocks_def)
    then show "chunk g img ino (p div 4096) (p mod 4096) L (a - p div 4096) ! j = take L (drop p (file_blocks g img ino)) ! j"
      using j L(2) bo len room by (simp add: a(3,4) img_data_def add.assoc)
  qed
  ultimately show ?thesis by simp
qed

lemma read_data_at_end:
  assumes fs: "FILEMEM s = base" "g = geometry_of s" "image_ok g img" and f: "file_ok g img ino" "0 < unat (img_length img ino)"
    and ok: "ok d" and p: "p = 4096 * ((unat (img_length img ino) + 4095) div 4096)" "unat (img_length img ino) \<le> 4096 * 1022"
    and L: "0 < L" "L < 2 ^ 31"
  shows "read_data s rd wr (of_nat ino) (of_nat p) buf (of_nat L) d = Some (0, d)"
proof -
  let ?fl = "unat (img_length img ino)"
  have K: "(?fl + 4095) div 4096 = (?fl - 1) div 4096 + 1" using f(2) div_add_self2[of 4096 "?fl - 1"] by simp
  let ?i = "(?fl - 1) div 4096 + 1"
  have i: "p = 4096 * ?i" "?i < 1023" using p K less_mult_imp_div_less[of "?fl - 1" 1022 4096] f(2) by simp_all
  have ino: "ino < g_inodes g" using f(1) by (simp add: file_ok_def)
  then have ni: "\<not> (of_nat ino :: u32) > fs_inodes s - 1"
    using fs(2,3) by (simp add: geometry_of_def image_ok_def word_less_nat_alt unat_sub word_le_nat_alt
        unat_of_nat take_bit_nat_eq_self)
  have "inode_addr s (of_nat ino) = base + of_nat (4096 * (1 + ino))"
    using fs(1) by (simp add: inode_addr_def BLOCKSIZE_def algebra_simps)
  then have fll: "load32 rd d (inode_addr s (of_nat ino)) = Some (img_length img ino)"
    using load32_in_image[OF ok, of "4096 * (1 + ino)"] fs(3) ino by (simp only: img_length_def) (simp add: image_ok_def)
  have "L < 2147483648" using L(2) by simp
  moreover have "p \<le> 4096 * 1022" unfolding i(1) by (rule mult_left_mono) (use i(2) in simp_all)
  ultimately have "p < 4294967296" "p + L < 4294967296" by simp_all
  then have p32: "p < 2 ^ 32" "p + L < 2 ^ 32" by simp_all
  have st: "(of_nat p :: u32) div BLOCKSIZE = of_nat ?i" using p32(1) i(1) by (simp only: BLOCKSIZE_def word_div_4096) simp
  have db: "dblock rd d (inode_addr s (of_nat ino)) (of_nat ?i) = Some (img_block img ino ?i)"
    by (rule img_block_load[OF ok fs(3) ino i(2) fs(1)])
  have pl: "unat (of_nat p + of_nat L :: u32) = p + L"
    using p32(2) by (simp only: of_nat_add[symmetric] unat_of_nat) (simp add: take_bit_nat_eq_self)
  have "?fl - 1 < 4096 * ?i" 
  proof -
    obtain b t where "?fl - 1 = 4096 * b + t" "t < 4096" "(?fl - 1) div 4096 = b" "(?fl - 1) mod 4096 = t" by (rule block_split)
    then show ?thesis by simp
  qed
  then have "img_length img ino < of_nat p + of_nat L" using i(1) L(1) unfolding word_less_nat_alt pl by linarith
  moreover have "(img_length img ino - 1) div BLOCKSIZE = of_nat ((?fl - 1) div 4096)"
    using word_pred_div[OF f(2)] by (simp add: BLOCKSIZE_def)
  moreover have "(of_nat ?i :: u32) > of_nat ((?fl - 1) div 4096)"
    using i(2) unfolding word_less_nat_alt by (simp add: unat_of_nat take_bit_nat_eq_self unat_word_ariths)
  ultimately show ?thesis
    unfolding read_data_def Let_def st fll db using ni by (simp only: if_True if_False Option.bind.simps) simp
qed

end

text \<open>
  C13: Reading inside a file returns its contents.  For every image in which the file's inode names
  existing blocks, and every request inside the file, \<open>read_data\<close> stores exactly the requested
  bytes of the file (its blocks in inode order) at \<open>buf\<close> and returns the number requested; the
  blocks may be scattered and the request may begin and end anywhere in them.
\<close>

theorem read_data_reads_file:
  assumes "image_ok (geometry_of s) img" and "file_ok (geometry_of s) img (unat inode)"
    and "vm_image_ok (FILEMEM s) img buf (unat len) s"
    and "0 < len" and "unat offset + unat len \<le> unat (img_length img (unat inode))"
  shows "read_data s vread vwrite inode offset buf len s =
    do { s' \<leftarrow> store_bytes vwrite s buf
           (take (unat len) (drop (unat offset) (file_contents (geometry_of s) img (unat inode))));
         Some (len, s') }"
  using vmimg.read_data_slice[OF refl refl assms(1,2,3) _ assms(5) order_refl] assms(4)
  by (simp add: word_less_nat_alt)

text \<open>
  Finding: \<open>read_data\<close> does not stop at the end of the file.  A request that reaches past the
  end, from any offset in or before the last block, is served in full: it stores and returns as
  many bytes as were asked for, although the file has fewer, the rest being whatever follows in
  the image.
\<close>

theorem read_data_passes_end:
  assumes "image_ok (geometry_of s) img" and "file_ok (geometry_of s) img (unat inode)"
    and "vm_image_ok (FILEMEM s) img buf (unat len) s"
    and "0 < len" and "unat offset + unat len < 2 ^ 32"
    and "0 < unat (img_length img (unat inode))" and "unat (img_length img (unat inode)) < unat offset + unat len"
    and "last_b = (unat (img_length img (unat inode)) - 1) div 4096" and "unat offset div 4096 \<le> last_b"
    and "block_off (geometry_of s) img (unat inode) last_b + (unat offset + unat len - 4096 * last_b) \<le> length img"
  shows "\<exists>bs. length bs = unat len \<and> read_data s vread vwrite inode offset buf len s =
    do { s' \<leftarrow> store_bytes vwrite s buf bs; Some (len, s') }"
  using vmimg.read_data_beyond[OF refl refl assms(1,2,3,6,7,5) _ order_refl assms(8,9,10)] assms(4)
  by (simp add: word_less_nat_alt)

section \<open>The drivers\<close>

lemma file_contents_length:
  assumes "image_ok g img" "file_ok g img ino"
  shows "length (file_contents g img ino) = unat (img_length img ino)"
proof -
  let ?n = "(unat (img_length img ino) + 4095) div 4096"
  have e: "map (\<lambda>k. length (img_data g img ino k)) [0..<?n] = map (\<lambda>_. 4096) [0..<?n]"
    using assms(2) by (intro map_cong refl img_data_length[OF assms(1)]) (simp add: file_ok_def)
  have "length (concat (map (img_data g img ino) [0..<?n])) = 4096 * ?n"
    by (simp add: length_concat comp_def e del: upt_rec_numeral) (simp add: sum_list_triv)
  moreover have "unat (img_length img ino) \<le> 4096 * ?n" by simp
  ultimately show ?thesis by (simp add: file_contents_def)
qed

lemma procs_phys [simp, frame_simps]:
  "procs_wf (s\<lparr>phys := m\<rparr>) = procs_wf s" "fds_at (s\<lparr>phys := m\<rparr>) = fds_at s"
proof -
  have "console_wf (s\<lparr>phys := m\<rparr>) = console_wf s" by (intro console_wf_cong) simp_all
  then show "procs_wf (s\<lparr>phys := m\<rparr>) = procs_wf s" by (simp add: procs_wf_def)
  show "fds_at (s\<lparr>phys := m\<rparr>) = fds_at s" by (rule ext) (simp add: fds_at_def split: fd_ptr.split)
qed

text \<open>What a read does to the state: a block of memory is stored and one descriptor is updated.\<close>

definition fd_stored :: "u32 \<Rightarrow> (fd_t \<Rightarrow> fd_t) \<Rightarrow> u32 \<Rightarrow> u8 list \<Rightarrow> 'z procs_scheme \<Rightarrow> 'z procs_scheme \<Rightarrow> bool" where
  "fd_stored fd f buf bs s s' \<longleftrightarrow> procs_wf s' \<and> load_bytes vread s' buf (length bs) = Some bs \<and>
     cur_fds s' = (cur_fds s)[unat fd := f (cur_fds s ! unat fd)] \<and>
     (\<forall>p. p \<notin> cells translate s buf (length bs) \<longrightarrow> phys s' p = phys s p) \<and>
     s' = s\<lparr>phys := phys s', pcbs := pcbs s', kernel_fdt := kernel_fdt s'\<rparr>"

lemma store_upd_fd:
  assumes wf: "procs_wf s" and fd: "unat fd < 8"
    and mapped: "\<forall>i<length bs. translate s (buf + of_nat i) \<noteq> None"
    and inj: "inj_cells translate s buf (length bs)"
  shows "\<exists>t s'. store_bytes vwrite s buf bs = Some t \<and> upd_fd fd f t = Some s' \<and>
    fd_stored fd f buf bs s s'"
proof -
  obtain t where t: "store_bytes vwrite s buf bs = Some t"
    using mapped vm.store_Some_iff[of s buf bs] by auto
  obtain m where fr: "t = s\<lparr>phys := m\<rparr>" using store_frame[OF t] by blast
  then have wt: "procs_wf t" "process_array t = process_array s" "schedule_index t = schedule_index s"
    "fds_at t = fds_at s" using wf by (simp_all add: fr)
  obtain s' where s': "upd_fd fd f t = Some s'" "procs_wf s'" "process_array s' = process_array t"
    "schedule_index s' = schedule_index t" "cur_fds s' = (cur_fds t)[unat fd := f (cur_fds t ! unat fd)]"
    "s' = t\<lparr>pcbs := pcbs s', kernel_fdt := kernel_fdt s'\<rparr>"
    using upd_fd_spec[OF wt(1) fd, of f] by blast
  have ld: "load_bytes vread t buf (length bs) = Some bs"
    by (rule vm.store_load_same[OF t]) (use inj in \<open>simp add: inj_cells_def\<close>)
  have ps: "phys s' = phys t" "translate s' = translate t"
    by (subst s'(6), simp)+
  then have "load_bytes vread s' buf (length bs) = Some bs"
    using ld load_bytes_cong[of "length bs" vread s' buf vread t buf] by (simp add: vread_def)
  moreover have "s' = s\<lparr>phys := phys s', pcbs := pcbs s', kernel_fdt := kernel_fdt s'\<rparr>"
    by (subst s'(6)) (simp add: ps fr)
  moreover have "phys s' p = phys s p" if "p \<notin> cells translate s buf (length bs)" for p
    using vm.store_cell_other[OF t that] ps by simp
  ultimately show ?thesis
    using t s'(1,2,5) wt unfolding fd_stored_def by auto
qed

text \<open>
  Sequential reads.  A read through an open file descriptor delivers the next \<open>nbytes\<close> bytes of
  the file at the descriptor's position, returns \<open>nbytes\<close> and advances the position by it, so that
  the next read continues there; no other descriptor and no memory outside the buffer changes.
\<close>

theorem file_read_sequential:
  assumes "procs_wf s" and "unat fd < 8" and "d = cur_fds s ! unat fd" and "flags d \<noteq> 0"
    and "image_ok (geometry_of s) img" and "file_ok (geometry_of s) img (unat (fd_inode d))"
    and "vm_image_ok (FILEMEM s) img buf (unat nbytes) s"
    and "\<forall>i<unat nbytes. translate s (buf + of_nat i) \<noteq> None" and "inj_cells translate s buf (unat nbytes)"
    and "0 < nbytes"
    and "unat (file_position d) + unat nbytes \<le> unat (img_length img (unat (fd_inode d)))"
  shows "\<exists>s'. file_read fd buf nbytes s = Some (nbytes, s') \<and>
    fd_stored fd (\<lambda>d. d\<lparr>file_position := file_position d + nbytes\<rparr>) buf
      (take (unat nbytes) (drop (unat (file_position d))
        (file_contents (geometry_of s) img (unat (fd_inode d))))) s s'"
proof -
  let ?bs = "take (unat nbytes) (drop (unat (file_position d)) (file_contents (geometry_of s) img (unat (fd_inode d))))"
  have rd: "read_data s vread vwrite (fd_inode d) (file_position d) buf nbytes s =
      do { s' \<leftarrow> store_bytes vwrite s buf ?bs; Some (nbytes, s') }"
    using vmimg.read_data_slice[OF refl refl assms(5,6,7) _ assms(11) order_refl] assms(10)
    by (simp add: word_less_nat_alt)
  have len: "length ?bs = unat nbytes" using assms(11) file_contents_length[OF assms(5,6)] by simp
  obtain t s' where "store_bytes vwrite s buf ?bs = Some t"
    "upd_fd fd (\<lambda>d. d\<lparr>file_position := file_position d + nbytes\<rparr>) t = Some s'"
    "fd_stored fd (\<lambda>d. d\<lparr>file_position := file_position d + nbytes\<rparr>) buf ?bs s s'"
    using store_upd_fd[OF assms(1,2), of ?bs buf] assms(8,9) unfolding len by blast
  with rd assms(3,4) get_fd_eq[OF assms(1,2)] show ?thesis by (simp add: file_read_def)
qed

section \<open>Reading the directory\<close>

lemma count_name_spec:
  "(\<And>j. j < i + n \<Longrightarrow> rd (of_nat j) = Some (xs ! j)) \<Longrightarrow> length xs = i + n \<Longrightarrow>
     count_name rd i n = Some (of_nat (i + length (takeWhile (\<lambda>b. b \<noteq> 0) (drop i xs))))"
proof (induction n arbitrary: i)
  case 0
  then show ?case by simp
next
  case (Suc n)
  then have "drop i xs = xs ! i # drop (Suc i) xs" by (simp add: Cons_nth_drop_Suc)
  with Suc.IH[of "Suc i"] Suc.prems show ?case by (simp add: add.commute)
qed

lemma directory_read_run:
  assumes "procs_wf s" and "2 \<le> unat fd" and "unat fd < 8" and "i = unat (file_position (cur_fds s ! unat fd))"
    and "dir_image s ds" and "ds \<noteq> []" and "length dent = 64"
    and "\<forall>k<33. translate s (buf + of_nat k) \<noteq> None" and "inj_cells translate s buf 33"
  shows "directory_read dent fd buf nbytes s =
    (if i < length ds then do { t \<leftarrow> store_bytes vwrite s buf (take 32 (ds ! i) @ [0]);
         u \<leftarrow> upd_fd fd (\<lambda>d. d\<lparr>file_position := file_position d + 1\<rparr>) t;
         Some (of_nat (length (dentry_name (ds ! i))), u) }
     else Some (0, s))"
proof -
  have fd: "\<not> (sint fd < 2 \<or> 7 < sint fd)" using assms(2,3) by (simp add: fd_range)
  note g = get_fd_eq[OF assms(1,3)]
  have rd: "read_dentry_by_index s (file_position (cur_fds s ! unat fd)) (Some dent) =
    Some (if i < length ds then (0, Some (ds ! i)) else (-1, Some dent))"
    using dentry_by_index[OF assms(5,6,7)] assms(4) by simp
  show ?thesis
  proof (cases "i < length ds")
    case False
    with fd g rd show ?thesis by (simp add: directory_read_def)
  next
    case True
    let ?e = "ds ! i" and ?bs = "take 32 (ds ! i) @ [0]"
    have "load_bytes vread s (dentry_addr s (of_nat i)) 64 = Some ?e"
      using True assms(5) by (simp add: dir_image_def)
    then have e: "length ?e = 64" by (rule load_bytes_length)
    have "load_bytes (\<lambda>_. array_rd ?e) s 0 32 = Some (take 32 ?e)"
      by (rule load_bytes_SomeI) (use e in \<open>auto simp: array_rd_def unat_of_nat take_bit_nat_eq_self\<close>)
    then have mc: "memcpy (\<lambda>_. array_rd ?e) vwrite s buf 0 32 = store_bytes vwrite s buf (take 32 ?e)"
      by (simp add: memcpy_from_outside block_copy_def)
    obtain t s' where t: "store_bytes vwrite s buf ?bs = Some t"
      "upd_fd fd (\<lambda>d. d\<lparr>file_position := file_position d + 1\<rparr>) t = Some s'"
      and s': "fd_stored fd (\<lambda>d. d\<lparr>file_position := file_position d + 1\<rparr>) buf ?bs s s'"
      using store_upd_fd[OF assms(1,3), of ?bs buf "\<lambda>d. d\<lparr>file_position := file_position d + 1\<rparr>"] assms(8,9) e
      by auto
    obtain t0 where t0: "store_bytes vwrite s buf (take 32 ?e) = Some t0" "vwrite t0 (buf + 32) 0 = Some t"
      using t(1) e by (auto simp: store_bytes_append bind_Some_iff)
    have ld: "load_bytes vread s' buf 33 = Some ?bs" using s' e by (simp add: fd_stored_def)
    have "count_name (\<lambda>j. vread s' (buf + j)) 0 32 = Some (of_nat (length (dentry_name ?e)))"
      using count_name_spec[of 0 32 "\<lambda>j. vread s' (buf + j)" "take 32 ?e"] load_bytes_nth[OF ld] e
      by (simp add: nth_append dentry_name_def)
    with True fd g rd mc t0 t show ?thesis by (simp add: directory_read_def)
  qed
qed

text \<open>
  A read of the directory returns one entry per call.  At position \<open>i\<close> it stores the 32 name
  bytes of entry \<open>i\<close> and a NUL, returns the length of its name and moves to the next entry, and
  at the end of the directory it returns 0 and changes nothing.  It always writes 33 bytes: the
  requested \<open>nbytes\<close> is not used.
\<close>

theorem directory_read_lists:
  assumes "procs_wf s" and "2 \<le> unat fd" and "unat fd < 8" and "i = unat (file_position (cur_fds s ! unat fd))"
    and "dir_image s ds" and "ds \<noteq> []" and "length dent = 64"
    and "\<forall>k<33. translate s (buf + of_nat k) \<noteq> None" and "inj_cells translate s buf 33"
  shows "if i < length ds then
      \<exists>s'. directory_read dent fd buf nbytes s = Some (of_nat (length (dentry_name (ds ! i))), s') \<and>
        fd_stored fd (\<lambda>d. d\<lparr>file_position := file_position d + 1\<rparr>) buf (take 32 (ds ! i) @ [0]) s s'
    else directory_read dent fd buf nbytes s = Some (0, s)"
proof (cases "i < length ds")
  case True
  have "length (take 32 (ds ! i) @ [0]) = 33"
    using True assms(5) load_bytes_length[of vread s "dentry_addr s (of_nat i)" 64 "ds ! i"] by (simp add: dir_image_def)
  then obtain t s' where "store_bytes vwrite s buf (take 32 (ds ! i) @ [0]) = Some t"
    "upd_fd fd (\<lambda>d. d\<lparr>file_position := file_position d + 1\<rparr>) t = Some s'"
    "fd_stored fd (\<lambda>d. d\<lparr>file_position := file_position d + 1\<rparr>) buf (take 32 (ds ! i) @ [0]) s s'"
    using store_upd_fd[OF assms(1,3), of "take 32 (ds ! i) @ [0]" buf "\<lambda>d. d\<lparr>file_position := file_position d + 1\<rparr>"] assms(8,9)
    by auto
  with True directory_read_run[OF assms, of nbytes] show ?thesis by simp
qed (use directory_read_run[OF assms, of nbytes] in simp)

end
