(* ===== verification/Devices.thy ===== *)
theory Devices
  imports Machine
begin

text \<open>
  The interrupt controllers (\<open>i8259.c\<close>) and the interval timer (\<open>pit.c\<close>).  Their registers are
  reached through ports only, so an operation is known by the bytes it sends, in order; the mask
  registers are read back from the data ports.
\<close>

section \<open>The 8259 interrupt controllers\<close>

definition MASTER_8259_PORT :: u16 where "MASTER_8259_PORT = 0x20"
definition SLAVE_8259_PORT :: u16 where "SLAVE_8259_PORT = 0xA0"
definition ICW1 :: u32 where "ICW1 = 0x11"
definition ICW2_MASTER :: u32 where "ICW2_MASTER = 0x20"
definition ICW2_SLAVE :: u32 where "ICW2_SLAVE = 0x28"
definition ICW3_MASTER :: u32 where "ICW3_MASTER = 0x04"
definition ICW3_SLAVE :: u32 where "ICW3_SLAVE = 0x02"
definition ICW4 :: u32 where "ICW4 = 0x01"
definition EOI :: u32 where "EOI = 0x60"

lemmas pic_consts = MASTER_8259_PORT_def SLAVE_8259_PORT_def ICW1_def ICW2_MASTER_def
  ICW2_SLAVE_def ICW3_MASTER_def ICW3_SLAVE_def ICW4_def EOI_def

definition i8259_init :: "'z machine_scheme \<Rightarrow> 'z machine_scheme" where
  "i8259_init s =
     (let s = outb ICW1 MASTER_8259_PORT s;
          s = outb ICW1 SLAVE_8259_PORT s;
          s = outb ICW2_MASTER (MASTER_8259_PORT + 1) s;
          s = outb ICW2_SLAVE (SLAVE_8259_PORT + 1) s;
          s = outb ICW3_MASTER (MASTER_8259_PORT + 1) s;
          s = outb ICW3_SLAVE (SLAVE_8259_PORT + 1) s;
          s = outb ICW4 (MASTER_8259_PORT + 1) s
      in outb ICW4 (SLAVE_8259_PORT + 1) s)"

text \<open>The data port of the controller an IRQ belongs to, and its line there.\<close>

definition irq_port :: "u32 \<Rightarrow> u16" where
  "irq_port irq_num = (if irq_num < 8 then MASTER_8259_PORT else SLAVE_8259_PORT) + ucast ICW4"

definition irq_line :: "u32 \<Rightarrow> u32" where
  "irq_line irq_num = (if irq_num < 8 then irq_num else irq_num - 8)"

text \<open>The shift \<open>1 << irq_num\<close> is undefined from 31 on.\<close>

definition enable_irq :: "u32 \<Rightarrow> 'z machine_scheme \<Rightarrow> 'z machine_scheme option" where
  "enable_irq irq_num s =
     (if irq_line irq_num \<ge> 31 then None
      else let mask = (ucast (inb s (irq_port irq_num) AND
                 NOT (push_bit (unat (irq_line irq_num)) 1)) :: i8)
        in Some (outb (scast mask) (irq_port irq_num) s))"

definition disable_irq :: "u32 \<Rightarrow> 'z machine_scheme \<Rightarrow> 'z machine_scheme option" where
  "disable_irq irq_num s =
     (if irq_line irq_num \<ge> 31 then None
      else let mask = (ucast (inb s (irq_port irq_num) OR
                 push_bit (unat (irq_line irq_num)) 1) :: i8)
        in Some (outb (scast mask) (irq_port irq_num) s))"

definition send_eoi :: "u32 \<Rightarrow> 'z machine_scheme \<Rightarrow> 'z machine_scheme" where
  "send_eoi irq_num s =
     (if irq_num \<ge> 8 then outb (EOI OR (irq_num - 8)) SLAVE_8259_PORT s
      else outb (EOI OR irq_num) MASTER_8259_PORT s)"

section \<open>The interval timer\<close>

definition CHANNEL_0 :: u16 where "CHANNEL_0 = 0x40"
definition MODE_COMMAND :: u16 where "MODE_COMMAND = 0x43"
definition DIVIDER_VALUE :: int where "DIVIDER_VALUE = 1193180"
definition CMD_BYTE :: u32 where "CMD_BYTE = 0x36"

lemmas pit_consts = CHANNEL_0_def MODE_COMMAND_def DIVIDER_VALUE_def CMD_BYTE_def

text \<open>The port side of \<open>init_pit\<close>; a zero frequency is a division fault.\<close>

definition pit_program :: "int \<Rightarrow> 'z machine_scheme \<Rightarrow> 'z machine_scheme option" where
  "pit_program frequency s =
     (if frequency = 0 then None
      else let divider = (of_int (DIVIDER_VALUE sdiv frequency) :: i32);
               s = outb CMD_BYTE MODE_COMMAND s;
               s = outb (divider AND 0xFF) CHANNEL_0 s
        in Some (outb (signed_drop_bit 8 divider) CHANNEL_0 s))"

section \<open>What reaches the devices\<close>

lemma irq_line_port:
  assumes "irq < 16"
  shows "unat (irq_line irq) = unat irq mod 8" "irq_line irq < 31"
    "irq_port irq = (if unat irq < 8 then 0x21 else 0xA1)"
proof -
  have u: "unat irq < 16" using assms by (simp add: word_less_nat_alt)
  show l: "unat (irq_line irq) = unat irq mod 8"
  proof (cases "unat irq < 8")
    case True
    then show ?thesis by (simp add: irq_line_def word_less_nat_alt)
  next
    case False
    then have "unat (irq - 8) = unat irq - 8" by (simp add: unat_sub word_le_nat_alt)
    with False u show ?thesis by (simp add: irq_line_def word_less_nat_alt mod_if)
  qed
  then have "unat (irq_line irq) < 8" by simp
  then show "irq_line irq < 31" by (simp add: word_less_nat_alt)
  show "irq_port irq = (if unat irq < 8 then 0x21 else 0xA1)"
    by (simp add: irq_port_def pic_consts word_less_nat_alt)
qed

lemma low_byte_bits:
  "i < 8 \<Longrightarrow> bit (ucast (scast (ucast (x :: u32) :: i8) :: u32) :: u8) i = bit x i"
  by (simp add: bit_simps)

text \<open>
  Unmasking and masking an interrupt line: for an IRQ below 16, \<open>enable_irq\<close> writes back the
  mask register of the right controller with exactly the bit of that line cleared, and
  \<open>disable_irq\<close> with exactly that bit set.
\<close>

theorem irq_masks:
  assumes irq: "irq < 16"
  shows "\<exists>m m'. enable_irq irq s = Some (s\<lparr>port_out := port_out s @ [(irq_port irq, m)]\<rparr>) \<and>
      disable_irq irq s = Some (s\<lparr>port_out := port_out s @ [(irq_port irq, m')]\<rparr>) \<and>
      irq_port irq = (if unat irq < 8 then 0x21 else 0xA1) \<and>
      (\<forall>i<8. bit m i = (bit (port_in s (irq_port irq)) i \<and> i \<noteq> unat irq mod 8)) \<and>
      (\<forall>i<8. bit m' i = (bit (port_in s (irq_port irq)) i \<or> i = unat irq mod 8))"
proof -
  note l = irq_line_port[OF irq]
  let ?b = "ucast (port_in s (irq_port irq)) :: u32" and ?k = "push_bit (unat irq mod 8) (1 :: u32)"
  define m where "m = (ucast (scast (ucast (?b AND NOT ?k) :: i8) :: u32) :: u8)"
  define m' where "m' = (ucast (scast (ucast (?b OR ?k) :: i8) :: u32) :: u8)"
  have r: "enable_irq irq s = Some (s\<lparr>port_out := port_out s @ [(irq_port irq, m)]\<rparr>)"
    "disable_irq irq s = Some (s\<lparr>port_out := port_out s @ [(irq_port irq, m')]\<rparr>)"
    using l(1,2)
    by (simp_all add: enable_irq_def disable_irq_def inb_def outb_def Let_def not_le m_def m'_def)
  have k: "bit ?k i = (i = unat irq mod 8)" if "i < 8" for i
    using that by (auto simp: bit_exp_iff)
  have "bit m i = (bit (port_in s (irq_port irq)) i \<and> i \<noteq> unat irq mod 8)"
    "bit m' i = (bit (port_in s (irq_port irq)) i \<or> i = unat irq mod 8)" if "i < 8" for i
    unfolding m_def m'_def low_byte_bits[OF that] using that k[OF that]
    by (simp_all add: bit_and_iff bit_or_iff bit_not_iff bit_ucast_iff del: push_bit_of_1)
  with r l(3) show ?thesis by blast
qed

lemma divisor_bytes:
  assumes d: "0 \<le> d" "d < 65536"
  defines "w \<equiv> of_int d :: u32"
  shows "signed_drop_bit 8 w = drop_bit 8 w" "uint (ucast (w AND 0xFF) :: u8) = d mod 256"
    "uint (ucast (drop_bit 8 w) :: u8) = d div 256"
proof -
  have u: "uint w = d" using d by (simp add: w_def uint_word_of_int)
  have s: "sint w = d" using d unfolding w_def
    by (simp only: sint_sbintrunc') (simp add: signed_take_bit_int_eq_self)
  have w8: "w AND 0xFF = take_bit 8 w" by (simp add: take_bit_eq_mask mask_eq_exp_minus_1)
  have db: "drop_bit 8 w = of_int (d div 256)"
    using d by (intro word_uint_eqI) (simp add: unsigned_drop_bit_eq u drop_bit_int_def uint_word_of_int take_bit_int_eq_self)
  have "sint (of_int (d div 256) :: u32) = d div 256" using d
    by (simp only: sint_sbintrunc') (simp add: signed_take_bit_int_eq_self)
  then have "sint (signed_drop_bit 8 w) = sint (drop_bit 8 w)"
    by (simp add: sint_signed_drop_bit_eq s db drop_bit_int_def)
  then show "signed_drop_bit 8 w = drop_bit 8 w" by (rule signed_word_eqI)
  show "uint (ucast (w AND 0xFF) :: u8) = d mod 256"
    by (simp add: unsigned_ucast_eq unsigned_take_bit_eq u take_bit_int_def w8)
  show "uint (ucast (drop_bit 8 w) :: u8) = d div 256"
    using d by (simp add: unsigned_ucast_eq unsigned_drop_bit_eq u drop_bit_int_def take_bit_int_def)
qed

text \<open>
  Programming the timer: for a frequency whose divisor fits 16 bits, \<open>init_pit\<close> sends the mode
  byte and then the divisor of the 1.19318 MHz clock as low byte and high byte.
\<close>

theorem pit_divisor:
  assumes f: "19 \<le> f" "f \<le> 1193180"
  shows "\<exists>lo hi. pit_program f s =
      Some (s\<lparr>port_out := port_out s @ [(0x43, 0x36), (0x40, lo), (0x40, hi)]\<rparr>) \<and>
    uint lo + 256 * uint hi = 1193180 div f"
proof -
  let ?d = "1193180 div f" and ?w = "of_int (1193180 div f) :: u32"
  have "?d \<le> 1193180 div 19" using f by (intro zdiv_mono2) simp_all
  then have d: "0 \<le> ?d" "?d < 65536" using f by (simp_all add: pos_imp_zdiv_nonneg_iff)
  have q: "DIVIDER_VALUE sdiv f = ?d" using f by (simp add: DIVIDER_VALUE_def signed_divide_int_def)
  note b = divisor_bytes[OF d]
  have "uint (ucast (?w AND 0xFF) :: u8) + 256 * uint (ucast (drop_bit 8 ?w) :: u8) = ?d"
    unfolding b by simp
  with f b(1) show ?thesis
    by - (rule exI[of _ "ucast (?w AND 0xFF)"], rule exI[of _ "ucast (drop_bit 8 ?w)"],
      simp add: pit_program_def q Let_def outb_def CHANNEL_0_def MODE_COMMAND_def CMD_BYTE_def)
qed

end
