(* ===== verification/Polling.thy ===== *)
theory Polling
  imports Prelude
begin

text \<open>
  Busy waiting.  Two drivers poll a flag that an interrupt handler sets.  Between two polls the
  interrupts act on the state: the \<open>k\<close>-th of these intervals is \<open>env k\<close>.  The locale states what
  a waiting loop is, the least solution of its equation, and proves once when it returns.
\<close>

fun env_run :: "(nat \<Rightarrow> 's \<Rightarrow> 's option) \<Rightarrow> nat \<Rightarrow> nat \<Rightarrow> 's \<Rightarrow> 's option" where
  "env_run env k 0 s = Some s"
| "env_run env k (Suc n) s = do { s' \<leftarrow> env k s; env_run env (Suc k) n s' }"

text \<open>\<open>stops_at\<close>: the first poll that finds the flag set is the \<open>n\<close>-th, in state \<open>t\<close>.\<close>

definition stops_at :: "('s \<Rightarrow> bool option) \<Rightarrow> (nat \<Rightarrow> 's \<Rightarrow> 's option) \<Rightarrow> nat \<Rightarrow> nat \<Rightarrow> 's \<Rightarrow> 's \<Rightarrow> bool" where
  "stops_at ready env k n s t \<longleftrightarrow> env_run env k n s = Some t \<and> ready t = Some True \<and>
     (\<forall>m<n. \<exists>u. env_run env k m s = Some u \<and> ready u = Some False)"

lemma stops_at_0 [simp]: "stops_at ready env k 0 s t \<longleftrightarrow> s = t \<and> ready t = Some True"
  by (auto simp: stops_at_def)

lemma stops_at_Suc:
  "stops_at ready env k (Suc n) s t \<longleftrightarrow>
     ready s = Some False \<and> (\<exists>u. env k s = Some u \<and> stops_at ready env (Suc k) n u t)"
proof -
  have "(\<forall>m<Suc n. \<exists>u. env_run env k m s = Some u \<and> ready u = Some False) \<longleftrightarrow>
    ready s = Some False \<and> (\<forall>m<n. \<exists>u. env_run env k (Suc m) s = Some u \<and> ready u = Some False)"
    by (simp only: All_less_Suc2) simp
  then show ?thesis by (cases "env k s") (auto simp: stops_at_def)
qed

locale poller =
  fixes ready :: "'s \<Rightarrow> bool option"
    and wait :: "(nat \<Rightarrow> 's \<Rightarrow> 's option) \<Rightarrow> nat \<Rightarrow> 's \<Rightarrow> 's option"
  assumes unfold: "wait env k s =
      do { r \<leftarrow> ready s; if r then Some s else do { s' \<leftarrow> env k s; wait env (Suc k) s' } }"
    and least: "wait env k s = Some t \<Longrightarrow>
      (\<And>k s. ready s = Some True \<Longrightarrow> P k s s) \<Longrightarrow>
      (\<And>k s u t. ready s = Some False \<Longrightarrow> env k s = Some u \<Longrightarrow> P (Suc k) u t \<Longrightarrow> P k s t) \<Longrightarrow> P k s t"
begin

lemma wait_stops: "stops_at ready env k n s t \<Longrightarrow> wait env k s = Some t"
proof (induction n arbitrary: k s)
  case 0
  then show ?case by (subst unfold) simp
next
  case (Suc n)
  then obtain u where "ready s = Some False" "env k s = Some u" "stops_at ready env (Suc k) n u t"
    by (auto simp: stops_at_Suc)
  with Suc.IH[of "Suc k" u] show ?case by (subst unfold) simp
qed

lemma stops_wait: "wait env k s = Some t \<Longrightarrow> \<exists>n. stops_at ready env k n s t"
proof (erule least)
  fix k s u t assume u: "ready s = Some False" "env k s = Some u" "\<exists>n. stops_at ready env (Suc k) n u t"
  then obtain n where "stops_at ready env (Suc k) n u t" by blast
  with u have "stops_at ready env k (Suc n) s t" by (auto simp: stops_at_Suc)
  then show "\<exists>n. stops_at ready env k n s t" ..
qed (rule exI[of _ 0], simp)

text \<open>A waiting loop returns exactly when some poll is the first to find the flag set.\<close>

lemma wait_iff: "wait env k s = Some t \<longleftrightarrow> (\<exists>n. stops_at ready env k n s t)"
  using wait_stops stops_wait by blast

end

end
