(* ===== verification/Rtc.thy ===== *)
theory Rtc
  imports Filesys Devices Polling
begin

text \<open>
  The real-time clock driver (\<open>_rtc.c\<close>), its interrupt handler, and the counters of the interval
  timer.  \<open>rtc_read\<close> busy-waits for the interrupt: the environment \<open>env k\<close> is whatever the
  interrupts do to the state between two polls, and a wait that never ends is \<^term>\<open>None\<close>.
\<close>

record rtc = fsys +
  rate :: i8
  flag_rtc :: int
  num_ticks :: i32
  arr_index :: i32

definition MAXIMUM_RATE :: int where "MAXIMUM_RATE = 15"
definition MAX_FREQ :: int where "MAX_FREQ = 1024"

section \<open>Driver\<close>

definition rtc_init :: "'z rtc_scheme \<Rightarrow> 'z rtc_scheme" where
  "rtc_init s =
     (let s = s\<lparr>flag_rtc := 0\<rparr>;
          s = outb 0x8B 0x70 s;
          prev = (ucast (inb s 0x71) :: i8);
          s = outb 0x8B 0x70 s
      in outb (scast prev OR 0x40) 0x71 s)"

definition rtc_open :: "u32 \<Rightarrow> u32 \<Rightarrow> 'z rtc_scheme \<Rightarrow> (i32 \<times> 'z rtc_scheme) option" where
  "rtc_open fd inode s =
     do { let s = s\<lparr>rate := of_int MAXIMUM_RATE\<rparr>;
          let s = rtc_init s;
          s' \<leftarrow> set_fd fd RtcTable 0 1 s;
          Some (0, s') }"

definition rtc_close :: "u32 \<Rightarrow> 'z rtc_scheme \<Rightarrow> (i32 \<times> 'z rtc_scheme) option" where
  "rtc_close fd s =
     do { d \<leftarrow> get_fd fd s;
          if flags d = 0 then Some (-1, s)
          else do { s' \<leftarrow> set_fd fd NullTable 0 0 s; Some (0, s') } }"

partial_function (option) rtc_wait :: "(nat \<Rightarrow> 'z rtc_scheme \<Rightarrow> 'z rtc_scheme option) \<Rightarrow> nat \<Rightarrow>
    'z rtc_scheme \<Rightarrow> 'z rtc_scheme option" where
  "rtc_wait env k s =
     (if flag_rtc s = 0 then do { s' \<leftarrow> env k s; rtc_wait env (Suc k) s' } else Some s)"

definition rtc_read :: "(nat \<Rightarrow> 'z rtc_scheme \<Rightarrow> 'z rtc_scheme option) \<Rightarrow> u32 \<Rightarrow> u32 \<Rightarrow> i32 \<Rightarrow>
    'z rtc_scheme \<Rightarrow> (i32 \<times> 'z rtc_scheme) option" where
  "rtc_read env fd buf nbytes s =
     do { let s = s\<lparr>flag_rtc := 0\<rparr>; s' \<leftarrow> rtc_wait env 0 s; Some (0, s') }"

text \<open>The loop of \<open>rtc_write\<close>: halve while even and above one, counting, and note reaching one.\<close>

function halve :: "int \<Rightarrow> int \<Rightarrow> bool \<Rightarrow> int \<times> int \<times> bool" where
  "halve frequency power_value is_power_of_two =
     (if frequency smod 2 = 0 \<and> frequency > 1 then
        halve (frequency sdiv 2) (power_value + 1)
          (if frequency sdiv 2 = 1 then True else is_power_of_two)
      else (frequency, power_value, is_power_of_two))"
  by pat_completeness auto
termination
  by (relation "measure (\<lambda>(f, _, _). nat f)") (auto simp: signed_divide_int_def)

declare halve.simps [simp del]

definition rtc_write :: "u32 \<Rightarrow> u32 \<Rightarrow> i32 \<Rightarrow> 'z rtc_scheme \<Rightarrow> (i32 \<times> 'z rtc_scheme) option" where
  "rtc_write fd buf nbytes s =
     (if nbytes \<noteq> 4 then Some (-1, s)
      else do {
        w \<leftarrow> load32 vread s buf;
        let (frequency, power_value, is_power_of_two) = halve (sint w) 0 False;
        if \<not> is_power_of_two \<or> frequency > MAX_FREQ \<or> frequency = 0
        then Some (-1, s\<lparr>rate := 0\<rparr>)
        else Some (0, s\<lparr>rate := of_int ((MAXIMUM_RATE - power_value) + 1)\<rparr>) })"

definition interrupt_rtc :: "'z rtc_scheme \<Rightarrow> 'z rtc_scheme" where
  "interrupt_rtc s =
     (let s = s\<lparr>flag_rtc := 1\<rparr>;
          s = s\<lparr>rate := rate s AND 0x0F\<rparr>;
          s = outb 0x8A 0x70 s;
          prev1 = (ucast (inb s 0x71) :: i8);
          s = outb 0x8A 0x70 s;
          s = outb ((scast prev1 AND 0xF0) OR scast (rate s)) 0x71 s;
          s = outb 0x0C 0x70 s;
          s = send_eoi 8 s
      in send_eoi 2 s)"

definition init_pit :: "int \<Rightarrow> 'z rtc_scheme \<Rightarrow> 'z rtc_scheme option" where
  "init_pit frequency s = pit_program frequency (s\<lparr>num_ticks := 0, arr_index := 0\<rparr>)"

section \<open>Waiting for the clock\<close>

interpretation rtcw: poller "\<lambda>s. Some (flag_rtc s \<noteq> 0)" rtc_wait
proof unfold_locales
  fix env k and s :: "'a rtc_scheme"
  show "rtc_wait env k s = do { r \<leftarrow> Some (flag_rtc s \<noteq> 0);
      if r then Some s else do { s' \<leftarrow> env k s; rtc_wait env (Suc k) s' } }"
    by (subst rtc_wait.simps) simp
next
  fix env k and s t :: "'a rtc_scheme" and P
  assume w: "rtc_wait env k s = Some t"
    and stop: "\<And>k s. Some (flag_rtc s \<noteq> 0) = Some True \<Longrightarrow> P k s s"
    and go: "\<And>k s u t. Some (flag_rtc s \<noteq> 0) = Some False \<Longrightarrow> env k s = Some u \<Longrightarrow> P (Suc k) u t \<Longrightarrow> P k s t"
  show "P k s t"
    by (rule rtc_wait.raw_induct[OF _ w, of "\<lambda>e k s t. e = env \<longrightarrow> P k s t", rule_format, OF _ refl])
      (auto simp: bind_Some_iff intro: stop go split: if_splits)
qed


section \<open>Frequencies\<close>

lemma halve_odd: "odd m \<Longrightarrow> 0 < m \<Longrightarrow>
  halve (2 ^ k * m) p b = (m, p + int k, b \<or> (0 < k \<and> m = 1))"
proof (induction k arbitrary: p b)
  case 0
  then show ?case by (subst halve.simps) (auto simp: signed_modulo_int_def)
next
  case (Suc k)
  have "0 < 2 ^ k * m" using Suc.prems by simp
  then have "1 < 2 * (2 ^ k * m)" by linarith
  then have e: "2 ^ Suc k * m smod 2 = 0" "2 ^ Suc k * m sdiv 2 = 2 ^ k * m" "2 ^ Suc k * m > 1"
    using Suc.prems by (simp_all add: signed_modulo_int_def signed_divide_int_def)
  have "(2 ^ k * m = 1) \<longleftrightarrow> k = 0 \<and> m = 1" using Suc.prems by (cases k) (auto simp: zmult_eq_1_iff)
  then show ?case by (subst halve.simps) (use e Suc in auto)
qed

lemma halve_nonpos: "f \<le> 0 \<Longrightarrow> halve f p b = (f, p, b)"
  by (subst halve.simps) auto

lemma odd_part: "0 < (f :: int) \<Longrightarrow> \<exists>k m. f = 2 ^ k * m \<and> odd m \<and> 0 < m"
proof (induction "nat f" arbitrary: f rule: less_induct)
  case less
  show ?case
  proof (cases "odd f")
    case True
    with less.prems show ?thesis by (intro exI[of _ 0] exI[of _ f]) simp
  next
    case False
    then obtain g where g: "f = 2 * g" by auto
    with less.prems obtain k m where "g = 2 ^ k * m" "odd m" "0 < m" using less.hyps[of g] by auto
    with g show ?thesis by (intro exI[of _ "Suc k"] exI[of _ m]) simp
  qed
qed

lemma rtc_write_eq:
  assumes w: "load32 vread s buf = Some w"
  shows "1 \<le> k \<Longrightarrow> k \<le> 30 \<Longrightarrow> uint w = 2 ^ k \<Longrightarrow>
      rtc_write fd buf 4 s = Some (0, s\<lparr>rate := of_int (16 - int k)\<rparr>)"
    and "(\<forall>k. 1 \<le> k \<and> k \<le> 30 \<longrightarrow> uint w \<noteq> 2 ^ k) \<Longrightarrow> rtc_write fd buf 4 s = Some (-1, s\<lparr>rate := 0\<rparr>)"
proof -
  assume k: "1 \<le> k" "k \<le> 30" and u: "uint w = 2 ^ k"
  have "(2 :: int) ^ k \<le> 2 ^ 30" using k by (intro power_increasing) simp_all
  then have "sint w = 2 ^ k"
    using u by (simp add: sint_u32 unat_eq_nat_uint nat_less_iff)
  then show "rtc_write fd buf 4 s = Some (0, s\<lparr>rate := of_int (16 - int k)\<rparr>)"
    using w k halve_odd[of 1 k 0 False] by (simp add: rtc_write_def MAX_FREQ_def MAXIMUM_RATE_def)
next
  assume no: "\<forall>k. 1 \<le> k \<and> k \<le> 30 \<longrightarrow> uint w \<noteq> 2 ^ k"
  have "\<exists>f p. halve (sint w) 0 False = (f, p, False)"
  proof (cases "sint w \<le> 0")
    case True
    then show ?thesis by (simp add: halve_nonpos)
  next
    case False
    then obtain k m where km: "sint w = 2 ^ k * m" "odd m" "0 < m" using odd_part[of "sint w"] by auto
    obtain n where n: "unat w = n" "uint w = int n" "n < 4294967296" by (rule u32_nat)
    have s: "sint w = uint w" "sint w < 2 ^ 31"
      using False n(3) unfolding sint_u32 n(1,2) by (simp_all split: if_splits)
    then have "k \<le> 30" if "m = 1" using km(1) that power_less_imp_less_exp[of "2 :: int" k 31] by simp
    with s(1) have "\<not> (0 < k \<and> m = 1)" using no[rule_format, of k] km by auto
    with km halve_odd[of m k 0 False] show ?thesis by auto
  qed
  then show "rtc_write fd buf 4 s = Some (-1, s\<lparr>rate := 0\<rparr>)" using w by (auto simp: rtc_write_def)
qed

text \<open>
  Which frequencies \<open>rtc_write\<close> accepts: exactly the powers of two from 2 to \<open>2 ^ 30\<close>, for which
  it stores the rate \<open>16 - k\<close>; it refuses everything else, including 1 and requests that are not
  four bytes long.  The bound of 1024 it is meant to enforce is tested on the value the loop has
  already divided down to 1, so \<open>2048\<close> to \<open>2 ^ 30\<close> pass.
\<close>

theorem rtc_write_accepts_powers:
  assumes "load32 vread s buf = Some w"
  shows "rtc_write fd buf nbytes s =
    (if nbytes \<noteq> 4 then Some (-1, s)
     else case find (\<lambda>k. uint w = 2 ^ k) [1..<31] of
         Some k \<Rightarrow> Some (0, s\<lparr>rate := of_int (16 - int k)\<rparr>)
       | None \<Rightarrow> Some (-1, s\<lparr>rate := 0\<rparr>))"
proof (cases "find (\<lambda>k. uint w = 2 ^ k) [1..<31]")
  case None
  then have "\<forall>k. 1 \<le> k \<and> k \<le> 30 \<longrightarrow> uint w \<noteq> 2 ^ k" by (auto simp: find_None_iff)
  with None rtc_write_eq(2)[OF assms] show ?thesis by (cases "nbytes = 4") (simp_all add: rtc_write_def)
next
  case (Some k)
  then obtain i where i: "i < 30" "k = [1..<31] ! i" "uint w = 2 ^ k" by (auto simp: find_Some_iff)
  then have "1 \<le> k" "k \<le> 30" by (simp_all add: nth_upt del: upt_Suc upt_rec_numeral)
  with Some i(3) rtc_write_eq(1)[OF assms] show ?thesis
    by (cases "nbytes = 4") (simp_all add: rtc_write_def)
qed

lemma ucast_8_32_8 [simp]: "ucast (ucast (p :: u8) :: u32) = p"
  by (rule bit_word_eqI) (simp add: bit_simps)

lemma register_a:
  "ucast ((scast (p :: u8) AND 0xF0) OR scast (r :: u8) :: u32) = (p AND 0xF0) OR r"
proof (rule bit_word_eqI)
  fix n assume "n < LENGTH(8)"
  then have "n = 0 \<or> n = 1 \<or> n = 2 \<or> n = 3 \<or> n = 4 \<or> n = 5 \<or> n = 6 \<or> n = 7" by auto
  then show "bit (ucast ((scast p AND 0xF0) OR scast r :: u32) :: u8) n = bit ((p AND 0xF0) OR r) n"
    by (elim disjE) (simp_all add: bit_simps)
qed

text \<open>
  The interrupt programs the frequency asked for.  After a write of \<open>2 ^ k\<close> with \<open>k\<close> up to 15, the next
  clock interrupt rewrites register A keeping its upper half and with the divider selection \<open>r\<close> in
  its lower half for which the chip's rate \<open>32768 / 2 ^ (r - 1)\<close> is \<open>2 ^ k\<close>; it acknowledges
  register C and both interrupt controllers, in this order, and wakes the reader.
\<close>

theorem interrupt_rtc_programs:
  assumes "load32 vread s buf = Some w" and "1 \<le> k" and "k \<le> 15" and "uint w = 2 ^ k"
  shows "\<exists>t a r. rtc_write fd buf 4 s = Some (0, t) \<and>
    port_out (interrupt_rtc t) = port_out s @ [(0x70, 0x8A), (0x70, 0x8A), (0x71, a), (0x70, 0x0C),
      (0xA0, 0x60), (0x20, 0x62)] \<and>
    a AND 0xF0 = port_in s 0x71 AND 0xF0 \<and> a AND 0x0F = of_nat r \<and> 1 \<le> r \<and> r \<le> 15 \<and>
    32768 div 2 ^ (r - 1) = (2 :: nat) ^ k \<and> flag_rtc (interrupt_rtc t) = 1"
proof -
  let ?t = "s\<lparr>rate := of_int (16 - int k)\<rparr>" and ?r = "16 - k"
  let ?a = "(port_in s 0x71 AND 0xF0) OR (of_int (16 - int k) AND 0x0F)"
  have w: "rtc_write fd buf 4 s = Some (0, ?t)" using rtc_write_eq(1)[OF assms(1,2)] assms(3,4) by simp
  have o: "port_out (interrupt_rtc ?t) = port_out s @ [(0x70, 0x8A), (0x70, 0x8A), (0x71, ?a), (0x70, 0x0C),
      (0xA0, 0x60), (0x20, 0x62)]" "flag_rtc (interrupt_rtc ?t) = 1"
    by (simp_all add: interrupt_rtc_def Let_def outb_def inb_def send_eoi_def pic_consts register_a)
  have "k \<in> {1, 2, 3, 4, 5, 6, 7, 8, 9, 10, 11, 12, 13, 14, 15}" using assms(2,3) by simp presburger
  then have "?a AND 0xF0 = port_in s 0x71 AND 0xF0 \<and> ?a AND 0x0F = of_nat ?r \<and> 1 \<le> ?r \<and> ?r \<le> 15 \<and>
      32768 div 2 ^ (?r - 1) = (2 :: nat) ^ k"
    by (elim insertE) (simp_all add: bit.conj_disj_distrib2 and.assoc)
  with w o show ?thesis by blast
qed

end
