(* ===== verification/Keyboard.thy ===== *)
theory Keyboard
  imports Rtc
begin

text \<open>
  The keyboard driver (\<open>keyboard.c\<close>) and its interrupt handler (\<open>interrupt_handler.c\<close>): the
  modifier state machine over scancodes, the three line buffers, the echo, and the terminal side
  of \<open>read\<close> and \<open>write\<close>.

  \<open>codes\<close> is the sequence of bytes successive reads of the keyboard port return.  \<open>keyboard_read\<close>
  busy-waits for a finished line on the terminal of its process: as in \<open>Rtc\<close>, \<open>env k\<close> is what the
  interrupts do between two polls.
\<close>

record keyboard = rtc +
  key_status :: int
  key_flag :: int
  terminal_flag :: int
  flag_keyboard :: "int list"
  terminal1_buffer :: "u8 list"
  terminal2_buffer :: "u8 list"
  terminal3_buffer :: "u8 list"

section \<open>The key map\<close>

definition ascii :: "string \<Rightarrow> u8 list" where
  "ascii cs = map of_char cs"

definition key_pos :: "u8 list list" where
  "key_pos = [
     [0, 0] @ ascii ''1234567890-='' @ [0, 0] @ ascii ''qwertyuiop[]'' @ [10, 0] @
       ascii ''asdfghjkl;'' @ [39, 96, 92, 92] @ ascii ''zxcvbnm,./'' @ [0, 42, 0, 32] @
       replicate 70 0,
     [0, 0] @ ascii ''!@#$%^&*()_+'' @ [0, 0] @ ascii ''QWERTYUIOP{}'' @ [10, 0] @
       ascii ''ASDFGHJKL:'' @ [34, 126, 124, 92] @ ascii ''ZXCVBNM<>?'' @ [0, 42, 0, 32] @
       replicate 16 0 @ [45] @ replicate 53 0,
     [0, 0] @ ascii ''1234567890-='' @ [0, 0] @ ascii ''QWERTYUIOP[]'' @ [10, 0] @
       ascii ''ASDFGHJKL;'' @ [39, 96, 92, 92] @ ascii ''ZXCVBNM,./'' @ [0, 42, 0, 32] @
       replicate 70 0,
     [0, 0] @ ascii ''!@#$%^&*()_+'' @ [0, 0] @ ascii ''qwertyuiop{}'' @ [10, 0] @
       ascii ''asdfghjkl:'' @ [34, 126, 124, 92] @ ascii ''zxcvbnm<>?'' @ [0, 42, 0, 32] @
       replicate 16 0 @ [45] @ replicate 53 0]"

definition LEFT_SHIFT_PRESS :: u8 where "LEFT_SHIFT_PRESS = 0x2A"
definition RIGHT_SHIFT_PRESS :: u8 where "RIGHT_SHIFT_PRESS = 0x36"
definition LEFT_SHIFT_RELEASE :: u8 where "LEFT_SHIFT_RELEASE = 0xAA"
definition RIGHT_SHIFT_RELEASE :: u8 where "RIGHT_SHIFT_RELEASE = 0xB6"
definition CTRL_PRESS :: u8 where "CTRL_PRESS = 0x1D"
definition CTRL_RELEASE :: u8 where "CTRL_RELEASE = 0x9D"
definition L_PRESS :: u8 where "L_PRESS = 0x26"
definition DELETE_PRESS :: u8 where "DELETE_PRESS = 0x0E"
definition CAPS_LOCK_PRESS :: u8 where "CAPS_LOCK_PRESS = 0x3A"
definition LEFT_ALT_PRESS :: u8 where "LEFT_ALT_PRESS = 0x38"
definition LEFT_ALT_RELEASE :: u8 where "LEFT_ALT_RELEASE = 0xB8"
definition F1_PRESS :: u8 where "F1_PRESS = 0x3B"
definition F2_PRESS :: u8 where "F2_PRESS = 0x3C"
definition F3_PRESS :: u8 where "F3_PRESS = 0x3D"
definition KEY_PRESS_BOUNDARY :: u8 where "KEY_PRESS_BOUNDARY = 0x80"
definition BUFFER_SIZE :: nat where "BUFFER_SIZE = 128"
definition TERMBUF_SIZE :: int where "TERMBUF_SIZE = 127"

lemmas key_consts = LEFT_SHIFT_PRESS_def RIGHT_SHIFT_PRESS_def LEFT_SHIFT_RELEASE_def
  RIGHT_SHIFT_RELEASE_def CTRL_PRESS_def CTRL_RELEASE_def L_PRESS_def DELETE_PRESS_def
  CAPS_LOCK_PRESS_def LEFT_ALT_PRESS_def LEFT_ALT_RELEASE_def F1_PRESS_def F2_PRESS_def
  F3_PRESS_def KEY_PRESS_BOUNDARY_def BUFFER_SIZE_def TERMBUF_SIZE_def

section \<open>Scancodes\<close>

definition keyboard_init :: "'z keyboard_scheme \<Rightarrow> 'z keyboard_scheme option" where
  "keyboard_init s0 =
     do { let s = s0\<lparr>key_status := 0, key_flag := 0\<rparr>;
          fs \<leftarrow> arr_set (flag_keyboard s) 0 0;
          fs \<leftarrow> arr_set fs 1 0;
          fs \<leftarrow> arr_set fs 2 0;
          let s = s\<lparr>flag_keyboard := fs, counter1 := 0, counter2 := 0, counter3 := 0,
            terminal_flag := 0\<rparr>;
          s \<leftarrow> set_fd 0 KeyboardTable 0 1 s;
          set_fd 1 KeyboardTable 0 1 s }"

text \<open>The first nonzero byte the port presents.\<close>

partial_function (option) first_code :: "(nat \<Rightarrow> u8) \<Rightarrow> nat \<Rightarrow> u8 option" where
  "first_code codes k = (if codes k = 0 then first_code codes (Suc k) else Some (codes k))"

text \<open>\<open>terminalN_buffer[--counterN] = 0\<close> for the visible terminal, after \<open>delete_char\<close>.\<close>

definition backspace :: "'z keyboard_scheme \<Rightarrow> 'z keyboard_scheme option" where
  "backspace s0 =
     (if visible_screen s0 = 0 \<and> counter1 s0 > 0 then
        do { s \<leftarrow> delete_char s0;
             let c = counter1 s - 1;
             b \<leftarrow> arr_set (terminal1_buffer s) (nat c) 0;
             Some (s\<lparr>counter1 := c, terminal1_buffer := b\<rparr>) }
      else if visible_screen s0 = 1 \<and> counter2 s0 > 0 then
        do { s \<leftarrow> delete_char s0;
             let c = counter2 s - 1;
             b \<leftarrow> arr_set (terminal2_buffer s) (nat c) 0;
             Some (s\<lparr>counter2 := c, terminal2_buffer := b\<rparr>) }
      else if visible_screen s0 = 2 \<and> counter3 s0 > 0 then
        do { s \<leftarrow> delete_char s0;
             let c = counter3 s - 1;
             b \<leftarrow> arr_set (terminal3_buffer s) (nat c) 0;
             Some (s\<lparr>counter3 := c, terminal3_buffer := b\<rparr>) }
      else Some s0)"

definition scancode_step :: "u8 \<Rightarrow> 'z keyboard_scheme \<Rightarrow> (u32 \<times> 'z keyboard_scheme) option" where
  "scancode_step code s =
     (if key_status s = 0 \<and> (code = LEFT_SHIFT_PRESS \<or> code = RIGHT_SHIFT_PRESS)
      then Some (0, s\<lparr>key_status := 1\<rparr>)
      else if key_status s = 1 \<and> (code = LEFT_SHIFT_RELEASE \<or> code = RIGHT_SHIFT_RELEASE)
      then Some (0, s\<lparr>key_status := 0\<rparr>)
      else if key_status s = 0 \<and> code = CAPS_LOCK_PRESS then Some (0, s\<lparr>key_status := 2\<rparr>)
      else if key_status s = 2 \<and> code = CAPS_LOCK_PRESS then Some (0, s\<lparr>key_status := 0\<rparr>)
      else if key_status s = 2 \<and> (code = LEFT_SHIFT_PRESS \<or> code = RIGHT_SHIFT_PRESS)
      then Some (0, s\<lparr>key_status := 3\<rparr>)
      else if key_status s = 3 \<and> (code = LEFT_SHIFT_RELEASE \<or> code = RIGHT_SHIFT_RELEASE)
      then Some (0, s\<lparr>key_status := 2\<rparr>)
      else if code = CTRL_PRESS then Some (0, s\<lparr>key_flag := 1\<rparr>)
      else if code = CTRL_RELEASE then Some (0, s\<lparr>key_flag := 0\<rparr>)
      else if code = LEFT_ALT_PRESS then Some (0, s\<lparr>terminal_flag := 1\<rparr>)
      else if code = LEFT_ALT_RELEASE then Some (0, s\<lparr>terminal_flag := 0\<rparr>)
      else if terminal_flag s = 1 \<and> code = F1_PRESS
      then do { (_, s') \<leftarrow> switch_vid 0 s; Some (0, s') }
      else if terminal_flag s = 1 \<and> code = F2_PRESS
      then do { (_, s') \<leftarrow> switch_vid 1 s; Some (0, s') }
      else if terminal_flag s = 1 \<and> code = F3_PRESS
      then do { (_, s') \<leftarrow> switch_vid 2 s; Some (0, s') }
      else if key_flag s = 1 \<and> code = L_PRESS
      then do { s' \<leftarrow> key_clear_screen s; Some (0, s') }
      else if code = DELETE_PRESS then do { s' \<leftarrow> backspace s; Some (0, s') }
      else if code < KEY_PRESS_BOUNDARY then Some (ucast code, s)
      else Some (0, s))"

definition getScancode :: "(nat \<Rightarrow> u8) \<Rightarrow> 'z keyboard_scheme \<Rightarrow> (u32 \<times> 'z keyboard_scheme) option" where
  "getScancode codes s = do { code \<leftarrow> first_code codes 0; scancode_step code s }"

definition key_char :: "int \<Rightarrow> u32 \<Rightarrow> u8 option" where
  "key_char status i =
     (if status < 0 then None
      else do { row \<leftarrow> arr_get key_pos (nat status); arr_get row (unat i) })"

text \<open>
  \<open>key_pos[key_status][getScancode()]\<close>: C leaves open whether \<open>key_status\<close> is read before or
  after the call.  \<open>getchar\<close> reads it after, \<open>getchar_pre\<close> before.
\<close>

definition getchar :: "(nat \<Rightarrow> u8) \<Rightarrow> 'z keyboard_scheme \<Rightarrow> (u8 \<times> 'z keyboard_scheme) option" where
  "getchar codes s =
     do { (i, s') \<leftarrow> getScancode codes s; c \<leftarrow> key_char (key_status s') i; Some (c, s') }"

definition getchar_pre :: "(nat \<Rightarrow> u8) \<Rightarrow> 'z keyboard_scheme \<Rightarrow> (u8 \<times> 'z keyboard_scheme) option" where
  "getchar_pre codes s =
     do { (i, s') \<leftarrow> getScancode codes s; c \<leftarrow> key_char (key_status s) i; Some (c, s') }"

section \<open>The interrupt handler\<close>

definition store_key :: "u8 \<Rightarrow> 'z keyboard_scheme \<Rightarrow> 'z keyboard_scheme option" where
  "store_key c s0 =
     (if visible_screen s0 = 0 then
        do { s \<leftarrow> putc_keyboard c s0;
             b \<leftarrow> arr_set (terminal1_buffer s) (nat (counter1 s)) c;
             Some (s\<lparr>terminal1_buffer := b, counter1 := counter1 s + 1\<rparr>) }
      else if visible_screen s0 = 1 then
        do { s \<leftarrow> putc_keyboard c s0;
             b \<leftarrow> arr_set (terminal2_buffer s) (nat (counter2 s)) c;
             Some (s\<lparr>terminal2_buffer := b, counter2 := counter2 s + 1\<rparr>) }
      else if visible_screen s0 = 2 then
        do { s \<leftarrow> putc_keyboard c s0;
             b \<leftarrow> arr_set (terminal3_buffer s) (nat (counter3 s)) c;
             Some (s\<lparr>terminal3_buffer := b, counter3 := counter3 s + 1\<rparr>) }
      else Some s0)"

definition interrupt_keyboard :: "(nat \<Rightarrow> u8) \<Rightarrow> 'z keyboard_scheme \<Rightarrow> 'z keyboard_scheme option" where
  "interrupt_keyboard codes s0 =
     do { (c, s) \<leftarrow> getchar codes s0;
          s \<leftarrow> (if c = 0 then Some s else store_key c s);
          s \<leftarrow> (if c = 10 \<or> counter1 s \<ge> TERMBUF_SIZE \<or> counter2 s \<ge> TERMBUF_SIZE \<or>
                   counter3 s \<ge> TERMBUF_SIZE
                then do { fs \<leftarrow> arr_set (flag_keyboard s) (vis_ix s) 1; Some (s\<lparr>flag_keyboard := fs\<rparr>) }
                else Some s);
          Some (send_eoi 1 s) }"

definition interrupt_master :: "'z machine_scheme \<Rightarrow> 'z machine_scheme" where
  "interrupt_master s = send_eoi 0 s"

definition interrupt_slave :: "'z machine_scheme \<Rightarrow> 'z machine_scheme" where
  "interrupt_slave s = send_eoi 2 s"

section \<open>The terminal driver\<close>

definition clear_buffers :: "'z keyboard_scheme \<Rightarrow> 'z keyboard_scheme option" where
  "clear_buffers s = for_up 0 BUFFER_SIZE (\<lambda>i s.
     do { b1 \<leftarrow> arr_set (terminal1_buffer s) i 0;
          b2 \<leftarrow> arr_set (terminal2_buffer s) i 0;
          b3 \<leftarrow> arr_set (terminal3_buffer s) i 0;
          Some (s\<lparr>terminal1_buffer := b1, terminal2_buffer := b2, terminal3_buffer := b3\<rparr>) }) s"

definition keyboard_open :: "u32 \<Rightarrow> u32 \<Rightarrow> 'z keyboard_scheme \<Rightarrow> (i32 \<times> 'z keyboard_scheme) option" where
  "keyboard_open fd inode s =
     do { let s = s\<lparr>counter1 := 0, counter2 := 0, counter3 := 0\<rparr>;
          s \<leftarrow> clear_buffers s;
          s \<leftarrow> set_fd fd KeyboardTable 0 1 s;
          Some (0, s) }"

definition keyboard_close :: "u32 \<Rightarrow> 'z keyboard_scheme \<Rightarrow> (i32 \<times> 'z keyboard_scheme) option" where
  "keyboard_close fd s =
     do { d \<leftarrow> get_fd fd s;
          if flags d = 0 then Some (-1, s)
          else do { s \<leftarrow> clear_buffers s; s \<leftarrow> set_fd fd NullTable 0 0 s; Some (0, s) } }"

definition key_ready :: "u32 \<Rightarrow> 'z keyboard_scheme \<Rightarrow> bool option" where
  "key_ready screen s =
     (if screen \<noteq> visible_screen s then Some False
      else do { f \<leftarrow> arr_get (flag_keyboard s) (vis_ix s); Some (f \<noteq> 0) })"

partial_function (option) key_wait :: "(nat \<Rightarrow> 'z keyboard_scheme \<Rightarrow> 'z keyboard_scheme option) \<Rightarrow>
    u32 \<Rightarrow> nat \<Rightarrow> 'z keyboard_scheme \<Rightarrow> 'z keyboard_scheme option" where
  "key_wait env p k s =
     do { r \<leftarrow> key_ready (screen_idx (pcbs s p)) s;
          if r then Some s else do { s' \<leftarrow> env k s; key_wait env p (Suc k) s' } }"

text \<open>Copy a line to \<open>buf\<close> with its terminating NUL.\<close>

definition copy_line :: "u8 list \<Rightarrow> u32 \<Rightarrow> 'z keyboard_scheme \<Rightarrow> (i32 \<times> 'z keyboard_scheme) option" where
  "copy_line line buf s0 =
     do { bytes_read \<leftarrow> strlen array_rd line 0;
          s \<leftarrow> for_up 0 (unat bytes_read) (\<lambda>i s.
             do { b \<leftarrow> arr_get line i; vwrite s (buf + of_nat i) b }) s0;
          s \<leftarrow> vwrite s (buf + bytes_read) 0;
          Some (bytes_read, s) }"

definition keyboard_read :: "(nat \<Rightarrow> 'z keyboard_scheme \<Rightarrow> 'z keyboard_scheme option) \<Rightarrow>
    u32 \<Rightarrow> u32 \<Rightarrow> i32 \<Rightarrow> 'z keyboard_scheme \<Rightarrow> (i32 \<times> 'z keyboard_scheme) option" where
  "keyboard_read env fd buf nbytes s0 =
     do { d \<leftarrow> get_fd fd s0;
          if flags d = 0 then Some (-1, s0)
          else do {
            slot \<leftarrow> cur_slot s0;
            s \<leftarrow> key_wait env (get_pcb (cur_pid slot)) 0 s0;
            fs \<leftarrow> arr_set (flag_keyboard s) (vis_ix s) 0;
            let s = s\<lparr>flag_keyboard := fs\<rparr>;
            if visible_screen s = 0 then
              do { (n, s) \<leftarrow> copy_line (terminal1_buffer s) buf s;
                   Some (n, s\<lparr>terminal1_buffer := replicate 128 0, counter1 := 0\<rparr>) }
            else if visible_screen s = 1 then
              do { (n, s) \<leftarrow> copy_line (terminal2_buffer s) buf s;
                   Some (n, s\<lparr>terminal2_buffer := replicate 128 0, counter2 := 0\<rparr>) }
            else if visible_screen s = 2 then
              do { (n, s) \<leftarrow> copy_line (terminal3_buffer s) buf s;
                   Some (n, s\<lparr>terminal3_buffer := replicate 128 0, counter3 := 0\<rparr>) }
            else None } }"

definition keyboard_write :: "u32 \<Rightarrow> u32 \<Rightarrow> i32 \<Rightarrow> 'z keyboard_scheme \<Rightarrow> (i32 \<times> 'z keyboard_scheme) option" where
  "keyboard_write fd buf nbytes s0 =
     do { s \<leftarrow> for_up 0 (nat (sint nbytes)) (\<lambda>i s.
            do { b \<leftarrow> vread s (buf + of_nat i); putc b s }) s0;
          Some (of_nat (nat (sint nbytes)), s) }"

section \<open>The line buffers\<close>

text \<open>The line typed so far on a terminal: the first \<open>counter\<close> bytes of its buffer.\<close>

definition kcount :: "'z keyboard_scheme \<Rightarrow> nat \<Rightarrow> int" where
  "kcount s i = (if i = 0 then counter1 s else if i = 1 then counter2 s else counter3 s)"

definition kbuf :: "'z keyboard_scheme \<Rightarrow> nat \<Rightarrow> u8 list" where
  "kbuf s i = (if i = 0 then terminal1_buffer s else if i = 1 then terminal2_buffer s else terminal3_buffer s)"

definition set_line :: "nat \<Rightarrow> int \<Rightarrow> u8 list \<Rightarrow> 'z keyboard_scheme \<Rightarrow> 'z keyboard_scheme" where
  "set_line i n b s = (if i = 0 then s\<lparr>counter1 := n, terminal1_buffer := b\<rparr>
     else if i = 1 then s\<lparr>counter2 := n, terminal2_buffer := b\<rparr>
     else s\<lparr>counter3 := n, terminal3_buffer := b\<rparr>)"

definition line_holds :: "int \<Rightarrow> u8 list \<Rightarrow> u8 list \<Rightarrow> bool" where
  "line_holds n b xs \<longleftrightarrow> 0 \<notin> set xs \<and> n = int (length xs) \<and> length xs \<le> 128 \<and>
     b = xs @ replicate (128 - length xs) 0"

definition kline :: "'z keyboard_scheme \<Rightarrow> nat \<Rightarrow> u8 list" where
  "kline s i = take (nat (kcount s i)) (kbuf s i)"

definition keyboard_wf :: "'z keyboard_scheme \<Rightarrow> bool" where
  "keyboard_wf s \<longleftrightarrow> procs_wf s \<and> key_status s \<in> {0, 1, 2, 3} \<and> length (flag_keyboard s) = 3 \<and>
     (\<forall>i<3. line_holds (kcount s i) (kbuf s i) (kline s i))"

lemma line_holds_unique: "line_holds n b xs \<Longrightarrow> xs = take (nat n) b"
  by (simp add: line_holds_def)

lemma line_append:
  assumes "line_holds n b xs" and "c \<noteq> 0" and "length xs < 128"
  shows "line_holds (n + 1) (b[nat n := c]) (xs @ [c])"
proof -
  have "replicate (128 - length xs) 0 = 0 # replicate (127 - length xs) (0 :: u8)"
    using assms(3) by (simp flip: replicate_Suc)
  with assms show ?thesis by (simp add: line_holds_def list_update_append)
qed

lemma line_erase:
  assumes "line_holds n b xs" and "xs \<noteq> []"
  shows "line_holds (n - 1) (b[nat (n - 1) := 0]) (butlast xs)"
proof -
  obtain ys y where xs: "xs = ys @ [y]" using assms(2) by (metis append_butlast_last_id)
  have n: "nat (n - 1) = length ys" using assms(1) xs by (simp add: line_holds_def)
  have b: "b[length ys := 0] = ys @ 0 # replicate (128 - length xs) 0"
    using assms(1) xs by (simp add: line_holds_def list_update_append)
  have "128 - length ys = Suc (128 - length xs)" using assms(1) xs by (auto simp: line_holds_def)
  with assms(1) xs n b show ?thesis by (auto simp: line_holds_def)
qed

lemma line_empty [simp]: "line_holds 0 (replicate 128 0) []"
  by (simp add: line_holds_def)

lemma set_line_simps [simp]:
  "i < 3 \<Longrightarrow> j < 3 \<Longrightarrow> kcount (set_line i n b s) j = (if j = i then n else kcount s j)"
  "i < 3 \<Longrightarrow> j < 3 \<Longrightarrow> kbuf (set_line i n b s) j = (if j = i then b else kbuf s j)"
  "key_status (set_line i n b s) = key_status s" "flag_keyboard (set_line i n b s) = flag_keyboard s"
  "visible_screen (set_line i n b s) = visible_screen s" "schedule_index (set_line i n b s) = schedule_index s"
  "phys (set_line i n b s) = phys s" "screen_x (set_line i n b s) = screen_x s" "screen_y (set_line i n b s) = screen_y s"
  by (auto simp: set_line_def kcount_def kbuf_def)

lemma keyboard_procs_wf:
  assumes "console_wf s" "process_array s = process_array t" "kernel_fdt s = kernel_fdt t"
    "pcbs s = pcbs t" "procs_wf t"
  shows "procs_wf s"
  using assms by (simp add: procs_wf_def)

lemma set_line_procs_wf [simp]: "procs_wf (set_line i n b s) = procs_wf s"
proof -
  have "console_wf (set_line i n b s) = console_wf s"
    by (intro console_wf_cong paging_wf_cong) (simp_all add: set_line_def)
  then show ?thesis by (simp add: procs_wf_def) (auto simp: set_line_def)
qed

lemma set_line_wf:
  assumes "keyboard_wf s" and "i < 3" and "line_holds n b xs"
  shows "keyboard_wf (set_line i n b s)" "j < 3 \<Longrightarrow> kline (set_line i n b s) j = (if j = i then xs else kline s j)"
  using assms line_holds_unique[OF assms(3)] by (auto simp: keyboard_wf_def kline_def)

section \<open>Effects that keep the driver's state\<close>

text \<open>\<open>key_frame\<close>: nothing of the drivers' state changes but the console.\<close>

definition key_frame :: "'z keyboard_scheme \<Rightarrow> 'z keyboard_scheme \<Rightarrow> bool" where
  "key_frame s s' \<longleftrightarrow> console_wf s' \<and> process_array s' = process_array s \<and> kernel_fdt s' = kernel_fdt s \<and>
     pcbs s' = pcbs s \<and> key_status s' = key_status s \<and> key_flag s' = key_flag s \<and>
     terminal_flag s' = terminal_flag s \<and> flag_keyboard s' = flag_keyboard s \<and>
     kcount s' = kcount s \<and> kbuf s' = kbuf s"

lemma key_frame_wf:
  assumes "key_frame s s'" "keyboard_wf s"
  shows "keyboard_wf s'" "kline s' = kline s"
proof -
  show k: "kline s' = kline s" using assms(1) by (intro ext) (simp add: key_frame_def kline_def)
  have "procs_wf s'"
    using assms by (intro keyboard_procs_wf[of s' s]) (auto simp: key_frame_def keyboard_wf_def)
  with assms k show "keyboard_wf s'" by (simp add: keyboard_wf_def key_frame_def)
qed

lemma prints_key_frame: "prints s s' \<Longrightarrow> console_wf s' \<Longrightarrow> key_frame s s'"
  by (auto simp: prints_def key_frame_def kcount_def kbuf_def fun_eq_iff)

lemma switch_key_frame:
  assumes wf: "console_wf s" and t: "t < 3"
  shows "\<exists>s'. switch_vid t s = Some (1, s') \<and> key_frame s s' \<and> visible_screen s' = t"
proof (cases "t = visible_screen s")
  case True
  have "\<not> (sint t < -1 \<or> sint t > 2)" using lt3_cases[OF t] by auto
  with True wf have "switch_vid t s = Some (1, s)" "key_frame s s" by (simp_all add: switch_vid_def key_frame_def)
  with True show ?thesis by blast
next
  case False
  obtain s' where s': "switch_vid t s = Some (1, s')" "s' = s\<lparr>phys := switched (vis_ix s) (unat t) (phys s),
      visible_screen := t, pte_vid := (pte_vid s)(0 := user_video_entry (s\<lparr>visible_screen := t\<rparr>)),
      tlb_stale := False\<rparr>"
    using switch_vid_eq[OF wf t False] by blast
  moreover have "console_wf s'" using switch_vid_step[OF wf t] s'(1) by auto
  ultimately show ?thesis by (auto simp: key_frame_def kcount_def kbuf_def fun_eq_iff)
qed

lemma backspace_step:
  assumes wf: "keyboard_wf s"
  shows "\<exists>s'. backspace s = Some s' \<and> keyboard_wf s' \<and> visible_screen s' = visible_screen s \<and>
    key_status s' = key_status s \<and> key_flag s' = key_flag s \<and> terminal_flag s' = terminal_flag s \<and>
    flag_keyboard s' = flag_keyboard s \<and>
    (\<forall>j<3. kline s' j = (if j = vis_ix s then butlast (kline s j) else kline s j))"
proof -
  have cw: "console_wf s" using wf by (simp add: keyboard_wf_def procs_wf_def)
  let ?v = "vis_ix s"
  have v: "?v < 3" by (rule ix_bounds(2)[OF cw])
  obtain t where t: "delete_char s = Some t" "console_wf t" "prints s t" using delete_char_safe[OF cw] by blast
  have f: "key_frame s t" by (rule prints_key_frame[OF t(3,2)])
  have kt: "keyboard_wf t" "kline t = kline s" "kcount t = kcount s" "kbuf t = kbuf s" "visible_screen t = visible_screen s"
    using key_frame_wf[OF f wf] f prints_fields(1)[OF t(3)] by (simp_all add: key_frame_def)
  have lh: "line_holds (kcount s ?v) (kbuf s ?v) (kline s ?v)" using wf v by (simp add: keyboard_wf_def)
  then have n: "kcount s ?v = int (length (kline s ?v))" "length (kline s ?v) \<le> 128" "length (kbuf s ?v) = 128"
    by (simp_all add: line_holds_def)
  have vc: "visible_screen s = 0 \<or> visible_screen s = 1 \<or> visible_screen s = 2"
    using v by (intro lt3_cases) (simp add: word_less_nat_alt)
  show ?thesis
  proof (cases "kline s ?v = []")
    case True
    then have "backspace s = Some s" using vc n by (auto simp: backspace_def kcount_def)
    with wf True show ?thesis by auto
  next
    case False
    let ?s' = "set_line ?v (kcount s ?v - 1) ((kbuf s ?v)[nat (kcount s ?v - 1) := 0]) t"
    have p: "kcount s ?v > 0" "nat (kcount s ?v - 1) < 128" using False n by auto
    have "counter1 t = counter1 s" "counter2 t = counter2 s" "counter3 t = counter3 s"
      "terminal1_buffer t = terminal1_buffer s" "terminal2_buffer t = terminal2_buffer s"
      "terminal3_buffer t = terminal3_buffer s"
      using t(3) by (auto simp: prints_def)
    with vc p n(3) t(1) have "backspace s = Some ?s'"
      by (elim disjE) (simp_all add: backspace_def kcount_def kbuf_def set_line_def Let_def)
    then show ?thesis
      using set_line_wf[OF kt(1) v line_erase[OF lh False]] kt(2,5) f
      by (auto simp: key_frame_def set_line_def)
  qed
qed


section \<open>Scancodes\<close>

lemma keyboard_wf_upd [simp]:
  "x \<in> {0, 1, 2, 3} \<Longrightarrow> keyboard_wf s \<Longrightarrow> keyboard_wf (s\<lparr>key_status := x\<rparr>)"
  "keyboard_wf (s\<lparr>key_flag := y\<rparr>) = keyboard_wf s" "keyboard_wf (s\<lparr>terminal_flag := y\<rparr>) = keyboard_wf s"
  "length fs = 3 \<Longrightarrow> keyboard_wf s \<Longrightarrow> keyboard_wf (s\<lparr>flag_keyboard := fs\<rparr>)"
  "keyboard_wf (s\<lparr>port_out := ps\<rparr>) = keyboard_wf s"
proof -
  have p: "procs_wf (s\<lparr>key_status := x\<rparr>) = procs_wf s" "procs_wf (s\<lparr>key_flag := y\<rparr>) = procs_wf s"
    "procs_wf (s\<lparr>terminal_flag := y\<rparr>) = procs_wf s" "procs_wf (s\<lparr>flag_keyboard := fs\<rparr>) = procs_wf s"
    "procs_wf (s\<lparr>port_out := ps\<rparr>) = procs_wf s" for x y fs ps
    by (simp_all add: procs_wf_def, (intro conj_cong console_wf_cong paging_wf_cong; simp)+)
  have k: "kcount (s\<lparr>key_status := x\<rparr>) = kcount s" "kbuf (s\<lparr>key_status := x\<rparr>) = kbuf s"
    "kcount (s\<lparr>key_flag := y\<rparr>) = kcount s" "kbuf (s\<lparr>key_flag := y\<rparr>) = kbuf s"
    "kcount (s\<lparr>terminal_flag := y\<rparr>) = kcount s" "kbuf (s\<lparr>terminal_flag := y\<rparr>) = kbuf s"
    "kcount (s\<lparr>flag_keyboard := fs\<rparr>) = kcount s" "kbuf (s\<lparr>flag_keyboard := fs\<rparr>) = kbuf s"
    "kcount (s\<lparr>port_out := ps\<rparr>) = kcount s" "kbuf (s\<lparr>port_out := ps\<rparr>) = kbuf s" for x y fs ps
    by (simp_all add: fun_eq_iff kcount_def kbuf_def)
  show "x \<in> {0, 1, 2, 3} \<Longrightarrow> keyboard_wf s \<Longrightarrow> keyboard_wf (s\<lparr>key_status := x\<rparr>)"
    "keyboard_wf (s\<lparr>key_flag := y\<rparr>) = keyboard_wf s" "keyboard_wf (s\<lparr>terminal_flag := y\<rparr>) = keyboard_wf s"
    "length fs = 3 \<Longrightarrow> keyboard_wf s \<Longrightarrow> keyboard_wf (s\<lparr>flag_keyboard := fs\<rparr>)"
    "keyboard_wf (s\<lparr>port_out := ps\<rparr>) = keyboard_wf s"
    by (simp_all add: keyboard_wf_def p kline_def k)
qed

text \<open>A scancode that yields a character leaves the state alone; every other one yields index 0.\<close>

lemma scancode_step_safe:
  assumes wf: "keyboard_wf s"
  shows "\<exists>i s'. scancode_step code s = Some (i, s') \<and> keyboard_wf s' \<and>
    (i = 0 \<or> i = ucast code \<and> code < KEY_PRESS_BOUNDARY \<and> s' = s)"
proof -
  have cw: "console_wf s" using wf by (simp add: keyboard_wf_def procs_wf_def)
  obtain t0 t1 t2 where sw: "switch_vid 0 s = Some (1, t0)" "switch_vid 1 s = Some (1, t1)"
      "switch_vid 2 s = Some (1, t2)" and f: "key_frame s t0" "key_frame s t1" "key_frame s t2"
    using switch_key_frame[OF cw, of 0] switch_key_frame[OF cw, of 1] switch_key_frame[OF cw, of 2] by auto
  note w = key_frame_wf(1)[OF f(1) wf] key_frame_wf(1)[OF f(2) wf] key_frame_wf(1)[OF f(3) wf]
  obtain u where u: "key_clear_screen s = Some u" "console_wf u" "prints s u" using clear_safe(1)[OF cw] by blast
  have uw: "keyboard_wf u" by (rule key_frame_wf(1)[OF prints_key_frame[OF u(3,2)] wf])
  obtain b where b: "backspace s = Some b" "keyboard_wf b" using backspace_step[OF wf] by blast
  define Q where "Q x \<longleftrightarrow> (\<exists>i s'. x = Some (i, s') \<and> keyboard_wf s' \<and>
    (i = 0 \<or> i = ucast code \<and> code < KEY_PRESS_BOUNDARY \<and> s' = s))"
    for x :: "(u32 \<times> 'a keyboard_scheme) option"
  have Q_if: "(c \<Longrightarrow> Q a) \<Longrightarrow> Q e \<Longrightarrow> Q (if c then a else e)" for c a e by simp
  have Q0: "keyboard_wf t \<Longrightarrow> Q (Some (0, t))" for t by (simp add: Q_def)
  have "Q (scancode_step code s)" unfolding scancode_step_def
    by (intro Q_if) (use wf sw w u(1) uw b in \<open>simp_all add: Q0\<close>, simp add: Q_def)
  then show ?thesis by (simp add: Q_def)
qed

lemma key_pos_rows: "length key_pos = 4" "i < 4 \<Longrightarrow> length (key_pos ! i) = 128" "i < 4 \<Longrightarrow> key_pos ! i ! 0 = 0"
proof -
  show "length key_pos = 4" by (simp add: key_pos_def)
  assume "i < 4"
  then have "i = 0 \<or> i = 1 \<or> i = 2 \<or> i = 3" by auto
  then show "length (key_pos ! i) = 128" "key_pos ! i ! 0 = 0"
    by (elim disjE; simp add: key_pos_def ascii_def)+
qed

lemma key_char_eq:
  "st \<in> {0, 1, 2, 3} \<Longrightarrow> unat i < 128 \<Longrightarrow> key_char st i = Some (key_pos ! nat st ! unat i)"
  using key_pos_rows(1,2) by (auto simp: key_char_def)

lemma key_char_0 [simp]: "st \<in> {0, 1, 2, 3} \<Longrightarrow> key_char st 0 = Some 0"
  using key_pos_rows(3)[of "nat st"] by (simp add: key_char_eq) auto

lemma getchar_step:
  assumes wf: "keyboard_wf s" and c: "first_code codes 0 = Some code"
  shows "\<exists>ch s'. getchar codes s = Some (ch, s') \<and> keyboard_wf s' \<and> getchar_pre codes s = Some (ch, s') \<and>
    (ch = 0 \<or> s' = s \<and> unat code < 128 \<and> ch = key_pos ! nat (key_status s) ! unat code)"
proof -
  obtain i s' where i: "scancode_step code s = Some (i, s')" "keyboard_wf s'"
    "i = 0 \<or> i = ucast code \<and> code < KEY_PRESS_BOUNDARY \<and> s' = s"
    using scancode_step_safe[OF wf] by blast
  have st: "key_status s \<in> {0, 1, 2, 3}" "key_status s' \<in> {0, 1, 2, 3}"
    using wf i(2) by (simp_all add: keyboard_wf_def)
  from i(3) show ?thesis
  proof
    assume "i = 0"
    with i c st show ?thesis by (simp add: getchar_def getchar_pre_def getScancode_def)
  next
    assume "i = ucast code \<and> code < KEY_PRESS_BOUNDARY \<and> s' = s"
    with i c st show ?thesis
      by (simp add: getchar_def getchar_pre_def getScancode_def key_char_eq word_less_nat_alt KEY_PRESS_BOUNDARY_def)
  qed
qed

lemma store_key_step:
  assumes wf: "keyboard_wf s" and c: "c \<noteq> 0" and n: "kcount s (vis_ix s) < 128"
  shows "\<exists>t. putc_keyboard c s = Some t \<and> prints s t \<and>
    store_key c s = Some (set_line (vis_ix s) (kcount s (vis_ix s) + 1)
      ((kbuf s (vis_ix s))[nat (kcount s (vis_ix s)) := c]) t) \<and> keyboard_wf t \<and> kline t = kline s"
proof -
  have cw: "console_wf s" using wf by (simp add: keyboard_wf_def procs_wf_def)
  let ?v = "vis_ix s"
  have v: "?v < 3" by (rule ix_bounds(2)[OF cw])
  obtain t where t: "putc_keyboard c s = Some t" "console_wf t" "prints s t" using putc_keyboard_safe[OF cw] by blast
  note k = key_frame_wf[OF prints_key_frame[OF t(3,2)] wf]
  have "line_holds (kcount s ?v) (kbuf s ?v) (kline s ?v)" using wf v by (simp add: keyboard_wf_def)
  then have l: "length (kbuf s ?v) = 128" "nat (kcount s ?v) < 128" using n by (auto simp: line_holds_def)
  have vc: "visible_screen s = 0 \<or> visible_screen s = 1 \<or> visible_screen s = 2"
    using v by (intro lt3_cases) (simp add: word_less_nat_alt)
  have "counter1 t = counter1 s" "counter2 t = counter2 s" "counter3 t = counter3 s"
    "terminal1_buffer t = terminal1_buffer s" "terminal2_buffer t = terminal2_buffer s"
    "terminal3_buffer t = terminal3_buffer s"
    using t(3) by (auto simp: prints_def)
  with vc l t(1) have "store_key c s = Some (set_line ?v (kcount s ?v + 1) ((kbuf s ?v)[nat (kcount s ?v) := c]) t)"
    by (elim disjE) (simp_all add: store_key_def kcount_def kbuf_def set_line_def)
  with t k show ?thesis by blast
qed


section \<open>The interrupt\<close>

lemma first_code_now: "codes 0 \<noteq> 0 \<Longrightarrow> first_code codes 0 = Some (codes 0)"
  by (subst first_code.simps) simp

lemma send_eoi_frame: "send_eoi irq s = s\<lparr>port_out := port_out (send_eoi irq s)\<rparr>"
  by (simp add: send_eoi_def outb_def)

lemma ex_less_3: "(\<exists>i<3. P i) \<longleftrightarrow> P 0 \<or> P (1 :: nat) \<or> P 2"
  by (simp add: numeral_3_eq_3 numeral_2_eq_2 Ex_less_Suc) blast

lemma interrupt_tail:
  assumes wf: "keyboard_wf s" and g: "getchar codes s0 = Some (c, s1)"
    and k: "(if c = 0 then Some s1 else store_key c s1) = Some s"
  shows "\<exists>fs ps. interrupt_keyboard codes s0 = Some (s\<lparr>flag_keyboard := fs, port_out := ps\<rparr>) \<and>
    keyboard_wf (s\<lparr>flag_keyboard := fs, port_out := ps\<rparr>) \<and>
    fs = (if c = 10 \<or> (\<exists>i<3. kcount s i \<ge> 127) then (flag_keyboard s)[vis_ix s := 1] else flag_keyboard s)"
proof -
  have v: "vis_ix s < 3" using wf ix_bounds(2)[of s] by (simp add: keyboard_wf_def procs_wf_def)
  have full: "(counter1 s \<ge> TERMBUF_SIZE \<or> counter2 s \<ge> TERMBUF_SIZE \<or> counter3 s \<ge> TERMBUF_SIZE) \<longleftrightarrow>
      (\<exists>i<3. kcount s i \<ge> 127)"
    by (simp add: ex_less_3 kcount_def TERMBUF_SIZE_def)
  let ?fs = "if c = 10 \<or> (\<exists>i<3. kcount s i \<ge> 127) then (flag_keyboard s)[vis_ix s := 1] else flag_keyboard s"
  have len: "length (flag_keyboard s) = 3" using wf by (simp add: keyboard_wf_def)
  obtain ps where ps: "send_eoi 1 (s\<lparr>flag_keyboard := ?fs\<rparr>) = s\<lparr>flag_keyboard := ?fs, port_out := ps\<rparr>"
    using send_eoi_frame[of 1 "s\<lparr>flag_keyboard := ?fs\<rparr>"] by blast
  have "interrupt_keyboard codes s0 = Some (send_eoi 1 (s\<lparr>flag_keyboard := ?fs\<rparr>))"
    using g k v len unfolding interrupt_keyboard_def full[symmetric] by simp
  moreover have "keyboard_wf (s\<lparr>flag_keyboard := ?fs, port_out := ps\<rparr>)"
    using wf len by simp
  ultimately show ?thesis unfolding ps by blast
qed

lemma interrupt_keyboard_total:
  assumes "keyboard_wf s" and "kcount s (vis_ix s) < 128" and "codes 0 \<noteq> 0"
  shows "\<exists>s'. interrupt_keyboard codes s = Some s' \<and> keyboard_wf s'"
proof -
  obtain c s1 where g: "getchar codes s = Some (c, s1)" "keyboard_wf s1" "c = 0 \<or> s1 = s"
    using getchar_step[OF assms(1) first_code_now[of codes, OF assms(3)]] by blast
  have v: "vis_ix s < 3" using assms(1) ix_bounds(2)[of s] by (simp add: keyboard_wf_def procs_wf_def)
  have "\<exists>s2. (if c = 0 then Some s1 else store_key c s1) = Some s2 \<and> keyboard_wf s2"
  proof (cases "c = 0")
    case False
    then have s1: "s1 = s" using g(3) by simp
    have "line_holds (kcount s (vis_ix s)) (kbuf s (vis_ix s)) (kline s (vis_ix s))"
      using assms(1) v by (simp add: keyboard_wf_def)
    then have "line_holds (kcount s (vis_ix s) + 1) ((kbuf s (vis_ix s))[nat (kcount s (vis_ix s)) := c])
        (kline s (vis_ix s) @ [c])"
      using assms(2) False by (intro line_append) (auto simp: line_holds_def)
    with store_key_step[OF assms(1) False assms(2)] s1 False v show ?thesis
      by (auto intro: set_line_wf(1))
  qed (use g in simp)
  then obtain s2 where s2: "(if c = 0 then Some s1 else store_key c s1) = Some s2" "keyboard_wf s2" by blast
  from interrupt_tail[OF s2(2) g(1) s2(1)] show ?thesis by blast
qed

text \<open>
  C30: Every key is handled: as long as the line on the visible terminal is shorter than its buffer,
  the keyboard interrupt returns for every scancode and keeps the driver well formed (a modifier
  state of the key map, three line buffers holding a NUL-terminated line each, cursors on the
  screen, the paging invariant).
\<close>

theorem interrupt_keyboard_safe:
  assumes "keyboard_wf s" and "kcount s (vis_ix s) < 128" and "codes 0 \<noteq> 0"
  shows "\<exists>s'. interrupt_keyboard codes s = Some s' \<and> keyboard_wf s'"
  by (rule interrupt_keyboard_total[of _ codes, OF assms])

text \<open>The scancodes that stand for a character in the present modifier state.\<close>

definition plain_key :: "u8 \<Rightarrow> 'z keyboard_scheme \<Rightarrow> bool" where
  "plain_key code s \<longleftrightarrow> code < 0x80 \<and> code \<notin> {0, 0x0E, 0x1D, 0x38} \<and>
     (code \<in> {0x2A, 0x36} \<longrightarrow> key_status s \<in> {1, 3}) \<and> (code = 0x3A \<longrightarrow> key_status s \<in> {1, 3}) \<and>
     (code \<in> {0x3B, 0x3C, 0x3D} \<longrightarrow> terminal_flag s \<noteq> 1) \<and> (code = 0x26 \<longrightarrow> key_flag s \<noteq> 1)"

lemma plain_scancode: "plain_key code s \<Longrightarrow> scancode_step code s = Some (ucast code, s)"
proof -
  assume p: "plain_key code s"
  then have "code < 0x80" by (simp add: plain_key_def)
  then have "code \<noteq> 0xAA" "code \<noteq> 0xB6" "code \<noteq> 0x9D" "code \<noteq> 0xB8" by auto
  moreover have "code \<noteq> 0x0E" "code \<noteq> 0x1D" "code \<noteq> 0x38" "code < 0x80"
    using p by (simp_all add: plain_key_def)
  moreover have "code \<in> {0x2A, 0x36} \<longrightarrow> key_status s \<in> {1, 3}" "code = 0x3A \<longrightarrow> key_status s \<in> {1, 3}"
    using p unfolding plain_key_def by blast+
  then have "\<not> (key_status s = 0 \<and> (code = 0x2A \<or> code = 0x36))" "\<not> (key_status s = 2 \<and> (code = 0x2A \<or> code = 0x36))"
    "\<not> (key_status s = 0 \<and> code = 0x3A)" "\<not> (key_status s = 2 \<and> code = 0x3A)" by auto
  moreover have "code \<in> {0x3B, 0x3C, 0x3D} \<longrightarrow> terminal_flag s \<noteq> 1" "code = 0x26 \<longrightarrow> key_flag s \<noteq> 1"
    using p unfolding plain_key_def by blast+
  then have "\<not> (terminal_flag s = 1 \<and> code = 0x3B)" "\<not> (terminal_flag s = 1 \<and> code = 0x3C)"
    "\<not> (terminal_flag s = 1 \<and> code = 0x3D)" "\<not> (key_flag s = 1 \<and> code = 0x26)" by auto
  ultimately show ?thesis unfolding scancode_step_def key_consts by (simp only: if_False if_True simp_thms)
qed

lemma plain_getchar:
  assumes "keyboard_wf s" and "plain_key code s" and "codes 0 = code"
  shows "getchar codes s = Some (key_pos ! nat (key_status s) ! unat code, s)"
proof -
  have "codes 0 \<noteq> 0" "unat code < 128" using assms(2,3) by (auto simp: plain_key_def word_less_nat_alt)
  then show ?thesis
    using assms first_code_now[of codes] plain_scancode[OF assms(2)]
    by (simp add: getchar_def getScancode_def key_char_eq keyboard_wf_def)
qed

text \<open>
  C24: Typing.  A key that stands for a character \<open>c\<close> appends \<open>c\<close> to the line of the visible terminal
  and prints it there, whatever process is running; the lines and the screens of the other
  terminals stay as they are, and a reader is woken on a newline or a full line.
\<close>

theorem interrupt_keyboard_types:
  assumes wf: "keyboard_wf s" and "plain_key code s" and "codes 0 = code"
    and c: "c = key_pos ! nat (key_status s) ! unat code" "c \<noteq> 0" and n: "kcount s (vis_ix s) < 128"
  shows "\<exists>s'. interrupt_keyboard codes s = Some s' \<and> keyboard_wf s' \<and>
    (\<forall>i<3. kline s' i = (if i = vis_ix s then kline s i @ [c] else kline s i)) \<and>
    (\<forall>i<3. term_view s' i = (if i = vis_ix s then term_putc c (term_view s i) else term_view s i)) \<and>
    (c = 10 \<longrightarrow> flag_keyboard s' ! vis_ix s = 1)"
proof -
  let ?v = "vis_ix s" and ?l = "set_line (vis_ix s) (kcount s (vis_ix s) + 1) ((kbuf s (vis_ix s))[nat (kcount s (vis_ix s)) := c])"
  have cw: "console_wf s" using wf by (simp add: keyboard_wf_def procs_wf_def)
  have v: "?v < 3" by (rule ix_bounds(2)[OF cw])
  obtain t where t: "putc_keyboard c s = Some t" "store_key c s = Some (?l t)" "keyboard_wf t" "kline t = kline s" "prints s t"
    using store_key_step[OF wf c(2) n] by blast
  have tv: "\<forall>i<3. term_view t i = (if i = ?v then term_putc c (term_view s i) else term_view s i)"
    using putc_keyboard_step[OF cw, of c] t(1) by auto
  have "line_holds (kcount s ?v) (kbuf s ?v) (kline s ?v)" using wf v by (simp add: keyboard_wf_def)
  then have lh: "line_holds (kcount s ?v + 1) ((kbuf s ?v)[nat (kcount s ?v) := c]) (kline s ?v @ [c])"
    using n c(2) by (intro line_append) (auto simp: line_holds_def)
  note w = set_line_wf[OF t(3) v lh]
  obtain fs ps where i: "interrupt_keyboard codes s = Some ((?l t)\<lparr>flag_keyboard := fs, port_out := ps\<rparr>)"
    "keyboard_wf ((?l t)\<lparr>flag_keyboard := fs, port_out := ps\<rparr>)"
    "c = 10 \<longrightarrow> fs = (flag_keyboard (?l t))[vis_ix (?l t) := 1]"
    using interrupt_tail[OF w(1) plain_getchar[of s code codes, OF wf assms(2,3)], folded c(1)] t(2) c(2) by auto
  let ?s' = "(?l t)\<lparr>flag_keyboard := fs, port_out := ps\<rparr>"
  have "kline ?s' = kline (?l t)" by (simp add: fun_eq_iff kline_def kcount_def kbuf_def)
  then have "\<forall>i<3. kline ?s' i = (if i = ?v then kline s i @ [c] else kline s i)" using w(2) t(4) by simp
  moreover have "\<forall>i<3. term_view ?s' i = (if i = ?v then term_putc c (term_view s i) else term_view s i)"
    using tv by (simp add: term_view_def term_page_def)
  moreover have "c = 10 \<longrightarrow> flag_keyboard ?s' ! ?v = 1"
    using i(3) prints_fields(1)[OF t(5)] v t(3) by (simp add: keyboard_wf_def)
  ultimately show ?thesis using i(1,2) by blast
qed

text \<open>
  C31: Finding: the line buffer overflows.  Nothing stops the driver from storing when the line already
  fills its 128 bytes: the next character key writes behind the buffer of the visible terminal.
\<close>

theorem interrupt_keyboard_overflow:
  assumes wf: "keyboard_wf s" and "plain_key code s" and "codes 0 = code"
    and c: "c = key_pos ! nat (key_status s) ! unat code" "c \<noteq> 0" and n: "kcount s (vis_ix s) = 128"
  shows "interrupt_keyboard codes s = None"
proof -
  have cw: "console_wf s" using wf by (simp add: keyboard_wf_def procs_wf_def)
  let ?v = "vis_ix s"
  have v: "?v < 3" by (rule ix_bounds(2)[OF cw])
  obtain t where t: "putc_keyboard c s = Some t" "prints s t" using putc_keyboard_safe[OF cw] by blast
  have "length (kbuf s ?v) = 128" using wf v by (auto simp: keyboard_wf_def line_holds_def)
  moreover have "counter1 t = counter1 s" "counter2 t = counter2 s" "counter3 t = counter3 s"
    "terminal1_buffer t = terminal1_buffer s" "terminal2_buffer t = terminal2_buffer s"
    "terminal3_buffer t = terminal3_buffer s"
    using t(2) by (auto simp: prints_def)
  moreover have "visible_screen s = 0 \<or> visible_screen s = 1 \<or> visible_screen s = 2"
    using v by (intro lt3_cases) (simp add: word_less_nat_alt)
  ultimately have "store_key c s = None"
    using t(1) n by (elim disjE) (simp_all add: store_key_def kcount_def kbuf_def)
  then show ?thesis
    using plain_getchar[of s code codes, OF wf assms(2,3)] c by (simp add: interrupt_keyboard_def)
qed

end
