(* ===== verification/Syscall.thy ===== *)
theory Syscall
  imports Keyboard
begin

text \<open>
  The system calls (\<open>syscall.c\<close>): descriptor operations dispatched through the driver tables,
  program start and termination, argument retrieval and the user video page.

  \<open>execute\<close> either returns to its caller or leaves the kernel by \<open>iret\<close>; its call returns later,
  when \<open>halt\<close> or an exception of the child jumps to the label \<open>exec_ret\<close>, so those operations
  return the value that call of \<open>execute\<close> yields.  Local variables without initialiser
  (\<open>dentry_t\<close> structures, \<open>magic\<close>) are arguments: what the stack held.
\<close>

record kernel = keyboard +
  ret_status :: i32
  arg_retrieved :: "u8 list"

definition TARGET_MEM :: u32 where "TARGET_MEM = 0x08048000"
definition ENTRY_MEM :: u32 where "ENTRY_MEM = 0x08048018"
definition STACK_POINTER :: u32 where "STACK_POINTER = 0x083FFFFC"
definition USR_BUF_SIZE :: nat where "USR_BUF_SIZE = 1024"

lemmas syscall_consts = TARGET_MEM_def ENTRY_MEM_def STACK_POINTER_def USR_BUF_SIZE_def

section \<open>Dispatch through the driver tables\<close>

text \<open>The tables as \<open>init_filesys\<close> fills them; a call through a null table pointer faults.\<close>

fun table_open :: "table_ptr \<Rightarrow> u32 \<Rightarrow> u32 \<Rightarrow> 'z kernel_scheme \<Rightarrow> (i32 \<times> 'z kernel_scheme) option" where
  "table_open NullTable fd inode s = None"
| "table_open RtcTable fd inode s = rtc_open fd inode s"
| "table_open DirTable fd inode s = directory_open fd inode s"
| "table_open FileTable fd inode s = file_open fd inode s"
| "table_open KeyboardTable fd inode s = keyboard_open fd inode s"

fun table_close :: "table_ptr \<Rightarrow> u32 \<Rightarrow> 'z kernel_scheme \<Rightarrow> (i32 \<times> 'z kernel_scheme) option" where
  "table_close NullTable fd s = None"
| "table_close RtcTable fd s = rtc_close fd s"
| "table_close DirTable fd s = directory_close fd s"
| "table_close FileTable fd s = file_close fd s"
| "table_close KeyboardTable fd s = keyboard_close fd s"

fun table_read :: "(nat \<Rightarrow> 'z kernel_scheme \<Rightarrow> 'z kernel_scheme option) \<Rightarrow> dentry \<Rightarrow> table_ptr \<Rightarrow>
    u32 \<Rightarrow> u32 \<Rightarrow> i32 \<Rightarrow> 'z kernel_scheme \<Rightarrow> (i32 \<times> 'z kernel_scheme) option" where
  "table_read env dent NullTable fd buf nbytes s = None"
| "table_read env dent RtcTable fd buf nbytes s = rtc_read env fd buf nbytes s"
| "table_read env dent DirTable fd buf nbytes s = directory_read dent fd buf nbytes s"
| "table_read env dent FileTable fd buf nbytes s = file_read fd buf nbytes s"
| "table_read env dent KeyboardTable fd buf nbytes s = keyboard_read env fd buf nbytes s"

fun table_write :: "table_ptr \<Rightarrow> u32 \<Rightarrow> u32 \<Rightarrow> i32 \<Rightarrow> 'z kernel_scheme \<Rightarrow>
    (i32 \<times> 'z kernel_scheme) option" where
  "table_write NullTable fd buf nbytes s = None"
| "table_write RtcTable fd buf nbytes s = rtc_write fd buf nbytes s"
| "table_write DirTable fd buf nbytes s = directory_write fd buf nbytes s"
| "table_write FileTable fd buf nbytes s = file_write fd buf nbytes s"
| "table_write KeyboardTable fd buf nbytes s = keyboard_write fd buf nbytes s"

section \<open>Descriptor system calls\<close>

definition sys_open :: "dentry \<Rightarrow> u32 \<Rightarrow> 'z kernel_scheme \<Rightarrow> (i32 \<times> 'z kernel_scheme) option" where
  "sys_open entry filename s0 =
     do { fd \<leftarrow> get_avail_fd s0;
          if fd = -1 then Some (-1, s0)
          else do {
            (r, e) \<leftarrow> read_dentry_by_name s0 (\<lambda>j. vread s0 (filename + j)) (Some entry);
            if r = -1 then Some (-1, s0)
            else do {
              entry' \<leftarrow> e;
              s \<leftarrow> set_fileop_ptr fd (dentry_type entry') s0;
              d \<leftarrow> get_fd fd s;
              (_, s) \<leftarrow> table_open (table_pointer d) fd (dentry_inode entry') s;
              Some (fd, s) } } }"

definition sys_write :: "u32 \<Rightarrow> u32 \<Rightarrow> i32 \<Rightarrow> 'z kernel_scheme \<Rightarrow> (i32 \<times> 'z kernel_scheme) option" where
  "sys_write fd buf nbytes s =
     (if sint fd < 0 \<or> sint fd > 7 then Some (-1, s)
      else if buf = 0 then Some (-1, s)
      else do {
        d \<leftarrow> get_fd fd s;
        if flags d = 0 then Some (-1, s)
        else if fd = 0 then Some (-1, s)
        else table_write (table_pointer d) fd buf nbytes s })"

definition sys_read :: "(nat \<Rightarrow> 'z kernel_scheme \<Rightarrow> 'z kernel_scheme option) \<Rightarrow> dentry \<Rightarrow>
    u32 \<Rightarrow> u32 \<Rightarrow> i32 \<Rightarrow> 'z kernel_scheme \<Rightarrow> (i32 \<times> 'z kernel_scheme) option" where
  "sys_read env dent fd buf nbytes s =
     (if sint fd < 0 \<or> sint fd > 7 then Some (-1, s)
      else if buf = 0 then Some (-1, s)
      else do {
        d \<leftarrow> get_fd fd s;
        if flags d = 0 then Some (-1, s)
        else if fd = 1 then Some (-1, s)
        else table_read env dent (table_pointer d) fd buf nbytes s })"

definition sys_close :: "u32 \<Rightarrow> 'z kernel_scheme \<Rightarrow> (i32 \<times> 'z kernel_scheme) option" where
  "sys_close fd s =
     (if sint fd < 2 \<or> sint fd > 7 then Some (-1, s)
      else do {
        d \<leftarrow> get_fd fd s;
        if flags d = 0 then Some (-1, s)
        else do { (_, s') \<leftarrow> table_close (table_pointer d) fd s; Some (0, s') } })"

definition close_all :: "'z kernel_scheme \<Rightarrow> 'z kernel_scheme option" where
  "close_all s = for_up 0 8 (\<lambda>i s. do { (_, s') \<leftarrow> sys_close (of_nat i) s; Some s' }) s"

section \<open>Termination\<close>

text \<open>
  The end of \<open>halt_exception\<close> and \<open>halt\<close>: the stack of the parent's \<open>execute\<close>, interrupts on, and
  the jump to \<open>exec_ret\<close>, where \<open>execute\<close> enables interrupts and returns \<open>ret_status\<close>.
\<close>

definition exec_ret :: "u32 \<Rightarrow> 'z kernel_scheme \<Rightarrow> i32 \<times> 'z kernel_scheme" where
  "exec_ret pcb s =
     (let s = s\<lparr>esp := parent_esp (pcbs s pcb), ebp := parent_ebp (pcbs s pcb)\<rparr>;
          s = sti s;
          s = sti s
      in (ret_status s, s))"

definition halt_exception :: "'z kernel_scheme \<Rightarrow> (i32 \<times> 'z kernel_scheme) option" where
  "halt_exception s0 =
     do { let s = cli s0;
          slot \<leftarrow> cur_slot s;
          let pcb = get_pcb (cur_pid slot);
          let s = s\<lparr>tss_esp0 := parent_esp0 (pcbs s pcb)\<rparr>;
          let s = map_page_exec (parent_pid (pcbs s pcb)) s;
          let s = snd (clear_vid s);
          s \<leftarrow> close_all s;
          s \<leftarrow> slot_upd (\<lambda>p. p\<lparr>cur_pid := parent_pid (pcbs s pcb)\<rparr>) s;
          s \<leftarrow> slot_upd (\<lambda>p. p\<lparr>cur_fd_ptr := parent_fd (pcbs s pcb)\<rparr>) s;
          let s = pcb_upd pcb (\<lambda>b. b\<lparr>pcb_use := 0\<rparr>) s;
          Some (exec_ret pcb s) }"

definition halt :: "u8 \<Rightarrow> 'z kernel_scheme \<Rightarrow> (i32 \<times> 'z kernel_scheme) option" where
  "halt status s0 =
     do { let s = cli s0;
          let s = s\<lparr>ret_status := scast status\<rparr>;
          slot \<leftarrow> cur_slot s;
          let pcb = get_pcb (cur_pid slot);
          let s = s\<lparr>tss_esp0 := parent_esp0 (pcbs s pcb)\<rparr>;
          s \<leftarrow> slot_upd (\<lambda>p. p\<lparr>cur_pid := parent_pid (pcbs s pcb)\<rparr>) s;
          let s = snd (clear_vid s);
          s \<leftarrow> close_all s;
          s \<leftarrow> slot_upd (\<lambda>p. p\<lparr>cur_fd_ptr := parent_fd (pcbs s pcb)\<rparr>) s;
          let s = pcb_upd pcb (\<lambda>b. b\<lparr>pcb_use := 0\<rparr>) s;
          let s = map_page_exec (parent_pid (pcbs s pcb)) s;
          Some (exec_ret pcb s) }"

section \<open>Program start\<close>

text \<open>The command name, up to a blank or newline, into \<open>fname[128]\<close>; a longer one overruns the array.\<close>

fun parse_name :: "(u32 \<Rightarrow> u8 option) \<Rightarrow> nat \<Rightarrow> nat \<Rightarrow> u8 list \<Rightarrow> u8 list option" where
  "parse_name cmd i 0 fname = Some fname"
| "parse_name cmd i (Suc n) fname =
     do { c \<leftarrow> cmd (of_nat i);
          if c = 32 \<or> c = 10 then arr_set fname i 0
          else do { f \<leftarrow> arr_set fname i c; parse_name cmd (Suc i) n f } }"

definition command_name :: "('s \<Rightarrow> u32 \<Rightarrow> u8 option) \<Rightarrow> 's \<Rightarrow> u32 \<Rightarrow> u8 list option" where
  "command_name rd s command =
     do { let fname = replicate 128 0;
          c0 \<leftarrow> rd s command;
          if c0 \<noteq> 32 \<and> c0 \<noteq> 10 \<and> c0 \<noteq> 0
          then do { n \<leftarrow> strlen rd s command; parse_name (\<lambda>j. rd s (command + j)) 0 (unat n) fname }
          else Some fname }"

datatype exec_outcome = Returned i32 | EnteredUser u32 u32

text \<open>
  \<open>rd\<close> reads the command: linear memory for the system call, a string constant for the shells the
  kernel starts.  \<open>junk_dent\<close> and \<open>junk_magic\<close> are the uninitialised locals.
\<close>

definition execute :: "('z kernel_scheme \<Rightarrow> u32 \<Rightarrow> u8 option) \<Rightarrow> dentry \<Rightarrow> u8 list \<Rightarrow> u32 \<Rightarrow>
    'z kernel_scheme \<Rightarrow> (exec_outcome \<times> 'z kernel_scheme) option" where
  "execute rd junk_dent junk_magic command s0 =
     do { let s = cli s0;
          fname \<leftarrow> command_name rd s command;
          (r, e) \<leftarrow> read_dentry_by_name s (array_rd fname) (Some junk_dent);
          if r = -1 then Some (Returned (-1), s)
          else do {
            dent \<leftarrow> e;
            let inode = dentry_inode dent;
            (_, magic) \<leftarrow> read_data s (\<lambda>_. vread s) array_wr inode 0 0 4 junk_magic;
            m0 \<leftarrow> arr_get magic 0; m1 \<leftarrow> arr_get magic 1; m2 \<leftarrow> arr_get magic 2; m3 \<leftarrow> arr_get magic 3;
            if m0 \<noteq> 0x7F \<or> m1 \<noteq> 0x45 \<or> m2 \<noteq> 0x4C \<or> m3 \<noteq> 0x46
            then Some (Returned (-1), s)
            else do {
              let pcb_idx = get_avail_pcb s;
              if pcb_idx = -1 then Some (Returned (-1), s)
              else do {
                let pcb = get_pcb pcb_idx;
                slot \<leftarrow> cur_slot s;
                let s = pcb_upd pcb (\<lambda>b. b\<lparr>parent_pid := cur_pid slot\<rparr>) s;
                s \<leftarrow> slot_upd (\<lambda>p. p\<lparr>cur_pid := pcb_idx\<rparr>) s;
                let s = pcb_upd pcb (\<lambda>b. b\<lparr>pcb_use := 1, vid_set := 0\<rparr>) s;
                let s = pcb_upd pcb (\<lambda>b. b\<lparr>parent_fd := cur_fd_ptr slot\<rparr>) s;
                s \<leftarrow> slot_upd (\<lambda>p. p\<lparr>cur_fd_ptr := PcbFdt pcb\<rparr>) s;
                s \<leftarrow> init_fd s;
                let s = pcb_upd pcb (\<lambda>b. b\<lparr>screen_idx := ucast (schedule_index s)\<rparr>) s;
                ubuf \<leftarrow> strncpy (\<lambda>_. rd s) array_wr (user_buf (pcbs s pcb)) 0 command (of_nat USR_BUF_SIZE);
                let s = pcb_upd pcb (\<lambda>b. b\<lparr>user_buf := ubuf\<rparr>) s;
                let esp0 = get_esp0 pcb_idx;
                let s = map_page_exec pcb_idx s;
                let s = pcb_upd pcb (\<lambda>b. b\<lparr>parent_esp0 := tss_esp0 s\<rparr>) s;
                let s = s\<lparr>tss_esp0 := esp0\<rparr>;
                len \<leftarrow> load32 vread s (inode_addr s inode);
                (_, s) \<leftarrow> read_data s vread vwrite inode 0 TARGET_MEM len s;
                target \<leftarrow> load32 vread s ENTRY_MEM;
                let s = pcb_upd pcb (\<lambda>b. b\<lparr>parent_esp := esp s, parent_ebp := ebp s\<rparr>) s;
                Some (EnteredUser target STACK_POINTER, s\<lparr>iflag := True\<rparr>) } } } }"

section \<open>Arguments\<close>

text \<open>The first loop of \<open>getargs\<close>: the index after the first blank that a non-blank follows.\<close>

fun arg_start :: "u8 list \<Rightarrow> nat \<Rightarrow> nat \<Rightarrow> nat option" where
  "arg_start ub i 0 = Some i"
| "arg_start ub i (Suc n) =
     do { c \<leftarrow> arr_get ub i;
          if c = 32 then do { d \<leftarrow> arr_get ub (i + 1);
                              if d \<noteq> 32 then Some (i + 1) else arg_start ub (Suc i) n }
          else arg_start ub (Suc i) n }"

text \<open>The second loop: copy from index \<open>i\<close> until a NUL.\<close>

fun arg_copy :: "u8 list \<Rightarrow> nat \<Rightarrow> nat \<Rightarrow> nat \<Rightarrow> u8 list \<Rightarrow> u8 list option" where
  "arg_copy ub i j 0 args = Some args"
| "arg_copy ub i j (Suc n) args =
     do { c \<leftarrow> arr_get ub i;
          if c = 0 then Some args
          else do { args' \<leftarrow> arr_set args j c; arg_copy ub (Suc i) (Suc j) n args' } }"

definition getargs :: "u32 \<Rightarrow> i32 \<Rightarrow> 'z kernel_scheme \<Rightarrow> (i32 \<times> 'z kernel_scheme) option" where
  "getargs buf nbytes s0 =
     do { let s = s0\<lparr>arg_retrieved := replicate USR_BUF_SIZE 0\<rparr>;
          slot \<leftarrow> cur_slot s;
          let pcb = get_pcb (cur_pid slot);
          size \<leftarrow> strlen array_rd (user_buf (pcbs s pcb)) 0;
          ub \<leftarrow> arr_set (user_buf (pcbs s pcb)) (unat size) 0;
          let s = pcb_upd pcb (\<lambda>b. b\<lparr>user_buf := ub\<rparr>) s;
          if buf = 0 \<or> nbytes = 0 then Some (-1, s)
          else do {
            n \<leftarrow> strlen array_rd ub 0;
            i \<leftarrow> arg_start ub 0 (unat n);
            args \<leftarrow> arg_copy ub i 0 (unat n) (arg_retrieved s);
            let s = s\<lparr>arg_retrieved := args\<rparr>;
            c0 \<leftarrow> arr_get args 0;
            if c0 = 0 then Some (-1, s)
            else do {
              s \<leftarrow> strncpy (\<lambda>_. array_rd args) (\<lambda>s a. vwrite s (buf + a)) s 0 0 nbytes;
              Some (0, s) } } }"

section \<open>The remaining calls\<close>

definition vidmap :: "u32 \<Rightarrow> 'z kernel_scheme \<Rightarrow> (i32 \<times> 'z kernel_scheme) option" where
  "vidmap screen_start s =
     (if screen_start = 0 then Some (-1, s)
      else if screen_start < 0x800000 then Some (-1, s)
      else do {
        slot \<leftarrow> cur_slot s;
        let pcb = get_pcb (cur_pid slot);
        let s = pcb_upd pcb (\<lambda>b. b\<lparr>vid_set := 1\<rparr>) s;
        map_vid screen_start s })"

definition set_handler :: "i32 \<Rightarrow> u32 \<Rightarrow> 'z kernel_scheme \<Rightarrow> (i32 \<times> 'z kernel_scheme) option" where
  "set_handler signum handler_address s = Some (-1, s)"

definition sigreturn :: "'z kernel_scheme \<Rightarrow> (i32 \<times> 'z kernel_scheme) option" where
  "sigreturn s = Some (-1, s)"

end
