(* ===== verification/Descriptors.thy ===== *)
theory Descriptors
  imports Syscall
begin

text \<open>
  The descriptor system calls over the drivers.  The locale \<open>fd_driver\<close> is the contract \<open>open\<close> and
  \<open>close\<close> rely on when they call through a driver table; it is interpreted for the four drivers of
  the kernel, and the properties of \<open>sys_open\<close> and \<open>sys_close\<close> rest on those interpretations.
\<close>

section \<open>The driver contract\<close>

text \<open>An open descriptor has a driver, and the line buffers are 128 bytes long.\<close>

definition fd_valid :: "fd_t \<Rightarrow> bool" where
  "fd_valid d \<longleftrightarrow> flags d = 0 \<or> table_pointer d \<noteq> NullTable"

definition files_wf :: "'z kernel_scheme \<Rightarrow> bool" where
  "files_wf s \<longleftrightarrow> procs_wf s \<and> (\<forall>p. \<forall>d\<in>set (fds_at s p). fd_valid d) \<and> length (terminal1_buffer s) = 128 \<and>
     length (terminal2_buffer s) = 128 \<and> length (terminal3_buffer s) = 128"

text \<open>What descriptor operations leave alone.\<close>

definition fd_frame :: "'z kernel_scheme \<Rightarrow> 'z kernel_scheme \<Rightarrow> bool" where
  "fd_frame s s' \<longleftrightarrow> process_array s' = process_array s \<and> schedule_index s' = schedule_index s \<and>
     visible_screen s' = visible_screen s \<and> screen_x s' = screen_x s \<and> screen_y s' = screen_y s \<and>
     phys s' = phys s \<and> translate s' = translate s \<and>
     pdt s' = pdt s \<and> pte s' = pte s \<and> pte_vid s' = pte_vid s \<and> tlb_stale s' = tlb_stale s \<and>
     tss_esp0 s' = tss_esp0 s \<and> esp s' = esp s \<and> ebp s' = ebp s \<and> iflag s' = iflag s \<and>
     ret_status s' = ret_status s \<and> FILEMEM s' = FILEMEM s \<and> fs_entries s' = fs_entries s \<and>
     fs_inodes s' = fs_inodes s \<and> fs_dblocks s' = fs_dblocks s \<and>
     (\<forall>a. pcbs s' a = (pcbs s a)\<lparr>fd_table := fd_table (pcbs s' a)\<rparr>)"

lemma fd_frame_refl [simp]: "fd_frame s s"
  by (simp add: fd_frame_def)

lemma fd_frame_trans [trans]:
  assumes "fd_frame s t" "fd_frame t u"
  shows "fd_frame s u"
proof -
  have "pcbs u a = (pcbs s a)\<lparr>fd_table := fd_table (pcbs u a)\<rparr>" for a
  proof -
    obtain x where "pcbs t a = (pcbs s a)\<lparr>fd_table := x\<rparr>" using assms(1) by (metis fd_frame_def)
    moreover obtain y where "pcbs u a = (pcbs t a)\<lparr>fd_table := y\<rparr>" using assms(2) by (metis fd_frame_def)
    ultimately show ?thesis by simp
  qed
  with assms show ?thesis by (simp add: fd_frame_def)
qed

text \<open>\<open>fd_change fd d s s'\<close>: descriptor \<open>fd\<close> of the running process becomes \<open>d\<close>, every other one stays.\<close>

definition fd_change :: "u32 \<Rightarrow> fd_t \<Rightarrow> 'z kernel_scheme \<Rightarrow> 'z kernel_scheme \<Rightarrow> bool" where
  "fd_change fd d s s' \<longleftrightarrow> files_wf s' \<and> fd_frame s s' \<and>
     fds_at s' = (fds_at s)(cur_fd_ptr (process_array s ! sched_ix s) := (cur_fds s)[unat fd := d])"

lemma fd_change_cur: "fd_change fd d s s' \<Longrightarrow> cur_fds s' = (cur_fds s)[unat fd := d]"
  by (simp add: fd_change_def fd_frame_def)

locale fd_driver =
  fixes opn :: "u32 \<Rightarrow> u32 \<Rightarrow> 'z kernel_scheme \<Rightarrow> (i32 \<times> 'z kernel_scheme) option"
    and cls :: "u32 \<Rightarrow> 'z kernel_scheme \<Rightarrow> (i32 \<times> 'z kernel_scheme) option"
    and tbl :: table_ptr and ino_of :: "u32 \<Rightarrow> u32"
  assumes opn_sets: "files_wf s \<Longrightarrow> 2 \<le> unat fd \<Longrightarrow> unat fd < 8 \<Longrightarrow>
      \<exists>s'. opn fd inode s = Some (0, s') \<and>
        fd_change fd \<lparr>table_pointer = tbl, fd_inode = ino_of inode, file_position = 0, flags = 1\<rparr> s s'"
    and cls_frees: "files_wf s \<Longrightarrow> unat fd < 8 \<Longrightarrow> flags (cur_fds s ! unat fd) \<noteq> 0 \<Longrightarrow>
      \<exists>s' ino. cls fd s = Some (0, s') \<and>
        fd_change fd \<lparr>table_pointer = NullTable, fd_inode = ino, file_position = 0, flags = 0\<rparr> s s'"
    and cls_closed: "files_wf s \<Longrightarrow> unat fd < 8 \<Longrightarrow> flags (cur_fds s ! unat fd) = 0 \<Longrightarrow> cls fd s = Some (-1, s)"
begin

lemma opn_cls:
  assumes "files_wf s" "2 \<le> unat fd" "unat fd < 8"
  shows "\<exists>t s' ino. opn fd inode s = Some (0, t) \<and> cls fd t = Some (0, s') \<and>
    cur_fds s' = (cur_fds s)[unat fd := \<lparr>table_pointer = NullTable, fd_inode = ino, file_position = 0, flags = 0\<rparr>]"
proof -
  obtain t where t: "opn fd inode s = Some (0, t)"
      "fd_change fd \<lparr>table_pointer = tbl, fd_inode = ino_of inode, file_position = 0, flags = 1\<rparr> s t"
    using opn_sets[OF assms] by blast
  have "length (cur_fds s) = 8" using assms(1) by (intro fds_length) (simp add: files_wf_def)
  then have "flags (cur_fds t ! unat fd) \<noteq> 0" using fd_change_cur[OF t(2)] assms(3) by simp
  then obtain s' j where s': "cls fd t = Some (0, s')"
      "fd_change fd \<lparr>table_pointer = NullTable, fd_inode = j, file_position = 0, flags = 0\<rparr> t s'"
    using cls_frees[of t fd] assms(3) t(2) by (auto simp: fd_change_def)
  have "cur_fds s' = (cur_fds s)[unat fd := \<lparr>table_pointer = NullTable, fd_inode = j, file_position = 0, flags = 0\<rparr>]"
    unfolding fd_change_cur[OF s'(2)] fd_change_cur[OF t(2)] by simp
  with t(1) s'(1) show ?thesis by blast
qed

end

lemma files_fd_range: "files_wf s \<Longrightarrow> 2 \<le> unat fd \<Longrightarrow> unat fd < 8 \<Longrightarrow> \<not> ((fd :: u32) < 2 \<or> fd > 7)"
  by (auto simp: word_less_nat_alt)

lemma put_fds_frame: "fd_frame s (put_fds p fds s)"
  by (auto simp: fd_frame_def put_fds_def pcb_upd_def split: fd_ptr.split)

lemma upd_fd_change:
  assumes wf: "files_wf s" and fd: "unat fd < 8" and v: "fd_valid (f (cur_fds s ! unat fd))"
  shows "\<exists>s'. upd_fd fd f s = Some s' \<and> fd_change fd (f (cur_fds s ! unat fd)) s s'"
proof -
  let ?p = "cur_fd_ptr (process_array s ! sched_ix s)" and ?d = "f (cur_fds s ! unat fd)"
  let ?s' = "put_fds ?p ((cur_fds s)[unat fd := ?d]) s"
  have pw: "procs_wf s" using wf by (simp add: files_wf_def)
  have "\<forall>d\<in>insert ?d (set (cur_fds s)). fd_valid d" using wf v by (simp add: files_wf_def)
  then have v: "\<forall>d\<in>set ((cur_fds s)[unat fd := ?d]). fd_valid d"
    using set_update_subset_insert[of "cur_fds s" "unat fd" ?d] by blast
  have b: "terminal1_buffer ?s' = terminal1_buffer s" "terminal2_buffer ?s' = terminal2_buffer s"
    "terminal3_buffer ?s' = terminal3_buffer s"
    by (simp_all add: put_fds_def pcb_upd_def split: fd_ptr.split)
  have w: "procs_wf ?s'" using put_fds_wf[OF pw] fds_length[OF pw] by simp
  have "\<forall>q. \<forall>d\<in>set (fds_at ?s' q). fd_valid d" using v wf by (auto simp: files_wf_def)
  then have "files_wf ?s'" using w wf b by (simp add: files_wf_def)
  moreover have "fds_at ?s' = (fds_at s)(?p := (cur_fds s)[unat fd := ?d])" by (simp add: fun_eq_iff)
  ultimately show ?thesis using upd_fd_eq[OF pw fd, of f] put_fds_frame by (simp add: fd_change_def)
qed

lemma set_fd_change:
  assumes wf: "files_wf s" and fd: "unat fd < 8" and v: "t \<noteq> NullTable \<or> fl = 0"
  shows "\<exists>s'. set_fd fd t ino fl s = Some s' \<and>
    fd_change fd \<lparr>table_pointer = t, fd_inode = ino, file_position = 0, flags = fl\<rparr> s s'"
proof -
  have e: "x\<lparr>table_pointer := t, fd_inode := ino, file_position := 0, flags := fl\<rparr> =
      \<lparr>table_pointer = t, fd_inode = ino, file_position = 0, flags = fl\<rparr>" for x :: fd_t
    by (cases x) simp
  show ?thesis using upd_fd_change[OF wf fd, of "\<lambda>x. x\<lparr>table_pointer := t, fd_inode := ino, file_position := 0, flags := fl\<rparr>"] v
    unfolding e set_fd_def by (auto simp: fd_valid_def)
qed

lemma set_fd_after:
  assumes "files_wf t" "fd_frame s t" "fds_at t = fds_at s" "unat fd < 8" "tb \<noteq> NullTable \<or> fl = 0"
  shows "\<exists>s'. set_fd fd tb ino fl t = Some s' \<and>
    fd_change fd \<lparr>table_pointer = tb, fd_inode = ino, file_position = 0, flags = fl\<rparr> s s'"
proof -
  obtain s' where s': "set_fd fd tb ino fl t = Some s'"
      "fd_change fd \<lparr>table_pointer = tb, fd_inode = ino, file_position = 0, flags = fl\<rparr> t s'"
    using set_fd_change[OF assms(1,4,5)] by blast
  have "process_array t = process_array s" "schedule_index t = schedule_index s" using assms(2) by (simp_all add: fd_frame_def)
  with s' assms(3) fd_frame_trans[OF assms(2)] show ?thesis by (auto simp: fd_change_def)
qed

lemma files_get: "files_wf s \<Longrightarrow> unat fd < 8 \<Longrightarrow> get_fd fd s = Some (cur_fds s ! unat fd)"
  by (simp add: files_wf_def get_fd_eq)

interpretation file_drv: fd_driver file_open file_close FileTable "\<lambda>i. i"
proof unfold_locales
  fix s :: "'a kernel_scheme" and fd inode :: u32 assume a: "files_wf s" "2 \<le> unat fd" "unat fd < 8"
  show "\<exists>s'. file_open fd inode s = Some (0, s') \<and>
      fd_change fd \<lparr>table_pointer = FileTable, fd_inode = inode, file_position = 0, flags = 1\<rparr> s s'"
    using set_fd_change[OF a(1,3), of FileTable 1 inode] files_fd_range[OF a] by (auto simp: file_open_def)
next
  fix s :: "'a kernel_scheme" and fd :: u32 assume a: "files_wf s" "unat fd < 8" "flags (cur_fds s ! unat fd) \<noteq> 0"
  show "\<exists>s' ino. file_close fd s = Some (0, s') \<and>
      fd_change fd \<lparr>table_pointer = NullTable, fd_inode = ino, file_position = 0, flags = 0\<rparr> s s'"
    using set_fd_change[OF a(1,2), of NullTable 0 "-1"] files_get[OF a(1,2)] a(3) by (auto simp: file_close_def)
qed (simp add: file_close_def files_get)

interpretation directory_drv: fd_driver directory_open directory_close DirTable "\<lambda>i. 0"
proof unfold_locales
  fix s :: "'a kernel_scheme" and fd inode :: u32 assume a: "files_wf s" "2 \<le> unat fd" "unat fd < 8"
  show "\<exists>s'. directory_open fd inode s = Some (0, s') \<and>
      fd_change fd \<lparr>table_pointer = DirTable, fd_inode = 0, file_position = 0, flags = 1\<rparr> s s'"
    using set_fd_change[OF a(1,3), of DirTable 1 0] files_fd_range[OF a] by (auto simp: directory_open_def)
next
  fix s :: "'a kernel_scheme" and fd :: u32 assume a: "files_wf s" "unat fd < 8" "flags (cur_fds s ! unat fd) \<noteq> 0"
  show "\<exists>s' ino. directory_close fd s = Some (0, s') \<and>
      fd_change fd \<lparr>table_pointer = NullTable, fd_inode = ino, file_position = 0, flags = 0\<rparr> s s'"
    using set_fd_change[OF a(1,2), of NullTable 0 "-1"] files_get[OF a(1,2)] a(3) by (auto simp: directory_close_def)
qed (simp add: directory_close_def files_get)

lemma files_wf_cong:
  assumes "procs_wf s = procs_wf t" "fds_at s = fds_at t" "terminal1_buffer s = terminal1_buffer t"
    "terminal2_buffer s = terminal2_buffer t" "terminal3_buffer s = terminal3_buffer t"
  shows "files_wf s = files_wf t"
  by (simp add: files_wf_def assms)

text \<open>Fields of the drivers that no other part of the kernel state depends on.\<close>

lemma driver_fields:
  fixes s :: "'z kernel_scheme"
  shows "files_wf (s\<lparr>rate := r, flag_rtc := f, port_out := ps\<rparr>) = files_wf s"
    "fds_at (s\<lparr>rate := r, flag_rtc := f, port_out := ps\<rparr>) = fds_at s"
    "fd_frame s (s\<lparr>rate := r, flag_rtc := f, port_out := ps\<rparr>)"
    "fds_at (s\<lparr>counter1 := c1, counter2 := c2, counter3 := c3, terminal1_buffer := b1, terminal2_buffer := b2, terminal3_buffer := b3\<rparr>) = fds_at s"
    "fd_frame s (s\<lparr>counter1 := c1, counter2 := c2, counter3 := c3, terminal1_buffer := b1, terminal2_buffer := b2, terminal3_buffer := b3\<rparr>)"
    "files_wf s \<Longrightarrow> files_wf (s\<lparr>counter1 := c1, counter2 := c2, counter3 := c3, terminal1_buffer := replicate 128 0,
       terminal2_buffer := replicate 128 0, terminal3_buffer := replicate 128 0\<rparr>)"
proof -
  have p: "procs_wf (s\<lparr>rate := r, flag_rtc := f, port_out := ps\<rparr>) = procs_wf s"
    "procs_wf (s\<lparr>counter1 := c1, counter2 := c2, counter3 := c3, terminal1_buffer := b1, terminal2_buffer := b2, terminal3_buffer := b3\<rparr>) = procs_wf s" for b1 b2 b3
    unfolding procs_wf_def by (intro arg_cong2[of _ _ _ _ "(\<and>)"] console_wf_cong paging_wf_cong; simp)+
  show f: "fds_at (s\<lparr>rate := r, flag_rtc := f, port_out := ps\<rparr>) = fds_at s"
    "fds_at (s\<lparr>counter1 := c1, counter2 := c2, counter3 := c3, terminal1_buffer := b1, terminal2_buffer := b2, terminal3_buffer := b3\<rparr>) = fds_at s" for b1 b2 b3
    by (simp_all add: fun_eq_iff fds_at_def split: fd_ptr.split)
  show "files_wf (s\<lparr>rate := r, flag_rtc := f, port_out := ps\<rparr>) = files_wf s"
    by (rule files_wf_cong) (simp_all add: p f)
  show "files_wf s \<Longrightarrow> files_wf (s\<lparr>counter1 := c1, counter2 := c2, counter3 := c3, terminal1_buffer := replicate 128 0,
       terminal2_buffer := replicate 128 0, terminal3_buffer := replicate 128 0\<rparr>)"
    unfolding files_wf_def p(2) f(2) by simp
  have "translate (s\<lparr>rate := r, flag_rtc := f, port_out := ps\<rparr>) = translate s"
    "translate (s\<lparr>counter1 := c1, counter2 := c2, counter3 := c3, terminal1_buffer := b1, terminal2_buffer := b2, terminal3_buffer := b3\<rparr>) = translate s"
    by (intro translate_cong; simp)+
  then show "fd_frame s (s\<lparr>rate := r, flag_rtc := f, port_out := ps\<rparr>)"
    "fd_frame s (s\<lparr>counter1 := c1, counter2 := c2, counter3 := c3, terminal1_buffer := b1, terminal2_buffer := b2, terminal3_buffer := b3\<rparr>)"
    by (simp_all add: fd_frame_def)
qed


lemma rtc_init_eq: "\<exists>f ps. rtc_init s = s\<lparr>flag_rtc := f, port_out := ps\<rparr>"
  unfolding rtc_init_def Let_def outb_def
  by - (rule exI[of _ 0], rule exI[of _ "port_out (rtc_init s)"], simp add: rtc_init_def Let_def outb_def)

interpretation rtc_drv: fd_driver rtc_open rtc_close RtcTable "\<lambda>i. 0"
proof unfold_locales
  fix s :: "'a kernel_scheme" and fd inode :: u32 assume a: "files_wf s" "2 \<le> unat fd" "unat fd < 8"
  obtain f ps where r: "rtc_init (s\<lparr>rate := of_int MAXIMUM_RATE\<rparr>) = s\<lparr>rate := of_int MAXIMUM_RATE, flag_rtc := f, port_out := ps\<rparr>"
    using rtc_init_eq[of "s\<lparr>rate := of_int MAXIMUM_RATE\<rparr>"] by auto
  have "files_wf (s\<lparr>rate := of_int MAXIMUM_RATE, flag_rtc := f, port_out := ps\<rparr>)" by (simp only: driver_fields(1) a(1))
  from set_fd_after[OF this driver_fields(3,2) a(3), of RtcTable 1 0]
  obtain s' where "set_fd fd RtcTable 0 1 (s\<lparr>rate := of_int MAXIMUM_RATE, flag_rtc := f, port_out := ps\<rparr>) = Some s'"
    "fd_change fd \<lparr>table_pointer = RtcTable, fd_inode = 0, file_position = 0, flags = 1\<rparr> s s'"
    by blast
  then show "\<exists>s'. rtc_open fd inode s = Some (0, s') \<and>
      fd_change fd \<lparr>table_pointer = RtcTable, fd_inode = 0, file_position = 0, flags = 1\<rparr> s s'"
    by (auto simp: rtc_open_def r)
next
  fix s :: "'a kernel_scheme" and fd :: u32 assume a: "files_wf s" "unat fd < 8" "flags (cur_fds s ! unat fd) \<noteq> 0"
  show "\<exists>s' ino. rtc_close fd s = Some (0, s') \<and>
      fd_change fd \<lparr>table_pointer = NullTable, fd_inode = ino, file_position = 0, flags = 0\<rparr> s s'"
    using set_fd_change[OF a(1,2), of NullTable 0 0] files_get[OF a(1,2)] a(3) by (auto simp: rtc_close_def)
qed (simp add: rtc_close_def files_get)

lemma clear_buffers_eq:
  assumes "length (terminal1_buffer s) = 128" "length (terminal2_buffer s) = 128" "length (terminal3_buffer s) = 128"
  shows "clear_buffers s = Some (s\<lparr>terminal1_buffer := replicate 128 0, terminal2_buffer := replicate 128 0,
    terminal3_buffer := replicate 128 0\<rparr>)"
proof -
  let ?z = "\<lambda>k b. replicate k 0 @ drop k (b :: u8 list)"
  let ?f = "\<lambda>k. s\<lparr>terminal1_buffer := ?z k (terminal1_buffer s), terminal2_buffer := ?z k (terminal2_buffer s),
    terminal3_buffer := ?z k (terminal3_buffer s)\<rparr>"
  have z: "(?z k b)[k := 0] = ?z (Suc k) b" if "length b = 128" "k < 128" for k and b :: "u8 list"
  proof -
    have "drop k b = b ! k # drop (Suc k) b" using that by (simp add: Cons_nth_drop_Suc)
    then show ?thesis by (simp add: list_update_append replicate_append_same flip: append_assoc)
  qed
  have "clear_buffers (?f 0) = Some (?f 128)"
    unfolding clear_buffers_def BUFFER_SIZE_def by (rule for_up_run) (use assms z in simp)
  then show ?thesis using assms by simp
qed

interpretation keyboard_drv: fd_driver keyboard_open keyboard_close KeyboardTable "\<lambda>i. 0"
proof unfold_locales
  fix s :: "'a kernel_scheme" and fd inode :: u32 assume a: "files_wf s" "2 \<le> unat fd" "unat fd < 8"
  let ?t = "s\<lparr>counter1 := 0, counter2 := 0, counter3 := 0, terminal1_buffer := replicate 128 0,
    terminal2_buffer := replicate 128 0, terminal3_buffer := replicate 128 0\<rparr>"
  have "clear_buffers (s\<lparr>counter1 := 0, counter2 := 0, counter3 := 0\<rparr>) = Some ?t"
    using a(1) by (subst clear_buffers_eq) (simp_all add: files_wf_def)
  moreover obtain s' where "set_fd fd KeyboardTable 0 1 ?t = Some s'"
    "fd_change fd \<lparr>table_pointer = KeyboardTable, fd_inode = 0, file_position = 0, flags = 1\<rparr> s s'"
    using set_fd_after[OF driver_fields(6)[OF a(1)] driver_fields(5,4) a(3), of KeyboardTable 1 0] by blast
  ultimately show "\<exists>s'. keyboard_open fd inode s = Some (0, s') \<and>
      fd_change fd \<lparr>table_pointer = KeyboardTable, fd_inode = 0, file_position = 0, flags = 1\<rparr> s s'"
    by (auto simp: keyboard_open_def)
next
  fix s :: "'a kernel_scheme" and fd :: u32 assume a: "files_wf s" "unat fd < 8" "flags (cur_fds s ! unat fd) \<noteq> 0"
  let ?t = "s\<lparr>counter1 := counter1 s, counter2 := counter2 s, counter3 := counter3 s, terminal1_buffer := replicate 128 0,
    terminal2_buffer := replicate 128 0, terminal3_buffer := replicate 128 0\<rparr>"
  have "clear_buffers s = Some ?t"
    using a(1) by (subst clear_buffers_eq) (simp_all add: files_wf_def)
  moreover obtain s' where "set_fd fd NullTable 0 0 ?t = Some s'"
    "fd_change fd \<lparr>table_pointer = NullTable, fd_inode = 0, file_position = 0, flags = 0\<rparr> s s'"
    using set_fd_after[OF driver_fields(6)[OF a(1)] driver_fields(5,4) a(2), of NullTable 0 0] by blast
  ultimately show "\<exists>s' ino. keyboard_close fd s = Some (0, s') \<and>
      fd_change fd \<lparr>table_pointer = NullTable, fd_inode = ino, file_position = 0, flags = 0\<rparr> s s'"
    using files_get[OF a(1,2)] a(3) by (auto simp: keyboard_close_def)
qed (simp add: keyboard_close_def files_get)


section \<open>Opening and closing\<close>

lemma fd_change_trans: "fd_change fd d s t \<Longrightarrow> fd_change fd e t u \<Longrightarrow> fd_change fd e s u"
  using fd_frame_trans[of s t u] fd_change_cur[of fd d s t]
  by (auto simp: fd_change_def fd_frame_def)

lemma table_close_frees:
  assumes "files_wf s" "unat fd < 8" "flags (cur_fds s ! unat fd) \<noteq> 0" "T \<noteq> NullTable"
  shows "\<exists>s' ino. table_close T fd s = Some (0, s') \<and>
    fd_change fd \<lparr>table_pointer = NullTable, fd_inode = ino, file_position = 0, flags = 0\<rparr> s s'"
  using file_drv.cls_frees[OF assms(1-3)] directory_drv.cls_frees[OF assms(1-3)]
    rtc_drv.cls_frees[OF assms(1-3)] keyboard_drv.cls_frees[OF assms(1-3)] assms(4)
  by (cases T) simp_all

lemma sys_close_step:
  assumes wf: "files_wf s"
  shows "if 2 \<le> unat fd \<and> unat fd < 8 \<and> flags (cur_fds s ! unat fd) \<noteq> 0
    then \<exists>s' ino. sys_close fd s = Some (0, s') \<and>
      fd_change fd \<lparr>table_pointer = NullTable, fd_inode = ino, file_position = 0, flags = 0\<rparr> s s'
    else sys_close fd s = Some (-1, s)"
proof (cases "2 \<le> unat fd \<and> unat fd < 8")
  case True
  let ?d = "cur_fds s ! unat fd"
  have r: "\<not> (sint fd < 2 \<or> 7 < sint fd)" using True by (simp add: fd_range)
  have g: "get_fd fd s = Some ?d" using True by (intro files_get[OF wf]) simp
  have "length (cur_fds s) = 8" using wf by (intro fds_length) (simp add: files_wf_def)
  then have "?d \<in> set (cur_fds s)" using True by (intro nth_mem) simp
  then have v: "fd_valid ?d" using wf by (simp add: files_wf_def)
  show ?thesis
  proof (cases "flags ?d = 0")
    case False
    then have "table_pointer ?d \<noteq> NullTable" using v by (simp add: fd_valid_def)
    from table_close_frees[OF wf _ False this] True False r g show ?thesis by (auto simp: sys_close_def)
  qed (use r g in \<open>simp add: sys_close_def\<close>)
next
  case False
  then have "sint fd < 2 \<or> 7 < sint fd" using fd_range(2)[of fd] by auto
  with False show ?thesis by (auto simp: sys_close_def)
qed

text \<open>
  C23: \<open>close\<close> on every descriptor number and every driver: for an open descriptor from 2 to 7 it
  returns 0 and leaves exactly that descriptor free; for stdin, stdout, a number outside the table
  and a descriptor that is not open it returns \<open>-1\<close> and changes nothing.
\<close>

theorem sys_close_frees:
  assumes "files_wf s"
  shows "if 2 \<le> unat fd \<and> unat fd < 8 \<and> flags (cur_fds s ! unat fd) \<noteq> 0
    then \<exists>s' ino. sys_close fd s = Some (0, s') \<and>
      fd_change fd \<lparr>table_pointer = NullTable, fd_inode = ino, file_position = 0, flags = 0\<rparr> s s'
    else sys_close fd s = Some (-1, s)"
  by (rule sys_close_step[OF assms])

text \<open>The driver a directory entry type selects, and the inode its descriptor keeps.\<close>

definition type_table :: "u32 \<Rightarrow> table_ptr" where
  "type_table kind = (if kind = 0 then RtcTable else if kind = 1 then DirTable else FileTable)"

definition type_inode :: "u32 \<Rightarrow> u32 \<Rightarrow> u32" where
  "type_inode kind inode = (if kind = 2 then inode else 0)"

text \<open>Installing the driver of a known type and opening the descriptor through it.\<close>

lemma open_through_table:
  assumes wf: "files_wf s" and fd: "2 \<le> unat fd" "unat fd < 8" and free: "flags (cur_fds s ! unat fd) = 0"
    and kind: "kind < 3"
  shows "\<exists>t s'. set_fileop_ptr fd kind s = Some t \<and> get_fd fd t = Some (cur_fds t ! unat fd) \<and>
    table_open (table_pointer (cur_fds t ! unat fd)) fd inode t = Some (0, s') \<and>
    fd_change fd \<lparr>table_pointer = type_table kind, fd_inode = type_inode kind inode, file_position = 0, flags = 1\<rparr> s s'"
proof -
  let ?T = "type_table kind" and ?d = "(cur_fds s ! unat fd)\<lparr>table_pointer := type_table kind\<rparr>"
  have c: "kind = 0 \<or> kind = 1 \<or> kind = 2" using kind by (rule lt3_cases)
  have sf: "set_fileop_ptr fd kind s = upd_fd fd (\<lambda>d. d\<lparr>table_pointer := ?T\<rparr>) s"
    using c by (auto simp: set_fileop_ptr_def type_table_def)
  obtain t where t: "set_fileop_ptr fd kind s = Some t" "fd_change fd ?d s t"
    using upd_fd_change[OF wf fd(2), of "\<lambda>d. d\<lparr>table_pointer := ?T\<rparr>"] free sf by (auto simp: fd_valid_def)
  have tw: "files_wf t" using t(2) by (simp add: fd_change_def)
  have "length (cur_fds s) = 8" using wf by (intro fds_length) (simp add: files_wf_def)
  then have "cur_fds t ! unat fd = ?d" using fd_change_cur[OF t(2)] fd(2) by simp
  then have tp: "table_pointer (cur_fds t ! unat fd) = ?T" by simp
  obtain s' where "table_open ?T fd inode t = Some (0, s')"
    "fd_change fd \<lparr>table_pointer = ?T, fd_inode = type_inode kind inode, file_position = 0, flags = 1\<rparr> t s'"
    using c file_drv.opn_sets[OF tw fd, of inode] directory_drv.opn_sets[OF tw fd, of inode] rtc_drv.opn_sets[OF tw fd, of inode]
    by (elim disjE) (auto simp: type_table_def type_inode_def)
  with t tp fd_change_trans[OF t(2)] files_get[OF tw fd(2)] show ?thesis by auto
qed


lemma sys_open_cases:
  assumes wf: "files_wf s" and dir: "dir_image s ds" and nm: "reads_string (\<lambda>j. vread s (filename + j)) xs"
    and en: "length entry = 64" and k: "find (\<lambda>k. flags (cur_fds s ! k) = 0) [2..<8] = ko"
    and d: "find (\<lambda>d. dentry_name d = xs) ds = eo"
  shows "ko = None \<or> eo = None \<Longrightarrow> sys_open entry filename s = Some (-1, s)"
    "ko = Some k \<Longrightarrow> eo = Some e \<Longrightarrow> 2 \<le> k \<and> k < 8 \<and> flags (cur_fds s ! k) = 0 \<and>
       sys_open entry filename s = do { t \<leftarrow> set_fileop_ptr (of_nat k) (dentry_type e) s;
         x \<leftarrow> get_fd (of_nat k) t;
         (_, s') \<leftarrow> table_open (table_pointer x) (of_nat k) (dentry_inode e) t; Some (of_nat k, s') }"
proof -
  have pw: "procs_wf s" using wf by (simp add: files_wf_def)
  have av: "get_avail_fd s = Some (case ko of None \<Rightarrow> -1 | Some k \<Rightarrow> of_nat k)"
    using find_fd_spec[OF pw, of 2 6] k by (simp add: get_avail_fd_def)
  have lk: "read_dentry_by_name s (\<lambda>j. vread s (filename + j)) (Some entry) =
    Some (case eo of None \<Rightarrow> (-1, Some entry) | Some d \<Rightarrow> (0, Some d))"
    using dentry_by_name[OF dir nm en] d by simp
  have kr: "2 \<le> k \<and> k < 8 \<and> flags (cur_fds s ! k) = 0" if "ko = Some k" for k
    using k that by (auto simp: find_Some_iff nth_upt simp del: upt_Suc upt_rec_numeral)
  have k1: "(of_nat k :: u32) \<noteq> -1" if "k < 8" for k using that by (rule small_not_minus1)
  show "ko = None \<or> eo = None \<Longrightarrow> sys_open entry filename s = Some (-1, s)"
    using av lk k1 kr by (cases ko) (auto simp: sys_open_def)
  assume s: "ko = Some k" "eo = Some e"
  then show "2 \<le> k \<and> k < 8 \<and> flags (cur_fds s ! k) = 0 \<and>
       sys_open entry filename s = do { t \<leftarrow> set_fileop_ptr (of_nat k) (dentry_type e) s;
         x \<leftarrow> get_fd (of_nat k) t;
         (_, s') \<leftarrow> table_open (table_pointer x) (of_nat k) (dentry_inode e) t; Some (of_nat k, s') }"
    using av lk kr[OF s(1)] k1[of k] by (simp add: sys_open_def)
qed

lemma sys_open_opens:
  assumes wf: "files_wf s" and dir: "dir_image s ds" and nm: "reads_string (\<lambda>j. vread s (filename + j)) xs"
    and en: "length entry = 64" and k: "find (\<lambda>k. flags (cur_fds s ! k) = 0) [2..<8] = Some k"
    and d: "find (\<lambda>d. dentry_name d = xs) ds = Some e" and kind: "dentry_type e < 3"
  shows "\<exists>s'. sys_open entry filename s = Some (of_nat k, s') \<and>
    fd_change (of_nat k) \<lparr>table_pointer = type_table (dentry_type e),
      fd_inode = type_inode (dentry_type e) (dentry_inode e), file_position = 0, flags = 1\<rparr> s s'"
proof -
  note o = sys_open_cases(2)[OF wf dir nm en k d refl refl]
  have u: "unat (of_nat k :: u32) = k" using o by (simp add: unat_of_nat take_bit_nat_eq_self)
  from open_through_table[OF wf _ _ _ kind, of "of_nat k" "dentry_inode e"] o show ?thesis
    by (auto simp: u)
qed

text \<open>
  C22: \<open>open\<close>: with a free descriptor and an entry of that name, of one of the three known types, it
  returns the first free descriptor, now open at position 0 on the driver of that type (with the
  entry's inode for a regular file); all other descriptors and all of memory are unchanged.  With
  no free descriptor or no such entry it returns \<open>-1\<close> and changes nothing.
\<close>

theorem sys_open_spec:
  assumes "files_wf s" and "dir_image s ds" and "reads_string (\<lambda>j. vread s (filename + j)) xs"
    and "length entry = 64"
  shows "case find (\<lambda>k. flags (cur_fds s ! k) = 0) [2..<8] of
      None \<Rightarrow> sys_open entry filename s = Some (-1, s)
    | Some k \<Rightarrow> (case find (\<lambda>d. dentry_name d = xs) ds of
        None \<Rightarrow> sys_open entry filename s = Some (-1, s)
      | Some e \<Rightarrow> dentry_type e < 3 \<longrightarrow> (\<exists>s'. sys_open entry filename s = Some (of_nat k, s') \<and>
          fd_change (of_nat k) \<lparr>table_pointer = type_table (dentry_type e),
            fd_inode = type_inode (dentry_type e) (dentry_inode e), file_position = 0, flags = 1\<rparr> s s'))"
proof -
  obtain ko eo where f: "find (\<lambda>k. flags (cur_fds s ! k) = 0) [2..<8] = ko"
    "find (\<lambda>d. dentry_name d = xs) ds = eo" by blast
  note n = sys_open_cases(1)[OF assms f]
  show ?thesis unfolding f using n sys_open_opens[OF assms] f by (auto split: option.split)
qed

text \<open>
  Finding: \<open>open\<close> of an entry whose type is none of 0, 1, 2 calls through whatever table pointer
  the free descriptor still carries; a descriptor that was closed has a null pointer there, and
  the call faults.
\<close>

theorem sys_open_unknown_type_faults:
  assumes "files_wf s" and "dir_image s ds" and "reads_string (\<lambda>j. vread s (filename + j)) xs"
    and "length entry = 64" and "find (\<lambda>k. flags (cur_fds s ! k) = 0) [2..<8] = Some k"
    and "find (\<lambda>d. dentry_name d = xs) ds = Some e"
    and "2 < dentry_type e" and "table_pointer (cur_fds s ! k) = NullTable"
  shows "sys_open entry filename s = None"
proof -
  note o = sys_open_cases(2)[OF assms(1-6) refl refl]
  have "unat (of_nat k :: u32) = k" using o by (simp add: unat_of_nat take_bit_nat_eq_self)
  then have "get_fd (of_nat k) s = Some (cur_fds s ! k)" using o files_get[OF assms(1), of "of_nat k"] by simp
  moreover have "set_fileop_ptr (of_nat k) (dentry_type e) s = Some s"
    using assms(7) by (auto simp: set_fileop_ptr_def)
  ultimately show ?thesis using o assms(8) by simp
qed

section \<open>Closing all descriptors\<close>

lemma close_all_step:
  assumes wf: "files_wf s"
  shows "\<exists>s'. close_all s = Some s' \<and> files_wf s' \<and> fd_frame s s' \<and>
    (\<forall>k<8. if k < 2 then cur_fds s' ! k = cur_fds s ! k else flags (cur_fds s' ! k) = 0) \<and>
    (\<forall>q. q \<noteq> cur_fd_ptr (process_array s ! sched_ix s) \<longrightarrow> fds_at s' q = fds_at s q)"
proof -
  let ?p = "cur_fd_ptr (process_array s ! sched_ix s)"
  let ?I = "\<lambda>n t. files_wf t \<and> fd_frame s t \<and>
    (\<forall>k<8. if k < 2 then cur_fds t ! k = cur_fds s ! k else k < n \<longrightarrow> flags (cur_fds t ! k) = 0) \<and>
    (\<forall>q. q \<noteq> ?p \<longrightarrow> fds_at t q = fds_at s q)"
  have "\<exists>s'. close_all s = Some s' \<and> ?I (0 + 8) s'"
    unfolding close_all_def
  proof (rule for_up_rule)
    fix n t assume n: "n < 0 + 8" and I: "?I n t"
    have u: "unat (of_nat n :: u32) = n" using n by (simp add: unat_of_nat take_bit_nat_eq_self)
    have pt: "process_array t ! sched_ix t = process_array s ! sched_ix s" using I by (simp add: fd_frame_def)
    have len: "length (cur_fds t) = 8" using I by (intro fds_length) (simp add: files_wf_def)
    note c = sys_close_step[of t "of_nat n", unfolded u]
    show "\<exists>t'. (do { (_, s') \<leftarrow> sys_close (of_nat n) t; Some s' }) = Some t' \<and> ?I (Suc n) t'"
    proof (cases "2 \<le> n \<and> flags (cur_fds t ! n) \<noteq> 0")
      case True
      then obtain t' ino where t': "sys_close (of_nat n) t = Some (0, t')"
        "fd_change (of_nat n) \<lparr>table_pointer = NullTable, fd_inode = ino, file_position = 0, flags = 0\<rparr> t t'"
        using c I n by auto
      have "cur_fds t' = (cur_fds t)[n := \<lparr>table_pointer = NullTable, fd_inode = ino, file_position = 0, flags = 0\<rparr>]"
        using fd_change_cur[OF t'(2)] by (simp add: u)
      moreover have "files_wf t'" "fd_frame t t'" "\<forall>q. q \<noteq> ?p \<longrightarrow> fds_at t' q = fds_at t q"
        using t'(2) pt by (simp_all add: fd_change_def)
      ultimately have "?I (Suc n) t'"
        using I True n len fd_frame_trans[of s t t'] by (auto simp: nth_list_update less_Suc_eq)
      with t'(1) show ?thesis by simp
    next
      case False
      then have "sys_close (of_nat n) t = Some (-1, t)" using c I n by auto
      moreover have "?I (Suc n) t" using I False by (auto simp: less_Suc_eq)
      ultimately show ?thesis by simp
    qed
  qed (use wf in simp)
  then show ?thesis by auto
qed

lemma files_wf_transfer:
  assumes "files_wf s" "paging_wf t" "screen_x t = screen_x s" "screen_y t = screen_y s"
    "visible_screen t = visible_screen s" "schedule_index t = schedule_index s" "length (process_array t) = 3"
    "fds_at t = fds_at s" "\<forall>a. user_buf (pcbs t a) = user_buf (pcbs s a)"
    "terminal1_buffer t = terminal1_buffer s" "terminal2_buffer t = terminal2_buffer s" "terminal3_buffer t = terminal3_buffer s"
  shows "files_wf t"
proof -
  have f: "kernel_fdt t = kernel_fdt s" "fd_table (pcbs t a) = fd_table (pcbs s a)" for a
    using fun_cong[OF assms(8), of KernelFdt] fun_cong[OF assms(8), of "PcbFdt a"] by (simp_all add: fds_at_def)
  have "console_wf t" using assms(1-6) by (simp add: files_wf_def procs_wf_def console_wf_def)
  with assms f show ?thesis by (simp add: files_wf_def procs_wf_def)
qed

end
