(* ===== verification/Lifecycle.thy ===== *)
theory Lifecycle
  imports Descriptors
begin

text \<open>
  The life of a process: termination by \<open>halt\<close> or an exception, and program start by \<open>execute\<close>,
  from well-formed kernel states.  The predicate \<open>back_to_parent\<close> and the function \<open>started\<close> say what
  the two ends do to the kernel state; together they give the round trip through a child process.
\<close>

section \<open>Updates that keep the kernel well formed\<close>

lemma slot_upd_eq:
  "procs_wf s \<Longrightarrow> slot_upd f s =
     Some (s\<lparr>process_array := (process_array s)[sched_ix s := f (process_array s ! sched_ix s)]\<rparr>)"
  by (simp add: slot_upd_def cur_slot_eq)

lemma fds_at_cong: "kernel_fdt s = kernel_fdt t \<Longrightarrow> pcbs s = pcbs t \<Longrightarrow> fds_at s = fds_at t"
  by (simp add: fun_eq_iff fds_at_def split: fd_ptr.split)

lemma paging_ops_fields [simp]:
  "pcbs (map_page_exec i s) = pcbs s" "pcbs (snd (clear_vid s)) = pcbs s"
  "process_array (map_page_exec i s) = process_array s" "process_array (snd (clear_vid s)) = process_array s"
  "schedule_index (map_page_exec i s) = schedule_index s" "schedule_index (snd (clear_vid s)) = schedule_index s"
  "ret_status (map_page_exec i s) = ret_status s" "ret_status (snd (clear_vid s)) = ret_status s"
  "tss_esp0 (map_page_exec i s) = tss_esp0 s" "tss_esp0 (snd (clear_vid s)) = tss_esp0 s"
  "phys (map_page_exec i s) = phys s" "phys (snd (clear_vid s)) = phys s"
  "pte (map_page_exec i s) = pte s" "pte (snd (clear_vid s)) = pte s"
  "kernel_fdt (map_page_exec i s) = kernel_fdt s" "kernel_fdt (snd (clear_vid s)) = kernel_fdt s"
  "pdt (snd (clear_vid s)) = pdt s" "pdt (map_page_exec i s) = (pdt s)(EXEC := START_ADDRESS + FOURMB * i)"
  "pte_vid (map_page_exec i s) = pte_vid s" "pte_vid (snd (clear_vid s)) = (pte_vid s)(0 := 0)"
  "\<not> tlb_stale (map_page_exec i s)" "\<not> tlb_stale (snd (clear_vid s))"
  by (simp_all add: paging_defs)

text \<open>
  \<open>back_to_parent s s'\<close>: the running process of \<open>s\<close> is gone in \<open>s'\<close> and its parent continues where it
  called \<open>execute\<close>, with its stack, its descriptors and its user page.
\<close>

definition back_to_parent :: "'z kernel_scheme \<Rightarrow> 'z kernel_scheme \<Rightarrow> bool" where
  "back_to_parent s s' \<longleftrightarrow>
     (let p = process_array s ! sched_ix s; a = get_pcb (cur_pid p); b = pcbs s a in
      process_array s' = (process_array s)[sched_ix s := p\<lparr>cur_pid := parent_pid b, cur_fd_ptr := parent_fd b\<rparr>] \<and>
      schedule_index s' = schedule_index s \<and> visible_screen s' = visible_screen s \<and>
      esp s' = parent_esp b \<and> ebp s' = parent_ebp b \<and> tss_esp0 s' = parent_esp0 b \<and> iflag s' \<and>
      pcb_use (pcbs s' a) = 0 \<and> (\<forall>k. 2 \<le> k \<and> k < 8 \<longrightarrow> flags (fds_at s' (cur_fd_ptr p) ! k) = 0) \<and>
      (\<forall>q. q \<noteq> cur_fd_ptr p \<longrightarrow> fds_at s' q = fds_at s q) \<and>
      (\<forall>a'. a' \<noteq> a \<longrightarrow> pcbs s' a' = (pcbs s a')\<lparr>fd_table := fd_table (pcbs s' a')\<rparr>) \<and>
      pdt s' EXEC = START_ADDRESS + FOURMB * parent_pid b \<and> pte_vid s' 0 = 0 \<and> \<not> tlb_stale s' \<and>
      phys s' = phys s)"

lemma files_wf_paging:
  assumes wf: "files_wf s" and pg: "paging_wf t" and eq: "pcbs t = pcbs s" "kernel_fdt t = kernel_fdt s"
    "length (process_array t) = 3" "screen_x t = screen_x s" "screen_y t = screen_y s"
    "visible_screen t = visible_screen s" "schedule_index t = schedule_index s"
    "terminal1_buffer t = terminal1_buffer s" "terminal2_buffer t = terminal2_buffer s" "terminal3_buffer t = terminal3_buffer s"
  shows "files_wf t" "fds_at t = fds_at s"
proof -
  show f: "fds_at t = fds_at s" by (rule fds_at_cong) (simp_all add: eq)
  show "files_wf t" by (rule files_wf_transfer[OF wf pg]) (simp_all add: eq f)
qed

lemma files_paging: "files_wf s \<Longrightarrow> paging_wf s"
  by (simp add: files_wf_def procs_wf_def console_wf_def)

text \<open>
  The common part of both ways to terminate: \<open>t\<close> is the state in which all descriptors are closed,
  \<open>s'\<close> the state in which the parent continues.
\<close>

lemma terminate_core:
  assumes wf: "files_wf s" and tw: "files_wf t" and t: "pcbs t = pcbs s" "kernel_fdt t = kernel_fdt s"
      "schedule_index t = schedule_index s" "visible_screen t = visible_screen s" "phys t = phys s"
      "tss_esp0 t = parent_esp0 (pcbs s (get_pcb (cur_pid (process_array s ! sched_ix s))))"
      "process_array t = (process_array s)[sched_ix s := q]" "cur_fd_ptr q = cur_fd_ptr (process_array s ! sched_ix s)"
      "pte_vid t 0 = 0"
    and a: "a = get_pcb (cur_pid (process_array s ! sched_ix s))" and u: "close_all t = Some u"
    and s': "process_array s' = (process_array s)[sched_ix s := (process_array s ! sched_ix s)
        \<lparr>cur_pid := parent_pid (pcbs s a), cur_fd_ptr := parent_fd (pcbs s a)\<rparr>]"
      "pcbs s' = (pcbs u)(a := (pcbs u a)\<lparr>pcb_use := 0\<rparr>)" "kernel_fdt s' = kernel_fdt u"
      "schedule_index s' = schedule_index u" "visible_screen s' = visible_screen u" "phys s' = phys u"
      "esp s' = parent_esp (pcbs u a)" "ebp s' = parent_ebp (pcbs u a)" "tss_esp0 s' = tss_esp0 u" "iflag s'"
      "pdt s' EXEC = START_ADDRESS + FOURMB * parent_pid (pcbs s a)" "pte_vid s' = pte_vid u" "\<not> tlb_stale s'"
    and more: "paging_wf u \<Longrightarrow> paging_wf s'" "screen_x s' = screen_x u" "screen_y s' = screen_y u"
      "terminal1_buffer s' = terminal1_buffer u" "terminal2_buffer s' = terminal2_buffer u" "terminal3_buffer s' = terminal3_buffer u"
  shows "back_to_parent s s' \<and> files_wf s'"
proof
  let ?p = "process_array s ! sched_ix s"
  have ix: "sched_ix s < 3" "length (process_array s) = 3" using wf ix_bounds(1)[of s] by (simp_all add: files_wf_def procs_wf_def)
  obtain u' where "close_all t = Some u'" and u': "files_wf u'" "fd_frame t u'"
    "\<forall>k<8. if k < 2 then cur_fds u' ! k = cur_fds t ! k else flags (cur_fds u' ! k) = 0"
    "\<forall>q. q \<noteq> cur_fd_ptr (process_array t ! sched_ix t) \<longrightarrow> fds_at u' q = fds_at t q"
    using close_all_step[OF tw] by blast
  with u have uu: "u' = u" by simp
  note u' = u'[unfolded uu]
  have sl: "cur_fd_ptr (process_array t ! sched_ix t) = cur_fd_ptr ?p" using t(3,7,8) ix by simp
  have sl': "cur_fd_ptr (process_array u ! sched_ix u) = cur_fd_ptr ?p" using u'(2) sl by (simp add: fd_frame_def)
  have fp: "parent_esp (pcbs u a) = parent_esp (pcbs s a)" "parent_ebp (pcbs u a) = parent_ebp (pcbs s a)"
    "pcbs u x = (pcbs s x)\<lparr>fd_table := fd_table (pcbs u x)\<rparr>" for x
  proof -
    show x: "pcbs u x = (pcbs s x)\<lparr>fd_table := fd_table (pcbs u x)\<rparr>" for x using u'(2) t(1) by (simp add: fd_frame_def)
    show "parent_esp (pcbs u a) = parent_esp (pcbs s a)" "parent_ebp (pcbs u a) = parent_ebp (pcbs s a)"
      by (subst x, simp)+
  qed
  have ft: "fds_at t = fds_at s" using t(1,2) by (intro fds_at_cong)
  have fs: "fds_at s' = fds_at u" using s'(2,3) by (simp add: fun_eq_iff fds_at_def split: fd_ptr.split)
  have cl: "flags (fds_at s' (cur_fd_ptr ?p) ! k) = 0" if "2 \<le> k" "k < 8" for k
    using u'(3)[rule_format, OF that(2)] that(1) by (simp add: fs flip: sl')
  have oth: "fds_at s' q = fds_at s q" if "q \<noteq> cur_fd_ptr ?p" for q using u'(4) that by (simp add: fs ft sl)
  have fr: "schedule_index u = schedule_index s" "visible_screen u = visible_screen s" "phys u = phys s"
    "tss_esp0 u = parent_esp0 (pcbs s a)" "pte_vid u 0 = 0"
    using u'(2) t a by (simp_all add: fd_frame_def)
  have pc: "pcbs s' x = (pcbs s x)\<lparr>fd_table := fd_table (pcbs s' x)\<rparr>" if "x \<noteq> a" for x
    using fp(3)[of x] that by (simp add: s'(2))
  show "back_to_parent s s'"
    unfolding back_to_parent_def Let_def a[symmetric]
    using s'(1) cl oth fr pc s'(10,11,13) by (simp add: s'(2-9,12) fp(1,2))
  show "files_wf s'"
    by (rule files_wf_transfer[OF u'(1)])
      (use more files_paging[OF u'(1)] ix s'(1) fs in \<open>simp_all add: s'(2,4,5)\<close>)
qed

lemma halt_step:
  assumes wf: "files_wf s"
  shows "\<exists>s'. halt status s = Some (scast status, s') \<and> back_to_parent s s' \<and> files_wf s'"
proof -
  have pw: "procs_wf s" using wf by (simp add: files_wf_def)
  define p where "p = process_array s ! sched_ix s"
  define a where "a = get_pcb (cur_pid p)"
  define b where "b = pcbs s a"
  define s1 where "s1 = s\<lparr>iflag := False, ret_status := scast status, tss_esp0 := parent_esp0 b,
    process_array := (process_array s)[sched_ix s := p\<lparr>cur_pid := parent_pid b\<rparr>]\<rparr>"
  define t where "t = snd (clear_vid s1)"
  have len: "length (process_array s) = 3" using pw by (simp add: procs_wf_def)
  then have ix: "sched_ix s < length (process_array s)" using pw ix_bounds(1)[of s] by (simp add: procs_wf_def)
  have "paging_wf s1" using files_paging[OF wf] paging_wf_cong[of s1 s] by (simp add: s1_def)
  then have pt: "paging_wf t" unfolding t_def by (rule clear_vid_wf)
  have tw: "files_wf t"
    by (rule files_wf_paging(1)[OF wf pt]) (use len in \<open>simp_all add: t_def s1_def clear_vid_def set_pte_vid_def load_cr3_def\<close>)
  obtain u where u: "close_all t = Some u" "files_wf u" "fd_frame t u" using close_all_step[OF tw] by blast
  have pb: "pcbs u a = b\<lparr>fd_table := fd_table (pcbs u a)\<rparr>" using u(3) by (simp add: fd_frame_def t_def s1_def b_def)
  have b': "parent_fd (pcbs u a) = parent_fd b" "parent_pid (pcbs u a) = parent_pid b" by (subst pb, simp)+
  have uw: "procs_wf u" using u(2) by (simp add: files_wf_def)
  define s2 where "s2 = u\<lparr>process_array := (process_array u)[sched_ix u := (process_array u ! sched_ix u)\<lparr>cur_fd_ptr := parent_fd b\<rparr>]\<rparr>"
  define s' where "s' = snd (exec_ret a (map_page_exec (parent_pid b) (pcb_upd a (\<lambda>b. b\<lparr>pcb_use := 0\<rparr>) s2)))"
  have r1: "slot_upd (\<lambda>q. q\<lparr>cur_pid := parent_pid b\<rparr>) (s\<lparr>iflag := False, ret_status := scast status, tss_esp0 := parent_esp0 b\<rparr>) = Some s1"
    using pw len ix_bounds(1)[of s] by (simp add: slot_upd_def cur_slot_def s1_def p_def procs_wf_def)
  have r2: "slot_upd (\<lambda>q. q\<lparr>cur_fd_ptr := parent_fd (pcbs u a)\<rparr>) u = Some s2"
    using slot_upd_eq[OF uw] by (simp add: s2_def b')
  have e: "exec_ret a (map_page_exec (parent_pid b) (pcb_upd a (\<lambda>b. b\<lparr>pcb_use := 0\<rparr>) s2)) = (scast status, s')"
    using u(3) by (simp add: s'_def exec_ret_def Let_def sti_def s2_def pcb_upd_def fd_frame_def t_def s1_def)
  have "cur_slot (s\<lparr>iflag := False, ret_status := scast status\<rparr>) = Some p"
    using cur_slot_eq[OF pw] by (simp add: cur_slot_def p_def)
  then have h: "halt status s = Some (scast status, s')"
    using r1 u(1) r2 e b'(2)
    by (simp add: halt_def cli_def Let_def a_def[symmetric] b_def[symmetric] t_def[symmetric])
       (simp add: pcb_upd_def s2_def)
  have "back_to_parent s s' \<and> files_wf s'"
  proof (rule terminate_core[OF wf tw _ _ _ _ _ _ _ _ _ _ u(1), of "p\<lparr>cur_pid := parent_pid b\<rparr>" a])
    show "paging_wf u \<Longrightarrow> paging_wf s'"
    proof -
      assume "paging_wf u"
      then have "paging_wf (pcb_upd a (\<lambda>b. b\<lparr>pcb_use := 0\<rparr>) s2)" using paging_wf_cong[of "pcb_upd a (\<lambda>b. b\<lparr>pcb_use := 0\<rparr>) s2" u]
        by (simp add: pcb_upd_def s2_def)
      then show "paging_wf s'"
        using map_page_exec_wf[of "pcb_upd a (\<lambda>b. b\<lparr>pcb_use := 0\<rparr>) s2" "parent_pid b"]
          paging_wf_cong[of s' "map_page_exec (parent_pid b) (pcb_upd a (\<lambda>b. b\<lparr>pcb_use := 0\<rparr>) s2)"]
        by (simp add: s'_def exec_ret_def Let_def sti_def)
    qed
  qed (use u(3) ix in \<open>simp_all add: s'_def exec_ret_def Let_def sti_def s2_def pcb_upd_def t_def s1_def
        p_def a_def b_def fd_frame_def paging_defs\<close>)
  with h show ?thesis by blast
qed


lemma halt_exception_step:
  assumes wf: "files_wf s"
  shows "\<exists>s'. halt_exception s = Some (ret_status s, s') \<and> back_to_parent s s' \<and> files_wf s'"
proof -
  have pw: "procs_wf s" using wf by (simp add: files_wf_def)
  define p where "p = process_array s ! sched_ix s"
  define a where "a = get_pcb (cur_pid p)"
  define b where "b = pcbs s a"
  define s1 where "s1 = map_page_exec (parent_pid b) (s\<lparr>iflag := False, tss_esp0 := parent_esp0 b\<rparr>)"
  define t where "t = snd (clear_vid s1)"
  have len: "length (process_array s) = 3" using pw by (simp add: procs_wf_def)
  then have ix: "sched_ix s < length (process_array s)" using pw ix_bounds(1)[of s] by (simp add: procs_wf_def)
  have "paging_wf (s\<lparr>iflag := False, tss_esp0 := parent_esp0 b\<rparr>)"
    using files_paging[OF wf] paging_wf_cong[of "s\<lparr>iflag := False, tss_esp0 := parent_esp0 b\<rparr>" s] by simp
  then have pt: "paging_wf t" unfolding t_def s1_def by (intro clear_vid_wf map_page_exec_wf)
  have tw: "files_wf t"
    by (rule files_wf_paging(1)[OF wf pt]) (use len in \<open>simp_all add: t_def s1_def paging_defs\<close>)
  obtain u where u: "close_all t = Some u" "files_wf u" "fd_frame t u" using close_all_step[OF tw] by blast
  have pb: "pcbs u a = b\<lparr>fd_table := fd_table (pcbs u a)\<rparr>" using u(3) by (simp add: fd_frame_def t_def s1_def b_def)
  have b': "parent_fd (pcbs u a) = parent_fd b" "parent_pid (pcbs u a) = parent_pid b" by (subst pb, simp)+
  have uw: "procs_wf u" using u(2) by (simp add: files_wf_def)
  have ua: "process_array u = process_array s" "schedule_index u = schedule_index s"
    using u(3) by (simp_all add: fd_frame_def t_def s1_def)
  define s2 where "s2 = u\<lparr>process_array := (process_array u)[sched_ix u := p\<lparr>cur_pid := parent_pid b, cur_fd_ptr := parent_fd b\<rparr>]\<rparr>"
  define s' where "s' = snd (exec_ret a (pcb_upd a (\<lambda>b. b\<lparr>pcb_use := 0\<rparr>) s2))"
  define u1 where "u1 = u\<lparr>process_array := (process_array u)[sched_ix u := p\<lparr>cur_pid := parent_pid b\<rparr>]\<rparr>"
  have r1: "slot_upd (\<lambda>q. q\<lparr>cur_pid := parent_pid (pcbs u a)\<rparr>) u = Some u1"
    using slot_upd_eq[OF uw] by (simp add: u1_def b' ua p_def)
  have r2: "slot_upd (\<lambda>q. q\<lparr>cur_fd_ptr := parent_fd (pcbs u1 a)\<rparr>) u1 = Some s2"
    using ix by (simp add: slot_upd_def cur_slot_def s2_def u1_def b' ua)
  have e: "exec_ret a (pcb_upd a (\<lambda>b. b\<lparr>pcb_use := 0\<rparr>) s2) = (ret_status s, s')"
    using u(3) by (simp add: s'_def exec_ret_def Let_def sti_def s2_def pcb_upd_def fd_frame_def t_def s1_def)
  have "cur_slot (s\<lparr>iflag := False\<rparr>) = Some p"
    using cur_slot_eq[OF pw] by (simp add: cur_slot_def p_def)
  then have h: "halt_exception s = Some (ret_status s, s')"
    using r1 u(1) r2 e
    by (simp add: halt_exception_def cli_def Let_def a_def[symmetric] b_def[symmetric] t_def[symmetric] s1_def[symmetric])
  have "back_to_parent s s' \<and> files_wf s'"
  proof (rule terminate_core[OF wf tw _ _ _ _ _ _ _ _ _ _ u(1), of p a])
    show "paging_wf u \<Longrightarrow> paging_wf s'"
      using paging_wf_cong[of s' u] by (simp add: s'_def exec_ret_def Let_def sti_def pcb_upd_def s2_def)
  qed (use u(3) ix in \<open>simp_all add: s'_def exec_ret_def Let_def sti_def s2_def pcb_upd_def t_def s1_def
        p_def a_def b_def fd_frame_def paging_defs\<close>)
  with h show ?thesis by blast
qed

text \<open>
  C8: \<open>halt\<close> returns to the parent.  From every well-formed state the call of \<open>execute\<close> that started
  the running process returns, with the parent's kernel stack, descriptor table and user page in
  force, interrupts on and no stale translation; the process block is free, its descriptors are
  closed, its video page is unmapped, and no other process is touched.  The value returned is the
  status extended from eight bits with its sign: 255 becomes \<open>-1\<close>.
\<close>

theorem halt_returns_to_parent:
  assumes "files_wf s"
  shows "\<exists>s'. halt status s = Some (scast status, s') \<and> back_to_parent s s' \<and> files_wf s'"
  by (rule halt_step[OF assms])

text \<open>
  Finding: after an exception the parent gets a stale status.  \<open>halt_exception\<close> restores the
  parent just as \<open>halt\<close> does, but the assignment of 256 stands behind the jump: \<open>execute\<close> returns
  whatever the last \<open>halt\<close> left in \<open>ret_status\<close>.
\<close>

theorem halt_exception_stale_status:
  assumes "files_wf s"
  shows "\<exists>s'. halt_exception s = Some (ret_status s, s') \<and> back_to_parent s s' \<and> files_wf s'"
  by (rule halt_exception_step[OF assms])

section \<open>Command names\<close>

abbreviation word_char :: "u8 \<Rightarrow> bool" where
  "word_char c \<equiv> c \<noteq> 32 \<and> c \<noteq> 10"

lemma parse_name_word:
  "(\<And>j. j < length cs \<Longrightarrow> cmd (of_nat j) = Some (cs ! j)) \<Longrightarrow> i + n = length cs \<Longrightarrow>
   \<forall>c\<in>set (take i cs). word_char c \<Longrightarrow> length (takeWhile word_char cs) < 128 \<Longrightarrow>
   parse_name cmd i n (take i cs @ replicate (128 - i) 0) =
     Some (takeWhile word_char cs @ replicate (128 - length (takeWhile word_char cs)) 0)"
proof (induction n arbitrary: i)
  case 0
  then have tw: "takeWhile word_char cs = cs" by (simp add: takeWhile_eq_all_conv)
  show ?case unfolding tw using 0 by simp
next
  case (Suc n)
  then have i: "i < length cs" by simp
  have cs: "cs = take i cs @ cs ! i # drop (Suc i) cs" using i by (simp add: Cons_nth_drop_Suc)
  have tw: "takeWhile word_char cs = take i cs @ takeWhile word_char (cs ! i # drop (Suc i) cs)"
    using Suc.prems(3) by (subst cs, subst takeWhile_append2) auto
  have i128: "i < 128" using Suc.prems(4) i unfolding tw by simp
  have rep: "replicate (128 - i) 0 = 0 # replicate (128 - Suc i) (0 :: u8)"
    using i128 by (metis Suc_diff_Suc replicate_Suc)
  have len: "length (take i cs @ replicate (128 - i) (0 :: u8)) = 128" "length (take i cs) = i" using i i128 by simp_all
  show ?case
  proof (cases "word_char (cs ! i)")
    case False
    then have "takeWhile word_char cs = take i cs" using tw by auto
    moreover have "(take i cs @ replicate (128 - i) 0)[i := 0] = take i cs @ replicate (128 - i) (0 :: u8)"
      using len by (simp add: rep list_update_append)
    ultimately show ?thesis using Suc.prems(1)[OF i] False i128 len by auto
  next
    case True
    have "(take i cs @ replicate (128 - i) 0)[i := cs ! i] = take (Suc i) cs @ replicate (128 - Suc i) (0 :: u8)"
      using len i by (simp add: rep list_update_append take_Suc_conv_app_nth)
    moreover have "\<forall>c\<in>set (take (Suc i) cs). word_char c"
      using Suc.prems(3) True i by (simp add: take_Suc_conv_app_nth)
    ultimately show ?thesis
      using Suc.IH[of "Suc i"] Suc.prems True i128 len i by (simp del: take_Suc)
  qed
qed

text \<open>The name is the first word of the command; a command that starts with a blank has the empty name.\<close>

lemma command_name_word:
  assumes str: "cstring rd s command cs" and len: "length (takeWhile word_char cs) < 128" "length cs < 2 ^ 32"
  shows "command_name rd s command =
    Some (takeWhile word_char cs @ replicate (128 - length (takeWhile word_char cs)) 0)"
proof (cases cs)
  case Nil
  then show ?thesis using cstring_end[OF str] by (simp add: command_name_def)
next
  case (Cons c cs')
  have r0: "rd s command = Some c" "c \<noteq> 0" using cstring_nth[OF str, of 0] Cons by simp_all
  have u: "unat (of_nat (length cs) :: u32) = length cs" using len(2) by (simp add: unat_of_nat take_bit_nat_eq_self)
  show ?thesis
  proof (cases "word_char c")
    case False
    then show ?thesis using r0 Cons by (auto simp: command_name_def)
  next
    case True
    have "parse_name (\<lambda>j. rd s (command + j)) 0 (length cs) (take 0 cs @ replicate (128 - 0) 0) =
        Some (takeWhile word_char cs @ replicate (128 - length (takeWhile word_char cs)) 0)"
      by (rule parse_name_word) (use cstring_nth[OF str] len in auto)
    with r0 True strlen_cstring[OF str] u show ?thesis by (simp add: command_name_def)
  qed
qed

lemma word_reads:
  assumes "0 \<notin> set xs" and "length xs < 128"
  shows "reads_string (array_rd (xs @ replicate (128 - length xs) 0)) xs"
  by (rule array_reads_string)
    (use assms in \<open>simp_all add: array_rd_def unat_of_nat take_bit_nat_eq_self nth_append\<close>)

section \<open>Fresh descriptors\<close>

definition fd_stdio :: fd_t where
  "fd_stdio = \<lparr>table_pointer = KeyboardTable, fd_inode = 0, file_position = 0, flags = 1\<rparr>"

definition fd_free :: fd_t where
  "fd_free = \<lparr>table_pointer = NullTable, fd_inode = 0, file_position = 0, flags = 0\<rparr>"

lemma put_fds_put [simp]: "put_fds p f (put_fds p g s) = put_fds p f s"
  by (auto simp: put_fds_def pcb_upd_def split: fd_ptr.split)

lemma set_fd_put:
  assumes wf: "procs_wf s" and l: "length fds = 8" and n: "n < 8" and p: "p = cur_fd_ptr (process_array s ! sched_ix s)"
  shows "set_fd (of_nat n) t ino fl (put_fds p fds s) =
    Some (put_fds p (fds[n := \<lparr>table_pointer = t, fd_inode = ino, file_position = 0, flags = fl\<rparr>]) s)"
proof -
  have u: "unat (of_nat n :: u32) = n" using n by (simp add: unat_of_nat take_bit_nat_eq_self)
  have e: "x\<lparr>table_pointer := t, fd_inode := ino, file_position := 0, flags := fl\<rparr> =
      \<lparr>table_pointer = t, fd_inode = ino, file_position = 0, flags = fl\<rparr>" for x :: fd_t by (cases x) simp
  have "procs_wf (put_fds p fds s)" using wf l by (rule put_fds_wf)
  from upd_fd_eq[OF this, of "of_nat n" "\<lambda>x. x\<lparr>table_pointer := t, fd_inode := ino, file_position := 0, flags := fl\<rparr>", unfolded e u]
  show ?thesis unfolding set_fd_def e using n by (simp add: p)
qed

lemma init_fd_eq:
  assumes wf: "procs_wf s" and p: "p = cur_fd_ptr (process_array s ! sched_ix s)"
  shows "init_fd s = Some (put_fds p ([fd_stdio, fd_stdio] @ replicate 6 fd_free) s)"
proof -
  let ?f = "cur_fds s"
  have l: "length ?f = 8" using wf by (rule fds_length)
  have s0: "put_fds p ?f s = s" using p by (simp add: put_fds_def fds_at_def pcb_upd_def split: fd_ptr.split)
  let ?g = "?f[0 := fd_stdio, 1 := fd_stdio]"
  have "set_fd 0 KeyboardTable 0 1 s = Some (put_fds p (?f[0 := fd_stdio]) s)"
    using set_fd_put[OF wf l _ p, of 0 KeyboardTable 0 1] by (simp add: s0 fd_stdio_def)
  moreover have "set_fd 1 KeyboardTable 0 1 (put_fds p (?f[0 := fd_stdio]) s) = Some (put_fds p ?g s)"
    using set_fd_put[OF wf _ _ p, of "?f[0 := fd_stdio]" 1 KeyboardTable 0 1] l by (simp add: fd_stdio_def)
  moreover have "\<exists>s'. for_up 2 6 (\<lambda>i. set_fd (of_nat i) NullTable 0 0) (put_fds p ?g s) = Some s' \<and>
      (\<exists>h. s' = put_fds p h s \<and> length h = 8 \<and> (\<forall>k<8. h ! k = (if k < 2 then fd_stdio else if k < 2 + 6 then fd_free else ?f ! k)))"
  proof (rule for_up_rule[where I = "\<lambda>n s'. \<exists>h. s' = put_fds p h s \<and> length h = 8 \<and>
      (\<forall>k<8. h ! k = (if k < 2 then fd_stdio else if k < n then fd_free else ?f ! k))"])
    show "\<exists>h. put_fds p ?g s = put_fds p h s \<and> length h = 8 \<and>
        (\<forall>k<8. h ! k = (if k < 2 then fd_stdio else if k < 2 then fd_free else ?f ! k))"
      using l by (intro exI[of _ ?g]) (auto simp: nth_list_update less_2_cases_iff)
  next
    fix n t assume n: "2 \<le> n" "n < 2 + 6" and "\<exists>h. t = put_fds p h s \<and> length h = 8 \<and>
      (\<forall>k<8. h ! k = (if k < 2 then fd_stdio else if k < n then fd_free else ?f ! k))"
    then obtain h where h: "t = put_fds p h s" "length h = 8"
      "\<forall>k<8. h ! k = (if k < 2 then fd_stdio else if k < n then fd_free else ?f ! k)" by blast
    have "set_fd (of_nat n) NullTable 0 0 t = Some (put_fds p (h[n := fd_free]) s)"
      using set_fd_put[OF wf h(2) _ p, of n NullTable 0 0] n by (simp add: h(1) fd_free_def)
    moreover have "\<forall>k<8. h[n := fd_free] ! k = (if k < 2 then fd_stdio else if k < Suc n then fd_free else ?f ! k)"
      using h(2,3) n by (auto simp: nth_list_update)
    ultimately show "\<exists>t'. set_fd (of_nat n) NullTable 0 0 t = Some t' \<and> (\<exists>h. t' = put_fds p h s \<and> length h = 8 \<and>
      (\<forall>k<8. h ! k = (if k < 2 then fd_stdio else if k < Suc n then fd_free else ?f ! k)))"
      using h(2) by (metis length_list_update)
  qed
  then obtain h where h: "for_up 2 6 (\<lambda>i. set_fd (of_nat i) NullTable 0 0) (put_fds p ?g s) = Some (put_fds p h s)"
    "length h = 8" "\<forall>k<8. h ! k = (if k < 2 then fd_stdio else fd_free)" by auto
  have "h = [fd_stdio, fd_stdio] @ replicate 6 fd_free"
    by (rule nth_equalityI) (use h(2,3) in \<open>auto simp: nth_append less_2_cases_iff nth_Cons'\<close>)
  with h(1) calculation show ?thesis by (simp add: init_fd_def)
qed


section \<open>User memory\<close>

lemma user_page:
  assumes pw: "paging_wf s" and e: "pdt s EXEC = START_ADDRESS + FOURMB * of_nat i" and k: "k < 0x3B8000"
  shows "translate s (0x08048000 + of_nat k) = Some (0x848000 + FOURMB * of_nat i + of_nat k)"
proof -
  have "unat (0x08048000 + of_nat k :: u32) = 0x08048000 + k"
    using k by (simp add: unat_word_ariths unat_of_nat take_bit_nat_eq_self)
  then have "unat (0x08048000 + of_nat k :: u32) div 0x400000 = 32" using k by simp
  from translate_exec[OF pw this e] show ?thesis by (simp add: algebra_simps)
qed

lemma user_nat:
  assumes "i < 8" "k < 0x3B8000"
  shows "unat (0x848000 + FOURMB * of_nat i + of_nat k :: u32) = 0x848000 + 0x400000 * i + k"
proof -
  have "0x848000 + FOURMB * of_nat i + of_nat k = (of_nat (0x848000 + 0x400000 * i + k) :: u32)"
    by (simp add: FOURMB_def)
  moreover have "0x848000 + 0x400000 * i + k < 2 ^ 32" using assms by simp
  ultimately show ?thesis by (simp only: unat_of_nat) (simp add: take_bit_nat_eq_self)
qed

lemma kernel_range:
  assumes "0x400000 \<le> unat (base :: u32)" "unat base + m \<le> 0x800000" "k < m"
  shows "unat (base + of_nat k) = unat base + k" "unat (base + of_nat k) div 0x400000 = 1"
proof -
  have "base + of_nat k = (of_nat (unat base + k) :: u32)" by simp
  moreover have "unat base + k < 2 ^ 32" using assms by simp
  ultimately show u: "unat (base + of_nat k) = unat base + k"
    by (simp only: unat_of_nat) (simp add: take_bit_nat_eq_self)
  show "unat (base + of_nat k) div 0x400000 = 1" unfolding u using assms by (simp add: div_nat_eqI)
qed

text \<open>An image inside the kernel's page lies outside every process page.\<close>

lemma user_buffer:
  assumes pw: "paging_wf s" and e: "pdt s EXEC = START_ADDRESS + FOURMB * of_nat i" and i: "i < 8"
    and n: "n \<le> 0x3B8000" and b: "0x400000 \<le> unat base" "unat base + m \<le> 0x800000"
  shows "\<forall>k<n. translate s (0x08048000 + of_nat k) \<noteq> None" "inj_cells translate s 0x08048000 n"
    "cells translate s 0x08048000 n \<inter> cells translate s base m = {}"
    "c \<in> cells translate s 0x08048000 n \<Longrightarrow> unat c div 0x400000 = i + 2"
proof -
  note u = user_page[OF pw e]
  show "\<forall>k<n. translate s (0x08048000 + of_nat k) \<noteq> None" using n by (simp add: u)
  show "inj_cells translate s 0x08048000 n"
    unfolding inj_cells_def
  proof (intro allI impI)
    fix j k :: nat assume jk: "j < n" "k < n" "j \<noteq> k"
    have "(0x848000 + FOURMB * of_nat i + of_nat j :: u32) \<noteq> 0x848000 + FOURMB * of_nat i + of_nat k"
    proof
      assume e: "(0x848000 + FOURMB * of_nat i + of_nat j :: u32) = 0x848000 + FOURMB * of_nat i + of_nat k"
      have "0x848000 + 0x400000 * i + j = unat (0x848000 + FOURMB * of_nat i + of_nat j :: u32)"
        using n jk by (intro user_nat[OF i, symmetric]) simp
      also have "\<dots> = 0x848000 + 0x400000 * i + k" unfolding e using n jk by (intro user_nat[OF i]) simp
      finally show False using jk by simp
    qed
    with jk n show "translate s (0x08048000 + of_nat j) \<noteq> translate s (0x08048000 + of_nat k)" by (simp add: u)
  qed
  have c: "unat c div 0x400000 = i + 2" if c0: "c \<in> cells translate s 0x08048000 n" for c
  proof -
    obtain k where k0: "k < n" "translate s (0x08048000 + of_nat k) = Some c" using c0 by (auto simp: cells_def)
    then have k: "k < n" "c = 0x848000 + FOURMB * of_nat i + of_nat k" using u[of k] n by simp_all
    then have "unat c = 0x400000 * (i + 2) + (0x48000 + k)" using user_nat[OF i, of k] n by simp
    moreover have "0x48000 + k < 0x400000" using k n by simp
    ultimately show ?thesis by simp
  qed
  then show "c \<in> cells translate s 0x08048000 n \<Longrightarrow> unat c div 0x400000 = i + 2" .
  have "unat c div 0x400000 = 1" if c: "c \<in> cells translate s base m" for c
  proof -
    obtain k where k: "k < m" "translate s (base + of_nat k) = Some c" using c by (auto simp: cells_def)
    note d = kernel_range(2)[OF b k(1)]
    from k d translate_kernel[OF pw d] show ?thesis by simp
  qed
  with c show "cells translate s 0x08048000 n \<inter> cells translate s base m = {}" by fastforce
qed

section \<open>Program start\<close>

text \<open>The state in which the program image is loaded: \<open>i\<close> is the new process, \<open>ub\<close> its command line.\<close>

definition new_pcb :: "nat \<Rightarrow> u8 list \<Rightarrow> 'z kernel_scheme \<Rightarrow> pcb_t" where
  "new_pcb i ub s =
     (let p = process_array s ! sched_ix s in
      \<lparr>pcb_use = 1, parent_pid = cur_pid p, parent_esp0 = tss_esp0 s, parent_esp = esp s, parent_ebp = ebp s,
       parent_fd = cur_fd_ptr p, fd_table = [fd_stdio, fd_stdio] @ replicate 6 fd_free, user_buf = ub,
       vid_set = 0, screen_idx = ucast (schedule_index s)\<rparr>)"

definition started :: "nat \<Rightarrow> u8 list \<Rightarrow> 'z kernel_scheme \<Rightarrow> 'z kernel_scheme" where
  "started i ub s =
     (let a = get_pcb (of_nat i) in
      s\<lparr>pcbs := (pcbs s)(a := new_pcb i ub s),
        process_array := (process_array s)[sched_ix s :=
          (process_array s ! sched_ix s)\<lparr>cur_pid := of_nat i, cur_fd_ptr := PcbFdt a\<rparr>],
        pdt := (pdt s)(EXEC := START_ADDRESS + FOURMB * of_nat i), tlb_stale := False,
        tss_esp0 := get_esp0 (of_nat i), iflag := True\<rparr>)"


text \<open>The file system image lies in the kernel's page, where every address space shows it.\<close>

definition fs_image :: "'z fsys_scheme \<Rightarrow> u8 list \<Rightarrow> bool" where
  "fs_image s img \<longleftrightarrow> image_ok (geometry_of s) img \<and> load_bytes vread s (FILEMEM s) (length img) = Some img \<and>
     0x400000 \<le> unat (FILEMEM s) \<and> unat (FILEMEM s) + length img \<le> 0x800000"

definition boot_image :: "'z fsys_scheme \<Rightarrow> u8 list \<Rightarrow> dentry list \<Rightarrow> bool" where
  "boot_image s img ds \<longleftrightarrow> fs_image s img \<and> dir_image s ds \<and> length ds \<le> 63"

lemma fs_image_transfer:
  assumes "fs_image s img" "paging_wf s" "paging_wf t" "FILEMEM t = FILEMEM s" "fs_inodes t = fs_inodes s"
    "fs_dblocks t = fs_dblocks s" "\<And>p. unat p div 0x400000 = 1 \<Longrightarrow> phys t p = phys s p"
  shows "fs_image t img"
proof -
  note I = assms(1)[unfolded fs_image_def]
  have "load_bytes vread t (FILEMEM s) (length img) = load_bytes vread s (FILEMEM s) (length img)"
  proof (rule load_bytes_cong)
    fix k assume "k < length img"
    then have k: "unat (FILEMEM s + of_nat k) div 0x400000 = 1" using I by (intro kernel_range(2)[of _ "length img"]) simp_all
    show "vread t (FILEMEM s + of_nat k) = vread s (FILEMEM s + of_nat k)"
      using translate_kernel[OF assms(2) k] translate_kernel[OF assms(3) k] assms(7)[OF k] by (simp add: vread_def)
  qed
  then show ?thesis using I by (simp add: fs_image_def geometry_of_def assms(4-6))
qed

text \<open>\<open>name\<close> is an executable whose contents \<open>prog\<close> fit behind \<open>0x08048000\<close> in the process page.\<close>

definition executable :: "'z fsys_scheme \<Rightarrow> u8 list \<Rightarrow> dentry list \<Rightarrow> u8 list \<Rightarrow> dentry \<Rightarrow> u8 list \<Rightarrow> bool" where
  "executable s img ds name e prog \<longleftrightarrow> find (\<lambda>d. dentry_name d = name) ds = Some e \<and>
     file_ok (geometry_of s) img (unat (dentry_inode e)) \<and>
     prog = file_contents (geometry_of s) img (unat (dentry_inode e)) \<and>
     take 4 prog = [0x7F, 0x45, 0x4C, 0x46] \<and> 28 \<le> length prog \<and> length prog \<le> 0x3B8000"

definition entry_point :: "u8 list \<Rightarrow> u32" where
  "entry_point prog = le32 (prog ! 24) (prog ! 25) (prog ! 26) (prog ! 27)"

lemma load_program:
  assumes pw: "paging_wf t" and e: "pdt t EXEC = START_ADDRESS + FOURMB * of_nat i" and i: "i < 8"
    and bi: "fs_image t img" and ex: "executable t img ds name d prog"
  shows "\<exists>m. load32 vread t (inode_addr t (dentry_inode d)) = Some (of_nat (length prog)) \<and>
    read_data t vread vwrite (dentry_inode d) 0 TARGET_MEM (of_nat (length prog)) t = Some (of_nat (length prog), t\<lparr>phys := m\<rparr>) \<and>
    load_bytes vread (t\<lparr>phys := m\<rparr>) TARGET_MEM (length prog) = Some prog \<and>
    load32 vread (t\<lparr>phys := m\<rparr>) ENTRY_MEM = Some (entry_point prog) \<and>
    (\<forall>p. unat p div 0x400000 \<noteq> i + 2 \<longrightarrow> m p = phys t p)"
proof -
  let ?g = "geometry_of t" and ?ino = "unat (dentry_inode d)" and ?L = "length prog"
  note B = bi[unfolded fs_image_def] and E = ex[unfolded executable_def]
  have io: "image_ok ?g img" and fo: "file_ok ?g img ?ino" and L: "28 \<le> ?L" "?L \<le> 0x3B8000" and pr: "prog = file_contents ?g img ?ino"
    using B E by blast+
  have len: "?L = unat (img_length img ?ino)" using file_contents_length[OF io fo] pr by simp
  then have lw: "of_nat ?L = img_length img ?ino" by simp
  have base: "0x400000 \<le> unat (FILEMEM t)" "unat (FILEMEM t) + length img \<le> 0x800000" using B by simp_all
  note ub = user_buffer[OF pw e i L(2) base]
  have ok: "vm_image_ok (FILEMEM t) img 0x08048000 ?L t"
  proof -
    have "length img < 2 ^ 32" using io by (simp add: image_ok_def)
    with B ub(3) show ?thesis by (simp add: vm_image_ok_def)
  qed
  have ia: "inode_addr t (dentry_inode d) = FILEMEM t + of_nat (4096 * (1 + ?ino))"
    by (simp add: inode_addr_def BLOCKSIZE_def algebra_simps)
  have l32: "load32 vread t (inode_addr t (dentry_inode d)) = Some (of_nat ?L)"
    using vmimg.load32_in_image[OF ok, of "4096 * (1 + ?ino)"] io fo
    unfolding ia lw img_length_def by (simp add: image_ok_def file_ok_def)
  have sl: "take ?L (drop 0 (file_contents ?g img ?ino)) = prog" using pr by simp
  have rd: "read_data t vread vwrite (dentry_inode d) 0 0x08048000 (of_nat ?L) t =
      do { d' \<leftarrow> store_bytes vwrite t 0x08048000 prog; Some (of_nat ?L, d') }"
    using vmimg.read_data_slice[OF refl refl io fo ok, of ?L 0, unfolded sl] L len by simp
  obtain s' where st: "store_bytes vwrite t 0x08048000 prog = Some s'" using ub(1) vm.store_Some_iff[of t "0x08048000" prog] by auto
  obtain m where m: "s' = t\<lparr>phys := m\<rparr>" using store_frame[OF st] by blast
  have ld: "load_bytes vread s' 0x08048000 ?L = Some prog"
    by (rule vm.store_load_same[OF st]) (use ub(2) in \<open>simp add: inj_cells_def\<close>)
  have "vread s' (0x08048000 + of_nat k) = Some (prog ! k)" if "k < ?L" for k using load_bytes_nth[OF ld that] .
  from this[of 24] this[of 25] this[of 26] this[of 27]
  have en: "load32 vread s' ENTRY_MEM = Some (entry_point prog)" using L(1) by (simp add: load32_def ENTRY_MEM_def entry_point_def)
  have "m p = phys t p" if "unat p div 0x400000 \<noteq> i + 2" for p
    using vm.store_cell_other[OF st, of p] ub(4)[of p] that by (auto simp: m)
  with l32 rd st ld en m show ?thesis unfolding TARGET_MEM_def by (intro exI[of _ m]) simp
qed

lemma boot_image_cong:
  assumes "phys t = phys s" "translate t = translate s" "FILEMEM t = FILEMEM s" "fs_entries t = fs_entries s"
    "fs_inodes t = fs_inodes s" "fs_dblocks t = fs_dblocks s" "boot_image s img ds"
  shows "boot_image t img ds"
proof -
  have v: "vread t = vread s" by (simp add: fun_eq_iff vread_def assms(1,2))
  have l: "load_bytes vread t a n = load_bytes vread s a n" for a n by (rule load_bytes_cong) (simp add: v)
  show ?thesis using assms(7) by (simp add: boot_image_def fs_image_def dir_image_def dentry_addr_def geometry_of_def l assms(3-6))
qed

text \<open>The directory is in the boot block, so it is seen in every address space as well.\<close>

lemma boot_image_transfer:
  assumes "boot_image s img ds" "paging_wf s" "paging_wf t" "FILEMEM t = FILEMEM s" "fs_inodes t = fs_inodes s"
    "fs_dblocks t = fs_dblocks s" "fs_entries t = fs_entries s" "\<And>p. unat p div 0x400000 = 1 \<Longrightarrow> phys t p = phys s p"
  shows "boot_image t img ds"
proof -
  note I = assms(1)[unfolded boot_image_def fs_image_def image_ok_def]
  have "load_bytes vread t (dentry_addr s (of_nat i)) 64 = load_bytes vread s (dentry_addr s (of_nat i)) 64" if i: "i < length ds" for i
  proof (rule load_bytes_cong)
    fix k :: nat assume "k < 64"
    then have "64 * (1 + i) + k < length img" using I i by (simp add: geometry_of_def)
    then have k: "unat (FILEMEM s + of_nat (64 * (1 + i) + k)) div 0x400000 = 1" using I by (intro kernel_range(2)[of _ "length img"]) simp_all
    have ad: "dentry_addr s (of_nat i) + of_nat k = FILEMEM s + of_nat (64 * (1 + i) + k)"
      by (simp add: dentry_addr_def DENTRYSIZE_def algebra_simps)
    show "vread t (dentry_addr s (of_nat i) + of_nat k) = vread s (dentry_addr s (of_nat i) + of_nat k)"
      unfolding ad vread_def translate_kernel[OF assms(2) k] translate_kernel[OF assms(3) k]
      using assms(8)[OF k] by simp
  qed
  moreover have "fs_image t img" by (rule fs_image_transfer[OF _ assms(2-6,8)]) (use assms(1) in \<open>simp_all add: boot_image_def\<close>)
  ultimately show ?thesis using I assms(4,7) by (simp add: boot_image_def dir_image_def dentry_addr_def)
qed

lemma executable_cong: "geometry_of t = geometry_of s \<Longrightarrow> executable t img ds name d prog = executable s img ds name d prog"
  by (simp only: executable_def)

lemma magic_read:
  assumes bi: "boot_image s img ds" and ex: "executable s img ds name d prog" and jm: "length junk_magic = 4"
  shows "read_data s (\<lambda>_. vread s) array_wr (dentry_inode d) 0 0 4 junk_magic = Some (4, [0x7F, 0x45, 0x4C, 0x46])"
proof -
  note B = bi[unfolded boot_image_def fs_image_def] and E = ex[unfolded executable_def]
  have io: "image_ok (geometry_of s) img" and fo: "file_ok (geometry_of s) img (unat (dentry_inode d))"
    and pr: "prog = file_contents (geometry_of s) img (unat (dentry_inode d))" "28 \<le> length prog"
      "take 4 prog = [0x7F, 0x45, 0x4C, 0x46]" using B E by blast+
  have "load_bytes (\<lambda>_. vread s) () (FILEMEM s) (length img) = load_bytes vread s (FILEMEM s) (length img)"
    by (rule load_bytes_cong) simp
  then have ok: "arr_image_ok (vread s) (FILEMEM s) img junk_magic" using B io by (simp add: arr_image_ok_def image_ok_def)
  have "28 \<le> unat (img_length img (unat (dentry_inode d)))" using pr file_contents_length[OF io fo] by simp
  then have "read_data s (\<lambda>_. vread s) array_wr (of_nat (unat (dentry_inode d))) (of_nat 0) 0 (of_nat 4) junk_magic =
      do { d' \<leftarrow> store_bytes array_wr junk_magic 0 (take 4 (drop 0 (file_contents (geometry_of s) img (unat (dentry_inode d)))));
           Some (of_nat 4, d') }"
    by (intro arrimg.read_data_slice[OF refl refl io fo ok, where len = 4]) simp_all
  with pr jm array_store_all[of "[0x7F, 0x45, 0x4C, 0x46]" junk_magic] show ?thesis by simp
qed

lemma cstring_cong: "(\<And>a. rd s a = rd' s' a) \<Longrightarrow> cstring rd s p xs = cstring rd' s' p xs"
  unfolding cstring_def using load_bytes_cong[of "Suc (length xs)" rd s p rd' s' p] by presburger

lemma command_line:
  assumes "cstring (\<lambda>_. r) ub p cs" and "length cs < 1024" and "length ub = 1024"
  shows "strncpy (\<lambda>_. r) array_wr ub 0 p 1024 = Some (cs @ replicate (1024 - length cs) 0)"
proof -
  have u: "unat (1024 :: u32) = 1024" by simp
  have "strncpy (\<lambda>_. r) array_wr ub 0 p 1024 =
      store_bytes array_wr ub 0 (take (unat (1024 :: u32)) cs @ replicate (unat (1024 :: u32) - length cs) 0)"
    by (rule strncpy_store[OF assms(1)]) simp
  then show ?thesis using assms array_store_all[of "cs @ replicate (1024 - length cs) 0" ub] unfolding u by simp
qed

text \<open>Everything \<open>execute\<close> does to the process structures before it maps the new page.\<close>

lemma execute_setup:
  assumes wf: "files_wf s" and i: "i < 8" and a: "a = get_pcb (of_nat i)" and p: "p = process_array s ! sched_ix s"
    and cmd: "cstring (\<lambda>_. rd s) () command cs" "length cs < 1024"
    and stable: "\<And>t. phys t = phys s \<Longrightarrow> translate t = translate s \<Longrightarrow> rd t = rd s"
  shows "(do { let t = pcb_upd a (\<lambda>b. b\<lparr>parent_pid := cur_pid p\<rparr>) (s\<lparr>iflag := False\<rparr>);
       t \<leftarrow> slot_upd (\<lambda>q. q\<lparr>cur_pid := of_nat i\<rparr>) t;
       let t = pcb_upd a (\<lambda>b. b\<lparr>pcb_use := 1, vid_set := 0\<rparr>) t;
       let t = pcb_upd a (\<lambda>b. b\<lparr>parent_fd := cur_fd_ptr p\<rparr>) t;
       t \<leftarrow> slot_upd (\<lambda>q. q\<lparr>cur_fd_ptr := PcbFdt a\<rparr>) t;
       t \<leftarrow> init_fd t;
       let t = pcb_upd a (\<lambda>b. b\<lparr>screen_idx := ucast (schedule_index t)\<rparr>) t;
       ubuf \<leftarrow> strncpy (\<lambda>_. rd t) array_wr (user_buf (pcbs t a)) 0 command (of_nat USR_BUF_SIZE);
       Some (pcb_upd a (\<lambda>b. b\<lparr>user_buf := ubuf\<rparr>) t) }) =
     Some (s\<lparr>iflag := False,
       pcbs := (pcbs s)(a := (new_pcb i (cs @ replicate (1024 - length cs) 0) s)
         \<lparr>parent_esp0 := parent_esp0 (pcbs s a), parent_esp := parent_esp (pcbs s a), parent_ebp := parent_ebp (pcbs s a)\<rparr>),
       process_array := (process_array s)[sched_ix s := p\<lparr>cur_pid := of_nat i, cur_fd_ptr := PcbFdt a\<rparr>]\<rparr>)"
proof -
  have pw: "procs_wf s" using wf by (simp add: files_wf_def)
  have len: "length (process_array s) = 3" using pw by (simp add: procs_wf_def)
  then have ix: "sched_ix s < length (process_array s)" using pw ix_bounds(1)[of s] by (simp add: procs_wf_def)
  define b where "b = pcbs s a"
  define t1 where "t1 = s\<lparr>iflag := False, pcbs := (pcbs s)(a := b\<lparr>parent_pid := cur_pid p, pcb_use := 1, vid_set := 0, parent_fd := cur_fd_ptr p\<rparr>),
    process_array := (process_array s)[sched_ix s := p\<lparr>cur_pid := of_nat i, cur_fd_ptr := PcbFdt a\<rparr>]\<rparr>"
  have "console_wf t1 = console_wf s" unfolding t1_def by (intro console_wf_cong paging_wf_cong) simp_all
  then have t1w: "procs_wf t1" using pw by (auto simp: procs_wf_def t1_def b_def)
  have fp: "PcbFdt a = cur_fd_ptr (process_array t1 ! sched_ix t1)" using ix by (simp add: t1_def)
  note ini = init_fd_eq[OF t1w fp]
  define t2 where "t2 = put_fds (PcbFdt a) ([fd_stdio, fd_stdio] @ replicate 6 fd_free) t1"
  have tr: "translate t2 = translate s" unfolding t2_def t1_def put_fds_def pcb_upd_def by (rule translate_cong) simp_all
  define t3 where "t3 = pcb_upd a (\<lambda>b. b\<lparr>screen_idx := ucast (schedule_index t2)\<rparr>) t2"
  have tr3: "rd t3 = rd s"
    by (rule stable) (simp_all add: t3_def pcb_upd_def tr, simp add: t2_def put_fds_def pcb_upd_def t1_def)
  have ub: "length (user_buf (pcbs t3 a)) = 1024"
    using pw by (simp add: t3_def t2_def put_fds_def pcb_upd_def t1_def b_def procs_wf_def)
  have "cstring (\<lambda>_. rd s) (user_buf (pcbs t3 a)) command cs"
    using cmd(1) cstring_cong[of "\<lambda>_. rd s" "()" "\<lambda>_. rd s" "user_buf (pcbs t3 a)" command cs] by simp
  from command_line[OF this cmd(2) ub]
  have sc: "strncpy (\<lambda>_. rd t3) array_wr (user_buf (pcbs t3 a)) 0 command (of_nat USR_BUF_SIZE) =
      Some (cs @ replicate (1024 - length cs) 0)" by (simp add: tr3 USR_BUF_SIZE_def)
  have fin: "pcb_upd a (\<lambda>b. b\<lparr>user_buf := cs @ replicate (1024 - length cs) 0\<rparr>) t3 =
    s\<lparr>iflag := False,
       pcbs := (pcbs s)(a := (new_pcb i (cs @ replicate (1024 - length cs) 0) s)
         \<lparr>parent_esp0 := parent_esp0 (pcbs s a), parent_esp := parent_esp (pcbs s a), parent_ebp := parent_ebp (pcbs s a)\<rparr>),
       process_array := (process_array s)[sched_ix s := p\<lparr>cur_pid := of_nat i, cur_fd_ptr := PcbFdt a\<rparr>]\<rparr>"
    by (cases b) (simp add: t3_def t2_def put_fds_def pcb_upd_def t1_def new_pcb_def Let_def p[symmetric] b_def[symmetric])
  define ta where "ta = s\<lparr>iflag := False, pcbs := (pcbs s)(a := b\<lparr>parent_pid := cur_pid p\<rparr>),
    process_array := (process_array s)[sched_ix s := p\<lparr>cur_pid := of_nat i\<rparr>]\<rparr>"
  have e1: "slot_upd (\<lambda>q. q\<lparr>cur_pid := of_nat i\<rparr>) (pcb_upd a (\<lambda>b. b\<lparr>parent_pid := cur_pid p\<rparr>) (s\<lparr>iflag := False\<rparr>)) = Some ta"
    using ix by (simp add: slot_upd_def cur_slot_def pcb_upd_def p[symmetric] b_def[symmetric] ta_def)
  have e2: "slot_upd (\<lambda>q. q\<lparr>cur_fd_ptr := PcbFdt a\<rparr>) (pcb_upd a (\<lambda>b. b\<lparr>parent_fd := cur_fd_ptr p\<rparr>)
      (pcb_upd a (\<lambda>b. b\<lparr>pcb_use := 1, vid_set := 0\<rparr>) ta)) = Some t1"
    using ix by (simp add: slot_upd_def cur_slot_def pcb_upd_def ta_def t1_def)
  show ?thesis
    by (simp only: Let_def e1 e2 Option.bind.simps ini t2_def[symmetric] t3_def[symmetric] sc fin)
qed

lemma execute_step:
  assumes wf: "files_wf s" and bi: "boot_image s img ds"
    and cmd: "cstring (\<lambda>_. rd s) () command cs" "length cs < 1024" "length (takeWhile word_char cs) < 128"
    and stable: "\<And>t. phys t = phys s \<Longrightarrow> translate t = translate s \<Longrightarrow> rd t = rd s"
    and ex: "executable s img ds (takeWhile word_char cs) d prog"
    and free: "find (pcb_free s) [0..<8] = Some i" and jd: "length junk_dent = 64" and jm: "length junk_magic = 4"
  shows "\<exists>m. execute rd junk_dent junk_magic command s = Some (EnteredUser (entry_point prog) STACK_POINTER,
      (started i (cs @ replicate (1024 - length cs) 0) s)\<lparr>phys := m\<rparr>) \<and>
    load_bytes vread ((started i (cs @ replicate (1024 - length cs) 0) s)\<lparr>phys := m\<rparr>) TARGET_MEM (length prog) = Some prog \<and>
    (\<forall>q. unat q div 0x400000 \<noteq> i + 2 \<longrightarrow> m q = phys s q)"
proof -
  let ?ub = "cs @ replicate (1024 - length cs) 0" and ?w = "takeWhile word_char cs"
  let ?s0 = "s\<lparr>iflag := False\<rparr>" and ?fn = "?w @ replicate (128 - length ?w) 0"
  define a where "a = get_pcb (of_nat i)"
  define p where "p = process_array s ! sched_ix s"
  have pw: "procs_wf s" using wf by (simp add: files_wf_def)
  have i: "i < 8" using free by (auto simp: find_Some_iff nth_upt simp del: upt_Suc upt_rec_numeral)
  have tr0: "translate ?s0 = translate s" by (rule translate_cong) simp_all
  have rd0: "rd ?s0 = rd s" by (rule stable) (simp_all add: tr0)
  have bi0: "boot_image ?s0 img ds" by (rule boot_image_cong[OF _ tr0 _ _ _ _ bi]) simp_all
  have ex0: "executable ?s0 img ds ?w d prog" using ex executable_cong[of ?s0 s] by (simp add: geometry_of_def)
  have str: "cstring rd ?s0 command cs"
    using cmd(1) cstring_cong[of "\<lambda>_. rd s" "()" rd ?s0 command cs] rd0 by simp
  have cn: "command_name rd ?s0 command = Some ?fn" by (rule command_name_word[OF str cmd(3)]) (use cmd(2) in simp)
  have "0 \<notin> set ?w" using cmd(1) by (auto simp: cstring_def dest: set_takeWhileD)
  from word_reads[OF this cmd(3)]
  have lk: "read_dentry_by_name ?s0 (array_rd ?fn) (Some junk_dent) = Some (0, Some d)"
    using dentry_by_name[of ?s0 ds "array_rd ?fn" ?w junk_dent] bi0 ex0 jd by (simp add: boot_image_def executable_def)
  note mg = magic_read[OF bi0 ex0 jm]
  have av: "get_avail_pcb ?s0 = of_nat i" using find_pcb_spec[of 0 8 ?s0] free by (simp add: get_avail_pcb_def)
  have slot: "cur_slot ?s0 = Some p" using cur_slot_eq[OF pw] by (simp add: cur_slot_def p_def)
  note su = execute_setup[of s i a p rd command cs, OF wf i a_def p_def cmd(1,2) stable]
  define t where "t = s\<lparr>iflag := False,
       pcbs := (pcbs s)(a := (new_pcb i ?ub s)
         \<lparr>parent_esp0 := parent_esp0 (pcbs s a), parent_esp := parent_esp (pcbs s a), parent_ebp := parent_ebp (pcbs s a)\<rparr>),
       process_array := (process_array s)[sched_ix s := p\<lparr>cur_pid := of_nat i, cur_fd_ptr := PcbFdt a\<rparr>]\<rparr>"
  obtain t1 t2 t3 ubuf where
    w1: "slot_upd (\<lambda>q. q\<lparr>cur_pid := of_nat i\<rparr>) (pcb_upd a (\<lambda>b. b\<lparr>parent_pid := cur_pid p\<rparr>) ?s0) = Some t1"
    and w2: "slot_upd (\<lambda>q. q\<lparr>cur_fd_ptr := PcbFdt a\<rparr>) (pcb_upd a (\<lambda>b. b\<lparr>parent_fd := cur_fd_ptr p\<rparr>)
        (pcb_upd a (\<lambda>b. b\<lparr>pcb_use := 1, vid_set := 0\<rparr>) t1)) = Some t2"
    and w3: "init_fd t2 = Some t3"
    and w4: "strncpy (\<lambda>_. rd (pcb_upd a (\<lambda>b. b\<lparr>screen_idx := ucast (schedule_index t3)\<rparr>) t3)) array_wr
        (user_buf (pcbs (pcb_upd a (\<lambda>b. b\<lparr>screen_idx := ucast (schedule_index t3)\<rparr>) t3) a)) 0 command
        (of_nat USR_BUF_SIZE) = Some ubuf"
    and w5: "pcb_upd a (\<lambda>b. b\<lparr>user_buf := ubuf\<rparr>) (pcb_upd a (\<lambda>b. b\<lparr>screen_idx := ucast (schedule_index t3)\<rparr>) t3) = t"
    using su unfolding t_def[symmetric] by (auto simp: bind_Some_iff Let_def)
  define u where "u = (pcb_upd a (\<lambda>b. b\<lparr>parent_esp0 := tss_esp0 t\<rparr>) (map_page_exec (of_nat i) t))
    \<lparr>tss_esp0 := get_esp0 (of_nat i)\<rparr>"
  have "paging_wf t = paging_wf s" unfolding t_def by (rule paging_wf_cong) simp_all
  then have "paging_wf (map_page_exec (of_nat i) t)" using files_paging[OF wf] by (simp add: map_page_exec_wf)
  moreover have "paging_wf u = paging_wf (map_page_exec (of_nat i) t)"
    unfolding u_def pcb_upd_def by (rule paging_wf_cong) simp_all
  ultimately have pu: "paging_wf u" by simp
  have eu: "pdt u EXEC = START_ADDRESS + FOURMB * of_nat i" by (simp add: u_def pcb_upd_def)
  have fu: "FILEMEM u = FILEMEM s" "fs_inodes u = fs_inodes s" "fs_dblocks u = fs_dblocks s" "phys u = phys s"
    by (simp_all add: u_def pcb_upd_def t_def map_page_exec_def set_pdt_def load_cr3_def)
  have iu: "fs_image u img"
    by (rule fs_image_transfer[OF _ files_paging[OF wf] pu]) (use bi fu in \<open>simp_all add: boot_image_def\<close>)
  have "geometry_of u = geometry_of s" by (simp add: geometry_of_def fu)
  then have xu: "executable u img ds ?w d prog" using ex executable_cong[of u s] by simp
  obtain m where m: "load32 vread u (inode_addr u (dentry_inode d)) = Some (of_nat (length prog))"
    "read_data u vread vwrite (dentry_inode d) 0 TARGET_MEM (of_nat (length prog)) u = Some (of_nat (length prog), u\<lparr>phys := m\<rparr>)"
    "load_bytes vread (u\<lparr>phys := m\<rparr>) TARGET_MEM (length prog) = Some prog"
    "load32 vread (u\<lparr>phys := m\<rparr>) ENTRY_MEM = Some (entry_point prog)"
    "\<forall>p. unat p div 0x400000 \<noteq> i + 2 \<longrightarrow> m p = phys u p"
    using load_program[OF pu eu i iu xu] by blast
  let ?v = "(pcb_upd a (\<lambda>b. b\<lparr>parent_esp := esp (u\<lparr>phys := m\<rparr>), parent_ebp := ebp (u\<lparr>phys := m\<rparr>)\<rparr>) (u\<lparr>phys := m\<rparr>))\<lparr>iflag := True\<rparr>"
  have v: "?v = (started i ?ub s)\<lparr>phys := m\<rparr>"
    by (simp add: u_def t_def started_def pcb_upd_def map_page_exec_def set_pdt_def load_cr3_def new_pcb_def Let_def a_def p_def)
  have *: "execute rd junk_dent junk_magic command s = Some (EnteredUser (entry_point prog) STACK_POINTER, ?v)"
    using cn lk mg av slot m(1,2,4) small_not_minus1[OF i] w1 w2 w3 w4
    by (simp add: execute_def cli_def Let_def a_def[symmetric] w5 u_def[symmetric])
  have "load_bytes vread ?v TARGET_MEM (length prog) = load_bytes vread (u\<lparr>phys := m\<rparr>) TARGET_MEM (length prog)"
  proof (rule load_bytes_cong)
    have "translate ?v = translate (u\<lparr>phys := m\<rparr>)" unfolding pcb_upd_def by (rule translate_cong) simp_all
    then show "vread ?v (TARGET_MEM + of_nat k) = vread (u\<lparr>phys := m\<rparr>) (TARGET_MEM + of_nat k)" for k
      by (simp add: vread_def pcb_upd_def)
  qed
  with * m(3,5) fu(4) show ?thesis unfolding v by (intro exI[of _ m]) simp
qed


lemma vread_stable: "phys t = phys s \<Longrightarrow> translate t = translate s \<Longrightarrow> vread t = vread s"
  by (rule ext) (simp add: vread_def)

text \<open>
  C7: \<open>execute\<close> starts the program.  When the first word of the command names an executable in the
  directory, its contents fit the process page and a process block is free, \<open>execute\<close> enters user
  mode at the entry point the file gives in bytes 24 to 27, with the program's bytes at
  \<open>0x08048000\<close> and the user stack below \<open>0x08400000\<close>.  The new process is the first free block,
  with the caller as parent, its own fresh descriptors, the whole command line, its own kernel
  stack and page; no byte outside that 4MB page and no other process block changes.
\<close>

theorem execute_starts_program:
  assumes "files_wf s" and "boot_image s img ds" and "cstring vread s command cs" and "length cs < 1024"
    and "length (takeWhile word_char cs) < 128" and "executable s img ds (takeWhile word_char cs) d prog"
    and "find (pcb_free s) [0..<8] = Some i" and "length junk_dent = 64" and "length junk_magic = 4"
  shows "\<exists>m. execute vread junk_dent junk_magic command s = Some (EnteredUser (entry_point prog) 0x083FFFFC,
      (started i (cs @ replicate (1024 - length cs) 0) s)\<lparr>phys := m\<rparr>) \<and>
    load_bytes vread ((started i (cs @ replicate (1024 - length cs) 0) s)\<lparr>phys := m\<rparr>) 0x08048000 (length prog) = Some prog \<and>
    (\<forall>q. unat q div 0x400000 \<noteq> i + 2 \<longrightarrow> m q = phys s q)"
proof -
  have "cstring (\<lambda>_. vread s) () command cs"
    using assms(3) cstring_cong[of "\<lambda>_. vread s" "()" vread s command cs] by simp
  from execute_step[of s img ds vread, OF assms(1,2) this assms(4,5) vread_stable assms(6-9)]
  show ?thesis unfolding STACK_POINTER_def TARGET_MEM_def by blast
qed

lemma execute_fails:
  assumes "files_wf s" and "boot_image s img ds" and "cstring (\<lambda>_. rd s) () command cs" and "length cs < 1024"
    and "length (takeWhile word_char cs) < 128" and "length junk_dent = 64" and "length junk_magic = 4"
    and "find (\<lambda>d. dentry_name d = takeWhile word_char cs) ds = None \<or>
      executable s img ds (takeWhile word_char cs) d prog \<and> find (pcb_free s) [0..<8] = None"
    and stable: "\<And>t. phys t = phys s \<Longrightarrow> translate t = translate s \<Longrightarrow> rd t = rd s"
  shows "execute rd junk_dent junk_magic command s = Some (Returned (-1), s\<lparr>iflag := False\<rparr>)"
proof -
  let ?w = "takeWhile word_char cs" and ?s0 = "s\<lparr>iflag := False\<rparr>"
  let ?fn = "?w @ replicate (128 - length ?w) 0"
  have tr0: "translate ?s0 = translate s" by (rule translate_cong) simp_all
  have v0: "rd ?s0 = rd s" by (rule stable) (simp_all add: tr0)
  have bi0: "boot_image ?s0 img ds" by (rule boot_image_cong[OF _ tr0 _ _ _ _ assms(2)]) simp_all
  have "cstring rd ?s0 command cs" using assms(3) cstring_cong[of "\<lambda>_. rd s" "()" rd ?s0 command cs] v0 by simp
  then have cn: "command_name rd ?s0 command = Some ?fn" by (rule command_name_word[OF _ assms(5)]) (use assms(4) in simp)
  have "0 \<notin> set ?w" using assms(3) by (auto simp: cstring_def dest: set_takeWhileD)
  from dentry_by_name[OF _ word_reads[OF this assms(5)] assms(6), of ?s0 ds]
  have lk: "read_dentry_by_name ?s0 (array_rd ?fn) (Some junk_dent) =
      Some (case find (\<lambda>d. dentry_name d = ?w) ds of None \<Rightarrow> (-1, Some junk_dent) | Some d \<Rightarrow> (0, Some d))"
    using bi0 by (simp add: boot_image_def)
  from assms(8) show ?thesis
  proof
    assume "find (\<lambda>d. dentry_name d = ?w) ds = None"
    with cn lk show ?thesis by (simp add: execute_def cli_def)
  next
    assume e: "executable s img ds ?w d prog \<and> find (pcb_free s) [0..<8] = None"
    then have "executable ?s0 img ds ?w d prog" using executable_cong[of ?s0 s] by (simp add: geometry_of_def)
    note mg = magic_read[OF bi0 this assms(7)]
    have "get_avail_pcb ?s0 = -1" using find_pcb_spec[of 0 8 ?s0] e by (simp add: get_avail_pcb_def)
    with cn lk mg e show ?thesis by (simp add: execute_def cli_def executable_def)
  qed
qed

text \<open>
  C28: When \<open>execute\<close> fails: for a name that is not in the directory, and for an executable when all
  eight process blocks are in use, it returns \<open>-1\<close> and the kernel state is as before, except that
  interrupts stay disabled.
\<close>

theorem execute_fails_cleanly:
  assumes "files_wf s" and "boot_image s img ds" and "cstring vread s command cs" and "length cs < 1024"
    and "length (takeWhile word_char cs) < 128" and "length junk_dent = 64" and "length junk_magic = 4"
    and "find (\<lambda>d. dentry_name d = takeWhile word_char cs) ds = None \<or>
      executable s img ds (takeWhile word_char cs) d prog \<and> find (pcb_free s) [0..<8] = None"
  shows "execute vread junk_dent junk_magic command s = Some (Returned (-1), s\<lparr>iflag := False\<rparr>)"
proof -
  have "cstring (\<lambda>_. vread s) () command cs"
    using assms(3) cstring_cong[of "\<lambda>_. vread s" "()" vread s command cs] by simp
  from execute_fails[of s img ds vread, OF assms(1,2) this assms(4-8) vread_stable] show ?thesis .
qed

section \<open>The round trip through a child\<close>

lemma started_wf:
  assumes wf: "files_wf s" and ub: "length ub = 1024"
  shows "files_wf ((started i ub s)\<lparr>phys := m\<rparr>)"
proof -
  let ?t = "(started i ub s)\<lparr>phys := m\<rparr>"
  have "paging_wf (map_page_exec (of_nat i) s)" using files_paging[OF wf] by (rule map_page_exec_wf)
  moreover have "paging_wf ?t = paging_wf (map_page_exec (of_nat i) s)"
    by (rule paging_wf_cong) (simp_all add: started_def Let_def map_page_exec_def set_pdt_def load_cr3_def)
  ultimately have pw: "paging_wf ?t" by simp
  then have "console_wf ?t" using wf by (simp add: files_wf_def procs_wf_def console_wf_def started_def Let_def)
  moreover have "\<forall>q. \<forall>d\<in>set (fds_at ?t q). fd_valid d"
  proof
    fix q show "\<forall>d\<in>set (fds_at ?t q). fd_valid d"
    proof (cases "q = PcbFdt (get_pcb (of_nat i))")
      case True
      then show ?thesis by (auto simp: fds_at_def started_def Let_def new_pcb_def fd_valid_def fd_stdio_def fd_free_def)
    next
      case False
      then have "fds_at ?t q = fds_at s q" by (auto simp: fds_at_def started_def Let_def split: fd_ptr.split)
      with wf show ?thesis by (simp add: files_wf_def)
    qed
  qed
  ultimately show ?thesis
    using wf ub by (auto simp: files_wf_def procs_wf_def started_def Let_def new_pcb_def)
qed

lemma pcb_fd_same: "(b :: pcb_t) = c\<lparr>fd_table := fd_table b\<rparr> \<Longrightarrow> fd_table b = fd_table c \<Longrightarrow> b = c"
  by (cases c) (metis pcb_t.surjective pcb_t.update_convs(7))

lemma started_halt:
  assumes wf: "files_wf s" and ub: "length ub = 1024"
  shows "\<exists>s'. halt status ((started i ub s)\<lparr>phys := m\<rparr>) = Some (scast status, s') \<and>
    process_array s' = process_array s \<and> schedule_index s' = schedule_index s \<and> visible_screen s' = visible_screen s \<and>
    esp s' = esp s \<and> ebp s' = ebp s \<and> tss_esp0 s' = tss_esp0 s \<and> iflag s' \<and> phys s' = m \<and>
    pdt s' EXEC = START_ADDRESS + FOURMB * cur_pid (process_array s ! sched_ix s) \<and>
    pcb_free s' i \<and> (\<forall>x. x \<noteq> get_pcb (of_nat i) \<longrightarrow> pcbs s' x = pcbs s x) \<and>
    kernel_fdt s' = kernel_fdt s \<and> files_wf s'"
proof -
  let ?t = "(started i ub s)\<lparr>phys := m\<rparr>" and ?a = "get_pcb (of_nat i)"
  obtain s' where h: "halt status ?t = Some (scast status, s')" "back_to_parent ?t s'" "files_wf s'"
    using halt_step[OF started_wf[OF wf ub]] by blast
  have ix: "sched_ix s < length (process_array s)" using wf ix_bounds(1)[of s] by (simp add: files_wf_def procs_wf_def)
  have sl: "process_array ?t ! sched_ix ?t = (process_array s ! sched_ix s)\<lparr>cur_pid := of_nat i, cur_fd_ptr := PcbFdt ?a\<rparr>"
    using ix by (simp add: started_def Let_def)
  note bp = h(2)[unfolded back_to_parent_def Let_def sl, simplified]
  have oth: "fds_at s' q = fds_at ?t q" if "q \<noteq> PcbFdt ?a" for q using bp that by simp
  have "pcbs s' x = pcbs s x" if x: "x \<noteq> ?a" for x
  proof (rule pcb_fd_same)
    have "pcbs ?t x = pcbs s x" using x by (simp add: started_def Let_def)
    moreover have "pcbs s' x = (pcbs ?t x)\<lparr>fd_table := fd_table (pcbs s' x)\<rparr>" using bp x by simp
    ultimately show "pcbs s' x = (pcbs s x)\<lparr>fd_table := fd_table (pcbs s' x)\<rparr>" by simp
    show "fd_table (pcbs s' x) = fd_table (pcbs s x)"
      using oth[of "PcbFdt x"] x by (simp add: fds_at_def started_def Let_def)
  qed
  moreover have "kernel_fdt s' = kernel_fdt s" using oth[of KernelFdt] by (simp add: fds_at_def started_def Let_def)
  moreover have "process_array s' = process_array s"
    using bp ix by (simp add: started_def Let_def new_pcb_def)
  ultimately show ?thesis
    using h(1,3) bp by (intro exI[of _ s']) (simp add: started_def Let_def new_pcb_def)
qed


text \<open>
  C2: The round trip through a child process: whatever the program does to memory, and whatever status it
  halts with, \<open>execute\<close> returns that status (sign extended) in the caller with the process table,
  all control blocks but the child's, the stack registers, \<open>tss.esp0\<close> and the kernel's descriptors
  exactly as they were before the call, with the caller's page mapped and the child's block free again.
\<close>

theorem execute_halt_roundtrip:
  assumes "files_wf s" and "boot_image s img ds" and "cstring vread s command cs" and "length cs < 1024"
    and "length (takeWhile word_char cs) < 128" and "executable s img ds (takeWhile word_char cs) d prog"
    and "find (pcb_free s) [0..<8] = Some i" and "length junk_dent = 64" and "length junk_magic = 4"
  shows "\<exists>t. execute vread junk_dent junk_magic command s = Some (EnteredUser (entry_point prog) 0x083FFFFC, t) \<and>
    (\<exists>s'. halt status (t\<lparr>phys := m\<rparr>) = Some (scast status, s') \<and>
      process_array s' = process_array s \<and> schedule_index s' = schedule_index s \<and> visible_screen s' = visible_screen s \<and>
      esp s' = esp s \<and> ebp s' = ebp s \<and> tss_esp0 s' = tss_esp0 s \<and> iflag s' \<and> phys s' = m \<and>
      pdt s' EXEC = START_ADDRESS + FOURMB * cur_pid (process_array s ! sched_ix s) \<and>
      pcb_free s' i \<and> (\<forall>x. x \<noteq> get_pcb (of_nat i) \<longrightarrow> pcbs s' x = pcbs s x) \<and>
      kernel_fdt s' = kernel_fdt s \<and> files_wf s')"
proof -
  have "cstring (\<lambda>_. vread s) () command cs"
    using assms(3) cstring_cong[of "\<lambda>_. vread s" "()" vread s command cs] by simp
  from execute_step[of s img ds vread, OF assms(1,2) this assms(4,5) vread_stable assms(6-9)]
  obtain m' where x: "execute vread junk_dent junk_magic command s = Some (EnteredUser (entry_point prog) 0x083FFFFC,
      (started i (cs @ replicate (1024 - length cs) 0) s)\<lparr>phys := m'\<rparr>)"
    unfolding STACK_POINTER_def by blast
  have "length (cs @ replicate (1024 - length cs) 0) = 1024" using assms(4) by simp
  from started_halt[OF assms(1) this, where status = status and i = i and m = m] x show ?thesis
    by (intro exI[of _ "(started i (cs @ replicate (1024 - length cs) 0) s)\<lparr>phys := m'\<rparr>"]) simp
qed

section \<open>Arguments\<close>

text \<open>What follows the command word and the blanks behind it.\<close>

definition arg_text :: "u8 list \<Rightarrow> u8 list" where
  "arg_text cs = dropWhile (\<lambda>c. c = 32) (dropWhile (\<lambda>c. c \<noteq> 32) cs)"

lemma arg_start_blanks:
  assumes ub: "ub = xs @ replicate k 32 @ ys @ [0] @ zs" and ys: "ys = [] \<or> hd ys \<noteq> 32" and k: "0 < k"
  shows "i + n = length xs + k + length ys \<Longrightarrow> length xs \<le> i \<Longrightarrow> i < length xs + k \<Longrightarrow>
    arg_start ub i n = Some (length xs + k)"
proof (induction n arbitrary: i)
  case 0
  then show ?case by simp
next
  case (Suc n)
  have "i - length xs < k" using Suc.prems by arith
  then have c: "ub ! i = 32" "i < length ub" using Suc.prems by (simp_all add: ub nth_append)
  show ?case
  proof (cases "Suc i = length xs + k")
    case True
    then have "ub ! Suc i \<noteq> 32" "Suc i < length ub" using ys by (auto simp: ub nth_append hd_conv_nth)
    with c True show ?thesis by simp
  next
    case False
    then have "Suc i - length xs < k" using Suc.prems by arith
    then have "ub ! Suc i = 32" "Suc i < length ub" using Suc.prems by (simp_all add: ub nth_append)
    with c False Suc.IH[of "Suc i"] Suc.prems show ?thesis by simp
  qed
qed

lemma arg_start_word:
  assumes ub: "ub = xs @ zs" and xs: "32 \<notin> set xs" and n: "length xs \<le> n"
  shows "i \<le> length xs \<Longrightarrow> arg_start ub i (n - i) = arg_start ub (length xs) (n - length xs)"
proof (induction "length xs - i" arbitrary: i)
  case 0
  then show ?case by simp
next
  case (Suc m)
  then have i: "i < length xs" by simp
  then have "xs ! i \<noteq> 32" using xs nth_mem[OF i] by metis
  then have "n - i = Suc (n - Suc i)" "ub ! i \<noteq> 32" "i < length ub" using i n by (simp_all add: ub nth_append Suc_diff_Suc)
  with Suc show ?case by simp
qed

lemma arg_copy_text:
  assumes ub: "\<And>j. j < length ys \<Longrightarrow> ub ! (i0 + j) = ys ! j" "ub ! (i0 + length ys) = 0" "i0 + length ys < length ub"
    and ys: "0 \<notin> set ys" "length ys \<le> 1024"
  shows "j + m = length ys \<Longrightarrow> m \<le> n \<Longrightarrow>
    arg_copy ub (i0 + j) j n (take j ys @ replicate (1024 - j) 0) = Some (ys @ replicate (1024 - length ys) 0)"
proof (induction m arbitrary: j n)
  case 0
  then show ?case using ub by (cases n) simp_all
next
  case (Suc m)
  then obtain n' where n: "n = Suc n'" by (cases n) auto
  have j: "j < length ys" using Suc.prems by simp
  have "ys ! j \<noteq> 0" using ys(1) nth_mem[OF j] by metis
  then have c: "ub ! (i0 + j) = ys ! j" "ys ! j \<noteq> 0" "i0 + j < length ub" using ub(1)[OF j] ub(3) j by simp_all
  have r: "replicate (1024 - j) 0 = 0 # replicate (1024 - Suc j) (0 :: u8)"
    using j ys(2) by (metis Suc_diff_Suc less_le_trans replicate_Suc)
  have l: "length (take j ys) = j" using j by simp
  have "(take j ys @ replicate (1024 - j) 0)[j := ys ! j] = take (Suc j) ys @ replicate (1024 - Suc j) (0 :: u8)"
    using l j by (simp add: r list_update_append take_Suc_conv_app_nth)
  with c Suc.IH[of "Suc j" n'] Suc.prems j ys(2) l show ?case by (simp add: n)
qed

lemma store_offset: "store_bytes (\<lambda>s a. wr s (b + a)) s x bs = store_bytes wr s (b + x) bs"
  by (induction bs arbitrary: s x) (simp_all add: add.assoc)


lemma arg_split:
  obtains xs k where "cs = xs @ replicate k 32 @ arg_text cs" "32 \<notin> set xs" "k = 0 \<longrightarrow> arg_text cs = []"
proof -
  let ?xs = "takeWhile (\<lambda>c. c \<noteq> 32) cs" and ?r = "dropWhile (\<lambda>c. c \<noteq> 32) cs"
  let ?bl = "takeWhile (\<lambda>c. c = 32) ?r"
  have bl: "?bl = replicate (length ?bl) 32"
    by (rule replicate_length_same[symmetric]) (auto dest: set_takeWhileD)
  have "cs = ?xs @ ?bl @ arg_text cs" by (simp add: arg_text_def)
  then have 1: "cs = ?xs @ replicate (length ?bl) 32 @ arg_text cs" by (simp only: bl[symmetric])
  have "32 \<notin> set ?xs" by (auto dest: set_takeWhileD)
  moreover have "length ?bl = 0 \<longrightarrow> arg_text cs = []"
  proof (cases ?r)
    case (Cons c r)
    then have "c = 32" using hd_dropWhile[of "\<lambda>c. c \<noteq> 32" cs] by simp
    with Cons show ?thesis by simp
  next
    case Nil
    show ?thesis unfolding arg_text_def Nil by simp
  qed
  ultimately show thesis using that[of ?xs "length ?bl"] 1 by blast
qed

lemma arg_text_hd: "arg_text cs = [] \<or> hd (arg_text cs) \<noteq> 32"
  using hd_dropWhile[of "\<lambda>c. c = 32" "dropWhile (\<lambda>c. c \<noteq> 32) cs"] by (auto simp: arg_text_def)

text \<open>Both loops of \<open>getargs\<close> together retrieve the argument text.\<close>

lemma arg_loops:
  assumes ub: "ub = cs @ replicate (1024 - length cs) 0" and cs: "0 \<notin> set cs" "length cs < 1024"
  shows "\<exists>i. arg_start ub 0 (length cs) = Some i \<and>
    arg_copy ub i 0 (length cs) (replicate 1024 0) = Some (arg_text cs @ replicate (1024 - length (arg_text cs)) 0)"
proof -
  obtain xs k where s: "cs = xs @ replicate k 32 @ arg_text cs" "32 \<notin> set xs" "k = 0 \<longrightarrow> arg_text cs = []" by (rule arg_split)
  let ?y = "arg_text cs" and ?i = "length xs + k"
  have lc: "length cs = ?i + length ?y" using arg_cong[OF s(1), of length] by simp
  have z: "replicate (1024 - length cs) 0 = [0] @ replicate (1023 - length cs) (0 :: u8)"
  proof -
    have "1024 - length cs = Suc (1023 - length cs)" using cs(2) by arith
    then show ?thesis by simp
  qed
  have u: "ub = xs @ replicate k 32 @ ?y @ [0] @ replicate (1023 - length cs) 0" unfolding ub z by (subst s(1)) simp
  have "arg_start ub 0 (length cs) = arg_start ub (length xs) (length cs - length xs)"
    using arg_start_word[of ub xs "replicate k 32 @ ?y @ [0] @ replicate (1023 - length cs) 0" "length cs" 0] u s(2) lc by simp
  also have "\<dots> = Some ?i"
  proof (cases "k = 0")
    case True
    then show ?thesis using s(3) lc by simp
  next
    case False
    then show ?thesis
      using arg_start_blanks[OF u arg_text_hd, of "length xs" "length cs - length xs"] lc by simp
  qed
  finally have st: "arg_start ub 0 (length cs) = Some ?i" .
  have "0 \<notin> set ?y" using cs(1) by (subst (asm) s(1)) simp
  then have "arg_copy ub (?i + 0) 0 (length cs) (take 0 ?y @ replicate (1024 - 0) 0) = Some (?y @ replicate (1024 - length ?y) 0)"
    by (intro arg_copy_text[where m = "length ?y"]) (use lc cs(2) in \<open>simp_all add: u nth_append\<close>)
  with st show ?thesis by auto
qed


lemma padded_cstring:
  "0 \<notin> set xs \<Longrightarrow> length xs < 1024 \<Longrightarrow> cstring (\<lambda>_. array_rd (xs @ replicate (1024 - length xs) 0)) z 0 xs"
  unfolding cstring_def
  by (intro conjI load_bytes_SomeI)
    (auto simp: array_rd_def unat_of_nat take_bit_nat_eq_self nth_append less_Suc_eq)

lemma getargs_step:
  assumes wf: "files_wf s" and a: "a = get_pcb (cur_pid (process_array s ! sched_ix s))"
    and ub: "user_buf (pcbs s a) = cs @ replicate (1024 - length cs) 0" and cs: "0 \<notin> set cs" "length cs < 1024"
  shows "getargs buf nbytes s =
    (if buf = 0 \<or> nbytes = 0 then Some (-1, s\<lparr>arg_retrieved := replicate 1024 0\<rparr>)
     else if arg_text cs = [] then Some (-1, s\<lparr>arg_retrieved := replicate 1024 0\<rparr>)
     else do { s' \<leftarrow> store_bytes vwrite (s\<lparr>arg_retrieved := arg_text cs @ replicate (1024 - length (arg_text cs)) 0\<rparr>) buf
                 (take (unat nbytes) (arg_text cs) @ replicate (unat nbytes - length (arg_text cs)) 0);
               Some (0, s') })"
proof -
  let ?ub = "cs @ replicate (1024 - length cs) 0" and ?y = "arg_text cs"
  let ?ar = "?y @ replicate (1024 - length ?y) 0"
  let ?s1 = "s\<lparr>arg_retrieved := replicate 1024 0\<rparr>"
  have pw: "procs_wf s" using wf by (simp add: files_wf_def)
  have slot: "cur_slot ?s1 = Some (process_array s ! sched_ix s)" using cur_slot_eq[OF pw] by (simp add: cur_slot_def)
  note rds = padded_cstring
  have sl: "strlen array_rd ?ub 0 = Some (of_nat (length cs))"
    using rds[OF cs, of "()"] cstring_cong[of "\<lambda>_. array_rd ?ub" "()" array_rd ?ub 0 cs] strlen_cstring[of array_rd ?ub 0 cs] by simp
  have u: "unat (of_nat (length cs) :: u32) = length cs" using cs(2) by (simp add: unat_of_nat take_bit_nat_eq_self)
  have nul: "arr_set ?ub (length cs) 0 = Some ?ub"
  proof -
    have "1024 - length cs = Suc (1023 - length cs)" using cs(2) by arith
    then show ?thesis using cs(2) by (simp add: list_update_append)
  qed
  have b: "(pcbs s a)\<lparr>user_buf := ?ub\<rparr> = pcbs s a" using ub by (cases "pcbs s a") simp
  then have same: "pcb_upd a (\<lambda>b. b\<lparr>user_buf := ?ub\<rparr>) ?s1 = ?s1" by (simp add: pcb_upd_def)
  obtain i where i: "arg_start ?ub 0 (length cs) = Some i" "arg_copy ?ub i 0 (length cs) (replicate 1024 0) = Some ?ar"
    using arg_loops[OF refl cs] by blast
  have y: "0 \<notin> set ?y" "length ?y < 1024"
  proof -
    show "0 \<notin> set ?y" using cs(1) unfolding arg_text_def by (metis set_dropWhileD)
    have "length ?y \<le> length cs" unfolding arg_text_def using length_dropWhile_le order_trans by blast
    then show "length ?y < 1024" using cs(2) by simp
  qed
  have c0: "arr_get ?ar 0 = Some (if ?y = [] then 0 else hd ?y)" "?y \<noteq> [] \<Longrightarrow> hd ?y \<noteq> 0"
    using y by (cases ?y; auto)+
  have "strncpy (\<lambda>_. array_rd ?ar) (\<lambda>s a. vwrite s (buf + a)) (s\<lparr>arg_retrieved := ?ar\<rparr>) 0 0 nbytes =
      store_bytes (\<lambda>s a. vwrite s (buf + a)) (s\<lparr>arg_retrieved := ?ar\<rparr>) 0 (take (unat nbytes) ?y @ replicate (unat nbytes - length ?y) 0)"
    by (rule strncpy_store[OF rds[OF y]]) simp
  then have sc: "strncpy (\<lambda>_. array_rd ?ar) (\<lambda>s a. vwrite s (buf + a)) (s\<lparr>arg_retrieved := ?ar\<rparr>) 0 0 nbytes =
      store_bytes vwrite (s\<lparr>arg_retrieved := ?ar\<rparr>) buf (take (unat nbytes) ?y @ replicate (unat nbytes - length ?y) 0)"
    by (simp add: store_offset)
  have "?y = [] \<Longrightarrow> ?ar = replicate 1024 0" by simp
  then show ?thesis
    using slot ub sl u nul same i c0 sc
    by (simp add: getargs_def USR_BUF_SIZE_def a[symmetric])
qed

text \<open>
  \<open>getargs\<close> delivers the arguments.  For a process started with the command line \<open>cs\<close> it stores
  the text behind the command word and its blanks at \<open>buf\<close>, cut or padded with NULs to \<open>nbytes\<close>,
  and returns 0; with no argument text, a null buffer or a zero count it returns \<open>-1\<close> and stores
  nothing at \<open>buf\<close>.
\<close>

theorem getargs_delivers:
  assumes wf: "files_wf s" and a: "a = get_pcb (cur_pid (process_array s ! sched_ix s))"
    and ub: "user_buf (pcbs s a) = cs @ replicate (1024 - length cs) 0" and cs: "0 \<notin> set cs" "length cs < 1024"
  shows "getargs buf nbytes s =
    (if buf = 0 \<or> nbytes = 0 then Some (-1, s\<lparr>arg_retrieved := replicate 1024 0\<rparr>)
     else if arg_text cs = [] then Some (-1, s\<lparr>arg_retrieved := replicate 1024 0\<rparr>)
     else do { s' \<leftarrow> store_bytes vwrite (s\<lparr>arg_retrieved := arg_text cs @ replicate (1024 - length (arg_text cs)) 0\<rparr>) buf
                 (take (unat nbytes) (arg_text cs) @ replicate (unat nbytes - length (arg_text cs)) 0);
               Some (0, s') })"
  by (rule getargs_step[OF assms])

end
