(* ===== verification/Printf.thy ===== *)
theory Printf
  imports Console
begin

text \<open>
  \<open>printf\<close> of \<open>lib.c\<close>: a scan of the format string that prints through \<open>putc\<close> and \<open>puts\<close> and
  takes the words of the argument list in order.  \<open>fmt\<close> is the array holding the format string,
  \<open>junk\<close> what the stack holds where the conversion buffers are allocated.
\<close>

section \<open>Conversions\<close>

definition puts_local :: "u8 list \<Rightarrow> u32 \<Rightarrow> 'z console_scheme \<Rightarrow> 'z console_scheme option" where
  "puts_local conv_buf p s = map_option snd (puts (\<lambda>_. array_rd conv_buf) p s)"

definition conv_hex :: "u8 list \<Rightarrow> bool \<Rightarrow> u32 \<Rightarrow> 'z console_scheme \<Rightarrow> 'z console_scheme option" where
  "conv_hex junk alternate value s =
     (if \<not> alternate then
        do { conv_buf \<leftarrow> itoa array_rd array_wr (take 64 junk) value 0 16;
             puts_local conv_buf 0 s }
      else
        do { conv_buf \<leftarrow> itoa array_rd array_wr (take 64 junk) value 8 16;
             starting_index \<leftarrow> strlen array_rd conv_buf 8;
             conv_buf \<leftarrow> for_up (unat starting_index) (8 - unat starting_index)
               (\<lambda>i conv_buf. arr_set conv_buf i 48) conv_buf;
             puts_local conv_buf starting_index s })"

definition conv_unsigned :: "u8 list \<Rightarrow> u32 \<Rightarrow> 'z console_scheme \<Rightarrow> 'z console_scheme option" where
  "conv_unsigned junk value s =
     do { conv_buf \<leftarrow> itoa array_rd array_wr (take 36 junk) value 0 10;
          puts_local conv_buf 0 s }"

definition conv_signed :: "u8 list \<Rightarrow> u32 \<Rightarrow> 'z console_scheme \<Rightarrow> 'z console_scheme option" where
  "conv_signed junk value s =
     (if sint value < 0 then
        do { conv_buf \<leftarrow> arr_set (take 36 junk) 0 45;
             conv_buf \<leftarrow> itoa array_rd array_wr conv_buf (- value) 1 10;
             puts_local conv_buf 0 s }
      else
        do { conv_buf \<leftarrow> itoa array_rd array_wr (take 36 junk) value 0 10;
             puts_local conv_buf 0 s })"

text \<open>One conversion specifier: the arguments left and the console after it.\<close>

definition printf_conv :: "u8 list \<Rightarrow> bool \<Rightarrow> u8 \<Rightarrow> u32 list \<Rightarrow> 'z console_scheme \<Rightarrow>
    (u32 list \<times> 'z console_scheme) option" where
  "printf_conv junk alternate c args s =
     (if c = 37 then do { s \<leftarrow> putc 37 s; Some (args, s) }
      else if c = 120 then
        (case args of [] \<Rightarrow> None
         | v # args' \<Rightarrow> do { s \<leftarrow> conv_hex junk alternate v s; Some (args', s) })
      else if c = 117 then
        (case args of [] \<Rightarrow> None
         | v # args' \<Rightarrow> do { s \<leftarrow> conv_unsigned junk v s; Some (args', s) })
      else if c = 100 then
        (case args of [] \<Rightarrow> None
         | v # args' \<Rightarrow> do { s \<leftarrow> conv_signed junk v s; Some (args', s) })
      else if c = 99 then
        (case args of [] \<Rightarrow> None
         | v # args' \<Rightarrow> do { s \<leftarrow> putc (ucast v) s; Some (args', s) })
      else if c = 115 then
        (case args of [] \<Rightarrow> None
         | v # args' \<Rightarrow> do { (_, s) \<leftarrow> puts vread v s; Some (args', s) })
      else Some (args, s))"

section \<open>The scan\<close>

text \<open>
  The second argument is the index of \<open>buf\<close>, the third is \<open>Some alternate\<close> behind a percent sign
  (the label \<open>format_char_switch\<close>) and \<open>None\<close> in the outer loop.
\<close>

function printf_loop :: "u8 list \<Rightarrow> u8 list \<Rightarrow> nat \<Rightarrow> bool option \<Rightarrow> u32 list \<Rightarrow>
    'z console_scheme \<Rightarrow> (nat \<times> 'z console_scheme) option" where
  "printf_loop junk fmt i None args s =
     do { c \<leftarrow> arr_get fmt i;
          if c = 0 then Some (i, s)
          else if c = 37 then printf_loop junk fmt (i + 1) (Some False) args s
          else do { s' \<leftarrow> putc c s; printf_loop junk fmt (i + 1) None args s' } }"
| "printf_loop junk fmt i (Some alternate) args s =
     do { c \<leftarrow> arr_get fmt i;
          if c = 35 then printf_loop junk fmt (i + 1) (Some True) args s
          else do { (args', s') \<leftarrow> printf_conv junk alternate c args s;
                    printf_loop junk fmt (i + 1) None args' s' } }"
  by pat_completeness auto
termination
  by (relation "measure (\<lambda>(junk, fmt, i, m, args, s). length fmt - i)")
    (auto simp: arr_get_Some_iff)

declare printf_loop.simps [simp del]

definition printf :: "u8 list \<Rightarrow> u8 list \<Rightarrow> u32 list \<Rightarrow> 'z console_scheme \<Rightarrow>
    (i32 \<times> 'z console_scheme) option" where
  "printf junk fmt args s =
     do { (i, s') \<leftarrow> printf_loop junk fmt 0 None args s; Some (of_nat i, s') }"

section \<open>Literal text\<close>

lemma printf_literal:
  assumes "console_wf s" and "0 \<notin> set xs" and "37 \<notin> set xs"
  shows "\<exists>s'. putcs xs s = Some s' \<and> printf junk (xs @ [0]) args s = Some (of_nat (length xs), s')"
proof -
  have "printf_loop junk (xs @ [0]) i None args s = map_option (Pair (length xs)) (putcs (drop i xs) s)"
    if "i \<le> length xs" "console_wf s" for i s
    using that
  proof (induction "length xs - i" arbitrary: i s)
    case 0
    then show ?case by (simp add: printf_loop.simps nth_append)
  next
    case (Suc n)
    then have i: "i < length xs" by simp
    have x: "xs ! i \<noteq> 0" "xs ! i \<noteq> 37" using assms(2,3) i nth_mem[OF i] by metis+
    have d: "drop i xs = xs ! i # drop (Suc i) xs" using i by (rule Cons_nth_drop_Suc[symmetric])
    from putc_safe[OF Suc.prems(2), of "xs ! i"] obtain t where t: "putc (xs ! i) s = Some t" "console_wf t"
      by blast
    have "printf_loop junk (xs @ [0]) (Suc i) None args t = map_option (Pair (length xs)) (putcs (drop (Suc i) xs) t)"
      using Suc(1)[of "Suc i" t] Suc(2) i t(2) by simp
    with i x d t show ?case by (simp add: printf_loop.simps(1)[of _ _ i] nth_append)
  qed
  from this[of 0 s] assms(1) putcs_safe[OF assms(1), of xs] show ?thesis
    by (auto simp: printf_def)
qed

end
