(* ===== verification/Scheduler.thy ===== *)
theory Scheduler
  imports Lifecycle Printf
begin

text \<open>
  The scheduler (\<open>scheduler.c\<close>): three terminals in rotation, switched at every timer interrupt.
  A terminal without a process starts a shell.
\<close>

definition KERNEL_SPACE :: u32 where "KERNEL_SPACE = 0x800000"
definition MEMORY_SPACE :: u32 where "MEMORY_SPACE = 0x400"

definition init_scheduler :: "'z kernel_scheme \<Rightarrow> (i32 \<times> 'z kernel_scheme) option" where
  "init_scheduler s0 =
     do { let s = s0\<lparr>schedule_index := 0, three_shells_executed := 0\<rparr>;
          s \<leftarrow> for_up 0 3 (\<lambda>i s.
            do { p \<leftarrow> arr_get (process_array s) i;
                 let top = KERNEL_SPACE - MEMORY_SPACE * of_nat i;
                 a \<leftarrow> arr_set (process_array s) i
                   \<lparr>cur_pid = -1, cur_esp0 = top, cur_esp = top, cur_ebp = top, cur_fd_ptr = KernelFdt\<rparr>;
                 Some (s\<lparr>process_array := a\<rparr>) }) s;
          Some (0, s) }"

text \<open>The string constant \<open>"shell"\<close>, and the loop that starts it until it enters user mode.\<close>

definition shell_name :: "u8 list" where
  "shell_name = ascii ''shell'' @ [0]"

partial_function (option) boot_shell :: "dentry \<Rightarrow> u8 list \<Rightarrow> 'z kernel_scheme \<Rightarrow>
    (u32 \<times> u32 \<times> 'z kernel_scheme) option" where
  "boot_shell junk_dent junk_magic s =
     do { (r, s') \<leftarrow> execute (\<lambda>_. array_rd shell_name) junk_dent junk_magic 0 s;
          case r of Returned _ \<Rightarrow> boot_shell junk_dent junk_magic s'
          | EnteredUser eip usp \<Rightarrow> Some (eip, usp, s') }"

definition next_schedule :: "u8 \<Rightarrow> u8" where
  "next_schedule i = (if i < 2 then i + 1 else 0)"

datatype switch_outcome = Resumed | Booted u32 u32

definition context_switch :: "dentry \<Rightarrow> u8 list \<Rightarrow> 'z kernel_scheme \<Rightarrow>
    (switch_outcome \<times> 'z kernel_scheme) option" where
  "context_switch junk_dent junk_magic s0 =
     do { let nxt = next_schedule (schedule_index s0);
          s \<leftarrow> slot_upd (\<lambda>p. p\<lparr>cur_esp := esp s0, cur_ebp := ebp s0\<rparr>) s0;
          s \<leftarrow> slot_upd (\<lambda>p. p\<lparr>cur_esp0 := tss_esp0 s\<rparr>) s;
          let s = s\<lparr>schedule_index := nxt\<rparr>;
          slot \<leftarrow> cur_slot s;
          let pcb_temp = pcbs s (get_pcb (cur_pid slot));
          let s = (if visible_screen s = ucast (schedule_index s) then snd (map_screen_buffer 0 s)
                   else snd (map_screen_buffer (1 + ucast (schedule_index s)) s));
          let s = s\<lparr>tss_esp0 := cur_esp0 slot\<rparr>;
          let s = (if vid_set pcb_temp \<noteq> 0 then set_pte_vid 0 (user_video_entry s) s
                   else set_pte_vid 0 0 s);
          let s = s\<lparr>esp := cur_esp slot, ebp := cur_ebp slot\<rparr>;
          if cur_pid slot \<noteq> -1
          then Some (Resumed, load_cr3 (map_page_exec (cur_pid slot) s))
          else do { (eip, usp, s') \<leftarrow> boot_shell junk_dent junk_magic s; Some (Booted eip usp, s') } }"

definition interrupt_pit :: "dentry \<Rightarrow> u8 list \<Rightarrow> 'z kernel_scheme \<Rightarrow>
    (switch_outcome \<times> 'z kernel_scheme) option" where
  "interrupt_pit junk_dent junk_magic s =
     do { let s = s\<lparr>num_ticks := num_ticks s + 1\<rparr>;
          let s = send_eoi 0 s;
          context_switch junk_dent junk_magic s }"

section \<open>Saving and restoring a terminal\<close>

text \<open>The index arithmetic: the three terminals in rotation.\<close>

lemma next_ix: "unat i < 3 \<Longrightarrow> unat (next_schedule i) = Suc (unat i) mod 3"
proof -
  assume i: "unat i < 3"
  have "i = 0 \<or> i = 1 \<or> i = 2" using i by (auto simp: word_unat_eq_iff)
  then show ?thesis by (elim disjE) (simp_all add: next_schedule_def)
qed

text \<open>The state in which the next terminal's process runs, or its shell is started.\<close>

definition saved_slot :: "'z kernel_scheme \<Rightarrow> switch_table_t" where
  "saved_slot s = (process_array s ! sched_ix s)\<lparr>cur_esp := esp s, cur_ebp := ebp s, cur_esp0 := tss_esp0 s\<rparr>"

definition video_frame :: "u8 \<Rightarrow> u32 \<Rightarrow> u32" where
  "video_frame n v = (if v = ucast n then video_entry 0 3 else video_entry (1 + ucast n) 3)"

definition switched_to :: "u8 \<Rightarrow> 'z kernel_scheme \<Rightarrow> 'z kernel_scheme" where
  "switched_to n s =
     (let q = (if unat n = sched_ix s then saved_slot s else process_array s ! unat n) in
      s\<lparr>process_array := (process_array s)[sched_ix s := saved_slot s], schedule_index := n,
        pte := (pte s)(VIDEO_MEMORY := video_frame n (visible_screen s)),
        pte_vid := (pte_vid s)(0 := if vid_set (pcbs s (get_pcb (cur_pid q))) \<noteq> 0
          then user_video_entry (s\<lparr>schedule_index := n\<rparr>) else 0),
        tlb_stale := True, tss_esp0 := cur_esp0 q, esp := cur_esp q, ebp := cur_ebp q\<rparr>)"

lemma map_screen_eq:
  assumes "unat n < 3"
  shows "(if v = ucast n then snd (map_screen_buffer 0 s) else snd (map_screen_buffer (1 + ucast n) s)) =
    s\<lparr>pte := (pte s)(VIDEO_MEMORY := video_frame n v), tlb_stale := False\<rparr>"
proof -
  have "n = 0 \<or> n = 1 \<or> n = 2" using assms by (auto simp: word_unat_eq_iff)
  then have "\<not> (1 + ucast n :: u32) > 3" by auto
  then show ?thesis by (auto simp: map_screen_buffer_def video_frame_def video_entry_def set_pte_def load_cr3_def)
qed

lemma load_map_exec: "load_cr3 (map_page_exec i s) = map_page_exec i s"
  by (simp add: map_page_exec_def load_cr3_def)

lemma context_switch_eq:
  assumes wf: "files_wf s" and n: "n = next_schedule (schedule_index s)"
  shows "context_switch jd jm s =
    (let q = process_array s ! unat n; t = switched_to n s in
     if cur_pid q \<noteq> -1 then Some (Resumed, map_page_exec (cur_pid q) t)
     else do { (eip, usp, s') \<leftarrow> boot_shell jd jm t; Some (Booted eip usp, s') })"
proof -
  have pw: "procs_wf s" using wf by (simp add: files_wf_def)
  have ix: "sched_ix s < 3" "length (process_array s) = 3" using pw ix_bounds(1)[of s] by (simp_all add: procs_wf_def)
  have un: "unat n = Suc (sched_ix s) mod 3" using next_ix[OF ix(1)] n by simp
  then have n3: "unat n < 3" "unat n \<noteq> sched_ix s" using ix(1) by (auto simp: mod_Suc)
  let ?s1 = "s\<lparr>process_array := (process_array s)[sched_ix s := (process_array s ! sched_ix s)\<lparr>cur_esp := esp s, cur_ebp := ebp s\<rparr>]\<rparr>"
  let ?s2 = "s\<lparr>process_array := (process_array s)[sched_ix s := saved_slot s]\<rparr>"
  have e1: "slot_upd (\<lambda>p. p\<lparr>cur_esp := esp s, cur_ebp := ebp s\<rparr>) s = Some ?s1" using slot_upd_eq[OF pw] by simp
  have e2: "slot_upd (\<lambda>p. p\<lparr>cur_esp0 := tss_esp0 ?s1\<rparr>) ?s1 = Some ?s2"
    using ix by (simp add: slot_upd_def cur_slot_def saved_slot_def)
  have e3: "cur_slot (?s2\<lparr>schedule_index := n\<rparr>) = Some (process_array s ! unat n)"
    using ix n3 by (simp add: cur_slot_def)
  have m: "(if visible_screen (?s2\<lparr>schedule_index := n\<rparr>) = ucast (schedule_index (?s2\<lparr>schedule_index := n\<rparr>))
      then snd (map_screen_buffer 0 (?s2\<lparr>schedule_index := n\<rparr>))
      else snd (map_screen_buffer (1 + ucast (schedule_index (?s2\<lparr>schedule_index := n\<rparr>))) (?s2\<lparr>schedule_index := n\<rparr>))) =
    ?s2\<lparr>schedule_index := n, pte := (pte s)(VIDEO_MEMORY := video_frame n (visible_screen s)), tlb_stale := False\<rparr>"
    using map_screen_eq[OF n3(1), of "visible_screen s" "?s2\<lparr>schedule_index := n\<rparr>"] by (simp split del: if_split cong del: if_weak_cong)
  let ?q = "process_array s ! unat n"
  let ?s4 = "?s2\<lparr>schedule_index := n, pte := (pte s)(VIDEO_MEMORY := video_frame n (visible_screen s)),
    tlb_stale := False, tss_esp0 := cur_esp0 ?q\<rparr>"
  have v: "(if vid_set (pcbs s (get_pcb (cur_pid ?q))) \<noteq> 0 then set_pte_vid 0 (user_video_entry ?s4) ?s4
      else set_pte_vid 0 0 ?s4)\<lparr>esp := cur_esp ?q, ebp := cur_ebp ?q\<rparr> = switched_to n s"
    using n3(2) by (cases "vid_set (pcbs s (get_pcb (cur_pid ?q))) = 0")
      (simp_all add: switched_to_def Let_def set_pte_vid_def user_video_entry_def)
  have p: "pcbs (?s2\<lparr>schedule_index := n\<rparr>) = pcbs s" by simp
  show ?thesis
    unfolding context_switch_def n[symmetric] Let_def e1 Option.bind.simps e2 e3 m p v load_map_exec ..
qed

lemma switched_wf:
  assumes wf: "files_wf s" and n: "unat n < 3"
  shows "files_wf (switched_to n s)" "coherent (switched_to n s)"
proof -
  let ?t = "switched_to n s" and ?u = "s\<lparr>schedule_index := n\<rparr>"
  have cw: "console_wf s" using wf by (simp add: files_wf_def procs_wf_def)
  have nc: "n = 0 \<or> n = 1 \<or> n = 2" using n by (auto simp: word_unat_eq_iff)
  have len: "length (process_array s) = 3" using wf by (simp add: files_wf_def procs_wf_def)
  have "console_wf ?u" using cw n by (simp add: console_wf_def word_less_nat_alt)
  from user_video_entry_eq[OF this] obtain k where k: "k \<le> 3" "user_video_entry ?u = video_entry k 7" by blast
  define j where "j = (if visible_screen s = ucast n then 0 else 1 + ucast n :: u32)"
  have j: "j \<le> 3" "video_frame n (visible_screen s) = video_entry j 3"
    using nc by (auto simp: j_def video_frame_def)
  have pw: "paging_wf s" by (rule files_paging[OF wf])
  have "paging_wf (s\<lparr>pte := (pte s)(VIDEO_MEMORY := video_entry j 3), pte_vid := (pte_vid s)(0 := e)\<rparr>)"
    if "e = 0 \<or> e = video_entry k 7" for e
    using pw j(1) k(1) that unfolding paging_wf_def by (auto simp: VIDEO_MEMORY_def)
  moreover have "paging_wf ?t = paging_wf (s\<lparr>pte := (pte s)(VIDEO_MEMORY := video_entry j 3), pte_vid := (pte_vid s)(0 := pte_vid ?t 0)\<rparr>)"
    by (rule paging_wf_cong) (simp_all add: switched_to_def Let_def j(2))
  moreover have "pte_vid ?t 0 = 0 \<or> pte_vid ?t 0 = video_entry k 7" using k(2) by (simp add: switched_to_def Let_def)
  ultimately have pt: "paging_wf ?t" by blast
  have "console_wf ?t" using pt cw n by (simp add: console_wf_def switched_to_def Let_def word_less_nat_alt)
  moreover have "fds_at ?t = fds_at s" by (rule fds_at_cong) (simp_all add: switched_to_def Let_def)
  ultimately show "files_wf ?t" using wf len by (simp add: files_wf_def procs_wf_def switched_to_def Let_def)
  have "video_page ?t = 0xB8000 + 0x1000 * j"
    using video_entry_bits(1)[OF j(1), of 3] by (simp add: video_page_def switched_to_def Let_def j(2))
  moreover have "term_page ?t (sched_ix ?t) = 0xB8000 + 0x1000 * j"
    using nc cw by (auto simp: term_page_def switched_to_def Let_def j_def VIDEO_def buffer_page_def word_unat_eq_iff[of "visible_screen s"])
  ultimately show "coherent ?t" by (simp add: coherent_def)
qed

lemma map_page_exec_files: "files_wf s \<Longrightarrow> files_wf (map_page_exec i s)"
  by (rule files_wf_paging(1)[of s])
    (simp_all add: files_paging map_page_exec_wf, simp_all add: map_page_exec_def set_pdt_def load_cr3_def files_wf_def procs_wf_def)

lemma map_page_exec_coherent [simp]: "coherent (map_page_exec i s) = coherent s"
  by (simp add: coherent_def video_page_def term_page_def map_page_exec_def set_pdt_def load_cr3_def)

lemma context_switch_step:
  assumes wf: "files_wf s" and n: "n = next_schedule (schedule_index s)"
    and q: "q = process_array s ! unat n" "cur_pid q \<noteq> -1"
  shows "\<exists>s'. context_switch jd jm s = Some (Resumed, s') \<and> files_wf s' \<and> coherent s' \<and> \<not> tlb_stale s' \<and>
    schedule_index s' = n \<and> unat n = Suc (sched_ix s) mod 3 \<and>
    esp s' = cur_esp q \<and> ebp s' = cur_ebp q \<and> tss_esp0 s' = cur_esp0 q \<and>
    process_array s' = (process_array s)[sched_ix s := saved_slot s] \<and>
    pdt s' EXEC = START_ADDRESS + FOURMB * cur_pid q \<and>
    (if vid_set (pcbs s (get_pcb (cur_pid q))) \<noteq> 0
     then pte_vid s' 0 AND 0xFFFFF000 = term_page s' (sched_ix s') else pte_vid s' 0 = 0) \<and>
    phys s' = phys s \<and> pcbs s' = pcbs s \<and> num_ticks s' = num_ticks s"
proof -
  have ix: "sched_ix s < 3" using wf ix_bounds(1)[of s] by (simp add: files_wf_def procs_wf_def)
  have un: "unat n = Suc (sched_ix s) mod 3" using next_ix[OF ix] n by simp
  then have n3: "unat n < 3" "unat n \<noteq> sched_ix s" using ix by (auto simp: mod_Suc)
  let ?s' = "map_page_exec (cur_pid q) (switched_to n s)"
  have c: "context_switch jd jm s = Some (Resumed, ?s')"
    using context_switch_eq[OF wf n] q by (simp add: Let_def)
  note w = switched_wf[OF wf n3(1)]
  have uw: "console_wf (s\<lparr>schedule_index := n\<rparr>)" using wf n3(1) by (simp add: files_wf_def procs_wf_def console_wf_def word_less_nat_alt)
  obtain k where k: "k \<le> 3" "user_video_entry (s\<lparr>schedule_index := n\<rparr>) = video_entry k 7"
    "0xB8000 + 0x1000 * k = term_page (s\<lparr>schedule_index := n\<rparr>) (unat n)"
    using user_video_entry_eq[OF uw] by auto
  have tp: "term_page ?s' (sched_ix ?s') = term_page (s\<lparr>schedule_index := n\<rparr>) (unat n)"
    by (simp add: term_page_def switched_to_def Let_def map_page_exec_def set_pdt_def load_cr3_def)
  have vid: "pte_vid ?s' 0 = (if vid_set (pcbs s (get_pcb (cur_pid q))) \<noteq> 0 then video_entry k 7 else 0)"
    using n3(2) q by (simp add: switched_to_def Let_def k(2))
  have "if vid_set (pcbs s (get_pcb (cur_pid q))) \<noteq> 0
     then pte_vid ?s' 0 AND 0xFFFFF000 = term_page ?s' (sched_ix ?s') else pte_vid ?s' 0 = 0"
    unfolding tp k(3)[symmetric] vid using video_entry_bits(1)[OF k(1), of 7] by simp
  moreover have "schedule_index ?s' = n" "esp ?s' = cur_esp q" "ebp ?s' = cur_ebp q" "tss_esp0 ?s' = cur_esp0 q"
    "process_array ?s' = (process_array s)[sched_ix s := saved_slot s]" "phys ?s' = phys s" "pcbs ?s' = pcbs s"
    "num_ticks ?s' = num_ticks s"
    using n3(2) q(1) by (simp_all add: switched_to_def Let_def, simp_all add: map_page_exec_def set_pdt_def load_cr3_def)
  ultimately show ?thesis
    using c w map_page_exec_files[OF w(1)] un by (intro exI[of _ ?s']) simp
qed

text \<open>
  C11: A context switch to a running process.  It stores the registers of the running terminal in its
  slot and continues the next terminal with the registers, kernel stack and user page its slot
  holds; afterwards the console invariant holds and output of the resumed process appears on its own
  terminal (\<open>coherent\<close>), its video page is mapped to its own screen exactly if it asked for one, and
  memory and every process block are untouched.
\<close>

theorem context_switch_resumes:
  assumes wf: "files_wf s" and n: "n = next_schedule (schedule_index s)"
    and q: "q = process_array s ! unat n" "cur_pid q \<noteq> -1"
  shows "\<exists>s'. context_switch jd jm s = Some (Resumed, s') \<and> files_wf s' \<and> coherent s' \<and> \<not> tlb_stale s' \<and>
    schedule_index s' = n \<and> unat n = Suc (sched_ix s) mod 3 \<and>
    esp s' = cur_esp q \<and> ebp s' = cur_ebp q \<and> tss_esp0 s' = cur_esp0 q \<and>
    process_array s' = (process_array s)[sched_ix s := saved_slot s] \<and>
    pdt s' EXEC = START_ADDRESS + FOURMB * cur_pid q \<and>
    (if vid_set (pcbs s (get_pcb (cur_pid q))) \<noteq> 0
     then pte_vid s' 0 AND 0xFFFFF000 = term_page s' (sched_ix s') else pte_vid s' 0 = 0) \<and>
    phys s' = phys s \<and> pcbs s' = pcbs s \<and> num_ticks s' = num_ticks s"
  using context_switch_step[OF assms] .

section \<open>Round robin\<close>

text \<open>
  The processes as the machine would find them: the slots, with the running terminal's slot brought
  up to date.
\<close>

definition register_file :: "'z kernel_scheme \<Rightarrow> switch_table_t list" where
  "register_file s = (process_array s)[sched_ix s := saved_slot s]"

definition all_running :: "'z kernel_scheme \<Rightarrow> bool" where
  "all_running s \<longleftrightarrow> (\<forall>p \<in> set (process_array s). cur_pid p \<noteq> -1)"

fun timer_ticks :: "nat \<Rightarrow> dentry \<Rightarrow> u8 list \<Rightarrow> 'z kernel_scheme \<Rightarrow> 'z kernel_scheme option" where
  "timer_ticks 0 jd jm s = Some s"
| "timer_ticks (Suc k) jd jm s = do { (r, s') \<leftarrow> interrupt_pit jd jm s; timer_ticks k jd jm s' }"

lemma tick_fields:
  fixes s :: "'z kernel_scheme"
  shows "files_wf (s\<lparr>num_ticks := t, port_out := ps\<rparr>) = files_wf s"
proof (rule files_wf_cong)
  let ?t = "s\<lparr>num_ticks := t, port_out := ps\<rparr>"
  have "console_wf ?t = console_wf s" by (intro console_wf_cong paging_wf_cong) simp_all
  then show "procs_wf ?t = procs_wf s" by (simp add: procs_wf_def)
  show "fds_at ?t = fds_at s" by (rule fds_at_cong) simp_all
qed simp_all

lemma pit_step:
  assumes wf: "files_wf s" and run: "all_running s"
  shows "\<exists>s'. interrupt_pit jd jm s = Some (Resumed, s') \<and> files_wf s' \<and> coherent s' \<and> all_running s' \<and>
    sched_ix s' = Suc (sched_ix s) mod 3 \<and> register_file s' = register_file s \<and>
    num_ticks s' = num_ticks s + 1 \<and> phys s' = phys s \<and> pcbs s' = pcbs s"
proof -
  obtain ps where e: "send_eoi 0 (s\<lparr>num_ticks := num_ticks s + 1\<rparr>) = s\<lparr>num_ticks := num_ticks s + 1, port_out := ps\<rparr>"
    using send_eoi_frame[of 0 "s\<lparr>num_ticks := num_ticks s + 1\<rparr>"] by auto
  let ?t = "s\<lparr>num_ticks := num_ticks s + 1, port_out := ps\<rparr>"
  have tw: "files_wf ?t" using wf by (simp only: tick_fields)
  define n where "n = next_schedule (schedule_index s)"
  have ix: "sched_ix s < 3" "length (process_array s) = 3" using wf ix_bounds(1)[of s] by (simp_all add: files_wf_def procs_wf_def)
  have un: "unat n = Suc (sched_ix s) mod 3" using next_ix[OF ix(1)] n_def by simp
  then have n3: "unat n < 3" "unat n \<noteq> sched_ix s" using ix by (auto simp: mod_Suc)
  have rn: "cur_pid (process_array s ! unat n) \<noteq> -1" using run n3 ix by (simp add: all_running_def)
  from context_switch_step[OF tw, of n "process_array s ! unat n" jd jm] n_def rn obtain s' where
    c: "context_switch jd jm ?t = Some (Resumed, s')" "files_wf s'" "coherent s'" "schedule_index s' = n"
      "esp s' = cur_esp (process_array s ! unat n)" "ebp s' = cur_ebp (process_array s ! unat n)"
      "tss_esp0 s' = cur_esp0 (process_array s ! unat n)"
      "process_array s' = (process_array s)[sched_ix s := saved_slot ?t]" "phys s' = phys s" "pcbs s' = pcbs s" "num_ticks s' = num_ticks s + 1"
    by auto
  have sv: "saved_slot ?t = saved_slot s" by (simp add: saved_slot_def)
  have "saved_slot s' = process_array s ! unat n" using n3(2) c(4-8) by (simp add: saved_slot_def)
  then have rf: "register_file s' = register_file s"
    using c(4,8) n3(2) ix by (simp add: register_file_def sv list_update_swap[of "sched_ix s"] list_update_id)
  have "cur_pid (saved_slot s) = cur_pid (process_array s ! sched_ix s)" by (simp add: saved_slot_def)
  then have "all_running s'" using run ix c(8) sv
    by (auto simp: all_running_def dest!: subsetD[OF set_update_subset_insert])
  with c rf un show ?thesis by (intro exI[of _ s']) (simp add: interrupt_pit_def Let_def e)
qed

lemma timer_ticks_step:
  assumes "files_wf s" and "all_running s"
  shows "\<exists>s'. timer_ticks k jd jm s = Some s' \<and> files_wf s' \<and> (0 < k \<longrightarrow> coherent s') \<and>
    sched_ix s' = (sched_ix s + k) mod 3 \<and> register_file s' = register_file s \<and>
    num_ticks s' = num_ticks s + of_nat k \<and> phys s' = phys s \<and> pcbs s' = pcbs s"
  using assms
proof (induction k arbitrary: s)
  case 0
  then have "sched_ix s < 3" using ix_bounds(1)[of s] by (simp add: files_wf_def procs_wf_def)
  with 0 show ?case by simp
next
  case (Suc k)
  obtain t where t: "interrupt_pit jd jm s = Some (Resumed, t)" "files_wf t" "coherent t" "all_running t"
    "sched_ix t = Suc (sched_ix s) mod 3" "register_file t = register_file s" "num_ticks t = num_ticks s + 1"
    "phys t = phys s" "pcbs t = pcbs s" using pit_step[OF Suc.prems, of jd jm] by blast
  from Suc.IH[OF t(2,4)] obtain s' where s': "timer_ticks k jd jm t = Some s'" "files_wf s'" "0 < k \<longrightarrow> coherent s'"
    "sched_ix s' = (sched_ix t + k) mod 3" "register_file s' = register_file t" "num_ticks s' = num_ticks t + of_nat k"
    "phys s' = phys t" "pcbs s' = pcbs t" by blast
  moreover have "k = 0 \<Longrightarrow> s' = t" using s'(1) by simp
  ultimately show ?case using t by (cases "k = 0") (auto simp: mod_simps)
qed

text \<open>
  C6: Round robin.  When every terminal has a process, any number of timer interrupts succeeds; after
  \<open>k\<close> of them the terminal \<open>k\<close> places on is running, so each runs again after three.  No interrupt
  changes memory, a process block or what the registers of any process will be when it continues:
  the registers and the kernel stack now loaded are those the running terminal had when it was interrupted.
\<close>

theorem timer_round_robin:
  assumes "files_wf s" and "all_running s"
  shows "\<exists>s'. timer_ticks k jd jm s = Some s' \<and> files_wf s' \<and> (0 < k \<longrightarrow> coherent s') \<and>
    sched_ix s' = (sched_ix s + k) mod 3 \<and> register_file s' = register_file s \<and>
    saved_slot s' = register_file s ! sched_ix s' \<and>
    num_ticks s' = num_ticks s + of_nat k \<and> phys s' = phys s \<and> pcbs s' = pcbs s"
proof -
  obtain s' where s': "timer_ticks k jd jm s = Some s'" "files_wf s'" "0 < k \<longrightarrow> coherent s'"
    "sched_ix s' = (sched_ix s + k) mod 3" "register_file s' = register_file s"
    "num_ticks s' = num_ticks s + of_nat k" "phys s' = phys s" "pcbs s' = pcbs s"
    using timer_ticks_step[OF assms, of k jd jm] by blast
  have "sched_ix s' < length (process_array s')" using s'(2) ix_bounds(1)[of s'] by (simp add: files_wf_def procs_wf_def)
  then have "saved_slot s' = register_file s' ! sched_ix s'" by (simp add: register_file_def)
  with s' show ?thesis by auto
qed

section \<open>Starting the shells\<close>

lemma shell_string:
  "cstring (\<lambda>_. array_rd shell_name) () 0 (ascii ''shell'')" "takeWhile word_char (ascii ''shell'') = ascii ''shell''"
  "length (ascii ''shell'') = 5"
  by code_simp+

text \<open>The state the shell of terminal \<open>n\<close> starts from has the memory and the directory the interrupted one had.\<close>

lemma switched_image:
  assumes "files_wf s" "unat n < 3" "boot_image s img ds"
  shows "boot_image (switched_to n s) img ds"
  by (rule boot_image_transfer[OF assms(3) files_paging[OF assms(1)] files_paging[OF switched_wf(1)[OF assms(1,2)]]])
    (simp_all add: switched_to_def Let_def)

lemma boot_shell_step:
  assumes wf: "files_wf s" and bi: "boot_image s img ds" and ex: "executable s img ds (ascii ''shell'') d prog"
    and free: "find (pcb_free s) [0..<8] = Some i" and jd: "length jd = 64" and jm: "length jm = 4"
  shows "\<exists>m. boot_shell jd jm s = Some (entry_point prog, STACK_POINTER,
      (started i (ascii ''shell'' @ replicate 1019 0) s)\<lparr>phys := m\<rparr>) \<and>
    load_bytes vread ((started i (ascii ''shell'' @ replicate 1019 0) s)\<lparr>phys := m\<rparr>) TARGET_MEM (length prog) = Some prog \<and>
    (\<forall>q. unat q div 0x400000 \<noteq> i + 2 \<longrightarrow> m q = phys s q)"
proof -
  have "executable s img ds (takeWhile word_char (ascii ''shell'')) d prog" using ex by (simp only: shell_string)
  from execute_step[of s img ds "\<lambda>_. array_rd shell_name", OF wf bi shell_string(1) _ _ _ this free jd jm]
  show ?thesis by (subst boot_shell.simps) (auto simp: shell_string)
qed

text \<open>
  C29: The first switch to a terminal without a process starts a shell there: execution continues at
  the shell's entry point, in the first free process block, as the base process of that terminal
  (its parent is \<open>-1\<close>), with the shell's bytes in its page; the registers of the interrupted process
  are in its slot, and no byte outside the new process's page changes.
\<close>

theorem context_switch_boots:
  assumes wf: "files_wf s" and n: "n = next_schedule (schedule_index s)"
    and q: "cur_pid (process_array s ! unat n) = -1"
    and bi: "boot_image s img ds" and ex: "executable s img ds (ascii ''shell'') d prog"
    and free: "find (pcb_free s) [0..<8] = Some i" and jd: "length jd = 64" and jm: "length jm = 4"
  shows "\<exists>s'. context_switch jd jm s = Some (Booted (entry_point prog) 0x083FFFFC, s') \<and> files_wf s' \<and>
    sched_ix s' = Suc (sched_ix s) mod 3 \<and> cur_pid (process_array s' ! sched_ix s') = of_nat i \<and>
    pcbs s' = (pcbs s)(get_pcb (of_nat i) := new_pcb i (ascii ''shell'' @ replicate 1019 0) (switched_to n s)) \<and>
    parent_pid (pcbs s' (get_pcb (of_nat i))) = -1 \<and>
    process_array s' ! sched_ix s = saved_slot s \<and>
    load_bytes vread s' 0x08048000 (length prog) = Some prog \<and>
    (\<forall>q. unat q div 0x400000 \<noteq> i + 2 \<longrightarrow> phys s' q = phys s q)"
proof -
  have ix: "sched_ix s < 3" "length (process_array s) = 3" using wf ix_bounds(1)[of s] by (simp_all add: files_wf_def procs_wf_def)
  have un: "unat n = Suc (sched_ix s) mod 3" using next_ix[OF ix(1)] n by simp
  then have n3: "unat n < 3" "unat n \<noteq> sched_ix s" using ix by (auto simp: mod_Suc)
  let ?t = "switched_to n s" and ?ub = "ascii ''shell'' @ replicate 1019 0"
  have tf: "pcbs ?t = pcbs s" "phys ?t = phys s" "schedule_index ?t = n"
    "process_array ?t = (process_array s)[sched_ix s := saved_slot s]"
    by (simp_all add: switched_to_def Let_def)
  have g: "geometry_of ?t = geometry_of s" by (simp add: geometry_of_def switched_to_def Let_def)
  have ext: "executable ?t img ds (ascii ''shell'') d prog" using ex executable_cong[OF g] by simp
  have "find (pcb_free ?t) [0..<8] = Some i" using free by (simp only: tf)
  from boot_shell_step[OF switched_wf(1)[OF wf n3(1)] switched_image[OF wf n3(1) bi] ext this jd jm]
  obtain m where m: "boot_shell jd jm ?t = Some (entry_point prog, 0x083FFFFC, (started i ?ub ?t)\<lparr>phys := m\<rparr>)"
    "load_bytes vread ((started i ?ub ?t)\<lparr>phys := m\<rparr>) 0x08048000 (length prog) = Some prog"
    "\<forall>q. unat q div 0x400000 \<noteq> i + 2 \<longrightarrow> m q = phys s q"
    unfolding STACK_POINTER_def TARGET_MEM_def tf by blast
  let ?s' = "(started i ?ub ?t)\<lparr>phys := m\<rparr>"
  have "context_switch jd jm s = Some (Booted (entry_point prog) 0x083FFFFC, ?s')"
    using context_switch_eq[OF wf n, of jd jm] q m(1) by (simp add: Let_def)
  moreover have "files_wf ?s'" by (rule started_wf[OF switched_wf(1)[OF wf n3(1)]]) (simp add: ascii_def)
  moreover have "sched_ix ?s' = unat n" "cur_pid (process_array ?s' ! sched_ix ?s') = of_nat i"
    "pcbs ?s' = (pcbs s)(get_pcb (of_nat i) := new_pcb i ?ub ?t)" "process_array ?s' ! sched_ix s = saved_slot s"
    using ix n3 by (simp_all add: started_def Let_def tf)
  moreover have "parent_pid (new_pcb i ?ub ?t) = -1" using n3 q ix by (simp add: new_pcb_def tf Let_def)
  ultimately show ?thesis using m(2,3) un by (intro exI[of _ ?s']) simp
qed

definition no_shell :: "'z kernel_scheme \<Rightarrow> bool" where
  "no_shell s \<longleftrightarrow> files_wf s \<and> (\<exists>img ds. boot_image s img ds \<and>
     (find (\<lambda>d. dentry_name d = ascii ''shell'') ds = None \<or>
      (\<exists>d prog. executable s img ds (ascii ''shell'') d prog) \<and> find (pcb_free s) [0..<8] = None))"

lemma no_shell_execute:
  assumes ns: "no_shell s" and jd: "length jd = 64" and jm: "length jm = 4"
  shows "execute (\<lambda>_. array_rd shell_name) jd jm 0 s = Some (Returned (-1), s\<lparr>iflag := False\<rparr>) \<and> no_shell (s\<lparr>iflag := False\<rparr>)"
proof -
  let ?s0 = "s\<lparr>iflag := False\<rparr>"
  from ns obtain img ds d prog where f: "files_wf s" "boot_image s img ds"
    "find (\<lambda>d. dentry_name d = takeWhile word_char (ascii ''shell'')) ds = None \<or>
      executable s img ds (takeWhile word_char (ascii ''shell'')) d prog \<and> find (pcb_free s) [0..<8] = None"
    unfolding no_shell_def shell_string(2) by blast
  have tr: "translate ?s0 = translate s" by (rule translate_cong) simp_all
  have "execute (\<lambda>_. array_rd shell_name) jd jm 0 s = Some (Returned (-1), ?s0)"
    by (rule execute_fails[of s img ds "\<lambda>_. array_rd shell_name", OF f(1,2) shell_string(1) _ _ jd jm f(3)])
      (simp_all add: shell_string)
  moreover have "paging_wf ?s0 = paging_wf s" by (rule paging_wf_cong) simp_all
  then have "files_wf ?s0" by (intro files_wf_paging(1)[OF f(1)])
      (use f(1) files_paging in \<open>simp_all add: files_wf_def procs_wf_def\<close>)
  moreover have "boot_image ?s0 img ds"
    by (rule boot_image_cong[OF _ tr _ _ _ _ f(2)]) simp_all
  moreover have "executable ?s0 img ds (ascii ''shell'') d prog = executable s img ds (ascii ''shell'') d prog"
    by (rule executable_cong) (simp add: geometry_of_def)
  then have "find (\<lambda>d. dentry_name d = ascii ''shell'') ds = None \<or>
      executable ?s0 img ds (ascii ''shell'') d prog \<and> find (pcb_free ?s0) [0..<8] = None"
    using f(3) unfolding shell_string(2) by simp
  ultimately show ?thesis unfolding no_shell_def by blast
qed

lemma boot_shell_hangs:
  assumes "boot_shell jd jm s = Some r" and "length jd = 64" and "length jm = 4"
  shows "\<not> no_shell s"
proof -
  have "length jd = 64 \<and> length jm = 4 \<longrightarrow> \<not> no_shell s"
  proof (rule boot_shell.raw_induct[OF _ assms(1)])
    fix f jd jm and s :: "'a kernel_scheme" and r
    assume ih: "\<And>jd jm s r. f jd jm s = Some r \<Longrightarrow> length jd = 64 \<and> length jm = 4 \<longrightarrow> \<not> no_shell s"
      and e: "do { (r, s') \<leftarrow> execute (\<lambda>_. array_rd shell_name) jd jm 0 s;
          case r of Returned _ \<Rightarrow> f jd jm s' | EnteredUser eip usp \<Rightarrow> Some (eip, usp, s') } = Some r"
    show "length jd = 64 \<and> length jm = 4 \<longrightarrow> \<not> no_shell s"
    proof (intro impI notI)
      assume l: "length jd = 64 \<and> length jm = 4" and "no_shell s"
      then have x: "execute (\<lambda>_. array_rd shell_name) jd jm 0 s = Some (Returned (-1), s\<lparr>iflag := False\<rparr>)"
        "no_shell (s\<lparr>iflag := False\<rparr>)" using no_shell_execute by blast+
      then have "f jd jm (s\<lparr>iflag := False\<rparr>) = Some r" using e by simp
      from ih[OF this] l x show False by simp
    qed
  qed
  with assms show ?thesis by simp
qed

text \<open>
  Without a shell in the directory, or when all process blocks are in use, the first switch to a
  terminal that has no process does not end: \<open>execute\<close> fails in the same way for ever.
\<close>

theorem context_switch_hangs:
  assumes wf: "files_wf s" and n: "n = next_schedule (schedule_index s)"
    and q: "cur_pid (process_array s ! unat n) = -1" and bi: "boot_image s img ds"
    and none: "find (\<lambda>d. dentry_name d = ascii ''shell'') ds = None \<or>
      executable s img ds (ascii ''shell'') d prog \<and> find (pcb_free s) [0..<8] = None"
    and jd: "length jd = 64" and jm: "length jm = 4"
  shows "context_switch jd jm s = None"
proof -
  have ix: "sched_ix s < 3" using wf ix_bounds(1)[of s] by (simp_all add: files_wf_def procs_wf_def)
  have n3: "unat n < 3" using next_ix[OF ix(1)] n by simp
  let ?t = "switched_to n s"
  have tf: "pcbs ?t = pcbs s" "geometry_of ?t = geometry_of s" by (simp_all add: geometry_of_def switched_to_def Let_def)
  have "no_shell ?t" unfolding no_shell_def tf executable_cong[OF tf(2)]
    using switched_wf(1)[OF wf n3] switched_image[OF wf n3 bi] none by blast
  then have "boot_shell jd jm ?t = None" using boot_shell_hangs[OF _ jd jm, of ?t] by (cases "boot_shell jd jm ?t") auto
  then show ?thesis using context_switch_eq[OF wf n, of jd jm] q by (simp add: Let_def)
qed

end
