(* ===== verification/Idt.thy ===== *)
theory Idt
  imports Scheduler
begin

text \<open>
  Entry into the kernel: the exception handlers and the descriptor table of \<open>_idt.h\<close>, and the
  system call dispatch of \<open>isr_wrapper.S\<close>.  Where the linker places a handler is not known: the
  addresses are a parameter \<open>addr\<close>.
\<close>

section \<open>Exception handlers\<close>

text \<open>
  Every handler prints its message and terminates the process; \<open>halt_exception\<close> does not return
  to the loop behind it.
\<close>

definition exception_handler :: "u8 list \<Rightarrow> u8 list \<Rightarrow> 'z kernel_scheme \<Rightarrow> (i32 \<times> 'z kernel_scheme) option" where
  "exception_handler junk message s0 =
     do { (_, s) \<leftarrow> printf junk (message @ [10, 0]) [] s0;
          let s = cli s;
          halt_exception s }"

definition divide_by_zero :: "u8 list \<Rightarrow> 'z kernel_scheme \<Rightarrow> (i32 \<times> 'z kernel_scheme) option" where
  "divide_by_zero junk = exception_handler junk (ascii ''you can'' @ [39] @ ascii ''t divide by zero bimbo'')"

definition debug_error :: "u8 list \<Rightarrow> 'z kernel_scheme \<Rightarrow> (i32 \<times> 'z kernel_scheme) option" where
  "debug_error junk = exception_handler junk (ascii ''debug error'')"

definition non_maskable_interrupt :: "u8 list \<Rightarrow> 'z kernel_scheme \<Rightarrow> (i32 \<times> 'z kernel_scheme) option" where
  "non_maskable_interrupt junk = exception_handler junk (ascii ''non maskable interrupt'')"

definition breakpoint :: "u8 list \<Rightarrow> 'z kernel_scheme \<Rightarrow> (i32 \<times> 'z kernel_scheme) option" where
  "breakpoint junk = exception_handler junk (ascii ''breakpoint error'')"

definition overflow :: "u8 list \<Rightarrow> 'z kernel_scheme \<Rightarrow> (i32 \<times> 'z kernel_scheme) option" where
  "overflow junk = exception_handler junk (ascii ''overflow error'')"

definition bound_range_excess :: "u8 list \<Rightarrow> 'z kernel_scheme \<Rightarrow> (i32 \<times> 'z kernel_scheme) option" where
  "bound_range_excess junk = exception_handler junk (ascii ''bound range excess'')"

definition exception_nine :: "u8 list \<Rightarrow> 'z kernel_scheme \<Rightarrow> (i32 \<times> 'z kernel_scheme) option" where
  "exception_nine junk = exception_handler junk (ascii ''EXCEPTION 9'')"

definition invalid_opcode :: "u8 list \<Rightarrow> 'z kernel_scheme \<Rightarrow> (i32 \<times> 'z kernel_scheme) option" where
  "invalid_opcode junk = exception_handler junk (ascii ''invalid opcode'')"

definition device_unavailable :: "u8 list \<Rightarrow> 'z kernel_scheme \<Rightarrow> (i32 \<times> 'z kernel_scheme) option" where
  "device_unavailable junk = exception_handler junk (ascii ''device unavailable'')"

definition double_fault :: "u8 list \<Rightarrow> 'z kernel_scheme \<Rightarrow> (i32 \<times> 'z kernel_scheme) option" where
  "double_fault junk = exception_handler junk (ascii ''double fault'')"

definition invalid_tss :: "u8 list \<Rightarrow> 'z kernel_scheme \<Rightarrow> (i32 \<times> 'z kernel_scheme) option" where
  "invalid_tss junk = exception_handler junk (ascii ''invalid tss'')"

definition segment_not_present :: "u8 list \<Rightarrow> 'z kernel_scheme \<Rightarrow> (i32 \<times> 'z kernel_scheme) option" where
  "segment_not_present junk = exception_handler junk (ascii ''segment not present'')"

definition stack_segment_fault :: "u8 list \<Rightarrow> 'z kernel_scheme \<Rightarrow> (i32 \<times> 'z kernel_scheme) option" where
  "stack_segment_fault junk = exception_handler junk (ascii ''stack not present'')"

definition general_protection_fault :: "u8 list \<Rightarrow> 'z kernel_scheme \<Rightarrow> (i32 \<times> 'z kernel_scheme) option" where
  "general_protection_fault junk = exception_handler junk (ascii ''general_protection_fault'')"

definition page_fault :: "u8 list \<Rightarrow> 'z kernel_scheme \<Rightarrow> (i32 \<times> 'z kernel_scheme) option" where
  "page_fault junk = exception_handler junk (ascii ''page_fault'')"

definition floating_point_exception :: "u8 list \<Rightarrow> 'z kernel_scheme \<Rightarrow> (i32 \<times> 'z kernel_scheme) option" where
  "floating_point_exception junk = exception_handler junk (ascii ''floating_point_exception'')"

definition alignment_check :: "u8 list \<Rightarrow> 'z kernel_scheme \<Rightarrow> (i32 \<times> 'z kernel_scheme) option" where
  "alignment_check junk = exception_handler junk (ascii ''alignment_check'')"

definition machine_check :: "u8 list \<Rightarrow> 'z kernel_scheme \<Rightarrow> (i32 \<times> 'z kernel_scheme) option" where
  "machine_check junk = exception_handler junk (ascii ''machine_check'')"

definition floating_point_exception_SIMD :: "u8 list \<Rightarrow> 'z kernel_scheme \<Rightarrow> (i32 \<times> 'z kernel_scheme) option" where
  "floating_point_exception_SIMD junk = exception_handler junk (ascii ''floating_point_exception_SIMD'')"

definition virtualization_exception :: "u8 list \<Rightarrow> 'z kernel_scheme \<Rightarrow> (i32 \<times> 'z kernel_scheme) option" where
  "virtualization_exception junk = exception_handler junk (ascii ''virtualization_exception'')"

definition security_exception :: "u8 list \<Rightarrow> 'z kernel_scheme \<Rightarrow> (i32 \<times> 'z kernel_scheme) option" where
  "security_exception junk = exception_handler junk (ascii ''security_exception'')"

definition triple_fault :: "u8 list \<Rightarrow> 'z kernel_scheme \<Rightarrow> (i32 \<times> 'z kernel_scheme) option" where
  "triple_fault junk = exception_handler junk (ascii ''triple_fault'')"

definition syscall_helper :: "u8 list \<Rightarrow> 'z console_scheme \<Rightarrow> 'z console_scheme option" where
  "syscall_helper junk s =
     map_option snd (printf junk (ascii ''system call received'' @ [10, 0]) [] s)"

section \<open>The descriptor table\<close>

datatype handler =
    DivideByZero | DebugError | NonMaskableInterrupt | Breakpoint | Overflow
  | BoundRangeExcess | ExceptionNine | InvalidOpcode | DeviceUnavailable | DoubleFault
  | InvalidTss | SegmentNotPresent | StackSegmentFault | GeneralProtectionFault | PageFault
  | FloatingPointException | AlignmentCheck | MachineCheck | FloatingPointExceptionSimd
  | VirtualizationException | SecurityException | RtcWrapper | KeyWrapper | MasterWrapper
  | SlaveWrapper | PitWrapper | GeneralWrapper | SyscallWrapper

record idt_desc =
  offset_15_00 :: u16
  seg_selector :: u16
  reserved4 :: u8
  reserved3 :: bool
  reserved2 :: bool
  reserved1 :: bool
  gate_size :: bool
  reserved0 :: bool
  dpl :: nat
  present :: bool
  offset_31_16 :: u16

definition KERNEL_CS :: u16 where "KERNEL_CS = 0x10"

definition set_idt_entry :: "u32 \<Rightarrow> idt_desc \<Rightarrow> idt_desc" where
  "set_idt_entry h e =
     e\<lparr>offset_31_16 := ucast (drop_bit 16 (h AND 0xFFFF0000)), offset_15_00 := ucast (h AND 0xFFFF)\<rparr>"

text \<open>The first loop; its test of the reserved vectors 9, 15 and 30 is true of every \<open>i\<close>.\<close>

definition idt_attributes :: "nat \<Rightarrow> idt_desc \<Rightarrow> idt_desc" where
  "idt_attributes i e0 =
     (let e = e0\<lparr>dpl := 0, present := True, seg_selector := KERNEL_CS, gate_size := True,
            reserved0 := False, reserved1 := True, reserved2 := True, reserved3 := False,
            reserved4 := 0\<rparr>;
          e = (if i \<noteq> 9 \<or> i \<noteq> 15 \<or> i \<noteq> 30 then e\<lparr>reserved3 := True\<rparr> else e);
          e = (if i = 0x21 \<or> i = 0x28 \<or> i = 0x20 \<or> i = 0x22 \<or> i = 0x20
               then e\<lparr>present := True, reserved3 := False\<rparr> else e)
      in if i = 128 then e\<lparr>present := True, dpl := 3\<rparr> else e)"

text \<open>The handler assignments in the order of the source; a later one overrides an earlier one.\<close>

definition idt_assignments :: "(nat \<times> handler) list" where
  "idt_assignments = [(0, DivideByZero), (1, DebugError), (2, NonMaskableInterrupt), (3, Breakpoint),
     (4, Overflow), (5, BoundRangeExcess), (6, InvalidOpcode), (7, DeviceUnavailable),
     (8, DoubleFault), (9, ExceptionNine), (10, InvalidTss), (11, SegmentNotPresent),
     (12, StackSegmentFault), (13, GeneralProtectionFault), (14, PageFault),
     (16, FloatingPointException), (17, AlignmentCheck), (18, MachineCheck),
     (19, FloatingPointExceptionSimd), (20, VirtualizationException),
     (30, SecurityException), (0x28, RtcWrapper), (0x21, KeyWrapper), (0x20, MasterWrapper),
     (0x22, SlaveWrapper), (0x20, PitWrapper)] @
     map (\<lambda>i. (i, GeneralWrapper)) (filter (\<lambda>i. i \<noteq> 0x28 \<and> i \<noteq> 0x21 \<and> i \<noteq> 0x20 \<and> i \<noteq> 0x22 \<and>
       i \<noteq> 128 \<and> i \<noteq> 0x20) [32..<256]) @
     [(128, SyscallWrapper)]"

definition initialize_idt :: "(handler \<Rightarrow> u32) \<Rightarrow> (nat \<Rightarrow> idt_desc) \<Rightarrow> nat \<Rightarrow> idt_desc" where
  "initialize_idt addr idt =
     fold (\<lambda>(i, h) t. t(i := set_idt_entry (addr h) (t i))) idt_assignments
       (\<lambda>i. if i < 256 then idt_attributes i (idt i) else idt i)"

section \<open>System call dispatch\<close>

datatype sys_outcome =
    SysReturn i32
  | SysEnter u32 u32
  | SysParent i32

definition sys_lift :: "(i32 \<times> 'z kernel_scheme) option \<Rightarrow> (sys_outcome \<times> 'z kernel_scheme) option" where
  "sys_lift r = map_option (\<lambda>(v, s). (SysReturn v, s)) r"

text \<open>
  \<open>syscall_wrapper\<close>: the call number in \<open>eax\<close> is checked as a signed number against 1 and 10 and
  selects the entry of \<open>jumptable\<close>; \<open>ebx\<close>, \<open>ecx\<close> and \<open>edx\<close> are the arguments.
\<close>

definition syscall_wrapper :: "(nat \<Rightarrow> 'z kernel_scheme \<Rightarrow> 'z kernel_scheme option) \<Rightarrow> dentry \<Rightarrow> u8 list \<Rightarrow>
    u32 \<Rightarrow> u32 \<Rightarrow> u32 \<Rightarrow> u32 \<Rightarrow> 'z kernel_scheme \<Rightarrow> (sys_outcome \<times> 'z kernel_scheme) option" where
  "syscall_wrapper env junk_dent junk_magic eax ebx ecx edx s =
     (if sint eax < 1 \<or> sint eax > 10 then Some (SysReturn (-1), s)
      else if eax = 1 then map_option (\<lambda>(v, s). (SysParent v, s)) (halt (ucast ebx) s)
      else if eax = 2 then
        map_option (\<lambda>(r, s). (case r of Returned v \<Rightarrow> SysReturn v | EnteredUser e p \<Rightarrow> SysEnter e p, s))
          (execute vread junk_dent junk_magic ebx s)
      else if eax = 3 then sys_lift (sys_read env junk_dent ebx ecx edx s)
      else if eax = 4 then sys_lift (sys_write ebx ecx edx s)
      else if eax = 5 then sys_lift (sys_open junk_dent ebx s)
      else if eax = 6 then sys_lift (sys_close ebx s)
      else if eax = 7 then sys_lift (getargs ebx ecx s)
      else if eax = 8 then sys_lift (vidmap ebx s)
      else if eax = 9 then sys_lift (set_handler ebx ecx s)
      else sys_lift (sigreturn s))"

section \<open>Exceptions end the process\<close>

lemma files_wf_prints:
  fixes s :: "'z kernel_scheme"
  assumes wf: "files_wf s" and p: "prints s t" and cw: "console_wf t"
  shows "files_wf t"
proof -
  obtain m xs ys where t: "t = s\<lparr>phys := m, screen_x := xs, screen_y := ys\<rparr>" using p by (auto simp: prints_def)
  have "fds_at t = fds_at s" unfolding t by (rule fds_at_cong) simp_all
  with wf cw show ?thesis by (simp add: files_wf_def procs_wf_def t)
qed

lemma exception_step:
  assumes wf: "files_wf s" and co: "coherent s" and m: "0 \<notin> set message" "37 \<notin> set message"
  shows "\<exists>t s'. exception_handler junk message s = Some (ret_status s, s') \<and> prints s t \<and>
    (\<forall>i<3. term_view t i = (if i = sched_ix s then fold term_putc (message @ [10]) (term_view s i) else term_view s i)) \<and>
    back_to_parent t s' \<and> files_wf s'"
proof -
  have cw: "console_wf s" using wf by (simp add: files_wf_def procs_wf_def)
  have m': "0 \<notin> set (message @ [10])" "37 \<notin> set (message @ [10])" using m by auto
  obtain t where t: "putcs (message @ [10]) s = Some t" "console_wf t" "prints s t"
    "\<forall>i<3. term_view t i = (if i = sched_ix s then fold term_putc (message @ [10]) (term_view s i) else term_view s i)"
    using putcs_refines[OF cw co, of "message @ [10]"] by blast
  have pr: "printf junk (message @ [10, 0]) [] s = Some (of_nat (length (message @ [10])), t)"
    using printf_literal[OF cw m', of junk "[]"] t(1) by auto
  have tw: "files_wf t" by (rule files_wf_prints[OF wf t(3,2)])
  have "paging_wf (cli t) = paging_wf t" by (rule paging_wf_cong) (simp_all add: cli_def)
  then have tc: "files_wf (cli t)" using tw files_paging[OF tw]
    by (intro files_wf_paging(1)[OF tw]) (simp_all add: cli_def files_wf_def procs_wf_def)
  obtain s' where s': "halt_exception (cli t) = Some (ret_status (cli t), s')" "back_to_parent (cli t) s'" "files_wf s'"
    using halt_exception_step[OF tc] by blast
  have "fds_at (cli t) = fds_at t" by (rule fds_at_cong) (simp_all add: cli_def)
  then have "back_to_parent t s'" using s'(2) by (simp add: back_to_parent_def cli_def)
  moreover have "ret_status t = ret_status s" using t(3) by (auto simp: prints_def)
  ultimately show ?thesis using pr s' t by (intro exI[of _ t] exI[of _ s']) (simp add: exception_handler_def cli_def)
qed

definition exception_handlers :: "u8 list \<Rightarrow> ('z kernel_scheme \<Rightarrow> (i32 \<times> 'z kernel_scheme) option) set" where
  "exception_handlers junk =
     {divide_by_zero junk, debug_error junk, non_maskable_interrupt junk, breakpoint junk, overflow junk,
      bound_range_excess junk, exception_nine junk, invalid_opcode junk, device_unavailable junk, double_fault junk,
      invalid_tss junk, segment_not_present junk, stack_segment_fault junk, general_protection_fault junk,
      page_fault junk, floating_point_exception junk, alignment_check junk, machine_check junk,
      floating_point_exception_SIMD junk, virtualization_exception junk, security_exception junk, triple_fault junk}"

lemma exception_message:
  assumes "h \<in> exception_handlers junk"
  obtains message where "h = exception_handler junk message" "0 \<notin> set message" "37 \<notin> set message"
  using assms unfolding exception_handlers_def divide_by_zero_def debug_error_def non_maskable_interrupt_def
    breakpoint_def overflow_def bound_range_excess_def exception_nine_def invalid_opcode_def device_unavailable_def
    double_fault_def invalid_tss_def segment_not_present_def stack_segment_fault_def general_protection_fault_def
    page_fault_def floating_point_exception_def alignment_check_def machine_check_def
    floating_point_exception_SIMD_def virtualization_exception_def security_exception_def triple_fault_def
  by (elim insertE emptyE; simp add: ascii_def)


section \<open>The gates\<close>

definition gate_addr :: "idt_desc \<Rightarrow> u32" where
  "gate_addr e = push_bit 16 (ucast (offset_31_16 e)) OR ucast (offset_15_00 e)"

lemma gate_addr_set [simp]: "gate_addr (set_idt_entry h e) = h"
proof -
  have m: "(0xFFFF :: u32) = mask 16" "(0xFFFF0000 :: u32) = push_bit 16 (mask 16)"
    by (simp_all add: mask_eq_exp_minus_1 push_bit_eq_mult)
  show ?thesis unfolding gate_addr_def set_idt_entry_def m
    by (rule bit_word_eqI) (auto simp: bit_simps)
qed

lemma set_entry_set [simp]: "set_idt_entry h (set_idt_entry h' e) = set_idt_entry h e"
  by (simp add: set_idt_entry_def)

lemma set_entry_fields: "present (set_idt_entry h e) = present e" "seg_selector (set_idt_entry h e) = seg_selector e"
  "dpl (set_idt_entry h e) = dpl e"
  by (simp_all add: set_idt_entry_def)

lemma fold_entries:
  "fold (\<lambda>(i, h) t. t(i := set_idt_entry (addr h) (t i))) xs t i =
     (case map_of (rev xs) i of None \<Rightarrow> t i | Some h \<Rightarrow> set_idt_entry (addr h) (t i))"
proof (induction xs rule: rev_induct)
  case (snoc x xs)
  then show ?case by (cases x) (auto split: option.splits)
qed simp

lemma map_of_const: "map_of (rev (map (\<lambda>i. (i, h)) xs)) k = (if k \<in> set xs then Some h else None)"
  by (induction xs rule: rev_induct) auto

lemma assigned_vectors: "(i \<in> fst ` set idt_assignments) = (i < 15 \<or> 16 \<le> i \<and> i < 21 \<or> i = 30 \<or> 32 \<le> i \<and> i < 256)"
proof -
  have mid: "fst ` set (map (\<lambda>i. (i, GeneralWrapper)) (filter P [32..<256])) = {i. 32 \<le> i \<and> i < 256 \<and> P i}" for P
    by (simp only: set_map image_image fst_conv set_filter set_upt image_ident) auto
  show ?thesis
    unfolding idt_assignments_def set_append image_Un mid
    by (simp del: upt_rec_numeral) presburger
qed

lemma unassigned: "(map_of (rev idt_assignments) i = None) = (\<not> (i < 15 \<or> 16 \<le> i \<and> i < 21 \<or> i = 30 \<or> 32 \<le> i \<and> i < 256))"
  by (simp only: map_of_eq_None_iff set_rev assigned_vectors)

text \<open>
  C27: The interrupt table.  Every gate is present with the kernel code segment; only the system call
  gate 0x80 may be used from user mode.  A gate leads to the handler assigned last to its vector:
  the timer on 0x20, the keyboard on 0x21, the clock on 0x28 and the system call on 0x80, and an
  exception handler on the vectors 0 to 20 and 30, except 15.  The vectors 15, 21 to 29 and 31 are
  present without a handler: their offset is whatever the table held before.
\<close>

theorem initialize_idt_gates:
  assumes i: "i < 256" and g: "g = initialize_idt addr idt i"
  shows "present g \<and> seg_selector g = KERNEL_CS \<and> (dpl g = (if i = 128 then 3 else 0)) \<and>
    (case map_of (rev idt_assignments) i of Some h \<Rightarrow> gate_addr g = addr h
     | None \<Rightarrow> offset_31_16 g = offset_31_16 (idt i) \<and> offset_15_00 g = offset_15_00 (idt i)) \<and>
    (map_of (rev idt_assignments) i = None \<longleftrightarrow> i \<in> {15, 31} \<union> {21..29}) \<and>
    map_of (rev idt_assignments) 0x20 = Some PitWrapper \<and> map_of (rev idt_assignments) 0x21 = Some KeyWrapper \<and>
    map_of (rev idt_assignments) 0x28 = Some RtcWrapper \<and> map_of (rev idt_assignments) 128 = Some SyscallWrapper \<and>
    map_of (rev idt_assignments) 14 = Some PageFault"
proof -
  have e: "g = (case map_of (rev idt_assignments) i of None \<Rightarrow> idt_attributes i (idt i)
      | Some h \<Rightarrow> set_idt_entry (addr h) (idt_attributes i (idt i)))"
    using i unfolding g initialize_idt_def fold_entries by simp
  have "present (idt_attributes i x)" "seg_selector (idt_attributes i x) = KERNEL_CS"
    "dpl (idt_attributes i x) = (if i = 128 then 3 else 0)" "offset_31_16 (idt_attributes i x) = offset_31_16 x"
    "offset_15_00 (idt_attributes i x) = offset_15_00 x" for x
    by (simp_all add: idt_attributes_def Let_def)
  then have "present g" "seg_selector g = KERNEL_CS" "dpl g = (if i = 128 then 3 else 0)"
    "case map_of (rev idt_assignments) i of Some h \<Rightarrow> gate_addr g = addr h
     | None \<Rightarrow> offset_31_16 g = offset_31_16 (idt i) \<and> offset_15_00 g = offset_15_00 (idt i)"
    unfolding e by (cases "map_of (rev idt_assignments) i"; simp only: option.case set_entry_fields gate_addr_set simp_thms)+
  moreover have "map_of (rev idt_assignments) i = None \<longleftrightarrow> i \<in> {15, 31} \<union> {21..29}"
    unfolding unassigned using i by auto
  moreover have "map_of (rev idt_assignments) 0x20 = Some PitWrapper" "map_of (rev idt_assignments) 0x21 = Some KeyWrapper"
    "map_of (rev idt_assignments) 0x28 = Some RtcWrapper" "map_of (rev idt_assignments) 128 = Some SyscallWrapper"
    "map_of (rev idt_assignments) 14 = Some PageFault"
    unfolding idt_assignments_def rev_append map_of_append map_add_def map_of_const
    by (simp_all del: upt_rec_numeral)
  ultimately show ?thesis by blast
qed

end
