(* ===== verification/Lines.thy ===== *)
theory Lines
  imports Keyboard Polling
begin

text \<open>
  The line discipline of the keyboard driver (\<open>keyboard.c\<close>): what the status variables mean for the
  modifier keys, how a reader waits for its line and receives it, and how backspace corrects it.
\<close>

section \<open>Modifier keys\<close>

text \<open>
  What the three status variables stand for: shift held, caps lock on, control held, alt held.
  \<open>mod_step\<close> is the intended effect of a scancode on them; caps lock pressed while shift is held
  does nothing.
\<close>

definition mods :: "'z keyboard_scheme \<Rightarrow> bool \<times> bool \<times> bool \<times> bool" where
  "mods s = (key_status s \<in> {1, 3}, key_status s \<in> {2, 3}, key_flag s = 1, terminal_flag s = 1)"

definition mod_step :: "u8 \<Rightarrow> bool \<times> bool \<times> bool \<times> bool \<Rightarrow> bool \<times> bool \<times> bool \<times> bool" where
  "mod_step code = (\<lambda>(shift, caps, ctrl, alt).
     (if code = 0x2A \<or> code = 0x36 then True else if code = 0xAA \<or> code = 0xB6 then False else shift,
      if code = 0x3A \<and> \<not> shift then \<not> caps else caps,
      if code = 0x1D then True else if code = 0x9D then False else ctrl,
      if code = 0x38 then True else if code = 0xB8 then False else alt))"

lemma scancode_mods:
  assumes wf: "keyboard_wf s"
  shows "\<exists>i s'. scancode_step code s = Some (i, s') \<and> mods s' = mod_step code (mods s)"
proof -
  have cw: "console_wf s" using wf by (simp add: keyboard_wf_def procs_wf_def)
  have st: "key_status s = 0 \<or> key_status s = 1 \<or> key_status s = 2 \<or> key_status s = 3"
    using wf by (simp add: keyboard_wf_def)
  obtain t0 t1 t2 where sw: "switch_vid 0 s = Some (1, t0)" "switch_vid 1 s = Some (1, t1)"
      "switch_vid 2 s = Some (1, t2)" and f: "key_frame s t0" "key_frame s t1" "key_frame s t2"
    using switch_key_frame[OF cw, of 0] switch_key_frame[OF cw, of 1] switch_key_frame[OF cw, of 2] by auto
  obtain u where u: "key_clear_screen s = Some u" "console_wf u" "prints s u" using clear_safe(1)[OF cw] by blast
  note uf = prints_key_frame[OF u(3,2)]
  obtain b where b: "backspace s = Some b" "key_status b = key_status s" "key_flag b = key_flag s" "terminal_flag b = terminal_flag s"
    using backspace_step[OF wf] by blast
  have same: "key_status t0 = key_status s" "key_flag t0 = key_flag s" "terminal_flag t0 = terminal_flag s"
    "key_status t1 = key_status s" "key_flag t1 = key_flag s" "terminal_flag t1 = terminal_flag s"
    "key_status t2 = key_status s" "key_flag t2 = key_flag s" "terminal_flag t2 = terminal_flag s"
    "key_status u = key_status s" "key_flag u = key_flag s" "terminal_flag u = terminal_flag s"
    using f uf by (simp_all add: key_frame_def)
  define Q where "Q x \<longleftrightarrow> (\<exists>i s'. x = Some (i, s') \<and> mods s' = mod_step code (mods s))"
    for x :: "(u32 \<times> 'a keyboard_scheme) option"
  have Q_if: "(c \<Longrightarrow> Q a) \<Longrightarrow> (\<not> c \<Longrightarrow> Q e) \<Longrightarrow> Q (if c then a else e)" for c a e by simp
  have Qs: "mods t = mod_step code (mods s) \<Longrightarrow> Q (Some (i, t))" for t i by (simp add: Q_def)
  have "Q (scancode_step code s)" unfolding scancode_step_def key_consts
    by (intro Q_if; (simp only: sw u b Option.bind.simps prod.case)?; intro Qs;
        use st in \<open>auto simp: mods_def mod_step_def same b\<close>)
  then show ?thesis by (simp add: Q_def)
qed

lemma getchar_mods:
  assumes wf: "keyboard_wf s" and c: "first_code codes 0 = Some code" and g: "getchar codes s = Some (ch, s')"
  shows "mods s' = mod_step code (mods s)"
  using scancode_mods[OF wf, of code] c g by (auto simp: getchar_def getScancode_def bind_Some_iff)

lemma mods_simps [simp]:
  "mods (s\<lparr>terminal1_buffer := b, counter1 := c\<rparr>) = mods s" "mods (s\<lparr>terminal2_buffer := b, counter2 := c\<rparr>) = mods s"
  "mods (s\<lparr>terminal3_buffer := b, counter3 := c\<rparr>) = mods s" "mods (s\<lparr>flag_keyboard := fs\<rparr>) = mods s"
  "mods (send_eoi irq s) = mods s"
  by (simp_all add: mods_def send_eoi_def outb_def)

lemma store_key_mods:
  assumes "console_wf s" and "store_key c s = Some s'"
  shows "mods s' = mods s"
proof -
  obtain t where "putc_keyboard c s = Some t" "prints s t" using putc_keyboard_safe[OF assms(1)] by blast
  then have "putc_keyboard c s = Some t" "mods t = mods s" by (auto simp: prints_def mods_def)
  note t = this
  consider "visible_screen s = 0" | "visible_screen s = 1" | "visible_screen s = 2" | "s' = s"
    using assms(2) by (auto simp: store_key_def split: if_splits)
  then show ?thesis
    by cases (use assms(2) t in \<open>simp_all add: store_key_def arr_set_def split: if_splits\<close>,
      (metis mods_simps(1-3))+)
qed

text \<open>
  The modifier keys.  Every keyboard interrupt moves the driver's status variables as \<open>mod_step\<close>
  moves the state of the four modifier keys they stand for: shift follows the press and release of
  either shift key, caps lock toggles unless shift is held, control and alt follow their keys.
\<close>

theorem interrupt_keyboard_modifiers:
  assumes wf: "keyboard_wf s" and c: "first_code codes 0 = Some code"
    and i: "interrupt_keyboard codes s = Some s'"
  shows "mods s' = mod_step code (mods s)"
proof -
  obtain ch s1 where g: "getchar codes s = Some (ch, s1)" "keyboard_wf s1"
    using getchar_step[of s codes, OF wf c] by blast
  then have cw: "console_wf s1" by (simp add: keyboard_wf_def procs_wf_def)
  from i g obtain s2 where s2: "(if ch = 0 then Some s1 else store_key ch s1) = Some s2" "mods s' = mods s2"
    by (simp add: interrupt_keyboard_def bind_Some_iff split: if_splits) (metis mods_simps(4,5))+
  have "mods s2 = mods s1" using s2(1) store_key_mods[OF cw] by (auto split: if_splits)
  with s2 getchar_mods[of s codes, OF wf c g(1)] show ?thesis by simp
qed

section \<open>Reading a line\<close>

interpretation keyw: poller "\<lambda>s. key_ready (screen_idx (pcbs s p)) s" "\<lambda>env. key_wait env p" for p
proof unfold_locales
  fix env k and s :: "'a keyboard_scheme"
  show "key_wait env p k s = do { r \<leftarrow> key_ready (screen_idx (pcbs s p)) s;
      if r then Some s else do { s' \<leftarrow> env k s; key_wait env p (Suc k) s' } }"
    by (rule key_wait.simps)
next
  fix env k and s t :: "'a keyboard_scheme" and P
  assume w: "key_wait env p k s = Some t"
    and stop: "\<And>k s. key_ready (screen_idx (pcbs s p)) s = Some True \<Longrightarrow> P k s s"
    and go: "\<And>k s u t. key_ready (screen_idx (pcbs s p)) s = Some False \<Longrightarrow> env k s = Some u \<Longrightarrow> P (Suc k) u t \<Longrightarrow> P k s t"
  show "P k s t"
    by (rule key_wait.raw_induct[OF _ w, of "\<lambda>e q k s t. e = env \<longrightarrow> q = p \<longrightarrow> P k s t", rule_format, OF _ refl refl])
      (auto simp: bind_Some_iff intro: stop go split: if_splits)
qed

lemma copy_store:
  "i + n \<le> length line \<Longrightarrow> for_up i n (\<lambda>i s. do { b \<leftarrow> arr_get line i; vwrite s (buf + of_nat i) b }) s =
     store_bytes vwrite s (buf + of_nat i) (take n (drop i line))"
proof (induction n arbitrary: i s)
  case (Suc n)
  then have "take (Suc n) (drop i line) = line ! i # take n (drop (Suc i) line)"
    by (simp add: take_Suc_conv_app_nth Cons_nth_drop_Suc[symmetric])
  with Suc.IH[of "Suc i"] Suc.prems show ?case
    by (cases "vwrite s (buf + of_nat i) (line ! i)") (simp_all add: algebra_simps)
qed simp

lemma padded_reads:
  assumes "0 \<notin> set xs" and "length xs < n" and "n < 2 ^ 32"
  shows "cstring array_rd (xs @ replicate (n - length xs) 0) 0 xs"
  unfolding cstring_def using assms
  by (intro conjI load_bytes_SomeI)
    (auto simp: array_rd_def unat_of_nat take_bit_nat_eq_self nth_append less_Suc_eq)

lemma copy_line_step:
  assumes lh: "line_holds n b xs" and len: "length xs < 128"
  shows "copy_line b buf s = do { s' \<leftarrow> store_bytes vwrite s buf (xs @ [0]); Some (of_nat (length xs), s') }"
proof -
  have b: "b = xs @ replicate (128 - length xs) 0" "0 \<notin> set xs" using lh by (simp_all add: line_holds_def)
  have "strlen array_rd b 0 = Some (of_nat (length xs))"
    unfolding b(1) by (rule strlen_cstring[OF padded_reads[OF b(2) len]]) simp
  moreover have "unat (of_nat (length xs) :: u32) = length xs" using len by (simp add: unat_of_nat take_bit_nat_eq_self)
  moreover have "for_up 0 (length xs) (\<lambda>i s. do { c \<leftarrow> arr_get b i; vwrite s (buf + of_nat i) c }) s = store_bytes vwrite s buf xs"
    using copy_store[of 0 "length xs" b buf s] len b by simp
  ultimately show ?thesis
    by (simp add: copy_line_def store_bytes_append)
qed

lemma copy_line_full:
  assumes lh: "line_holds n b xs" and len: "length xs = 128"
  shows "copy_line b buf s = None"
proof -
  have b: "b = xs" "0 \<notin> set b" using lh len by (simp_all add: line_holds_def)
  have "strlen_from array_rd b 0 (of_nat i) = None" if "i \<le> 128" for i
    using that
  proof (induction rule: inc_induct)
    case base
    then show ?case using b len by (subst strlen_from.simps) (simp add: array_rd_def arr_get_def)
  next
    case (step i)
    then have "array_rd b (of_nat i) = Some (b ! i)" "b ! i \<in> set b"
      using b(1) len by (simp_all add: array_rd_def unat_of_nat take_bit_nat_eq_self)
    moreover from this b(2) have "b ! i \<noteq> 0" by metis
    ultimately show ?case using step.IH by (subst strlen_from.simps) (simp add: add.commute)
  qed
  from this[of 0] show ?thesis by (simp add: copy_line_def strlen_def)
qed

text \<open>After the wait ended in \<open>t\<close>.\<close>

lemma keyboard_read_eq:
  assumes fd: "get_fd fd s = Some d" "flags d \<noteq> 0" and slot: "cur_slot s = Some slot"
    and w: "key_wait env (get_pcb (cur_pid slot)) 0 s = Some t" and wf: "keyboard_wf t"
  shows "keyboard_read env fd buf nbytes s =
    do { (n, s) \<leftarrow> copy_line (kbuf t (vis_ix t)) buf (t\<lparr>flag_keyboard := (flag_keyboard t)[vis_ix t := 0]\<rparr>);
         Some (n, set_line (vis_ix t) 0 (replicate 128 0) s) }"
proof -
  have v: "vis_ix t < 3" using wf by (intro ix_bounds(2)) (simp add: keyboard_wf_def procs_wf_def)
  have fl: "length (flag_keyboard t) = 3" using wf by (simp add: keyboard_wf_def)
  have vc: "visible_screen t = 0 \<or> visible_screen t = 1 \<or> visible_screen t = 2"
    using v by (intro lt3_cases) (simp add: word_less_nat_alt)
  have ord: "s\<lparr>terminal1_buffer := b, counter1 := c\<rparr> = s\<lparr>counter1 := c, terminal1_buffer := b\<rparr>"
    "s\<lparr>terminal2_buffer := b, counter2 := c\<rparr> = s\<lparr>counter2 := c, terminal2_buffer := b\<rparr>"
    "s\<lparr>terminal3_buffer := b, counter3 := c\<rparr> = s\<lparr>counter3 := c, terminal3_buffer := b\<rparr>"
    for s :: "'a keyboard_scheme" and b c by simp_all
  show ?thesis
    using vc fd slot w fl by (elim disjE) (simp_all add: keyboard_read_def kbuf_def set_line_def ord)
qed

text \<open>
  C25: Reading a line.  \<open>keyboard_read\<close> on an open descriptor waits until a poll finds the reader's
  terminal on the screen with its flag set; it then stores the line typed there, with a terminating
  NUL, at \<open>buf\<close>, returns the line's length (whatever \<open>nbytes\<close> is), lowers the flag and empties the
  line, and leaves the other lines alone.  A line that fills all 128 bytes has no terminator: the
  driver reads past its buffer.
\<close>

theorem keyboard_read_delivers:
  assumes fd: "get_fd fd s = Some d" "flags d \<noteq> 0" and slot: "cur_slot s = Some slot"
    and stop: "stops_at (\<lambda>s. key_ready (screen_idx (pcbs s (get_pcb (cur_pid slot)))) s) env 0 n s t"
    and wf: "keyboard_wf t"
  shows "keyboard_read env fd buf nbytes s =
      (if length (kline t (vis_ix t)) = 128 then None
       else do { s' \<leftarrow> store_bytes vwrite (t\<lparr>flag_keyboard := (flag_keyboard t)[vis_ix t := 0]\<rparr>) buf (kline t (vis_ix t) @ [0]);
                 Some (of_nat (length (kline t (vis_ix t))), set_line (vis_ix t) 0 (replicate 128 0) s') }) \<and>
    screen_idx (pcbs t (get_pcb (cur_pid slot))) = visible_screen t \<and> flag_keyboard t ! vis_ix t \<noteq> 0"
proof -
  let ?v = "vis_ix t" and ?t = "t\<lparr>flag_keyboard := (flag_keyboard t)[vis_ix t := 0]\<rparr>"
  have cw: "console_wf t" using wf by (simp add: keyboard_wf_def procs_wf_def)
  have v: "?v < 3" by (rule ix_bounds(2)[OF cw])
  have w: "key_wait env (get_pcb (cur_pid slot)) 0 s = Some t" by (rule keyw.wait_stops[OF stop])
  have r: "key_ready (screen_idx (pcbs t (get_pcb (cur_pid slot)))) t = Some True" using stop by (simp add: stops_at_def)
  have fl: "length (flag_keyboard t) = 3" using wf by (simp add: keyboard_wf_def)
  have r2: "screen_idx (pcbs t (get_pcb (cur_pid slot))) = visible_screen t" "flag_keyboard t ! ?v \<noteq> 0"
    using r v fl by (auto simp: key_ready_def split: if_splits)
  have lh: "line_holds (kcount t ?v) (kbuf t ?v) (kline t ?v)" using wf v by (simp add: keyboard_wf_def)
  then have le: "length (kline t ?v) \<le> 128" by (simp add: line_holds_def)
  have cp: "copy_line (kbuf t ?v) buf ?t = (if length (kline t ?v) = 128 then None
      else do { s' \<leftarrow> store_bytes vwrite ?t buf (kline t ?v @ [0]); Some (of_nat (length (kline t ?v)), s') })"
    using copy_line_step[OF lh] copy_line_full[OF lh] le by (cases "length (kline t ?v) = 128") (simp_all add: le_neq_trans)
  from keyboard_read_eq[OF fd slot w wf]
  have "keyboard_read env fd buf nbytes s = do { (n, s) \<leftarrow> copy_line (kbuf t ?v) buf ?t; Some (n, set_line ?v 0 (replicate 128 0) s) }" .
  then show ?thesis unfolding cp using r2 by simp
qed

section \<open>Correcting a line\<close>

lemma delete_getchar:
  assumes "codes 0 = 0x0E"
  shows "getchar codes s = do { t \<leftarrow> backspace s; c \<leftarrow> key_char (key_status t) 0; Some (c, t) }"
proof -
  have "first_code codes 0 = Some 0x0E" using first_code_now[of codes] assms by simp
  then show ?thesis by (simp add: getchar_def getScancode_def scancode_step_def key_consts)
qed

text \<open>
  Backspace takes the last character from the line of the visible terminal, or does nothing to an
  empty line; the lines of the other terminals stay as they are.
\<close>

theorem interrupt_keyboard_deletes:
  assumes wf: "keyboard_wf s" and code: "codes 0 = 0x0E"
  shows "\<exists>s'. interrupt_keyboard codes s = Some s' \<and> keyboard_wf s' \<and> mods s' = mods s \<and>
    (\<forall>i<3. kline s' i = (if i = vis_ix s then butlast (kline s i) else kline s i))"
proof -
  obtain t where t: "backspace s = Some t" "keyboard_wf t" "visible_screen t = visible_screen s"
    "key_status t = key_status s" "key_flag t = key_flag s" "terminal_flag t = terminal_flag s"
    "\<forall>j<3. kline t j = (if j = vis_ix s then butlast (kline s j) else kline s j)"
    using backspace_step[OF wf] by blast
  have "key_char (key_status t) 0 = Some 0" using t(2) by (intro key_char_0) (simp add: keyboard_wf_def)
  then have g: "getchar codes s = Some (0, t)" using delete_getchar[of codes s, OF code] t(1) by simp
  obtain fs ps where i: "interrupt_keyboard codes s = Some (t\<lparr>flag_keyboard := fs, port_out := ps\<rparr>)"
    "keyboard_wf (t\<lparr>flag_keyboard := fs, port_out := ps\<rparr>)"
    using interrupt_tail[OF t(2) g] by auto
  have "kline (t\<lparr>flag_keyboard := fs, port_out := ps\<rparr>) = kline t" by (simp add: fun_eq_iff kline_def kcount_def kbuf_def)
  with i t show ?thesis by (intro exI[of _ "t\<lparr>flag_keyboard := fs, port_out := ps\<rparr>"]) (simp add: mods_def)
qed

end
