(* ===== verification/Calls.thy ===== *)
theory Calls
  imports Lifecycle
begin

text \<open>
  System calls over the address space: what user mode can reach, the checks of \<open>read\<close> and \<open>write\<close>
  (\<open>syscall.c\<close>), and the user video page of \<open>vidmap\<close>.
\<close>

section \<open>Isolation\<close>

lemma user_confined:
  assumes wf: "paging_wf s" and e: "pdt s EXEC = START_ADDRESS + FOURMB * of_nat i" and i: "i < 8"
    and u: "user_ok s a" and t: "translate s a = Some c"
  shows "unat c div 0x400000 = i + 2 \<or> 0xB8000 \<le> unat c \<and> unat c < 0xBC000"
proof -
  consider (exec) "unat a div 0x400000 = 32" "c = a - 0x7800000 + FOURMB * of_nat i"
    | (vid) k where "unat a div 0x1000 = 0x10000" "k \<le> 3" "c = a - 0x10000000 + 0xB8000 + 0x1000 * k"
    using user_reach[OF wf u e] t by auto
  then show ?thesis
  proof cases
    case exec
    define r where "r = unat a mod 0x400000"
    have a: "unat a = 0x08000000 + r" "r < 0x400000" using exec(1) div_mult_mod_eq[of "unat a" "0x400000"] by (auto simp: r_def)
    then have "a = of_nat (0x08000000 + r)" by (metis of_nat_unat ucast_id)
    then have "c = of_nat (0x800000 + r + 0x400000 * i)" using exec(2) by (simp add: FOURMB_def)
    moreover have "0x800000 + r + 0x400000 * i < 2 ^ 32" using a i by simp
    ultimately have "unat c = 0x800000 + r + 0x400000 * i" by (simp only: unat_of_nat) (simp add: take_bit_nat_eq_self)
    then have "unat c = 0x400000 * (i + 2) + r" by simp
    then show ?thesis using a(2) by simp
  next
    case vid
    define r where "r = unat a mod 0x1000"
    have a: "unat a = 0x10000000 + r" "r < 0x1000" using vid(1) div_mult_mod_eq[of "unat a" "0x1000"] by (auto simp: r_def)
    then have "a = of_nat (0x10000000 + r)" by (metis of_nat_unat ucast_id)
    then have "c = of_nat (0xB8000 + r + 0x1000 * unat k)" using vid(3) by simp
    moreover have k: "unat k \<le> 3" using vid(2) by (simp add: word_le_nat_alt)
    then have "0xB8000 + r + 0x1000 * unat k < 2 ^ 32" using a by simp
    ultimately have "unat c = 0xB8000 + r + 0x1000 * unat k" by (simp only: unat_of_nat) (simp add: take_bit_nat_eq_self)
    then show ?thesis using a(2) k by simp
  qed
qed


section \<open>Read and write\<close>

lemma fd_small: "(sint fd < 0 \<or> 7 < sint (fd :: u32)) = (7 < unat fd)"
  using fd_range[of fd] by auto

lemma sys_read_write_step:
  assumes wf: "files_wf s" and d: "d = cur_fds s ! unat fd"
  shows "sys_read env dent fd buf nbytes s =
      (if 7 < unat fd \<or> buf = 0 \<or> flags d = 0 \<or> fd = 1 then Some (-1, s)
       else table_read env dent (table_pointer d) fd buf nbytes s) \<and>
    sys_write fd buf nbytes s =
      (if 7 < unat fd \<or> buf = 0 \<or> flags d = 0 \<or> fd = 0 then Some (-1, s)
       else table_write (table_pointer d) fd buf nbytes s) \<and>
    (unat fd < 8 \<longrightarrow> flags d = 0 \<or> table_pointer d \<noteq> NullTable)"
proof -
  have g: "unat fd < 8 \<Longrightarrow> get_fd fd s = Some d" unfolding d by (rule files_get[OF wf])
  have "length (cur_fds s) = 8" using wf by (intro fds_length) (simp add: files_wf_def)
  then have "unat fd < 8 \<Longrightarrow> d \<in> set (cur_fds s)" unfolding d by (intro nth_mem) simp
  then have "unat fd < 8 \<Longrightarrow> fd_valid d" using wf by (simp add: files_wf_def)
  then have "unat fd < 8 \<longrightarrow> flags d = 0 \<or> table_pointer d \<noteq> NullTable" by (simp add: fd_valid_def)
  moreover have "7 < unat fd \<or> unat fd < 8" by arith
  ultimately show ?thesis using g by (auto simp: sys_read_def sys_write_def fd_small)
qed

text \<open>
  The checks of \<open>read\<close> and \<open>write\<close>: a number outside the table, a null buffer, a descriptor that
  is not open, reading stdout and writing stdin return \<open>-1\<close> and change nothing; every other call is
  passed to the driver of the descriptor, which always exists.
\<close>

theorem sys_read_write_dispatch:
  assumes wf: "files_wf s" and d: "d = cur_fds s ! unat fd"
  shows "sys_read env dent fd buf nbytes s =
      (if 7 < unat fd \<or> buf = 0 \<or> flags d = 0 \<or> fd = 1 then Some (-1, s)
       else table_read env dent (table_pointer d) fd buf nbytes s) \<and>
    sys_write fd buf nbytes s =
      (if 7 < unat fd \<or> buf = 0 \<or> flags d = 0 \<or> fd = 0 then Some (-1, s)
       else table_write (table_pointer d) fd buf nbytes s) \<and>
    (unat fd < 8 \<longrightarrow> flags d = 0 \<or> table_pointer d \<noteq> NullTable)"
  by (rule sys_read_write_step[OF assms])

section \<open>The user video page\<close>

lemma user_word:
  assumes pw: "paging_wf s" and e: "pdt s EXEC = START_ADDRESS + FOURMB * of_nat i"
    and p: "0x08000000 \<le> unat p" "unat p + n \<le> 0x08400000"
  shows "\<forall>k<n. translate s (p + of_nat k) = Some (p + of_nat k - 0x7800000 + FOURMB * of_nat i)" "inj_cells translate s p n"
proof -
  have u: "unat (p + of_nat k) = unat p + k" if "k < n" for k
  proof -
    have "p + of_nat k = (of_nat (unat p + k) :: u32)" by simp
    moreover have "unat p + k < 2 ^ 32" using p that by simp
    ultimately show ?thesis by (simp only: unat_of_nat) (simp add: take_bit_nat_eq_self)
  qed
  have "unat (p + of_nat k) div 0x400000 = 32" if "k < n" for k unfolding u[OF that] using p that by (simp add: div_nat_eqI)
  from translate_exec[OF pw this e] show t: "\<forall>k<n. translate s (p + of_nat k) = Some (p + of_nat k - 0x7800000 + FOURMB * of_nat i)" by simp
  show "inj_cells translate s p n" unfolding inj_cells_def
  proof (intro allI impI)
    fix j k assume jk: "j < n" "k < n" "j \<noteq> k"
    then have "p + of_nat j \<noteq> p + of_nat k" using u[of j] u[of k] by (metis add_left_imp_eq)
    with t jk show "translate s (p + of_nat j) \<noteq> translate s (p + of_nat k)" by simp
  qed
qed

lemma bytes_le32: "le32 (byte_of w 0) (byte_of w (Suc 0)) (byte_of w 2) (byte_of w 3) = w"
proof -
  let ?x = "unat w"
  have lt: "?x < 2 ^ 32" using unsigned_less[of w] by simp
  have b: "ucast (byte_of w k) = (of_nat (?x div 2 ^ (8 * k) mod 256) :: u32)" for k
  proof -
    have "(ucast (byte_of w k) :: u32) = take_bit 8 (drop_bit (8 * k) w)"
      unfolding byte_of_def by (rule bit_word_eqI) (auto simp: bit_simps)
    also have "\<dots> = of_nat (unat (take_bit 8 (drop_bit (8 * k) w)))" by simp
    also have "unat (take_bit 8 (drop_bit (8 * k) w)) = ?x div 2 ^ (8 * k) mod 256"
      by (simp only: unsigned_take_bit_eq unsigned_drop_bit_eq) (use lt in \<open>simp add: take_bit_eq_mod drop_bit_eq_div\<close>)
    finally show ?thesis .
  qed
  have "?x div 256 = ?x div 256 mod 256 + 256 * (?x div 65536)" "?x div 65536 = ?x div 65536 mod 256 + 256 * (?x div 16777216)"
    "?x = ?x mod 256 + 256 * (?x div 256)"
    using div_mult_mod_eq[of ?x 256] div_mult_mod_eq[of "?x div 256" 256] div_mult_mod_eq[of "?x div 65536" 256]
    by (simp_all add: div_mult2_eq[of ?x 256 256, symmetric, simplified] div_mult2_eq[of ?x 65536 256, symmetric, simplified])
  moreover have "?x div 16777216 mod 256 = ?x div 16777216" using lt by (simp add: less_mult_imp_div_less)
  ultimately have s: "?x mod 256 + 256 * (?x div 256 mod 256) + 65536 * (?x div 65536 mod 256) + 16777216 * (?x div 16777216 mod 256) = ?x"
    by linarith
  have "le32 (byte_of w 0) (byte_of w (Suc 0)) (byte_of w 2) (byte_of w 3) =
      of_nat (?x mod 256 + 256 * (?x div 256 mod 256) + 65536 * (?x div 65536 mod 256) + 16777216 * (?x div 16777216 mod 256))"
    unfolding le32_def b by simp
  then show ?thesis unfolding s by simp
qed

lemma store32_load32:
  assumes "\<forall>k<4. translate s (p + of_nat k) \<noteq> None" "inj_cells translate s p 4"
  shows "\<exists>m. store32 vwrite s p w = Some (s\<lparr>phys := m\<rparr>) \<and> load32 vread (s\<lparr>phys := m\<rparr>) p = Some w \<and>
    (\<forall>c. c \<notin> cells translate s p 4 \<longrightarrow> m c = phys s c)"
proof -
  let ?bs = "[byte_of w 0, byte_of w 1, byte_of w 2, byte_of w 3]"
  obtain s' where s': "store_bytes vwrite s p ?bs = Some s'"
    using vm.store_Some_iff[of s p ?bs] assms(1) by (auto simp: numeral_eq_Suc)
  have l: "load_bytes vread s' p (length ?bs) = Some ?bs"
    by (rule vm.store_load_same[OF s']) (use assms(2) in \<open>simp add: inj_cells_def\<close>)
  note n = load_bytes_nth[OF l]
  have "load32 vread s' p = Some w"
    using n[of 0] n[of 1] n[of 2] n[of 3] by (simp add: load32_def bytes_le32)
  moreover have "phys s' c = phys s c" if "c \<notin> cells translate s p 4" for c
    using vm.store_cell_other[OF s', of c] that by (simp add: numeral_eq_Suc)
  ultimately show ?thesis using s' store_frame[OF s'] by (intro exI[of _ "phys s'"]) (auto simp: store32_def)
qed

lemma vidmap_cells:
  assumes wf: "files_wf s" and e: "pdt s EXEC = START_ADDRESS + FOURMB * of_nat i"
    and p: "0x08000000 \<le> unat p" "unat p + 4 \<le> 0x08400000"
  shows "\<exists>m. vidmap p s = Some (1, (pcb_upd (get_pcb (cur_pid (process_array s ! sched_ix s))) (\<lambda>b. b\<lparr>vid_set := 1\<rparr>) s)
      \<lparr>pdt := (pdt s)(VID := addr_pte_vid s OR 7), pte_vid := (pte_vid s)(0 := video_entry 0 7), tlb_stale := False, phys := m\<rparr>) \<and>
    load32 vread (s\<lparr>phys := m\<rparr>) p = Some 0x10000000 \<and> (\<forall>c. c \<notin> cells translate s p 4 \<longrightarrow> m c = phys s c)"
proof -
  have pw: "procs_wf s" using wf by (simp add: files_wf_def)
  have slot: "cur_slot s = Some (process_array s ! sched_ix s)" by (rule cur_slot_eq[OF pw])
  define a where "a = get_pcb (cur_pid (process_array s ! sched_ix s))"
  define t where "t = pcb_upd a (\<lambda>b. b\<lparr>vid_set := 1\<rparr>) s"
  define u where "u = set_pte_vid 0 (video_entry 0 7) (set_pdt VID (addr_pte_vid t OR 7) t)"
  have ps: "paging_wf s" by (rule files_paging[OF wf])
  have "paging_wf t = paging_wf s" by (rule paging_wf_cong) (simp_all add: t_def pcb_upd_def)
  with ps have pt: "paging_wf t" by simp
  then have "paging_wf (set_pdt VID (addr_pte_vid t OR 7) t)"
    by (auto simp: paging_wf_def set_pdt_def VID_def EXEC_def)
  then have pu: "paging_wf u" unfolding u_def by (intro set_user_video_wf) (auto intro!: exI[of _ 0])
  have eu: "pdt u EXEC = START_ADDRESS + FOURMB * of_nat i"
    using e by (simp add: u_def t_def pcb_upd_def set_pte_vid_def set_pdt_def EXEC_def VID_def)
  note cu = user_word[OF pu eu p] and cs = user_word[OF ps e p]
  have same: "\<forall>k<4. translate u (p + of_nat k) = translate s (p + of_nat k)" using cu(1) cs(1) by simp
  then have cells: "cells translate u p 4 = cells translate s p 4" by (auto simp: cells_def)
  obtain m where m: "store32 vwrite u p 0x10000000 = Some (u\<lparr>phys := m\<rparr>)" "load32 vread (u\<lparr>phys := m\<rparr>) p = Some 0x10000000"
    "\<forall>c. c \<notin> cells translate u p 4 \<longrightarrow> m c = phys u c"
    using store32_load32[of u p "0x10000000"] cu by auto
  have ph: "phys u = phys s" by (simp add: u_def t_def pcb_upd_def set_pte_vid_def set_pdt_def)
  have "vread (s\<lparr>phys := m\<rparr>) (p + of_nat k) = vread (u\<lparr>phys := m\<rparr>) (p + of_nat k)" if "k < 4" for k
    using same that by (simp add: vread_def translate_phys)
  from this[of 0] this[of 1] this[of 2] this[of 3] m(2) have "load32 vread (s\<lparr>phys := m\<rparr>) p = Some 0x10000000"
    by (simp add: load32_def)
  moreover have "p \<noteq> 0" "\<not> p < 0x800000" using p by (auto simp: word_less_nat_alt)
  moreover from m(1) have "map_vid p t = Some (1, load_cr3 (u\<lparr>phys := m\<rparr>))" by (simp add: map_vid_iff u_def[symmetric])
  moreover have "load_cr3 (u\<lparr>phys := m\<rparr>) = t\<lparr>pdt := (pdt s)(VID := addr_pte_vid s OR 7), pte_vid := (pte_vid s)(0 := video_entry 0 7), tlb_stale := False, phys := m\<rparr>"
    by (simp add: load_cr3_def u_def t_def pcb_upd_def set_pte_vid_def set_pdt_def)
  ultimately show ?thesis using m(3) slot ph
    by (intro exI[of _ m]) (simp add: vidmap_def cells a_def t_def)
qed

lemma vidmap_screen:
  assumes wf: "files_wf s" and e: "pdt s EXEC = START_ADDRESS + FOURMB * of_nat i"
    and p: "0x08000000 \<le> unat p" "unat p + 4 \<le> 0x08400000" and a: "a = get_pcb (cur_pid (process_array s ! sched_ix s))"
  shows "\<exists>s'. vidmap p s = Some (1, s') \<and> load32 vread s' p = Some 0x10000000 \<and>
      pcbs s' = (pcbs s)(a := (pcbs s a)\<lparr>vid_set := 1\<rparr>) \<and>
      (\<forall>k<0x1000. translate s' (0x10000000 + of_nat k) = Some (0xB8000 + of_nat k) \<and> user_ok s' (0x10000000 + of_nat k)) \<and>
      (\<forall>c. c \<notin> cells translate s p 4 \<longrightarrow> phys s' c = phys s c)"
proof -
  obtain m where m: "vidmap p s = Some (1, (pcb_upd a (\<lambda>b. b\<lparr>vid_set := 1\<rparr>) s)
      \<lparr>pdt := (pdt s)(VID := addr_pte_vid s OR 7), pte_vid := (pte_vid s)(0 := video_entry 0 7), tlb_stale := False, phys := m\<rparr>)"
    "load32 vread (s\<lparr>phys := m\<rparr>) p = Some 0x10000000" "\<forall>c. c \<notin> cells translate s p 4 \<longrightarrow> m c = phys s c"
    using vidmap_cells[OF wf e p] unfolding a by blast
  let ?s' = "(pcb_upd a (\<lambda>b. b\<lparr>vid_set := 1\<rparr>) s)
      \<lparr>pdt := (pdt s)(VID := addr_pte_vid s OR 7), pte_vid := (pte_vid s)(0 := video_entry 0 7), tlb_stale := False, phys := m\<rparr>"
  have ps: "paging_wf s" by (rule files_paging[OF wf])
  then have pw: "paging_wf ?s'" by (auto simp: paging_wf_def VID_def EXEC_def pcb_upd_def intro: exI[of _ 0])
  have e': "pdt ?s' EXEC = START_ADDRESS + FOURMB * of_nat i" using e by (simp add: VID_def EXEC_def pcb_upd_def)
  have al: "addr_pte_vid s AND 0xFFF = 0" using ps by (simp add: paging_wf_def)
  have d: "pdt ?s' 64 = addr_pte_vid s OR 7" by (simp add: VID_def)
  have bits: "entry_present (pdt ?s' 64)" "entry_user (pdt ?s' 64)" "\<not> entry_large (pdt ?s' 64)"
    using aligned_bit[OF al, of 7] unfolding d by (simp_all add: bit_or_iff)
  have pt: "page_table ?s' (pdt ?s' 64) = Some (pte_vid ?s')"
    using ps aligned_or[OF al, of 7] unfolding d by (auto simp: page_table_def paging_wf_def pcb_upd_def)
  have "translate ?s' (0x10000000 + of_nat k) = Some (0xB8000 + of_nat k) \<and> user_ok ?s' (0x10000000 + of_nat k)" if k: "k < 0x1000" for k
  proof -
    let ?x = "0x10000000 + of_nat k :: u32"
    have "?x = of_nat (0x10000000 + k)" by simp
    moreover have "0x10000000 + k < 2 ^ 32" using k by simp
    ultimately have x: "unat ?x = 0x10000000 + k" by (simp only: unat_of_nat) (simp add: take_bit_nat_eq_self)
    have j: "unat ?x div 0x400000 = 64" "unat ?x div 0x1000 = 0x10000" unfolding x using k by (simp_all add: div_nat_eqI)
    have "user_ok ?s' ?x"
      using bits pt j video_entry_bits[of 0 7] by (simp add: user_ok_def pd_index_def pt_index_def Let_def)
    moreover from user_reach[OF pw this e'] j have "translate ?s' ?x = Some (?x - 0x10000000 + 0xB8000 + 0x1000 * 0)"
      using bits pt j video_entry_bits[of 0 7] ps
      by (subst translate_small[where i = 64 and t = "pte_vid ?s'" and e = "pdt ?s' 64" and j = "0x10000" and f = "0xB8000"])
        (auto simp: paging_wf_def pcb_upd_def)
    ultimately show ?thesis by simp
  qed
  moreover have "load32 vread ?s' p = Some 0x10000000"
  proof -
    have "vread ?s' (p + of_nat k) = vread (s\<lparr>phys := m\<rparr>) (p + of_nat k)" if "k < 4" for k
      using user_word(1)[OF pw e' p] user_word(1)[OF ps e p] that by (simp add: vread_def translate_phys)
    from this[of 0] this[of 1] this[of 2] this[of 3] m(2) show ?thesis by (simp add: load32_def)
  qed
  ultimately show ?thesis using m(1,3)
    by (intro conjI exI[of _ ?s']) (simp_all add: pcb_upd_def)
qed

text \<open>
  \<open>vidmap\<close>.  For a pointer into the process's page it stores the address \<open>0x10000000\<close> there, marks
  the process, and makes that page of the process show the physical screen, readable and writable
  from user mode, whichever terminal is visible; nothing but the four bytes of the pointer changes
  in memory.  For a null pointer or one below \<open>0x800000\<close> it returns \<open>-1\<close> and changes nothing.
\<close>

theorem vidmap_maps_screen:
  assumes wf: "files_wf s" and e: "pdt s EXEC = START_ADDRESS + FOURMB * of_nat i"
    and p: "0x08000000 \<le> unat p" "unat p + 4 \<le> 0x08400000" and a: "a = get_pcb (cur_pid (process_array s ! sched_ix s))"
  shows "(\<exists>s'. vidmap p s = Some (1, s') \<and> load32 vread s' p = Some 0x10000000 \<and>
      pcbs s' = (pcbs s)(a := (pcbs s a)\<lparr>vid_set := 1\<rparr>) \<and>
      (\<forall>k<0x1000. translate s' (0x10000000 + of_nat k) = Some (0xB8000 + of_nat k) \<and> user_ok s' (0x10000000 + of_nat k)) \<and>
      (\<forall>c. c \<notin> cells translate s p 4 \<longrightarrow> phys s' c = phys s c)) \<and>
    (q < 0x800000 \<longrightarrow> vidmap q s = Some (-1, s))"
  using vidmap_screen[OF wf e p a] by (simp add: vidmap_def)

end
