(* ===== verification/Invariant.thy ===== *)
theory Invariant
  imports Idt Lines Calls
begin

text \<open>
  The invariant of the whole kernel, and that the operations inside the kernel keep it: closing
  descriptors, terminating and starting processes.  \<open>kept_by_writes\<close> is the contract of the copying
  routines: what one write keeps, they keep.
\<close>

section \<open>What writing keeps\<close>

text \<open>
  Every routine that copies into a memory does so through the writer \<open>wr\<close>: what one write keeps,
  each of them keeps.
\<close>

locale kept_by_writes =
  fixes wr :: "'d \<Rightarrow> u32 \<Rightarrow> u8 \<Rightarrow> 'd option" and I :: "'d \<Rightarrow> bool"
  assumes wr_keeps: "wr d a b = Some d' \<Longrightarrow> I d \<Longrightarrow> I d'"
begin

lemma store_keeps: "store_bytes wr d a bs = Some d' \<Longrightarrow> I d \<Longrightarrow> I d'"
  by (induction bs arbitrary: d a) (auto simp: bind_Some_iff dest: wr_keeps)

lemma movsb_keeps: "rep_movsb rd wr d e p n = Some d' \<Longrightarrow> I d \<Longrightarrow> I d'"
  by (induction n arbitrary: d e p) (auto simp: bind_Some_iff dest: wr_keeps)

lemma movsl_keeps: "rep_movsl rd wr d e p n = Some d' \<Longrightarrow> I d \<Longrightarrow> I d'"
  by (induction n arbitrary: d e p) (auto simp: bind_Some_iff dest: store_keeps)

lemma top_keeps: "memcpy_top rd wr d e p n = Some (d', r) \<Longrightarrow> I d \<Longrightarrow> I d'"
  by (induction n arbitrary: d e p) (auto simp: bind_Some_iff dest: wr_keeps split: if_splits)

lemma memcpy_keeps: "memcpy rd wr d e p n = Some d' \<Longrightarrow> I d \<Longrightarrow> I d'"
  by (auto simp: memcpy_def bind_Some_iff dest: top_keeps movsl_keeps movsb_keeps split: if_splits)

lemma blocks_keep: "read_blocks s rd wr ptr buf i st cl bp len tot n d = Some (r, d') \<Longrightarrow> I d \<Longrightarrow> I d'"
proof (induction n arbitrary: i st cl bp len tot d)
  case 0
  then show ?case by (auto simp: bind_Some_iff dest: memcpy_keeps)
next
  case (Suc n)
  then obtain t b where t: "memcpy rd wr d (buf + bp) st cl = Some t" "dblock rd t ptr (i + 1) = Some b"
    by (auto simp: bind_Some_iff)
  then have "I t" using Suc.prems memcpy_keeps by blast
  with t Suc show ?case by (auto split: if_splits)
qed

lemma read_data_keeps: "read_data s rd wr inode offset buf len d = Some (r, d') \<Longrightarrow> I d \<Longrightarrow> I d'"
  by (auto simp: read_data_def Let_def bind_Some_iff dest: blocks_keep split: if_splits)

lemma strncpy_copy_keeps: "strncpy_copy rd wr d e p k = Some (d', r) \<Longrightarrow> I d \<Longrightarrow> I d'"
  by (induction k arbitrary: d e p) (auto simp: bind_Some_iff dest: wr_keeps split: if_splits)

lemma strncpy_keeps: "strncpy rd wr d e p n = Some d' \<Longrightarrow> I d \<Longrightarrow> I d'"
  by (auto simp: strncpy_def bind_Some_iff strncpy_pad_store dest: strncpy_copy_keeps store_keeps)

end

text \<open>Writing to linear memory changes nothing but memory; writing to an array keeps its length.\<close>

interpretation vmw: kept_by_writes vwrite "\<lambda>t. \<exists>m. t = s\<lparr>phys := m\<rparr>" for s
  by unfold_locales (auto simp: vwrite_def bind_Some_iff)

interpretation bufw: kept_by_writes "\<lambda>t a. vwrite t (buf + a)" "\<lambda>t. \<exists>m. t = s\<lparr>phys := m\<rparr>" for s buf
  by unfold_locales (auto simp: vwrite_def bind_Some_iff)

interpretation arrw: kept_by_writes array_wr "\<lambda>xs. length xs = n" for n
  by unfold_locales (auto simp: array_wr_def arr_set_def split: if_splits)

section \<open>The invariant\<close>

text \<open>
  What the keyboard driver keeps, the descriptors that are the terminal's, and the invariant of the
  whole kernel: the tables, screens, descriptors and control blocks are well formed, the line
  buffers hold lines, and only descriptors 0 and 1 are connected to the keyboard.
\<close>

definition keys :: "'z kernel_scheme \<Rightarrow> int \<times> int list \<times> int list \<times> u8 list list" where
  "keys s = (key_status s, flag_keyboard s, [counter1 s, counter2 s, counter3 s],
     [terminal1_buffer s, terminal2_buffer s, terminal3_buffer s])"

definition std_fds :: "'z kernel_scheme \<Rightarrow> bool" where
  "std_fds s \<longleftrightarrow> (\<forall>p k. 2 \<le> k \<and> k < 8 \<longrightarrow> table_pointer (fds_at s p ! k) \<noteq> KeyboardTable)"

definition kernel_inv :: "'z kernel_scheme \<Rightarrow> bool" where
  "kernel_inv s \<longleftrightarrow> files_wf s \<and> keyboard_wf s \<and> std_fds s"

lemma keys_lines: "keys t = keys s \<Longrightarrow> kcount t = kcount s \<and> kbuf t = kbuf s \<and> kline t = kline s"
  by (simp add: keys_def kcount_def kbuf_def kline_def fun_eq_iff)

lemma kernel_inv_keys:
  assumes "kernel_inv s" and "files_wf t" and "keys t = keys s" and "std_fds t"
  shows "kernel_inv t"
proof -
  have "key_status t = key_status s" "flag_keyboard t = flag_keyboard s" using assms(3) by (simp_all add: keys_def)
  then have "keyboard_wf t"
    using assms(1,2) keys_lines[OF assms(3)] by (simp add: kernel_inv_def keyboard_wf_def files_wf_def)
  with assms show ?thesis by (simp add: kernel_inv_def)
qed

lemma kernel_inv_same:
  assumes "kernel_inv s" and "files_wf t" and "keys t = keys s" and "fds_at t = fds_at s"
  shows "kernel_inv t"
  by (rule kernel_inv_keys[OF assms(1-3)]) (use assms in \<open>simp add: kernel_inv_def std_fds_def\<close>)

lemma std_fds_change:
  assumes "std_fds s" and "fd_change fd d s t" and "table_pointer d \<noteq> KeyboardTable" and "files_wf s"
  shows "std_fds t"
proof -
  have "length (cur_fds s) = 8" using assms(4) by (intro fds_length) (simp add: files_wf_def)
  then have "table_pointer ((cur_fds s)[unat fd := d] ! k) \<noteq> KeyboardTable" if "2 \<le> k" "k < 8" for k
    using that assms(1,3) by (cases "k = unat fd") (auto simp: std_fds_def)
  with assms(1,2) show ?thesis by (simp add: std_fds_def fd_change_def)
qed

lemma keys_put [simp]: "keys (put_fds p fds s) = keys s"
  by (simp add: put_fds_def pcb_upd_def keys_def split: fd_ptr.split)

lemma keys_upd:
  "upd_fd fd f s = Some t \<Longrightarrow> keys t = keys s" "set_fd fd tb ino fl s = Some t \<Longrightarrow> keys t = keys s"
  by (auto simp: set_fd_def upd_fd_def bind_Some_iff)

lemma keys_fields [simp]:
  "keys (s\<lparr>phys := x1\<rparr>) = keys s" "keys (s\<lparr>port_out := x2\<rparr>) = keys s" "keys (s\<lparr>rate := x3\<rparr>) = keys s"
  "keys (s\<lparr>flag_rtc := x4\<rparr>) = keys s" "keys (s\<lparr>pcbs := x5\<rparr>) = keys s" "keys (s\<lparr>process_array := x6\<rparr>) = keys s"
  "keys (s\<lparr>iflag := x7\<rparr>) = keys s" "keys (s\<lparr>tss_esp0 := x8\<rparr>) = keys s" "keys (s\<lparr>ret_status := x9\<rparr>) = keys s"
  "keys (s\<lparr>arg_retrieved := x10\<rparr>) = keys s" "keys (s\<lparr>num_ticks := x11\<rparr>) = keys s" "keys (s\<lparr>schedule_index := x12\<rparr>) = keys s"
  "keys (s\<lparr>pdt := x13\<rparr>) = keys s" "keys (s\<lparr>pte := x14\<rparr>) = keys s" "keys (s\<lparr>pte_vid := x15\<rparr>) = keys s"
  "keys (s\<lparr>tlb_stale := x16\<rparr>) = keys s" "keys (s\<lparr>esp := x17\<rparr>) = keys s" "keys (s\<lparr>ebp := x18\<rparr>) = keys s"
  "keys (s\<lparr>screen_x := x19\<rparr>) = keys s" "keys (s\<lparr>screen_y := x20\<rparr>) = keys s"
  by (simp_all add: keys_def)

lemma keys_table_open:
  assumes "table_open T fd inode s = Some (r, t)" and "T \<noteq> KeyboardTable"
  shows "keys t = keys s"
  using assms
  by (cases T) (auto simp: rtc_open_def rtc_init_def directory_open_def file_open_def outb_def Let_def bind_Some_iff
      dest!: keys_upd(2) split: if_splits)

lemma keys_table_close:
  assumes "table_close T fd s = Some (r, t)" and "T \<noteq> KeyboardTable"
  shows "keys t = keys s"
  using assms
  by (cases T) (auto simp: rtc_close_def directory_close_def file_close_def bind_Some_iff dest!: keys_upd(2) split: if_splits)

section \<open>Steps inside the kernel\<close>

lemma kernel_inv_fields:
  assumes "paging_on t = paging_on s" "pdt t = pdt s" "pte t = pte s" "pte_vid t = pte_vid s"
    "addr_pte t = addr_pte s" "addr_pte_vid t = addr_pte_vid s" "screen_x t = screen_x s" "screen_y t = screen_y s"
    "visible_screen t = visible_screen s" "schedule_index t = schedule_index s" "process_array t = process_array s"
    "kernel_fdt t = kernel_fdt s" "pcbs t = pcbs s" "keys t = keys s"
  shows "kernel_inv t = kernel_inv s"
proof -
  have f: "fds_at t = fds_at s" by (rule fds_at_cong) (simp_all add: assms)
  have "paging_wf t = paging_wf s" by (rule paging_wf_cong) (simp_all add: assms)
  then have "console_wf t = console_wf s" by (rule console_wf_cong) (simp_all add: assms)
  then have "procs_wf t = procs_wf s" by (simp add: procs_wf_def assms)
  moreover have "terminal1_buffer t = terminal1_buffer s" "terminal2_buffer t = terminal2_buffer s"
    "terminal3_buffer t = terminal3_buffer s" "key_status t = key_status s" "flag_keyboard t = flag_keyboard s"
    using assms(14) by (simp_all add: keys_def)
  ultimately show ?thesis
    using keys_lines[OF assms(14)] by (simp add: kernel_inv_def files_wf_def keyboard_wf_def std_fds_def f)
qed

lemma kernel_inv_upd [simp]:
  fixes s :: "'z kernel_scheme"
  shows "kernel_inv (s\<lparr>phys := x1\<rparr>) = kernel_inv s" "kernel_inv (s\<lparr>port_out := x2\<rparr>) = kernel_inv s"
    "kernel_inv (s\<lparr>rate := x3\<rparr>) = kernel_inv s" "kernel_inv (s\<lparr>flag_rtc := x4\<rparr>) = kernel_inv s"
    "kernel_inv (s\<lparr>iflag := x5\<rparr>) = kernel_inv s" "kernel_inv (s\<lparr>tss_esp0 := x6\<rparr>) = kernel_inv s"
    "kernel_inv (s\<lparr>ret_status := x7\<rparr>) = kernel_inv s" "kernel_inv (s\<lparr>arg_retrieved := x8\<rparr>) = kernel_inv s"
    "kernel_inv (s\<lparr>num_ticks := x9\<rparr>) = kernel_inv s" "kernel_inv (s\<lparr>esp := x10\<rparr>) = kernel_inv s"
    "kernel_inv (s\<lparr>ebp := x11\<rparr>) = kernel_inv s" "kernel_inv (s\<lparr>tlb_stale := x12\<rparr>) = kernel_inv s"
  by (intro kernel_inv_fields; simp)+

lemma inv_files: "kernel_inv s \<Longrightarrow> files_wf s" "kernel_inv s \<Longrightarrow> procs_wf s" "kernel_inv s \<Longrightarrow> console_wf s" "kernel_inv s \<Longrightarrow> paging_wf s"
  by (simp_all add: kernel_inv_def files_wf_def procs_wf_def console_wf_def)

lemma inv_cli_sti [simp]: "kernel_inv (cli s) = kernel_inv s" "kernel_inv (sti s) = kernel_inv s"
  by (simp_all add: cli_def sti_def)

lemma inv_pcb:
  assumes inv: "kernel_inv s" and f: "fd_table (f (pcbs s a)) = fd_table (pcbs s a)" "length (user_buf (f (pcbs s a))) = 1024"
  shows "kernel_inv (pcb_upd a f s)"
proof (rule kernel_inv_same[OF inv])
  have "procs_wf (pcb_upd a f s)" using inv_files(2)[OF inv] f by (simp add: procs_wf_def pcb_upd_def)
  moreover show e: "fds_at (pcb_upd a f s) = fds_at s"
    using f(1) by (auto simp: fun_eq_iff fds_at_def pcb_upd_def split: fd_ptr.split)
  ultimately show "files_wf (pcb_upd a f s)" using inv_files(1)[OF inv] by (simp add: files_wf_def) (simp add: pcb_upd_def)
qed (simp add: pcb_upd_def)

lemma inv_slot:
  assumes inv: "kernel_inv s" and t: "slot_upd f s = Some t"
  shows "kernel_inv t"
proof -
  have e: "t = s\<lparr>process_array := (process_array s)[sched_ix s := f (process_array s ! sched_ix s)]\<rparr>"
    using t cur_slot_eq[OF inv_files(2)[OF inv]] by (simp add: slot_upd_def)
  have fd: "fds_at t = fds_at s" unfolding e by (rule fds_at_cong) simp_all
  have "files_wf t" using inv_files(1)[OF inv] fd by (simp add: files_wf_def procs_wf_def) (simp add: e)
  then show ?thesis by (rule kernel_inv_same[OF inv]) (simp_all add: fd, simp add: e)
qed

lemma inv_paging:
  assumes inv: "kernel_inv s" and pw: "paging_wf t" and e: "t = s\<lparr>pdt := pdt t, pte := pte t, pte_vid := pte_vid t, tlb_stale := tlb_stale t\<rparr>"
  shows "kernel_inv t"
proof -
  obtain x y z u where e: "t = s\<lparr>pdt := x, pte := y, pte_vid := z, tlb_stale := u\<rparr>" using e by blast
  have fd: "fds_at t = fds_at s" unfolding e by (rule fds_at_cong) simp_all
  have "console_wf t" using inv_files(3)[OF inv] pw by (simp add: console_wf_def) (simp add: e)
  then have "files_wf t" using inv_files(1)[OF inv] fd by (simp add: files_wf_def procs_wf_def) (simp add: e)
  then show ?thesis by (rule kernel_inv_same[OF inv]) (simp_all add: fd, simp add: e)
qed

lemma inv_map_exec: "kernel_inv s \<Longrightarrow> kernel_inv (map_page_exec i s)"
  by (rule inv_paging[OF _ map_page_exec_wf[OF inv_files(4)]]) (assumption+, simp add: map_page_exec_def set_pdt_def load_cr3_def)

lemma inv_clear_vid: "kernel_inv s \<Longrightarrow> kernel_inv (snd (clear_vid s))"
  by (rule inv_paging[OF _ clear_vid_wf[OF inv_files(4)]]) (assumption+, simp add: clear_vid_def set_pte_vid_def load_cr3_def)

lemma inv_fd_change:
  assumes inv: "kernel_inv s" and c: "fd_change fd d s t" and k: "keys t = keys s" and d: "table_pointer d \<noteq> KeyboardTable"
  shows "kernel_inv t"
  using inv c k std_fds_change[OF _ c d inv_files(1)[OF inv]]
  by (intro kernel_inv_keys[OF inv]) (simp_all add: kernel_inv_def fd_change_def)

lemma inv_sys_close:
  assumes inv: "kernel_inv s" and c: "sys_close fd s = Some (r, t)"
  shows "kernel_inv t"
proof (cases "2 \<le> unat fd \<and> unat fd < 8 \<and> flags (cur_fds s ! unat fd) \<noteq> 0")
  case True
  then obtain t' ino where t': "sys_close fd s = Some (0, t')"
      "fd_change fd \<lparr>table_pointer = NullTable, fd_inode = ino, file_position = 0, flags = 0\<rparr> s t'"
    using sys_close_step[OF inv_files(1)[OF inv], of fd] by auto
  have T: "table_pointer (cur_fds s ! unat fd) \<noteq> KeyboardTable" using inv True by (simp add: kernel_inv_def std_fds_def)
  have "get_fd fd s = Some (cur_fds s ! unat fd)" using True by (intro files_get[OF inv_files(1)[OF inv]]) simp
  then obtain r' where "table_close (table_pointer (cur_fds s ! unat fd)) fd s = Some (r', t')"
    using t'(1) True by (auto simp: sys_close_def bind_Some_iff split: if_splits)
  from keys_table_close[OF this T] t' c show ?thesis using inv_fd_change[OF inv t'(2)] by simp
next
  case False
  then show ?thesis using sys_close_step[OF inv_files(1)[OF inv], of fd] c inv by auto
qed

lemma inv_close_all:
  assumes inv: "kernel_inv s" and c: "close_all s = Some t"
  shows "kernel_inv t"
  using for_up_inv[where I = kernel_inv, OF _ c[unfolded close_all_def] inv] inv_sys_close by (auto simp: bind_Some_iff)

lemma inv_pcb_use: "kernel_inv s \<Longrightarrow> kernel_inv (pcb_upd a (\<lambda>b. b\<lparr>pcb_use := u\<rparr>) s)"
  by (rule inv_pcb) (use inv_files(2) in \<open>auto simp: procs_wf_def\<close>)

lemma inv_exec_ret: "kernel_inv s \<Longrightarrow> kernel_inv (snd (exec_ret p s))"
  by (simp add: exec_ret_def Let_def)

lemma inv_halt:
  assumes inv: "kernel_inv s" and h: "halt status s = Some (r, t)"
  shows "kernel_inv t"
proof -
  from h obtain slot s1 s2 s3 where
    "cur_slot s = Some slot" and
    1: "slot_upd (\<lambda>p. p\<lparr>cur_pid := parent_pid (pcbs s (get_pcb (cur_pid slot)))\<rparr>)
      (cli s\<lparr>ret_status := scast status, tss_esp0 := parent_esp0 (pcbs s (get_pcb (cur_pid slot)))\<rparr>) = Some s1" and
    2: "close_all (snd (clear_vid s1)) = Some s2" and
    3: "slot_upd (\<lambda>p. p\<lparr>cur_fd_ptr := parent_fd (pcbs s2 (get_pcb (cur_pid slot)))\<rparr>) s2 = Some s3" and
    t: "t = snd (exec_ret (get_pcb (cur_pid slot)) (map_page_exec (parent_pid (pcbs (pcb_upd (get_pcb (cur_pid slot)) (\<lambda>b. b\<lparr>pcb_use := 0\<rparr>) s3)
      (get_pcb (cur_pid slot)))) (pcb_upd (get_pcb (cur_pid slot)) (\<lambda>b. b\<lparr>pcb_use := 0\<rparr>) s3)))"
    by (simp add: halt_def Let_def bind_Some_iff cur_slot_def cli_def) (metis snd_conv)
  have "kernel_inv s1" by (rule inv_slot[OF _ 1]) (simp add: inv)
  then have "kernel_inv s3" by (intro inv_slot[OF _ 3] inv_close_all[OF _ 2] inv_clear_vid)
  then show ?thesis unfolding t by (intro inv_exec_ret inv_map_exec inv_pcb_use)
qed

lemma inv_halt_exception:
  assumes inv: "kernel_inv s" and h: "halt_exception s = Some (r, t)"
  shows "kernel_inv t"
proof -
  from h obtain slot s1 s2 s3 where
    "cur_slot s = Some slot" and
    1: "close_all (snd (clear_vid (map_page_exec (parent_pid (pcbs s (get_pcb (cur_pid slot))))
      (cli s\<lparr>tss_esp0 := parent_esp0 (pcbs s (get_pcb (cur_pid slot)))\<rparr>)))) = Some s1" and
    2: "slot_upd (\<lambda>p. p\<lparr>cur_pid := parent_pid (pcbs s1 (get_pcb (cur_pid slot)))\<rparr>) s1 = Some s2" and
    3: "slot_upd (\<lambda>p. p\<lparr>cur_fd_ptr := parent_fd (pcbs s2 (get_pcb (cur_pid slot)))\<rparr>) s2 = Some s3" and
    t: "t = snd (exec_ret (get_pcb (cur_pid slot)) (pcb_upd (get_pcb (cur_pid slot)) (\<lambda>b. b\<lparr>pcb_use := 0\<rparr>) s3))"
    by (simp add: halt_exception_def Let_def bind_Some_iff cur_slot_def cli_def) (metis snd_conv)
  have "kernel_inv s1" by (intro inv_close_all[OF _ 1] inv_clear_vid inv_map_exec) (simp add: inv)
  then have "kernel_inv s3" by (intro inv_slot[OF _ 3] inv_slot[OF _ 2])
  then show ?thesis unfolding t by (intro inv_exec_ret inv_pcb_use)
qed

lemma inv_prints:
  assumes inv: "kernel_inv s" and p: "prints s t" "console_wf t"
  shows "kernel_inv t"
proof (rule kernel_inv_same[OF inv])
  show "files_wf t" by (rule files_wf_prints[OF inv_files(1)[OF inv] p])
  show "keys t = keys s" "fds_at t = fds_at s" using p(1) by (auto simp: prints_def fds_at_def fun_eq_iff split: fd_ptr.split)
qed

lemma inv_exception:
  assumes inv: "kernel_inv s" and m: "0 \<notin> set message" "37 \<notin> set message"
    and e: "exception_handler junk message s = Some (r, t)"
  shows "kernel_inv t"
proof -
  have cw: "console_wf s" by (rule inv_files(3)[OF inv])
  have m': "0 \<notin> set (message @ [10])" "37 \<notin> set (message @ [10])" using m by auto
  obtain u where u: "putcs (message @ [10]) s = Some u" "console_wf u" "prints s u"
    using putcs_safe[OF cw] by blast
  then have "printf junk (message @ [10, 0]) [] s = Some (of_nat (length (message @ [10])), u)"
    using printf_literal[OF cw m', of junk "[]"] by auto
  then have "halt_exception (cli u) = Some (r, t)" using e by (simp add: exception_handler_def)
  then show ?thesis by (rule inv_halt_exception[rotated]) (simp add: inv_prints[OF inv u(3,2)])
qed

section \<open>Starting programs\<close>

lemma inv_init_fd:
  assumes inv: "kernel_inv s" and i: "init_fd s = Some t"
  shows "kernel_inv t"
proof -
  have std: "kernel_inv u" if "kernel_inv s" "unat fd < 2" "set_fd fd KeyboardTable 0 1 s = Some u" for s u and fd :: u32
  proof -
    note c = set_fd_change[OF inv_files(1)[OF that(1)], of fd KeyboardTable 1 0]
    then have c: "fd_change fd \<lparr>table_pointer = KeyboardTable, fd_inode = 0, file_position = 0, flags = 1\<rparr> s u"
      using that by auto
    have "std_fds u" using that(1,2) c by (auto simp: kernel_inv_def std_fds_def fd_change_def)
    then show ?thesis using c keys_upd(2)[OF that(3)] by (intro kernel_inv_keys[OF that(1)]) (simp_all add: fd_change_def)
  qed
  have rest: "kernel_inv u" if "kernel_inv s" "set_fd fd NullTable 0 0 s = Some u" for s u and fd :: u32
  proof (cases "unat fd < 8")
    case True
    then have "fd_change fd \<lparr>table_pointer = NullTable, fd_inode = 0, file_position = 0, flags = 0\<rparr> s u"
      using set_fd_change[OF inv_files(1)[OF that(1)], of fd NullTable 0 0] that by auto
    then show ?thesis by (rule inv_fd_change[OF that(1) _ keys_upd(2)[OF that(2)]]) simp
  next
    case False
    then have "get_fd fd s = None" using get_fd_out[OF inv_files(2)[OF that(1)]] by simp
    then show ?thesis using that(2) by (auto simp: set_fd_def upd_fd_def bind_Some_iff)
  qed
  from i obtain u v where u: "set_fd 0 KeyboardTable 0 1 s = Some u" "set_fd 1 KeyboardTable 0 1 u = Some v"
      and f: "for_up 2 6 (\<lambda>i. set_fd (of_nat i) NullTable 0 0) v = Some t"
    by (auto simp: init_fd_def bind_Some_iff)
  have "kernel_inv v" using std[OF std[OF inv _ u(1)] _ u(2)] by simp
  then show ?thesis by (rule for_up_inv[where I = kernel_inv, OF _ f, rotated]) (rule rest)
qed

lemma inv_pcb_fields:
  assumes "kernel_inv s"
  shows "kernel_inv (pcb_upd a (\<lambda>b. b\<lparr>parent_pid := x1\<rparr>) s)" "kernel_inv (pcb_upd a (\<lambda>b. b\<lparr>pcb_use := x2, vid_set := x3\<rparr>) s)"
    "kernel_inv (pcb_upd a (\<lambda>b. b\<lparr>parent_fd := x4\<rparr>) s)" "kernel_inv (pcb_upd a (\<lambda>b. b\<lparr>screen_idx := x5\<rparr>) s)"
    "kernel_inv (pcb_upd a (\<lambda>b. b\<lparr>parent_esp0 := x6\<rparr>) s)" "kernel_inv (pcb_upd a (\<lambda>b. b\<lparr>parent_esp := x7, parent_ebp := x8\<rparr>) s)"
    "kernel_inv (pcb_upd a (\<lambda>b. b\<lparr>vid_set := x9\<rparr>) s)" "length ub = 1024 \<Longrightarrow> kernel_inv (pcb_upd a (\<lambda>b. b\<lparr>user_buf := ub\<rparr>) s)"
  using inv_files(2)[OF assms] by (intro inv_pcb[OF assms]; simp add: procs_wf_def)+

lemma inv_vm_read:
  assumes "kernel_inv s" and "read_data x vread vwrite inode offset buf len s = Some (r, t)"
  shows "kernel_inv t"
proof -
  have "\<exists>m. t = s\<lparr>phys := m\<rparr>" by (rule vmw.read_data_keeps[OF assms(2)]) (rule exI[of _ "phys s"], simp)
  with assms(1) show ?thesis by auto
qed

lemma inv_user_buf:
  assumes "kernel_inv s" and "strncpy rd array_wr (user_buf (pcbs s a)) d c n = Some ub"
  shows "kernel_inv (pcb_upd a (\<lambda>b. b\<lparr>user_buf := ub\<rparr>) s)"
  by (rule inv_pcb_fields(8)[OF assms(1) arrw.strncpy_keeps[OF assms(2)]])
    (use inv_files(2)[OF assms(1)] in \<open>simp add: procs_wf_def\<close>)

text \<open>Rules for what holds of every result of a computation.\<close>

lemma post_bind: "(\<And>x. m = Some x \<Longrightarrow> pred_option P (f x)) \<Longrightarrow> pred_option P (m \<bind> f)"
  by (cases m) simp_all

lemma post_pair: "(\<And>a b. x = (a, b) \<Longrightarrow> pred_option P (g a b)) \<Longrightarrow> pred_option P (case x of (a, b) \<Rightarrow> g a b)"
  by (cases x) simp

lemma post_if: "(c \<Longrightarrow> pred_option P a) \<Longrightarrow> (\<not> c \<Longrightarrow> pred_option P b) \<Longrightarrow> pred_option P (if c then a else b)"
  by simp

lemma post_some: "P x \<Longrightarrow> pred_option P (Some x)"
  by simp

lemma post_use: "pred_option P m \<Longrightarrow> m = Some x \<Longrightarrow> P x"
  by simp

lemmas post_rules = post_bind post_pair post_if post_some

lemma inv_execute:
  assumes inv: "kernel_inv s" and e: "execute rd jd jm command s = Some (r, t)"
  shows "kernel_inv t"
proof -
  have "pred_option (\<lambda>(r, t). kernel_inv t) (execute rd jd jm command s)"
    unfolding execute_def Let_def
    by (intro post_rules; simp only: prod.case kernel_inv_upd)
      ((rule inv_pcb_fields(1-7) inv_map_exec | erule inv_vm_read[rotated] inv_user_buf[rotated] inv_init_fd[rotated]
        inv_slot[rotated] | simp only: kernel_inv_upd inv_cli_sti inv)+)
  from post_use[OF this e] show ?thesis by simp
qed

end
