(* ===== verification/Kernel.thy ===== *)
theory Kernel
  imports Invariant
begin

text \<open>
  The kernel as a transition system: interrupts, exceptions, system calls and user code, in any order,
  keep the invariant.
\<close>

section \<open>Interrupts\<close>

lemma inv_boot_shell:
  assumes b: "boot_shell jd jm s = Some (eip, usp, t)" and inv: "kernel_inv s"
  shows "kernel_inv t"
proof -
  have "kernel_inv s \<longrightarrow> (\<lambda>(eip, usp, t). kernel_inv t) (eip, usp, t)"
  proof (rule boot_shell.raw_induct[OF _ b, of "\<lambda>jd jm s r. kernel_inv s \<longrightarrow> (\<lambda>(eip, usp, t). kernel_inv t) r"])
    fix f jd jm and s :: "'a kernel_scheme" and r
    assume ih: "\<And>jd jm s r. f jd jm s = Some r \<Longrightarrow> kernel_inv s \<longrightarrow> (\<lambda>(eip, usp, t). kernel_inv t) r"
      and e: "do { (r, s') \<leftarrow> execute (\<lambda>_. array_rd shell_name) jd jm 0 s;
          case r of Returned _ \<Rightarrow> f jd jm s' | EnteredUser eip usp \<Rightarrow> Some (eip, usp, s') } = Some r"
    show "kernel_inv s \<longrightarrow> (\<lambda>(eip, usp, t). kernel_inv t) r"
    proof
      assume i: "kernel_inv s"
      from e obtain x s' where x: "execute (\<lambda>_. array_rd shell_name) jd jm 0 s = Some (x, s')"
        "(case x of Returned _ \<Rightarrow> f jd jm s' | EnteredUser eip usp \<Rightarrow> Some (eip, usp, s')) = Some r"
        by (auto simp: bind_Some_iff)
      have "kernel_inv s'" by (rule inv_execute[OF i x(1)])
      with x(2) ih show "(\<lambda>(eip, usp, t). kernel_inv t) r" by (cases x) auto
    qed
  qed
  with inv show ?thesis by simp
qed

lemma inv_switched: "kernel_inv s \<Longrightarrow> unat n < 3 \<Longrightarrow> kernel_inv (switched_to n s)"
proof (rule kernel_inv_same[of s])
  assume "kernel_inv s" "unat n < 3"
  then show "files_wf (switched_to n s)" by (intro switched_wf inv_files(1))
  show "keys (switched_to n s) = keys s" by (simp add: switched_to_def Let_def keys_def)
  show "fds_at (switched_to n s) = fds_at s" by (rule fds_at_cong) (simp_all add: switched_to_def Let_def)
qed

lemma inv_context_switch:
  assumes inv: "kernel_inv s" and c: "context_switch jd jm s = Some (r, t)"
  shows "kernel_inv t"
proof -
  let ?n = "next_schedule (schedule_index s)"
  have "unat ?n < 3" using next_ix[OF ix_bounds(1)[OF inv_files(3)[OF inv]]] by simp
  note i = inv_switched[OF inv this]
  show ?thesis
  proof (cases "cur_pid (process_array s ! unat ?n) = -1")
    case True
    then obtain eip usp where "boot_shell jd jm (switched_to ?n s) = Some (eip, usp, t)"
      using c unfolding context_switch_eq[OF inv_files(1)[OF inv] refl] by (auto simp: Let_def bind_Some_iff)
    then show ?thesis by (rule inv_boot_shell[OF _ i])
  next
    case False
    then have "t = map_page_exec (cur_pid (process_array s ! unat ?n)) (switched_to ?n s)"
      using c unfolding context_switch_eq[OF inv_files(1)[OF inv] refl] by (auto simp: Let_def)
    then show ?thesis using inv_map_exec[OF i] by simp
  qed
qed

lemma inv_send_eoi [simp]: "kernel_inv (send_eoi irq s) = kernel_inv s"
  by (simp add: send_eoi_def outb_def)

lemma inv_pit:
  assumes inv: "kernel_inv s" and c: "interrupt_pit jd jm s = Some (r, t)"
  shows "kernel_inv t"
  by (rule inv_context_switch[OF _ c[unfolded interrupt_pit_def Let_def]]) (simp add: inv)

lemma inv_rtc: "kernel_inv s \<Longrightarrow> kernel_inv (interrupt_rtc s)"
  by (simp add: interrupt_rtc_def Let_def outb_def)

text \<open>The keyboard interrupt leaves processes and descriptors alone.\<close>

definition same_procs :: "'z kernel_scheme \<Rightarrow> 'z kernel_scheme \<Rightarrow> bool" where
  "same_procs s t \<longleftrightarrow> process_array t = process_array s \<and> kernel_fdt t = kernel_fdt s \<and> pcbs t = pcbs s"

lemma key_same: "key_frame s t \<Longrightarrow> same_procs s t"
  by (simp add: key_frame_def same_procs_def)

lemma same_trans: "same_procs s t \<Longrightarrow> same_procs t u \<Longrightarrow> same_procs s u"
  by (simp add: same_procs_def)

lemma backspace_same:
  assumes "keyboard_wf s" and b: "backspace s = Some t"
  shows "same_procs s t"
proof -
  have cw: "console_wf s" using assms(1) by (simp add: keyboard_wf_def procs_wf_def)
  obtain u where u: "delete_char s = Some u" "console_wf u" "prints s u" using delete_char_safe[OF cw] by blast
  have "same_procs s u" by (rule key_same[OF prints_key_frame[OF u(3,2)]])
  with b u(1) show ?thesis by (auto simp: backspace_def bind_Some_iff same_procs_def Let_def split: if_splits)
qed

lemma scancode_same:
  assumes wf: "keyboard_wf s" and c: "scancode_step code s = Some (i, t)"
  shows "same_procs s t"
proof -
  have cw: "console_wf s" using wf by (simp add: keyboard_wf_def procs_wf_def)
  obtain t0 t1 t2 where sw: "switch_vid 0 s = Some (1, t0)" "switch_vid 1 s = Some (1, t1)"
      "switch_vid 2 s = Some (1, t2)" and f: "key_frame s t0" "key_frame s t1" "key_frame s t2"
    using switch_key_frame[OF cw, of 0] switch_key_frame[OF cw, of 1] switch_key_frame[OF cw, of 2] by auto
  obtain u where u: "key_clear_screen s = Some u" "console_wf u" "prints s u" using clear_safe(1)[OF cw] by blast
  note uf = key_same[OF prints_key_frame[OF u(3,2)]]
  obtain b where b: "backspace s = Some b" "same_procs s b" using backspace_step[OF wf] backspace_same[OF wf] by blast
  have "pred_option (\<lambda>(i, t). same_procs s t) (scancode_step code s)"
    unfolding scancode_step_def
    by (intro post_if; (simp only: sw u b Option.bind.simps prod.case)?; rule post_some;
        ((simp add: f[THEN key_same] uf b; fail) | simp add: same_procs_def))
  from post_use[OF this c] show ?thesis by simp
qed

lemma store_key_full:
  assumes wf: "keyboard_wf s" and n: "kcount s (vis_ix s) = 128"
  shows "store_key c s = None"
proof -
  have cw: "console_wf s" using wf by (simp add: keyboard_wf_def procs_wf_def)
  let ?v = "vis_ix s"
  have v: "?v < 3" by (rule ix_bounds(2)[OF cw])
  obtain t where t: "putc_keyboard c s = Some t" "prints s t" using putc_keyboard_safe[OF cw] by blast
  have "length (kbuf s ?v) = 128" using wf v by (auto simp: keyboard_wf_def line_holds_def)
  moreover have "counter1 t = counter1 s" "counter2 t = counter2 s" "counter3 t = counter3 s"
    "terminal1_buffer t = terminal1_buffer s" "terminal2_buffer t = terminal2_buffer s"
    "terminal3_buffer t = terminal3_buffer s"
    using t(2) by (auto simp: prints_def)
  moreover have "visible_screen s = 0 \<or> visible_screen s = 1 \<or> visible_screen s = 2"
    using v by (intro lt3_cases) (simp add: word_less_nat_alt)
  ultimately show ?thesis
    using t(1) n by (elim disjE) (simp_all add: store_key_def kcount_def kbuf_def)
qed

lemma inv_store_key:
  assumes wf: "keyboard_wf s" and c: "c \<noteq> 0" and k: "store_key c s = Some t"
  shows "keyboard_wf t \<and> same_procs s t"
proof -
  have v: "vis_ix s < 3" using wf ix_bounds(2)[of s] by (simp add: keyboard_wf_def procs_wf_def)
  then have lh: "line_holds (kcount s (vis_ix s)) (kbuf s (vis_ix s)) (kline s (vis_ix s))" using wf by (simp add: keyboard_wf_def)
  have n: "kcount s (vis_ix s) < 128"
    using lh store_key_full[OF wf, of c] k by (cases "kcount s (vis_ix s) = 128") (auto simp: line_holds_def)
  obtain u where u: "prints s u" "keyboard_wf u" "store_key c s = Some (set_line (vis_ix s) (kcount s (vis_ix s) + 1)
      ((kbuf s (vis_ix s))[nat (kcount s (vis_ix s)) := c]) u)"
    using store_key_step[OF wf c n] by blast
  have "line_holds (kcount s (vis_ix s) + 1) ((kbuf s (vis_ix s))[nat (kcount s (vis_ix s)) := c]) (kline s (vis_ix s) @ [c])"
    using n lh c by (intro line_append[OF lh]) (auto simp: line_holds_def)
  note w = set_line_wf(1)[OF u(2) v this]
  have cu: "console_wf u" using u(2) by (simp add: keyboard_wf_def procs_wf_def)
  have "same_procs s u" by (rule key_same[OF prints_key_frame[OF u(1) cu]])
  with w u(3) k show ?thesis by (auto simp: same_procs_def set_line_def)
qed

lemma inv_keyboard:
  assumes inv: "kernel_inv s" and c: "interrupt_keyboard codes s = Some t"
  shows "kernel_inv t"
proof -
  have wf: "keyboard_wf s" using inv by (simp add: kernel_inv_def)
  from c obtain ch s1 s2 where g: "getchar codes s = Some (ch, s1)" and k: "(if ch = 0 then Some s1 else store_key ch s1) = Some s2"
    by (auto simp: interrupt_keyboard_def bind_Some_iff)
  from g obtain code i where fc: "first_code codes 0 = Some code" "scancode_step code s = Some (i, s1)"
    by (auto simp: getchar_def getScancode_def bind_Some_iff)
  have w1: "keyboard_wf s1" using scancode_step_safe[OF wf, of code] fc(2) by auto
  have w2: "keyboard_wf s2" "same_procs s1 s2"
    using k w1 inv_store_key[OF w1, of ch s2] by (auto simp: same_procs_def split: if_splits)
  obtain fs ps where t: "interrupt_keyboard codes s = Some (s2\<lparr>flag_keyboard := fs, port_out := ps\<rparr>)"
    "keyboard_wf (s2\<lparr>flag_keyboard := fs, port_out := ps\<rparr>)" using interrupt_tail[OF w2(1) g k] by blast
  then have te: "t = s2\<lparr>flag_keyboard := fs, port_out := ps\<rparr>" "keyboard_wf t" using c by simp_all
  have sp: "process_array t = process_array s" "kernel_fdt t = kernel_fdt s" "pcbs t = pcbs s"
    using same_trans[OF scancode_same[OF wf fc(2)] w2(2)] by (simp_all add: te(1) same_procs_def)
  have fd: "fds_at t = fds_at s" by (rule fds_at_cong) (simp_all add: sp)
  have "length (terminal1_buffer t) = 128" "length (terminal2_buffer t) = 128" "length (terminal3_buffer t) = 128"
  proof -
    have "length (kbuf t i) = 128" if "i < 3" for i using te(2) that by (auto simp: keyboard_wf_def line_holds_def)
    from this[of 0] this[of 1] this[of 2] show "length (terminal1_buffer t) = 128" "length (terminal2_buffer t) = 128"
      "length (terminal3_buffer t) = 128" by (simp_all add: kbuf_def)
  qed
  moreover have "procs_wf t" using te(2) by (simp add: keyboard_wf_def)
  ultimately show ?thesis using inv te(2) fd by (simp add: kernel_inv_def files_wf_def std_fds_def)
qed

section \<open>System calls\<close>

lemma inv_set_fileop:
  assumes inv: "kernel_inv s" and fd: "unat fd < 8" and o: "set_fileop_ptr fd kind s = Some t"
  shows "kernel_inv t"
proof -
  have c: "kernel_inv u" if "upd_fd fd (\<lambda>d. d\<lparr>table_pointer := T\<rparr>) s = Some u" "T \<noteq> KeyboardTable" "T \<noteq> NullTable" for T u
  proof -
    have "fd_change fd ((cur_fds s ! unat fd)\<lparr>table_pointer := T\<rparr>) s u"
      using upd_fd_change[OF inv_files(1)[OF inv] fd, of "\<lambda>d. d\<lparr>table_pointer := T\<rparr>"] that by (auto simp: fd_valid_def)
    then show ?thesis by (rule inv_fd_change[OF inv _ keys_upd(1)[OF that(1)]]) (simp add: that)
  qed
  show ?thesis using o inv by (auto simp: set_fileop_ptr_def intro: c split: if_splits)
qed

lemma inv_table_open:
  assumes inv: "kernel_inv s" and fd: "2 \<le> unat fd" "unat fd < 8" and T: "T \<noteq> KeyboardTable" and o: "table_open T fd inode s = Some (r, t)"
  shows "kernel_inv t"
proof -
  note a = inv_files(1)[OF inv] fd
  have "\<exists>d. fd_change fd d s t \<and> table_pointer d \<noteq> KeyboardTable"
    using o T file_drv.opn_sets[OF a, of inode] directory_drv.opn_sets[OF a, of inode] rtc_drv.opn_sets[OF a, of inode]
    by (cases T) auto
  then show ?thesis using inv_fd_change[OF inv _ keys_table_open[OF o T]] by blast
qed

lemma inv_sys_open:
  assumes inv: "kernel_inv s" and o: "sys_open entry filename s = Some (r, t)"
  shows "kernel_inv t"
proof -
  have av: "get_avail_fd s = Some (case find (\<lambda>k. flags (cur_fds s ! k) = 0) [2..<8] of None \<Rightarrow> -1 | Some k \<Rightarrow> of_nat k)"
    using find_fd_spec[OF inv_files(2)[OF inv], of 2 6] by (simp add: get_avail_fd_def)
  have rng: "2 \<le> unat fd \<and> unat fd < 8" if f: "get_avail_fd s = Some fd" "fd \<noteq> -1" for fd
  proof -
    obtain k where k: "find (\<lambda>k. flags (cur_fds s ! k) = 0) [2..<8] = Some k" "fd = of_nat k" using f av by (auto split: option.splits)
    then have "2 \<le> k" "k < 8" by (auto simp: find_Some_iff simp del: upt_Suc upt_rec_numeral)
    with k(2) show ?thesis by (simp add: unat_of_nat take_bit_nat_eq_self)
  qed
  have "pred_option (\<lambda>(r, t). kernel_inv t) (sys_open entry filename s)"
    unfolding sys_open_def
  proof (intro post_rules)
    fix fd x r e d u y v b w
    assume f: "get_avail_fd s = Some fd" "fd \<noteq> -1" and u: "set_fileop_ptr fd (dentry_type d) s = Some u"
      and g: "get_fd fd u = Some y" and v: "table_open (table_pointer y) fd (dentry_inode d) u = Some v" and w: "v = (b, w)"
    note fr = rng[OF f]
    have iu: "kernel_inv u" using inv_set_fileop[OF inv _ u] fr by simp
    have "y = cur_fds u ! unat fd" using g files_get[OF inv_files(1)[OF iu], of fd] fr by simp
    then have T: "table_pointer y \<noteq> KeyboardTable" using iu fr by (simp add: kernel_inv_def std_fds_def)
    from inv_table_open[OF iu _ _ T v[unfolded w]] fr show "case (fd, w) of (r, t) \<Rightarrow> kernel_inv t" by simp
  qed (simp_all add: inv)
  from post_use[OF this o] show ?thesis by simp
qed


lemma inv_phys: "kernel_inv s \<Longrightarrow> \<exists>m. t = s\<lparr>phys := m\<rparr> \<Longrightarrow> kernel_inv t"
  by auto

lemma inv_upd_position:
  assumes inv: "kernel_inv s" and u: "upd_fd fd (\<lambda>d. d\<lparr>file_position := f d\<rparr>) s = Some t"
  shows "kernel_inv t"
proof (cases "unat fd < 8")
  case True
  let ?d = "cur_fds s ! unat fd"
  have len: "length (cur_fds s) = 8" by (rule fds_length[OF inv_files(2)[OF inv]])
  then have "?d \<in> set (cur_fds s)" using True by (intro nth_mem) simp
  then have "fd_valid ?d" using inv_files(1)[OF inv] by (simp add: files_wf_def)
  then have c: "fd_change fd (?d\<lparr>file_position := f ?d\<rparr>) s t"
    using upd_fd_change[OF inv_files(1)[OF inv] True, of "\<lambda>d. d\<lparr>file_position := f d\<rparr>"] u by (auto simp: fd_valid_def)
  have "table_pointer ((cur_fds s)[unat fd := ?d\<lparr>file_position := f ?d\<rparr>] ! k) = table_pointer (cur_fds s ! k)" if "k < 8" for k
    using that len by (cases "k = unat fd") simp_all
  then have "std_fds t" using c inv by (auto simp: std_fds_def fd_change_def kernel_inv_def)
  then show ?thesis using c keys_upd(1)[OF u] by (intro kernel_inv_keys[OF inv]) (simp_all add: fd_change_def)
next
  case False
  then have "get_fd fd s = None" using get_fd_out[OF inv_files(2)[OF inv]] by simp
  then show ?thesis using u by (auto simp: upd_fd_def bind_Some_iff)
qed

lemma inv_file_read:
  assumes "kernel_inv s" and "file_read fd buf nbytes s = Some (r, t)"
  shows "kernel_inv t"
proof -
  have "pred_option (\<lambda>(r, t). kernel_inv t) (file_read fd buf nbytes s)"
    unfolding file_read_def
    by (intro post_rules; simp only: prod.case; (erule inv_upd_position[rotated] inv_vm_read[rotated] | rule assms(1))+)
  from post_use[OF this assms(2)] show ?thesis by simp
qed

lemma inv_directory_read:
  assumes "kernel_inv s" and "directory_read dent fd buf nbytes s = Some (r, t)"
  shows "kernel_inv t"
proof -
  have m: "kernel_inv u" if "memcpy rd vwrite s buf a n = Some u" for rd a n u
    by (rule inv_phys[OF assms(1) vmw.memcpy_keeps[OF that]]) (rule exI[of _ "phys s"], simp)
  have v: "kernel_inv w" if "vwrite u a b = Some w" "kernel_inv u" for u w a b
    by (rule inv_phys[OF that(2) vmw.wr_keeps[OF that(1)]]) (rule exI[of _ "phys u"], simp)
  have "pred_option (\<lambda>(r, t). kernel_inv t) (directory_read dent fd buf nbytes s)"
    unfolding directory_read_def
    by (intro post_rules; simp only: prod.case; (erule inv_upd_position[rotated] v m | rule assms(1))+)
  from post_use[OF this assms(2)] show ?thesis by simp
qed

lemma env_run_keeps:
  assumes "\<And>k s t. env k s = Some t \<Longrightarrow> I s \<Longrightarrow> I t"
  shows "env_run env k n s = Some t \<Longrightarrow> I s \<Longrightarrow> I t"
  by (induction n arbitrary: k s) (auto simp: bind_Some_iff dest: assms)

lemma inv_rtc_read:
  assumes env: "\<And>k s t. env k s = Some t \<Longrightarrow> kernel_inv s \<Longrightarrow> kernel_inv t"
    and inv: "kernel_inv s" and r: "rtc_read env fd buf nbytes s = Some (r, t)"
  shows "kernel_inv t"
proof -
  obtain n where "env_run env 0 n (s\<lparr>flag_rtc := 0\<rparr>) = Some t"
    using r by (auto simp: rtc_read_def bind_Some_iff rtcw.wait_iff stops_at_def)
  from env_run_keeps[where I = kernel_inv, OF _ this] env show ?thesis by (simp add: inv)
qed

lemma inv_set_line:
  assumes inv: "kernel_inv s" and v: "v < 3"
  shows "kernel_inv (set_line v 0 (replicate 128 0) s)"
proof -
  let ?t = "set_line v 0 (replicate 128 0) s"
  have kw: "keyboard_wf ?t" by (rule set_line_wf(1)[OF _ v line_empty]) (use inv in \<open>simp add: kernel_inv_def\<close>)
  have fd: "fds_at ?t = fds_at s" by (rule fds_at_cong) (simp_all add: set_line_def)
  have "procs_wf ?t" using kw by (simp add: keyboard_wf_def)
  then have "files_wf ?t" using inv_files(1)[OF inv] fd by (simp add: files_wf_def) (simp add: set_line_def)
  with kw fd inv show ?thesis by (simp add: kernel_inv_def std_fds_def)
qed

lemma inv_flag:
  assumes inv: "kernel_inv s" and l: "length fs = 3"
  shows "kernel_inv (s\<lparr>flag_keyboard := fs\<rparr>)"
proof -
  let ?t = "s\<lparr>flag_keyboard := fs\<rparr>"
  have kw: "keyboard_wf ?t" using inv l by (simp add: kernel_inv_def)
  have fd: "fds_at ?t = fds_at s" by (rule fds_at_cong) simp_all
  have "procs_wf ?t" using kw by (simp add: keyboard_wf_def)
  then have "files_wf ?t" using inv_files(1)[OF inv] fd by (simp add: files_wf_def)
  with kw fd inv show ?thesis by (simp add: kernel_inv_def std_fds_def)
qed

lemma inv_keyboard_read:
  assumes env: "\<And>k s t. env k s = Some t \<Longrightarrow> kernel_inv s \<Longrightarrow> kernel_inv t"
    and inv: "kernel_inv s" and r: "keyboard_read env fd buf nbytes s = Some (r, t)"
  shows "kernel_inv t"
proof -
  from r obtain d where d: "get_fd fd s = Some d" by (auto simp: keyboard_read_def bind_Some_iff)
  show ?thesis
  proof (cases "flags d = 0")
    case True
    then show ?thesis using r d inv by (simp add: keyboard_read_def)
  next
    case False
    from r d False obtain slot u where slot: "cur_slot s = Some slot" and u: "key_wait env (get_pcb (cur_pid slot)) 0 s = Some u"
      by (auto simp: keyboard_read_def bind_Some_iff)
    from u obtain n where run: "env_run env 0 n s = Some u" by (auto simp: keyw.wait_iff stops_at_def)
    from env_run_keeps[where I = kernel_inv, OF _ run] env have iu: "kernel_inv u" by (simp add: inv)
    then have kw: "keyboard_wf u" "length (flag_keyboard u) = 3" by (simp_all add: kernel_inv_def keyboard_wf_def)
    have v: "vis_ix u < 3" by (rule ix_bounds(2)[OF inv_files(3)[OF iu]])
    let ?w = "u\<lparr>flag_keyboard := (flag_keyboard u)[vis_ix u := 0]\<rparr>"
    have iw: "kernel_inv ?w" by (rule inv_flag[OF iu]) (simp add: kw)
    from r obtain w' where w: "copy_line (kbuf u (vis_ix u)) buf ?w = Some (r, w')" and t: "t = set_line (vis_ix u) 0 (replicate 128 0) w'"
      unfolding keyboard_read_eq[OF d False slot u kw(1)] by (auto simp: bind_Some_iff)
    from w obtain n x where x: "for_up 0 n (\<lambda>i s. do { b \<leftarrow> arr_get (kbuf u (vis_ix u)) i; vwrite s (buf + of_nat i) b }) ?w = Some x"
      "vwrite x (buf + r) 0 = Some w'" by (auto simp: copy_line_def bind_Some_iff)
    have "kernel_inv x"
      by (rule for_up_inv[where I = kernel_inv, OF _ x(1) iw]) (auto simp: bind_Some_iff vwrite_def)
    then have "kernel_inv w'" using x(2) by (auto simp: vwrite_def bind_Some_iff)
    then show ?thesis unfolding t by (rule inv_set_line[OF _ v])
  qed
qed

lemma inv_sys_read:
  assumes env: "\<And>k s t. env k s = Some t \<Longrightarrow> kernel_inv s \<Longrightarrow> kernel_inv t"
    and inv: "kernel_inv s" and r: "sys_read env dent fd buf nbytes s = Some (r, t)"
  shows "kernel_inv t"
proof -
  have T: "kernel_inv u" if "table_read env dent T fd buf nbytes s = Some (r, u)" for T r u
    using that inv_rtc_read[of env, OF env inv] inv_keyboard_read[of env, OF env inv] inv_file_read[OF inv]
      inv_directory_read[OF inv] by (cases T) auto
  have "pred_option (\<lambda>(r, t). kernel_inv t) (sys_read env dent fd buf nbytes s)"
    unfolding sys_read_def by (intro post_rules) (simp_all add: inv pred_option_def T split: option.splits, use T in auto)
  from post_use[OF this r] show ?thesis by simp
qed

lemma inv_putc: "kernel_inv s \<Longrightarrow> putc c s = Some t \<Longrightarrow> kernel_inv t"
proof -
  assume i: "kernel_inv s" and p: "putc c s = Some t"
  obtain u where "putc c s = Some u" "console_wf u" "prints s u" using putc_safe[OF inv_files(3)[OF i]] by blast
  with p inv_prints[OF i] show "kernel_inv t" by simp
qed

lemma inv_keyboard_write:
  assumes inv: "kernel_inv s" and w: "keyboard_write fd buf nbytes s = Some (r, t)"
  shows "kernel_inv t"
proof -
  from w have f: "for_up 0 (nat (sint nbytes)) (\<lambda>i s. do { b \<leftarrow> vread s (buf + of_nat i); putc b s }) s = Some t"
    by (auto simp: keyboard_write_def bind_Some_iff)
  show ?thesis by (rule for_up_inv[where I = kernel_inv, OF _ f inv]) (auto simp: bind_Some_iff intro: inv_putc)
qed

lemma inv_sys_write:
  assumes inv: "kernel_inv s" and r: "sys_write fd buf nbytes s = Some (r, t)"
  shows "kernel_inv t"
proof -
  have "pred_option (\<lambda>(r, t). kernel_inv t) (rtc_write fd buf nbytes s)"
    unfolding rtc_write_def Let_def by (intro post_rules) (simp_all add: inv)
  then have "kernel_inv u" if "rtc_write fd buf nbytes s = Some (r, u)" for r u using that by simp
  then have T: "kernel_inv u" if "table_write T fd buf nbytes s = Some (r, u)" for T r u
    using that inv_keyboard_write[OF inv] inv by (cases T) (auto simp: directory_write_def file_write_def)
  have "pred_option (\<lambda>(r, t). kernel_inv t) (sys_write fd buf nbytes s)"
    unfolding sys_write_def by (intro post_rules) (simp_all add: inv pred_option_def T split: option.splits, use T in auto)
  from post_use[OF this r] show ?thesis by simp
qed

lemma inv_getargs:
  assumes inv: "kernel_inv s" and r: "getargs buf nbytes s = Some (r, t)"
  shows "kernel_inv t"
proof -
  have ub: "length (user_buf (pcbs s a)) = 1024" for a using inv_files(2)[OF inv] by (simp add: procs_wf_def)
  have up: "kernel_inv (pcb_upd a (\<lambda>b. b\<lparr>user_buf := u\<rparr>) (s\<lparr>arg_retrieved := x\<rparr>))"
    if "arr_set (user_buf (pcbs s a)) k 0 = Some u" for a k u x
    by (rule inv_pcb_fields(8)) (use that ub inv in \<open>auto simp: arr_set_def split: if_splits\<close>)
  have st: "kernel_inv w" if "strncpy rd (\<lambda>s a. vwrite s (buf + a)) u d c n = Some w" "kernel_inv u" for rd u d c n w
    by (rule inv_phys[OF that(2) bufw.strncpy_keeps[OF that(1)]]) (rule exI[of _ "phys u"], simp)
  have "pred_option (\<lambda>(r, t). kernel_inv t) (getargs buf nbytes s)"
    unfolding getargs_def Let_def
    by (intro post_rules; simp only: prod.case kernel_inv_upd; simp?; ((erule st)?; (simp only: kernel_inv_upd)?; rule up; simp))
  from post_use[OF this r] show ?thesis by simp
qed

lemma inv_vidmap:
  assumes inv: "kernel_inv s" and r: "vidmap p s = Some (r, t)"
  shows "kernel_inv t"
proof -
  have m: "kernel_inv w" if i: "kernel_inv u" and m: "map_vid p u = Some (x, w)" for u x w
  proof -
    obtain v where v: "store32 vwrite (set_pte_vid 0 (video_entry 0 7) (set_pdt VID (addr_pte_vid u OR 7) u)) p 0x10000000 = Some v"
      "w = load_cr3 v" using m by (auto simp: map_vid_iff)
    obtain y where "v = (set_pte_vid 0 (video_entry 0 7) (set_pdt VID (addr_pte_vid u OR 7) u))\<lparr>phys := y\<rparr>"
      using store_frame[OF v(1)[unfolded store32_def]] by blast
    then have "w = u\<lparr>phys := phys w, pdt := pdt w, pte := pte w, pte_vid := pte_vid w, tlb_stale := tlb_stale w\<rparr>"
      unfolding v(2) by (simp add: load_cr3_def set_pte_vid_def set_pdt_def)
    then show ?thesis
      using inv_paging[of "u\<lparr>phys := phys w\<rparr>" w] map_vid_wf[OF inv_files(4)[OF i] m] i by simp
  qed
  have "pred_option (\<lambda>(r, t). kernel_inv t) (vidmap p s)"
    unfolding vidmap_def Let_def
    by (intro post_rules) (simp_all add: inv pred_option_def split: option.splits, use m inv_pcb_fields(7)[OF inv] in fastforce)
  from post_use[OF this r] show ?thesis by simp
qed

section \<open>The kernel as a transition system\<close>

lemma inv_syscall:
  assumes env: "\<And>k u v. env k u = Some v \<Longrightarrow> kernel_inv u \<Longrightarrow> kernel_inv v"
    and inv: "kernel_inv s" and c: "syscall_wrapper env jd jm eax ebx ecx edx s = Some (r, t)"
  shows "kernel_inv t"
proof -
  have l: "pred_option (\<lambda>(r, t). kernel_inv t) (sys_lift m)" if "pred_option (\<lambda>(r, t). kernel_inv t) m"
    for m :: "(i32 \<times> 'a kernel_scheme) option" using that by (cases m) (auto simp: sys_lift_def)
  have p: "pred_option (\<lambda>(r, t). kernel_inv t) m" if "\<And>r t. m = Some (r, t) \<Longrightarrow> kernel_inv t"
    for m :: "('b \<times> 'a kernel_scheme) option" using that by (cases m) auto
  have "pred_option (\<lambda>(r, t). kernel_inv t) (syscall_wrapper env jd jm eax ebx ecx edx s)"
    unfolding syscall_wrapper_def
    by (intro post_if l) (auto simp: inv set_handler_def sigreturn_def intro!: p
        intro: inv_halt[OF inv] inv_execute[OF inv] inv_sys_read[of env, OF env inv] inv_sys_write[OF inv]
          inv_sys_open[OF inv] inv_sys_close[OF inv] inv_getargs[OF inv] inv_vidmap[OF inv])
  from post_use[OF this c] show ?thesis by simp
qed

text \<open>
  What happens to the kernel: the interrupts, the exceptions, the system calls and user code.  While
  a system call waits, the kernel goes on working, so what the waiting loop sees between two polls
  is again a sequence of such steps.  User code changes the bytes it can reach; the stack registers
  move with whatever runs.
\<close>

inductive kstep :: "'z kernel_scheme \<Rightarrow> 'z kernel_scheme \<Rightarrow> bool" where
  timer: "interrupt_pit jd jm s = Some (r, t) \<Longrightarrow> kstep s t"
| key: "interrupt_keyboard codes s = Some t \<Longrightarrow> kstep s t"
| clock: "kstep s (interrupt_rtc s)"
| slave: "kstep s (interrupt_slave s)"
| exception: "h \<in> exception_handlers junk \<Longrightarrow> h s = Some (r, t) \<Longrightarrow> kstep s t"
| syscall: "(\<And>k u v. env k u = Some v \<Longrightarrow> kstep\<^sup>*\<^sup>* u v) \<Longrightarrow>
    syscall_wrapper env jd jm eax ebx ecx edx s = Some (r, t) \<Longrightarrow> kstep s t"
| user: "(\<And>c. m c \<noteq> phys s c \<Longrightarrow> \<exists>a. user_ok s a \<and> translate s a = Some c) \<Longrightarrow>
    kstep s (s\<lparr>phys := m, esp := x, ebp := y\<rparr>)"

lemma kstep_inv: "kstep s t \<Longrightarrow> kernel_inv s \<Longrightarrow> kernel_inv t"
proof (induction rule: kstep.induct)
  case (exception h junk s r t)
  from exception(1) obtain message where "h = exception_handler junk message" "0 \<notin> set message" "37 \<notin> set message"
    by (rule exception_message)
  with exception inv_exception show ?case by metis
next
  case (syscall env jd jm eax ebx ecx edx s r t)
  have "kernel_inv v" if e: "env k u = Some v" and i: "kernel_inv u" for k u v
  proof -
    have "(\<lambda>x y. kstep x y \<and> (kernel_inv x \<longrightarrow> kernel_inv y))\<^sup>*\<^sup>* u v" using syscall(1)[OF e] .
    then show ?thesis using i by (induction rule: rtranclp_induct) auto
  qed
  from inv_syscall[of env, OF this syscall(3,2)] show ?case .
qed (auto intro: inv_pit inv_keyboard inv_rtc simp: interrupt_slave_def)

text \<open>
  The kernel's invariant.  Whatever sequence of timer, keyboard and clock interrupts, exceptions,
  system calls (with any arguments) and user code runs from a well-formed state, the state stays
  well formed: page tables of the kernel's shape, cursors on their screens, eight descriptors per
  process with a driver for every open one, keyboard lines that are NUL-terminated up to a full buffer,
  and the keyboard behind no descriptor but stdin and stdout.
\<close>

theorem kernel_invariant:
  assumes "kernel_inv s" and "kstep\<^sup>*\<^sup>* s t"
  shows "kernel_inv t"
  using assms(2,1) by (induction rule: rtranclp_induct) (auto intro: kstep_inv)

end
