(* ===== verification/Entry.thy ===== *)
theory Entry
  imports Kernel
begin

text \<open>
  Boot (\<open>kernel.c\<close>): \<open>entry\<close> prints the boot information, sets up the descriptors, initialises every
  component, enables interrupts and starts the first shell.  The addresses the linker assigns
  (\<open>ldt\<close>, \<open>tss\<close>, \<open>keyboard_table\<close>) are arguments.
\<close>

section \<open>Segment descriptors\<close>

record seg_desc =
  seg_lim_15_00 :: u16
  base_15_00 :: u16
  base_23_16 :: u8
  seg_type :: "4 word"
  seg_sys :: "1 word"
  seg_dpl :: "2 word"
  seg_present :: "1 word"
  seg_lim_19_16 :: "4 word"
  seg_avail :: "1 word"
  seg_reserved :: "1 word"
  seg_opsize :: "1 word"
  seg_granularity :: "1 word"
  base_31_24 :: u8

definition SET_LDT_PARAMS :: "u32 \<Rightarrow> u32 \<Rightarrow> seg_desc \<Rightarrow> seg_desc" where
  "SET_LDT_PARAMS addr lim str =
     str\<lparr>base_31_24 := ucast (drop_bit 24 (addr AND 0xFF000000)),
       base_23_16 := ucast (drop_bit 16 (addr AND 0x00FF0000)), base_15_00 := ucast (addr AND 0xFFFF),
       seg_lim_19_16 := ucast (drop_bit 16 (lim AND 0x000F0000)), seg_lim_15_00 := ucast (lim AND 0xFFFF)\<rparr>"

definition SET_TSS_PARAMS :: "u32 \<Rightarrow> u32 \<Rightarrow> seg_desc \<Rightarrow> seg_desc" where
  "SET_TSS_PARAMS addr lim str =
     str\<lparr>base_31_24 := ucast (drop_bit 24 (addr AND 0xFF000000)),
       base_23_16 := ucast (drop_bit 16 (addr AND 0x00FF0000)), base_15_00 := ucast (addr AND 0xFFFF),
       seg_lim_19_16 := ucast (drop_bit 16 (lim AND 0x000F0000)), seg_lim_15_00 := ucast (lim AND 0xFFFF)\<rparr>"

definition TSS_SIZE :: u32 where "TSS_SIZE = 104"

text \<open>The two blocks of \<open>entry\<close> that build the descriptors; \<open>junk\<close> is the uninitialised local.\<close>

definition the_ldt_desc :: "seg_desc \<Rightarrow> u32 \<Rightarrow> u32 \<Rightarrow> seg_desc" where
  "the_ldt_desc junk ldt ldt_size = SET_LDT_PARAMS ldt ldt_size
     (junk\<lparr>seg_granularity := 0, seg_opsize := 1, seg_reserved := 0, seg_avail := 0, seg_present := 1,
       seg_dpl := 0, seg_sys := 0, seg_type := 2\<rparr>)"

definition the_tss_desc :: "seg_desc \<Rightarrow> u32 \<Rightarrow> u32 \<Rightarrow> seg_desc" where
  "the_tss_desc junk tss tss_size = SET_TSS_PARAMS tss tss_size
     (junk\<lparr>seg_granularity := 0, seg_opsize := 0, seg_reserved := 0, seg_avail := 0,
       seg_lim_19_16 := ucast (TSS_SIZE AND 0x000F0000), seg_present := 1, seg_dpl := 0, seg_sys := 0,
       seg_type := 9, seg_lim_15_00 := ucast (TSS_SIZE AND 0x0000FFFF)\<rparr>)"

section \<open>The boot information\<close>

definition print :: "u8 list \<Rightarrow> u8 list \<Rightarrow> u32 list \<Rightarrow> 'z console_scheme \<Rightarrow> 'z console_scheme option" where
  "print junk fmt args s = map_option snd (printf junk (fmt @ [0]) args s)"

text \<open>The words of \<open>multiboot_info_t\<close>, \<open>module_t\<close> and \<open>memory_map_t\<close> by their number.\<close>

definition field :: "'z machine_scheme \<Rightarrow> u32 \<Rightarrow> nat \<Rightarrow> u32 option" where
  "field s p k = load32 vread s (p + 4 * of_nat k)"

definition CHECK_FLAG :: "u32 \<Rightarrow> nat \<Rightarrow> bool" where
  "CHECK_FLAG fl b \<longleftrightarrow> fl AND push_bit b 1 \<noteq> 0"

definition print_module :: "u8 list \<Rightarrow> nat \<Rightarrow> u32 \<Rightarrow> 'z fsys_scheme \<Rightarrow> 'z fsys_scheme option" where
  "print_module junk mod_count md s =
     do { start \<leftarrow> field s md 0;
          s \<leftarrow> print junk (ascii ''Module %d loaded at address: 0x%#x'' @ [10]) [of_nat mod_count, start] s;
          end_addr \<leftarrow> field s md 1;
          s \<leftarrow> print junk (ascii ''Module %d ends at address: 0x%#x'' @ [10]) [of_nat mod_count, end_addr] s;
          s \<leftarrow> print junk (ascii ''First few bytes of module:'' @ [10]) [] s;
          s \<leftarrow> (if mod_count = 0 then do { start \<leftarrow> field s md 0; (_, s') \<leftarrow> init_filesys start s; Some s' } else Some s);
          s \<leftarrow> for_up 0 16 (\<lambda>i s. do { start \<leftarrow> field s md 0; b \<leftarrow> vread s (start + of_nat i);
                 print junk (ascii ''0x%x '') [scast b] s }) s;
          print junk [10] [] s }"

partial_function (option) print_modules_from :: "u8 list \<Rightarrow> u32 \<Rightarrow> nat \<Rightarrow> u32 \<Rightarrow>
    'z fsys_scheme \<Rightarrow> 'z fsys_scheme option" where
  "print_modules_from junk mbi mod_count md s =
     do { n \<leftarrow> field s mbi 5;
          if mod_count < unat n
          then do { s' \<leftarrow> print_module junk mod_count md s; print_modules_from junk mbi (Suc mod_count) (md + 16) s' }
          else Some s }"

definition print_modules :: "u8 list \<Rightarrow> u32 \<Rightarrow> 'z fsys_scheme \<Rightarrow> 'z fsys_scheme option" where
  "print_modules junk mbi s = do { md \<leftarrow> field s mbi 6; print_modules_from junk mbi 0 md s }"

partial_function (option) print_mmap :: "u8 list \<Rightarrow> u32 \<Rightarrow> u32 \<Rightarrow> 'z console_scheme \<Rightarrow> 'z console_scheme option" where
  "print_mmap junk mbi mmap s =
     do { start \<leftarrow> field s mbi 12; len \<leftarrow> field s mbi 11;
          if mmap < start + len then
            do { w0 \<leftarrow> field s mmap 0; w1 \<leftarrow> field s mmap 1; w2 \<leftarrow> field s mmap 2;
                 w3 \<leftarrow> field s mmap 3; w4 \<leftarrow> field s mmap 4; w5 \<leftarrow> field s mmap 5;
                 s \<leftarrow> print junk ([9] @ ascii ''size = 0x%x, base_addr = 0x%#x%#x'' @ [10, 9] @
                        ascii ''type = 0x%x,  length'' @ [9] @ ascii ''= 0x%#x%#x'' @ [10])
                        [w0, w2, w1, w5, w4, w3] s;
                 sz \<leftarrow> field s mmap 0;
                 print_mmap junk mbi (mmap + sz + 4) s }
          else Some s }"

definition when_flag :: "u32 \<Rightarrow> nat \<Rightarrow> ('z fsys_scheme \<Rightarrow> 'z fsys_scheme option) \<Rightarrow>
    'z fsys_scheme \<Rightarrow> 'z fsys_scheme option" where
  "when_flag mbi b act s = do { fl \<leftarrow> field s mbi 0; if CHECK_FLAG fl b then act s else Some s }"

text \<open>True when \<open>entry\<close> returns because bits 4 and 5 are both set.\<close>

definition entry_info :: "u8 list \<Rightarrow> u32 \<Rightarrow> 'z fsys_scheme \<Rightarrow> (bool \<times> 'z fsys_scheme) option" where
  "entry_info junk mbi s =
     do { fl \<leftarrow> field s mbi 0;
          s \<leftarrow> print junk (ascii ''flags = 0x%#x'' @ [10]) [fl] s;
          s \<leftarrow> when_flag mbi 0 (\<lambda>s. do { lo \<leftarrow> field s mbi 1; up \<leftarrow> field s mbi 2;
                 print junk (ascii ''mem_lower = %uKB, mem_upper = %uKB'' @ [10]) [lo, up] s }) s;
          s \<leftarrow> when_flag mbi 1 (\<lambda>s. do { d \<leftarrow> field s mbi 3;
                 print junk (ascii ''boot_device = 0x%#x'' @ [10]) [d] s }) s;
          s \<leftarrow> when_flag mbi 2 (\<lambda>s. do { c \<leftarrow> field s mbi 4;
                 print junk (ascii ''cmdline = %s'' @ [10]) [c] s }) s;
          s \<leftarrow> when_flag mbi 3 (print_modules junk mbi) s;
          fl \<leftarrow> field s mbi 0;
          if CHECK_FLAG fl 4 \<and> CHECK_FLAG fl 5
          then do { s \<leftarrow> print junk (ascii ''Both bits 4 and 5 are set.'' @ [10]) [] s; Some (True, s) }
          else do {
            s \<leftarrow> when_flag mbi 5 (\<lambda>s. do { n \<leftarrow> field s mbi 7; sz \<leftarrow> field s mbi 8; a \<leftarrow> field s mbi 9; x \<leftarrow> field s mbi 10;
                   print junk (ascii ''elf_sec: num = %u, size = 0x%#x, addr = 0x%#x, shndx = 0x%#x'' @ [10]) [n, sz, a, x] s }) s;
            s \<leftarrow> when_flag mbi 6 (\<lambda>s. do { a \<leftarrow> field s mbi 12; l \<leftarrow> field s mbi 11;
                   s \<leftarrow> print junk (ascii ''mmap_addr = 0x%#x, mmap_length = 0x%x'' @ [10]) [a, l] s;
                   a \<leftarrow> field s mbi 12; print_mmap junk mbi a s }) s;
            Some (False, s) } }"

section \<open>Initialisation\<close>

text \<open>
  \<open>keyboard_init\<close> runs before \<open>init_scheduler\<close> has set \<open>cur_fd_ptr\<close>: the pointer is null, paging is
  off, and the two descriptors are written to physical addresses 0 to 31.  \<open>table\<close> is the address
  of \<open>keyboard_table\<close>.
\<close>

definition keyboard_init_early :: "u32 \<Rightarrow> 'z keyboard_scheme \<Rightarrow> 'z keyboard_scheme option" where
  "keyboard_init_early table s0 =
     do { let s = s0\<lparr>key_status := 0, key_flag := 0\<rparr>;
          fs \<leftarrow> arr_set (flag_keyboard s) 0 0;
          fs \<leftarrow> arr_set fs 1 0;
          fs \<leftarrow> arr_set fs 2 0;
          let s = s\<lparr>flag_keyboard := fs, counter1 := 0, counter2 := 0, counter3 := 0, terminal_flag := 0\<rparr>;
          s \<leftarrow> store32 vwrite s 12 1;
          s \<leftarrow> store32 vwrite s 28 1;
          s \<leftarrow> store32 vwrite s 0 table;
          s \<leftarrow> store32 vwrite s 4 0;
          s \<leftarrow> store32 vwrite s 8 0;
          s \<leftarrow> store32 vwrite s 16 table;
          s \<leftarrow> store32 vwrite s 20 0;
          store32 vwrite s 24 0 }"

text \<open>The addresses and sizes the linker assigns.\<close>

record linked =
  ldt_addr :: u32
  ldt_size :: u32
  tss_addr :: u32
  tss_size :: u32
  keyboard_table_addr :: u32
  handler_addr :: "handler \<Rightarrow> u32"

text \<open>The kernel state with the descriptor tables and the registers that select from them.\<close>

record cpu = kernel +
  ldt_desc_ptr :: seg_desc
  tss_desc_ptr :: seg_desc
  ldtr :: u16
  tr :: u16
  tss_ldt :: u16
  tss_ss0 :: u16
  idt_table :: "nat \<Rightarrow> idt_desc"

definition KERNEL_DS :: u16 where "KERNEL_DS = 0x0018"
definition KERNEL_TSS :: u16 where "KERNEL_TSS = 0x0030"
definition KERNEL_LDT :: u16 where "KERNEL_LDT = 0x0038"

text \<open>\<open>junk\<close> is what the uninitialised local descriptors of the two blocks hold.\<close>

definition entry_segments :: "linked \<Rightarrow> seg_desc \<Rightarrow> 'z cpu_scheme \<Rightarrow> 'z cpu_scheme" where
  "entry_segments lk junk s =
     s\<lparr>ldt_desc_ptr := the_ldt_desc junk (ldt_addr lk) (ldt_size lk), ldtr := KERNEL_LDT,
       tss_desc_ptr := the_tss_desc junk (tss_addr lk) (tss_size lk),
       tss_ldt := KERNEL_LDT, tss_ss0 := KERNEL_DS, tss_esp0 := 0x800000, tr := KERNEL_TSS\<rparr>"

definition entry_init :: "linked \<Rightarrow> seg_desc \<Rightarrow> u8 list \<Rightarrow> 'z cpu_scheme \<Rightarrow> 'z cpu_scheme option" where
  "entry_init lk junk_seg junk s =
     do { let s = entry_segments lk junk_seg s;
          let s = i8259_init s;
          let s = s\<lparr>idt_table := initialize_idt (handler_addr lk) (idt_table s)\<rparr>;
          s \<leftarrow> keyboard_init_early (keyboard_table_addr lk) s;
          s \<leftarrow> enable_irq 0 s;
          let s = process_init s;
          s \<leftarrow> enable_irq 1 s;
          s \<leftarrow> enable_irq 2 s;
          s \<leftarrow> enable_irq 8 s;
          let s = init_paging s;
          s \<leftarrow> init_pit 100 s;
          (_, s) \<leftarrow> init_scheduler s;
          s \<leftarrow> print junk (ascii ''Enabling Interrupts'' @ [10]) [] s;
          Some (sti s) }"

datatype entry_outcome = EntryReturned | EntryUser u32 u32

definition entry :: "linked \<Rightarrow> seg_desc \<Rightarrow> u8 list \<Rightarrow> dentry \<Rightarrow> u8 list \<Rightarrow> u32 \<Rightarrow> u32 \<Rightarrow> 'z cpu_scheme \<Rightarrow>
    (entry_outcome \<times> 'z cpu_scheme) option" where
  "entry lk junk_seg junk junk_dent junk_magic magic addr s =
     do { s \<leftarrow> clear s;
          if magic \<noteq> 0x2BADB002
          then do { s \<leftarrow> print junk (ascii ''Invalid magic number: 0x%#x'' @ [10]) [magic] s; Some (EntryReturned, s) }
          else do {
            (stop, s) \<leftarrow> entry_info junk addr s;
            if stop then Some (EntryReturned, s)
            else do {
              s \<leftarrow> entry_init lk junk_seg junk s;
              (eip, usp, s) \<leftarrow> boot_shell junk_dent junk_magic s;
              Some (EntryUser eip usp, s) } } }"

section \<open>The state initialisation leaves\<close>

text \<open>Memory at the start of \<open>entry_init\<close>: static data is zero, and \<open>init_filesys\<close> has run.\<close>

definition boot_ready :: "'z kernel_scheme \<Rightarrow> bool" where
  "boot_ready s \<longleftrightarrow> \<not> paging_on s \<and> addr_pte s AND 0xFFF = 0 \<and> addr_pte_vid s AND 0xFFF = 0 \<and>
     addr_pte s \<noteq> addr_pte_vid s \<and> (\<forall>i<1024. pte_vid s i = 0) \<and> length (process_array s) = 3 \<and>
     visible_screen s = 0 \<and> length (screen_x s) = 3 \<and> length (screen_y s) = 3 \<and>
     (\<forall>i<3. cursor_ok (screen_x s ! i) (screen_y s ! i)) \<and> length (kernel_fdt s) = 8 \<and>
     (\<forall>a. length (fd_table (pcbs s a)) = 8 \<and> length (user_buf (pcbs s a)) = 1024) \<and>
     (\<forall>p. \<forall>d\<in>set (fds_at s p). fd_valid d \<and> table_pointer d \<noteq> KeyboardTable) \<and>
     length (flag_keyboard s) = 3 \<and> (\<forall>i<3. kbuf s i = replicate 128 0)"

lemma flat_store32: "\<not> paging_on s \<Longrightarrow> \<exists>m. store32 vwrite s a w = Some (s\<lparr>phys := m\<rparr>)"
proof -
  assume off: "\<not> paging_on s"
  let ?bs = "[byte_of w 0, byte_of w 1, byte_of w 2, byte_of w 3]"
  have "\<forall>i<length ?bs. translate s (a + of_nat i) \<noteq> None" using off by (simp add: translate_def)
  then obtain t where t: "store_bytes vwrite s a ?bs = Some t" using vm.store_Some_iff[of s a ?bs] by blast
  then show ?thesis using store_frame[OF t] by (auto simp: store32_def)
qed

lemma keyboard_early:
  assumes off: "\<not> paging_on s" and fl: "length (flag_keyboard s) = 3"
  shows "\<exists>m. keyboard_init_early table s = Some (s\<lparr>key_status := 0, key_flag := 0, flag_keyboard := [0, 0, 0],
    counter1 := 0, counter2 := 0, counter3 := 0, terminal_flag := 0, phys := m\<rparr>)"
proof -
  let ?s = "s\<lparr>key_status := 0, key_flag := 0, flag_keyboard := [0, 0, 0], counter1 := 0, counter2 := 0,
    counter3 := 0, terminal_flag := 0\<rparr>"
  have st: "\<exists>m'. store32 vwrite (?s\<lparr>phys := m\<rparr>) a w = Some (?s\<lparr>phys := m'\<rparr>)" for m a w
    using flat_store32[of "?s\<lparr>phys := m\<rparr>" a w] off by simp
  obtain a b c where "flag_keyboard s = [a, b, c]" using fl by (auto simp: length_Suc_conv numeral_3_eq_3)
  then have fs: "do { fs \<leftarrow> arr_set (flag_keyboard s) 0 0; fs \<leftarrow> arr_set fs 1 0; arr_set fs 2 0 } = Some [0, 0, 0]"
    by (simp add: arr_set_def)
  obtain m1 where m1: "store32 vwrite ?s 12 1 = Some (?s\<lparr>phys := m1\<rparr>)" using st[of "phys ?s"] by auto
  obtain m2 where m2: "store32 vwrite (?s\<lparr>phys := m1\<rparr>) 28 1 = Some (?s\<lparr>phys := m2\<rparr>)" using st by blast
  obtain m3 where m3: "store32 vwrite (?s\<lparr>phys := m2\<rparr>) 0 table = Some (?s\<lparr>phys := m3\<rparr>)" using st by blast
  obtain m4 where m4: "store32 vwrite (?s\<lparr>phys := m3\<rparr>) 4 0 = Some (?s\<lparr>phys := m4\<rparr>)" using st by blast
  obtain m5 where m5: "store32 vwrite (?s\<lparr>phys := m4\<rparr>) 8 0 = Some (?s\<lparr>phys := m5\<rparr>)" using st by blast
  obtain m6 where m6: "store32 vwrite (?s\<lparr>phys := m5\<rparr>) 16 table = Some (?s\<lparr>phys := m6\<rparr>)" using st by blast
  obtain m7 where m7: "store32 vwrite (?s\<lparr>phys := m6\<rparr>) 20 0 = Some (?s\<lparr>phys := m7\<rparr>)" using st by blast
  obtain m8 where m8: "store32 vwrite (?s\<lparr>phys := m7\<rparr>) 24 0 = Some (?s\<lparr>phys := m8\<rparr>)" using st by blast
  have fk: "flag_keyboard (s\<lparr>key_status := 0, key_flag := 0\<rparr>) = flag_keyboard s" by simp
  have "keyboard_init_early table s = do { fs \<leftarrow> do { fs \<leftarrow> arr_set (flag_keyboard s) 0 0; fs \<leftarrow> arr_set fs 1 0; arr_set fs 2 0 };
      s \<leftarrow> store32 vwrite (s\<lparr>key_status := 0, key_flag := 0, flag_keyboard := fs, counter1 := 0, counter2 := 0,
        counter3 := 0, terminal_flag := 0\<rparr>) 12 1;
      s \<leftarrow> store32 vwrite s 28 1; s \<leftarrow> store32 vwrite s 0 table; s \<leftarrow> store32 vwrite s 4 0; s \<leftarrow> store32 vwrite s 8 0;
      s \<leftarrow> store32 vwrite s 16 table; s \<leftarrow> store32 vwrite s 20 0; store32 vwrite s 24 0 }"
    unfolding keyboard_init_early_def Let_def bind_assoc fk ..
  also have "\<dots> = Some (?s\<lparr>phys := m8\<rparr>)" unfolding fs Option.bind.simps m1 m2 m3 m4 m5 m6 m7 m8 ..
  finally show ?thesis by blast
qed

lemma enable_irq_port: "irq < 16 \<Longrightarrow> \<exists>ps. enable_irq irq s = Some (s\<lparr>port_out := ps\<rparr>)"
proof -
  assume "irq < 16"
  then have "\<not> irq_line irq \<ge> 31" using irq_line_port(2)[of irq] by simp
  then show ?thesis unfolding enable_irq_def Let_def outb_def by (simp only: if_False) blast
qed

lemma process_init_eq:
  "\<exists>P. process_init s = s\<lparr>pcbs := P\<rparr> \<and> (\<forall>a. fd_table (P a) = fd_table (pcbs s a) \<and> user_buf (P a) = user_buf (pcbs s a)) \<and>
    (\<forall>i<8. pcb_use (P (get_pcb (of_nat i))) = 0)"
proof -
  have "\<exists>P. fold (\<lambda>i. pcb_upd (get_pcb (of_nat i)) (\<lambda>p. p\<lparr>pcb_use := 0\<rparr>)) [0..<n] s = s\<lparr>pcbs := P\<rparr> \<and>
    (\<forall>a. fd_table (P a) = fd_table (pcbs s a) \<and> user_buf (P a) = user_buf (pcbs s a)) \<and>
    (\<forall>i<n. pcb_use (P (get_pcb (of_nat i))) = 0)" for n
  proof (induction n)
    case 0
    then show ?case by (intro exI[of _ "pcbs s"]) simp
  next
    case (Suc n)
    then obtain P where P: "fold (\<lambda>i. pcb_upd (get_pcb (of_nat i)) (\<lambda>p. p\<lparr>pcb_use := 0\<rparr>)) [0..<n] s = s\<lparr>pcbs := P\<rparr>"
      "\<forall>a. fd_table (P a) = fd_table (pcbs s a) \<and> user_buf (P a) = user_buf (pcbs s a)"
      "\<forall>i<n. pcb_use (P (get_pcb (of_nat i))) = 0" by blast
    have "fold (\<lambda>i. pcb_upd (get_pcb (of_nat i)) (\<lambda>p. p\<lparr>pcb_use := 0\<rparr>)) [0..<Suc n] s =
        s\<lparr>pcbs := P(get_pcb (of_nat n) := (P (get_pcb (of_nat n)))\<lparr>pcb_use := 0\<rparr>)\<rparr>"
      by (simp add: P(1)) (simp add: pcb_upd_def)
    with P(2,3) show ?case by - (rule exI, rule conjI, assumption, auto simp: less_Suc_eq)
  qed
  then show ?thesis unfolding process_init_def .
qed

lemma init_scheduler_eq:
  assumes "length (process_array s) = 3"
  shows "\<exists>q. init_scheduler s = Some (0, s\<lparr>schedule_index := 0, three_shells_executed := 0, process_array := q\<rparr>) \<and>
    length q = 3 \<and> (\<forall>p\<in>set q. cur_pid p = -1 \<and> cur_fd_ptr p = KernelFdt)"
proof -
  obtain a b c where "process_array s = [a, b, c]" using assms by (auto simp: length_Suc_conv numeral_3_eq_3)
  then show ?thesis
    by (simp add: init_scheduler_def numeral_3_eq_3 arr_set_def arr_get_def Let_def) (rule exI, rule conjI, rule refl, simp)
qed

lemma init_paging_other: "\<exists>a1 a2 a3 a4. init_paging s = s\<lparr>pdt := a1, pte := a2, tlb_stale := a3, paging_on := a4\<rparr>"
  using init_tables_eq[of 1024 s] by (auto simp: init_paging_def Let_def set_pdt_def set_pte_def load_cr3_def)

lemma boot_inv:
  assumes b: "boot_ready s" and q: "length q = 3" "\<forall>p\<in>set q. cur_pid p = -1 \<and> cur_fd_ptr p = KernelFdt"
    and P: "\<forall>a. fd_table (P a) = fd_table (pcbs s a) \<and> user_buf (P a) = user_buf (pcbs s a)"
    and u: "u = (init_paging s)\<lparr>pcbs := P, process_array := q, schedule_index := 0, key_status := 0, flag_keyboard := [0, 0, 0],
      counter1 := 0, counter2 := 0, counter3 := 0\<rparr>"
  shows "kernel_inv u"
proof -
  note B = b[unfolded boot_ready_def]
  obtain a1 a2 a3 a4 where ip: "init_paging s = s\<lparr>pdt := a1, pte := a2, tlb_stale := a3, paging_on := a4\<rparr>"
    using init_paging_other[of s] by blast
  have "paging_wf (init_paging s)" using B by (intro init_paging_wf) simp_all
  moreover have "paging_wf u = paging_wf (init_paging s)" unfolding u by (rule paging_wf_cong) simp_all
  ultimately have cw: "console_wf u" using B by (simp add: console_wf_def u ip)
  have fd: "fds_at u p = fds_at s p" for p using P by (simp add: u ip fds_at_def split: fd_ptr.split)
  have pw: "procs_wf u" using cw B P q by (simp add: procs_wf_def) (simp add: u ip)
  have "kbuf u = kbuf s" "kcount u i = 0" for i by (simp_all add: fun_eq_iff u ip kbuf_def kcount_def)
  then have kb: "kbuf u i = replicate 128 0" "kcount u i = 0" if "i < 3" for i using B that by simp_all
  have "keyboard_wf u" using pw kb by (simp add: keyboard_wf_def kline_def) (simp add: u)
  moreover have "files_wf u" using pw fd B kb[of 0] kb[of 1] kb[of 2] by (simp add: files_wf_def kbuf_def)
  moreover have "table_pointer d \<noteq> KeyboardTable" if "d \<in> set (fds_at u p)" for d p using B that fd by auto
  then have "std_fds u" unfolding std_fds_def using fds_length[OF pw] nth_mem by metis
  ultimately show ?thesis by (simp add: kernel_inv_def)
qed

definition gates_set :: "linked \<Rightarrow> seg_desc \<Rightarrow> 'z cpu_scheme \<Rightarrow> 'z cpu_scheme \<Rightarrow> bool" where
  "gates_set lk junk s t \<longleftrightarrow> idt_table t = initialize_idt (handler_addr lk) (idt_table s) \<and>
     ldt_desc_ptr t = the_ldt_desc junk (ldt_addr lk) (ldt_size lk) \<and> ldtr t = KERNEL_LDT \<and>
     tss_desc_ptr t = the_tss_desc junk (tss_addr lk) (tss_size lk) \<and> tr t = KERNEL_TSS \<and>
     tss_ldt t = KERNEL_LDT \<and> tss_ss0 t = KERNEL_DS \<and> tss_esp0 t = 0x800000"

lemma entry_init_eq:
  assumes b: "boot_ready s"
  shows "\<exists>u P. entry_init lk junk_seg junk s = (do { s \<leftarrow> print junk (ascii ''Enabling Interrupts'' @ [10]) [] u; Some (sti s) }) \<and>
    kernel_inv u \<and> (\<forall>p\<in>set (process_array u). cur_pid p = -1 \<and> cur_fd_ptr p = KernelFdt) \<and> pcbs u = P \<and>
    (\<forall>i<8. pcb_use (P (get_pcb (of_nat i))) = 0) \<and> gates_set lk junk_seg s u"
proof -
  note B = b[unfolded boot_ready_def]
  let ?s0 = "entry_segments lk junk_seg s"
  obtain p1 where s1: "i8259_init ?s0 = ?s0\<lparr>port_out := p1\<rparr>" by (simp add: i8259_init_def Let_def outb_def)
  let ?table = "keyboard_table_addr lk"
  let ?s1 = "?s0\<lparr>idt_table := initialize_idt (handler_addr lk) (idt_table s)\<rparr>"
  have s1': "?s0\<lparr>port_out := p1, idt_table := initialize_idt (handler_addr lk) (idt_table (?s0\<lparr>port_out := p1\<rparr>))\<rparr> = ?s1\<lparr>port_out := p1\<rparr>"
    by (simp add: entry_segments_def)
  obtain m where m: "keyboard_init_early ?table (?s1\<lparr>port_out := p1\<rparr>) = Some (?s1\<lparr>port_out := p1, key_status := 0, key_flag := 0,
      flag_keyboard := [0, 0, 0], counter1 := 0, counter2 := 0, counter3 := 0, terminal_flag := 0, phys := m\<rparr>)"
    using keyboard_early[of "?s1\<lparr>port_out := p1\<rparr>" ?table] B by (auto simp: entry_segments_def)
  define s2 where "s2 = ?s1\<lparr>port_out := p1, key_status := 0, key_flag := 0,
      flag_keyboard := [0, 0, 0], counter1 := 0, counter2 := 0, counter3 := 0, terminal_flag := 0, phys := m\<rparr>"
  obtain p2 where p2: "enable_irq 0 s2 = Some (s2\<lparr>port_out := p2\<rparr>)" using enable_irq_port[of 0 s2] by auto
  obtain P where P: "process_init (s2\<lparr>port_out := p2\<rparr>) = s2\<lparr>port_out := p2, pcbs := P\<rparr>"
    "\<forall>a. fd_table (P a) = fd_table (pcbs s2 a) \<and> user_buf (P a) = user_buf (pcbs s2 a)"
    "\<forall>i<8. pcb_use (P (get_pcb (of_nat i))) = 0" using process_init_eq[of "s2\<lparr>port_out := p2\<rparr>"] by auto
  define s3 where "s3 = s2\<lparr>port_out := p2, pcbs := P\<rparr>"
  obtain p3 where p3: "enable_irq 1 s3 = Some (s3\<lparr>port_out := p3\<rparr>)" using enable_irq_port[of 1 s3] by auto
  obtain p4 where p4: "enable_irq 2 (s3\<lparr>port_out := p3\<rparr>) = Some (s3\<lparr>port_out := p4\<rparr>)"
    using enable_irq_port[of 2 "s3\<lparr>port_out := p3\<rparr>"] by auto
  obtain p5 where p5: "enable_irq 8 (s3\<lparr>port_out := p4\<rparr>) = Some (s3\<lparr>port_out := p5\<rparr>)"
    using enable_irq_port[of 8 "s3\<lparr>port_out := p4\<rparr>"] by auto
  define s4 where "s4 = init_paging (s3\<lparr>port_out := p5\<rparr>)"
  have l4: "length (process_array s4) = 3" using B using init_paging_other[of "s3\<lparr>port_out := p5\<rparr>"] by (auto simp: s4_def s3_def s2_def entry_segments_def)
  obtain p6 where p6: "init_pit 100 s4 = Some (s4\<lparr>num_ticks := 0, arr_index := 0, port_out := p6\<rparr>)"
    by (simp add: init_pit_def pit_program_def Let_def outb_def)
  obtain q where q: "init_scheduler (s4\<lparr>num_ticks := 0, arr_index := 0, port_out := p6\<rparr>) =
      Some (0, s4\<lparr>num_ticks := 0, arr_index := 0, port_out := p6, schedule_index := 0, three_shells_executed := 0, process_array := q\<rparr>)"
    "length q = 3" "\<forall>p\<in>set q. cur_pid p = -1 \<and> cur_fd_ptr p = KernelFdt"
    using init_scheduler_eq[of "s4\<lparr>num_ticks := 0, arr_index := 0, port_out := p6\<rparr>"] l4 by auto
  let ?u = "s4\<lparr>num_ticks := 0, arr_index := 0, port_out := p6, schedule_index := 0, three_shells_executed := 0, process_array := q\<rparr>"
  have e: "entry_init lk junk_seg junk s = (do { s \<leftarrow> print junk (ascii ''Enabling Interrupts'' @ [10]) [] ?u; Some (sti s) })"
    unfolding entry_init_def Let_def s1 s1' m s2_def[symmetric] Option.bind.simps p2 P(1) s3_def[symmetric] p3 p4 p5
      s4_def[symmetric] p6 q(1) prod.case ..
  let ?v = "(init_paging s)\<lparr>pcbs := P, process_array := q, schedule_index := 0, key_status := 0, flag_keyboard := [0, 0, 0],
      counter1 := 0, counter2 := 0, counter3 := 0\<rparr>"
  have "pcbs s2 = pcbs s" by (simp add: s2_def entry_segments_def)
  then have "kernel_inv ?v" using boot_inv[OF b q(2,3) _ refl] P(2) by simp
  moreover have "kernel_inv ?u = kernel_inv ?v"
  proof -
    let ?x = "s3\<lparr>port_out := p5\<rparr>"
    obtain a1 a2 a3 a4 where i1: "init_paging ?x = ?x\<lparr>pdt := a1, pte := a2, tlb_stale := a3, paging_on := a4\<rparr>"
      using init_paging_other[of ?x] by blast
    obtain b1 b2 b3 b4 where i2: "init_paging s = s\<lparr>pdt := b1, pte := b2, tlb_stale := b3, paging_on := b4\<rparr>"
      using init_paging_other[of s] by blast
    have x: "pdt ?x = pdt s" "pte ?x = pte s" "addr_pte ?x = addr_pte s" "addr_pte_vid ?x = addr_pte_vid s"
      by (simp_all add: s3_def s2_def entry_segments_def)
    have "pdt (init_paging ?x) = pdt (init_paging s)" "pte (init_paging ?x) = pte (init_paging s)"
      "paging_on (init_paging ?x) = paging_on (init_paging s)"
      unfolding init_pdt init_pte x by simp_all
    then have "a1 = b1" "a2 = b2" "a4 = b4" by (simp_all add: i1 i2)
    then show ?thesis
      by (intro kernel_inv_fields) (simp_all add: s4_def i1 i2, simp_all add: s3_def s2_def keys_def entry_segments_def)
  qed
  ultimately have "kernel_inv ?u" by simp
  moreover have "pcbs ?u = P" using init_paging_other[of "s3\<lparr>port_out := p5\<rparr>"] by (auto simp: s4_def s3_def)
  moreover have "gates_set lk junk_seg s ?u" using init_paging_other[of "s3\<lparr>port_out := p5\<rparr>"]
    by (auto simp: gates_set_def s4_def s3_def s2_def entry_segments_def)
  ultimately show ?thesis using e q(3) P(3) by (intro exI[of _ ?u] exI[of _ P]) simp
qed

lemma entry_init_ok:
  assumes "boot_ready s"
  shows "\<exists>s'. entry_init lk junk_seg junk s = Some s' \<and> kernel_inv s' \<and> iflag s' \<and>
    (\<forall>p\<in>set (process_array s'). cur_pid p = -1 \<and> cur_fd_ptr p = KernelFdt) \<and>
    find (pcb_free s') [0..<8] = Some 0 \<and> gates_set lk junk_seg s s'"
proof -
  obtain u P where u: "entry_init lk junk_seg junk s = (do { s \<leftarrow> print junk (ascii ''Enabling Interrupts'' @ [10]) [] u; Some (sti s) })"
    "kernel_inv u" "\<forall>p\<in>set (process_array u). cur_pid p = -1 \<and> cur_fd_ptr p = KernelFdt" "pcbs u = P"
    "\<forall>i<8. pcb_use (P (get_pcb (of_nat i))) = 0" "gates_set lk junk_seg s u"
    using entry_init_eq[OF assms] by blast
  have cw: "console_wf u" by (rule inv_files(3)[OF u(2)])
  obtain v where v: "putcs (ascii ''Enabling Interrupts'' @ [10]) u = Some v" "console_wf v" "prints u v"
    using putcs_safe[OF cw] by blast
  have "print junk (ascii ''Enabling Interrupts'' @ [10]) [] u = Some v"
    using printf_literal[OF cw, of "ascii ''Enabling Interrupts'' @ [10]" junk "[]"] v(1) by (auto simp: print_def ascii_def)
  moreover have "kernel_inv (sti v)" using inv_prints[OF u(2) v(3,2)] by simp
  moreover have "process_array v = process_array u" "pcbs v = pcbs u" using v(3) by (auto simp: prints_def)
  moreover have "find (pcb_free (sti v)) [0..<8] = Some 0"
  proof -
    have "[0..<8] = 0 # [1..<8]" by (simp add: upt_conv_Cons)
    moreover have "pcb_free (sti v) 0" using u(4) u(5)[rule_format, of 0] v(3) by (auto simp: sti_def prints_def)
    ultimately show ?thesis by (simp del: upt_rec_numeral)
  qed
  moreover have "gates_set lk junk_seg s (sti v)" using u(6) v(3) by (auto simp: gates_set_def prints_def sti_def)
  ultimately show ?thesis using u(1,3) by (simp add: sti_def)
qed

text \<open>
  C12: Initialisation establishes the invariant.  From the state the boot loader and \<open>init_filesys\<close>
  leave, \<open>entry\<close> initialises the interrupt controller, keyboard, processes, paging, timer and
  scheduler without a fault, enables interrupts, and the kernel's invariant holds; no terminal has
  a process yet, every process block is free, the running descriptors are the kernel's own, and the
  interrupt table, the two segment descriptors and the task state are set up.
\<close>

theorem entry_init_establishes:
  assumes "boot_ready s"
  shows "\<exists>s'. entry_init lk junk_seg junk s = Some s' \<and> kernel_inv s' \<and> iflag s' \<and>
    (\<forall>p\<in>set (process_array s'). cur_pid p = -1 \<and> cur_fd_ptr p = KernelFdt) \<and>
    find (pcb_free s') [0..<8] = Some 0 \<and> gates_set lk junk_seg s s'"
  by (rule entry_init_ok[OF assms])

end
