(* ===== verification/Blocks.thy ===== *)
theory Blocks
  imports Machine
begin

text \<open>
  The block operations of \<open>lib.c\<close> on linear memory: \<open>memcpy\<close> and \<open>memmove\<close> against the plain copy of
  a block of bytes, and the string \<open>itoa\<close> leaves in memory against the number it was given.
\<close>

context memory
begin

text \<open>
  Copying byte by byte, upwards or downwards: the target ends up with what the source held, provided
  no byte is written before the copy has read it.
\<close>

lemma wr_rd_same: "wr s a b = Some s' \<Longrightarrow> rd s' a = Some b"
  by (auto simp: wr_tr rd_tr tr_upd cell_upd)

lemma rep_movsb_moves:
  "(\<And>i. i < n \<Longrightarrow> tr s (p + of_nat i) \<noteq> None \<and> tr s (d + of_nat i) \<noteq> None) \<Longrightarrow>
   (\<And>i j. i < j \<Longrightarrow> j < n \<Longrightarrow> tr s (d + of_nat i) \<noteq> tr s (p + of_nat j) \<and> tr s (d + of_nat i) \<noteq> tr s (d + of_nat j)) \<Longrightarrow>
   \<exists>s'. rep_movsb rd wr s d p n = Some s' \<and> tr s' = tr s \<and>
     (\<forall>i<n. rd s' (d + of_nat i) = rd s (p + of_nat i)) \<and> (\<forall>c. c \<notin> cells tr s d n \<longrightarrow> cell s' c = cell s c)"
proof (induction n arbitrary: s d p)
  case (Suc n)
  from Suc.prems(1)[of 0] obtain b t where b: "rd s p = Some b" and t: "wr s d b = Some t"
    by (auto simp: rd_tr wr_tr)
  have tr: "tr t = tr s" by (rule wr_keeps_tr[OF t])
  have ct: "cells tr t (d + 1) n = cells tr s (d + 1) n" by (simp add: cells_def tr)
  have sh: "x + 1 + of_nat i = x + of_nat (Suc i)" for x :: u32 and i by (simp add: algebra_simps)
  have "\<exists>s'. rep_movsb rd wr t (d + 1) (p + 1) n = Some s' \<and> tr s' = tr t \<and>
     (\<forall>i<n. rd s' (d + 1 + of_nat i) = rd t (p + 1 + of_nat i)) \<and> (\<forall>c. c \<notin> cells tr t (d + 1) n \<longrightarrow> cell s' c = cell t c)"
    by (rule Suc.IH; unfold sh tr; use Suc.prems in blast)
  then obtain s' where s': "rep_movsb rd wr t (d + 1) (p + 1) n = Some s'" "tr s' = tr t"
    "\<forall>i<n. rd s' (d + 1 + of_nat i) = rd t (p + 1 + of_nat i)" "\<forall>c. c \<notin> cells tr t (d + 1) n \<longrightarrow> cell s' c = cell t c"
    by blast
  have "rd s' (d + of_nat i) = rd s (p + of_nat i)" if i: "i < Suc n" for i
  proof (cases i)
    case 0
    have "the (tr s d) \<notin> cells tr s (d + 1) n"
      using Suc.prems(2)[of 0] Suc.prems(1)[of 0] unfolding cells_def sh by fastforce
    then have "rd s' d = rd t d" using s'(2,4) tr Suc.prems(1)[of 0] by (auto simp: rd_tr ct)
    then show ?thesis using 0 b wr_rd_same[OF t] by simp
  next
    case (Suc k)
    have "rd t (p + of_nat i) = rd s (p + of_nat i)"
      by (rule wr_rd_other[OF t]) (use Suc.prems(2)[of 0 i] i Suc in auto)
    then show ?thesis using s'(3) i Suc by (simp add: sh flip: of_nat_Suc)
  qed
  moreover have "cell s' c = cell s c" if "c \<notin> cells tr s d (Suc n)" for c
    using that s'(4) wr_cell_other[OF t, of c] by (auto simp: cells_Suc ct)
  ultimately show ?case using b t s'(1,2) tr by auto
qed (auto)

lemma mirrored: "memory (\<lambda>s a. tr s (- a)) cell upd (\<lambda>s a. rd s (- a)) (\<lambda>s a. wr s (- a))"
  by unfold_locales (auto simp: rd_tr wr_tr cell_upd tr_upd)

lemma rep_movsb_down_mirrored:
  "rep_movsb_down rd wr s d p n = rep_movsb (\<lambda>s a. rd s (- a)) (\<lambda>s a. wr s (- a)) s (- d) (- p) n"
  by (induction n arbitrary: s d p) simp_all

lemma rep_movsb_down_moves:
  assumes "\<And>i. i < n \<Longrightarrow> tr s (p - of_nat i) \<noteq> None \<and> tr s (d - of_nat i) \<noteq> None"
    and "\<And>i j. i < j \<Longrightarrow> j < n \<Longrightarrow> tr s (d - of_nat i) \<noteq> tr s (p - of_nat j) \<and> tr s (d - of_nat i) \<noteq> tr s (d - of_nat j)"
  shows "\<exists>s'. rep_movsb_down rd wr s d p n = Some s' \<and> tr s' = tr s \<and>
     (\<forall>i<n. rd s' (d - of_nat i) = rd s (p - of_nat i)) \<and>
     (\<forall>c. (\<forall>i<n. tr s (d - of_nat i) \<noteq> Some c) \<longrightarrow> cell s' c = cell s c)"
proof -
  have n: "- (- x + y) = x - y" for x y :: u32 by simp
  have "\<exists>s'. rep_movsb_down rd wr s d p n = Some s' \<and> (\<lambda>a. tr s' (- a)) = (\<lambda>a. tr s (- a)) \<and>
     (\<forall>i<n. rd s' (d - of_nat i) = rd s (p - of_nat i)) \<and>
     (\<forall>c. (\<forall>i<n. tr s (d - of_nat i) \<noteq> Some c) \<longrightarrow> cell s' c = cell s c)"
    using memory.rep_movsb_moves[OF mirrored, of n s "- p" "- d"] assms
    unfolding rep_movsb_down_mirrored cells_def n by simp
  moreover have "tr s' = tr s" if "(\<lambda>a. tr s' (- a)) = (\<lambda>a. tr s (- a))" for s'
    using fun_cong[OF that] by (metis ext minus_minus)
  ultimately show ?thesis by blast
qed

end

definition span :: "u32 \<Rightarrow> nat \<Rightarrow> u32 set" where
  "span p n = {a. unat p \<le> unat a \<and> unat a < unat p + n}"

lemma span_nth: "unat p + n \<le> 2 ^ 32 \<Longrightarrow> i < n \<Longrightarrow> unat (p + of_nat i) = unat p + i \<and> p + of_nat i \<in> span p n"
  by (simp add: span_def unat_word_ariths unat_of_nat take_bit_nat_eq_self)

lemma span_apart:
  assumes "unat d + n \<le> 2 ^ 32" "unat p + n \<le> 2 ^ 32" and inj: "inj_on f (span d n \<union> span p n)"
    and ij: "i < n" "j < n"
  shows "unat d + i \<noteq> unat p + j \<Longrightarrow> f (d + of_nat i) \<noteq> f (p + of_nat j)"
    and "i \<noteq> j \<Longrightarrow> f (d + of_nat i) \<noteq> f (d + of_nat j)"
  using inj_onD[OF inj, of "d + of_nat i" "p + of_nat j"] inj_onD[OF inj, of "d + of_nat i" "d + of_nat j"]
    span_nth[OF assms(1) ij(1)] span_nth[OF assms(1) ij(2)] span_nth[OF assms(2) ij(2)] by auto

lemma down_index: "i < unat n \<Longrightarrow> (p :: u32) + n - 1 - of_nat i = p + of_nat (unat n - 1 - i)"
  by (simp add: of_nat_diff algebra_simps)

text \<open>
  The direction \<open>memmove\<close> chooses reads every byte before it is overwritten, whichever way the two
  blocks overlap.
\<close>

lemma memmove_bytes:
  assumes len: "unat dest + unat n \<le> 2 ^ 32" "unat src + unat n \<le> 2 ^ 32"
    and m: "\<forall>a\<in>span dest (unat n) \<union> span src (unat n). translate s a \<noteq> None"
    and inj: "inj_on (translate s) (span dest (unat n) \<union> span src (unat n))"
  shows "\<exists>s'. memmove vread vwrite s dest src n = Some (s', src < dest) \<and>
    (\<forall>i<unat n. vread s' (dest + of_nat i) = vread s (src + of_nat i)) \<and>
    (\<forall>c. (\<forall>i<unat n. translate s (dest + of_nat i) \<noteq> Some c) \<longrightarrow> phys s' c = phys s c)"
proof -
  let ?n = "unat n"
  have mapped: "translate s (src + of_nat i) \<noteq> None \<and> translate s (dest + of_nat i) \<noteq> None" if "i < ?n" for i
    using span_nth[OF len(1) that] span_nth[OF len(2) that] m by blast
  note ap = span_apart[OF len inj]
  show ?thesis
  proof (cases "dest \<le> src")
    case True
    then have le: "unat dest \<le> unat src" by (simp add: word_le_nat_alt)
    obtain s' where "rep_movsb vread vwrite s dest src ?n = Some s'" "\<forall>i<?n. vread s' (dest + of_nat i) = vread s (src + of_nat i)"
      "\<forall>c. c \<notin> cells translate s dest ?n \<longrightarrow> phys s' c = phys s c"
      using vm.rep_movsb_moves[of ?n s src dest] mapped ap le by fastforce
    with True show ?thesis by (auto simp: memmove_def cells_def)
  next
    case False
    then have lt: "unat src < unat dest" by (simp add: word_le_nat_alt)
    have rev: "?n - 1 - i < ?n" "?n - 1 - (?n - 1 - i) = i" if "i < ?n" for i using that by auto
    have c1: "translate s (src + n - 1 - of_nat i) \<noteq> None \<and> translate s (dest + n - 1 - of_nat i) \<noteq> None" if "i < ?n" for i
      unfolding down_index[OF that] by (rule mapped[OF rev(1)[OF that]])
    have c2: "translate s (dest + n - 1 - of_nat i) \<noteq> translate s (src + n - 1 - of_nat j) \<and>
        translate s (dest + n - 1 - of_nat i) \<noteq> translate s (dest + n - 1 - of_nat j)" if "i < j" "j < ?n" for i j
    proof -
      have i: "i < ?n" using that by simp
      show ?thesis
        unfolding down_index[OF i] down_index[OF that(2)]
        using ap(1,2)[OF rev(1)[OF i] rev(1)[OF that(2)]] that lt by fastforce
    qed
    from vm.rep_movsb_down_moves[of ?n s "src + n - 1" "dest + n - 1", OF c1 c2]
    obtain s' where s': "rep_movsb_down vread vwrite s (dest + n - 1) (src + n - 1) ?n = Some s'"
      "\<forall>i<?n. vread s' (dest + n - 1 - of_nat i) = vread s (src + n - 1 - of_nat i)"
      "\<forall>c. (\<forall>i<?n. translate s (dest + n - 1 - of_nat i) \<noteq> Some c) \<longrightarrow> phys s' c = phys s c" by blast
    have "vread s' (dest + of_nat i) = vread s (src + of_nat i)" if "i < ?n" for i
      using s'(2)[rule_format, OF rev(1)[OF that]] unfolding down_index[OF rev(1)[OF that]] rev(2)[OF that] .
    moreover have "phys s' c = phys s c" if "\<forall>i<?n. translate s (dest + of_nat i) \<noteq> Some c" for c
      using s'(3) that down_index rev(1) by metis
    ultimately show ?thesis using False s'(1) by (auto simp: memmove_def)
  qed
qed

text \<open>
  C34: \<open>memmove\<close> moves a block of linear memory even when source and target overlap: afterwards the
  target holds what the source held before, and no byte outside the target has changed.  When the
  target lies above the source the direction flag stays set.
\<close>

theorem memmove_moves:
  assumes len: "unat dest + unat n \<le> 2 ^ 32" "unat src + unat n \<le> 2 ^ 32"
    and m: "\<forall>a\<in>span dest (unat n) \<union> span src (unat n). translate s a \<noteq> None"
    and inj: "inj_on (translate s) (span dest (unat n) \<union> span src (unat n))"
  shows "\<exists>s'. memmove vread vwrite s dest src n = Some (s', src < dest) \<and>
    load_bytes vread s' dest (unat n) = load_bytes vread s src (unat n) \<and>
    (\<forall>c. Some c \<notin> translate s ` span dest (unat n) \<longrightarrow> phys s' c = phys s c)"
proof -
  obtain s' where mv: "memmove vread vwrite s dest src n = Some (s', src < dest)"
    and rd: "\<And>i. i < unat n \<Longrightarrow> vread s' (dest + of_nat i) = vread s (src + of_nat i)"
    and fr: "\<And>c. (\<forall>i<unat n. translate s (dest + of_nat i) \<noteq> Some c) \<Longrightarrow> phys s' c = phys s c"
    using memmove_bytes[OF assms] by blast
  have "load_bytes vread s' dest (unat n) = load_bytes vread s src (unat n)"
    by (rule load_bytes_cong) (rule rd)
  moreover have "phys s' c = phys s c" if "Some c \<notin> translate s ` span dest (unat n)" for c
    using fr that span_nth[OF len(1)] by (metis imageI)
  ultimately show ?thesis using mv by blast
qed

text \<open>
  \<open>memcpy\<close>, with its bytes up to alignment, its double words and its rest, is the plain copy:
  when the two blocks share no cell and the target's cells are distinct, the target holds what the
  source holds and nothing else changes.
\<close>

theorem memcpy_copies:
  assumes ap: "cells translate s dest (unat n) \<inter> cells translate s src (unat n) = {}"
    and m: "\<forall>i<unat n. translate s (dest + of_nat i) \<noteq> None \<and> translate s (src + of_nat i) \<noteq> None"
    and inj: "inj_cells translate s dest (unat n)"
  shows "\<exists>s' bs. memcpy vread vwrite s dest src n = Some s' \<and> load_bytes vread s src (unat n) = Some bs \<and>
    load_bytes vread s' dest (unat n) = Some bs \<and> load_bytes vread s' src (unat n) = Some bs \<and>
    (\<forall>c. c \<notin> cells translate s dest (unat n) \<longrightarrow> phys s' c = phys s c)"
proof -
  have "load_bytes vread s src (unat n) = Some (map (\<lambda>i. the (vread s (src + of_nat i))) [0..<unat n])"
    by (rule load_bytes_SomeI) (use m in \<open>auto simp: vread_def\<close>)
  then obtain bs where bs: "load_bytes vread s src (unat n) = Some bs" by blast
  then have l: "length bs = unat n" by (rule load_bytes_length)
  with m obtain s' where s': "store_bytes vwrite s dest bs = Some s'" using vm.store_Some_iff[of s dest bs] by auto
  have "memcpy vread vwrite s dest src n = Some s'" unfolding vm.memcpy_copy[OF ap] block_copy_def by (simp add: bs s')
  moreover have "load_bytes vread s' dest (unat n) = Some bs"
    using vm.store_load_same[OF s'] inj l by (fastforce simp: inj_cells_def)
  moreover have "load_bytes vread s' src (unat n) = Some bs"
    using vm.store_load_other[OF s', of src "unat n"] ap bs l by (simp add: Int_commute)
  moreover have "\<forall>c. c \<notin> cells translate s dest (unat n) \<longrightarrow> phys s' c = phys s c"
    using vm.store_cell_other[OF s'] l by simp
  ultimately show ?thesis using bs by blast
qed

text \<open>
  C39: \<open>itoa\<close> is inverted by reading its digits.  For every value and every radix from 2 to 36 it stores
  a NUL-terminated string of at most 32 digits of that radix whose value is the number converted.
\<close>

theorem itoa_roundtrip:
  assumes "2 \<le> unat radix" "unat radix \<le> 36"
    and "\<forall>i<34. translate s (buf + of_nat i) \<noteq> None" and "inj_cells translate s buf 34"
  shows "\<exists>s' ds. itoa vread vwrite s v buf radix = Some s' \<and> cstring vread s' buf (map digit_char ds) \<and>
    (\<forall>d\<in>set ds. d < unat radix) \<and> length ds \<le> 32 \<and> radix_value (unat radix) ds = unat v"
proof -
  have "unat v < 2 ^ 32" using unsigned_less[of v] by simp
  then have "length (digits (unat radix) (unat v)) \<le> 32" by (rule digits_length[OF assms(1)]) simp
  then show ?thesis
    using vm.itoa_cstring[OF assms, of v] digits_less[OF assms(1)] radix_value_digits[OF assms(1)] by blast
qed
end
