(* ===== verification/Support.thy ===== *)
theory Support
  imports Blocks
begin

text \<open>
  The support library of the user programs (\<open>syscalls/ece391support.c\<close>): its string functions walk
  pointers where the kernel's \<open>lib.c\<close> counts indices, and compare strings as unsigned bytes.
\<close>

section \<open>Strings\<close>

partial_function (option) strlen_walk :: "('s \<Rightarrow> u32 \<Rightarrow> u8 option) \<Rightarrow> 's \<Rightarrow> u32 \<Rightarrow> u32 \<Rightarrow> u32 option" where
  "strlen_walk rd s p len =
     do { b \<leftarrow> rd s p; if b \<noteq> 0 then strlen_walk rd s (p + 1) (len + 1) else Some len }"

definition ece391_strlen :: "('s \<Rightarrow> u32 \<Rightarrow> u8 option) \<Rightarrow> 's \<Rightarrow> u32 \<Rightarrow> u32 option" where
  "ece391_strlen rd s p = strlen_walk rd s p 0"

partial_function (option) ece391_strcpy :: "('s \<Rightarrow> u32 \<Rightarrow> u8 option) \<Rightarrow> ('s \<Rightarrow> u32 \<Rightarrow> u8 \<Rightarrow> 's option) \<Rightarrow>
    's \<Rightarrow> u32 \<Rightarrow> u32 \<Rightarrow> 's option" where
  "ece391_strcpy rd wr s dst src =
     do { b \<leftarrow> rd s src; s' \<leftarrow> wr s dst b;
          if b \<noteq> 0 then ece391_strcpy rd wr s' (dst + 1) (src + 1) else Some s' }"

partial_function (option) ece391_strcmp :: "('s \<Rightarrow> u32 \<Rightarrow> u8 option) \<Rightarrow> 's \<Rightarrow> u32 \<Rightarrow> u32 \<Rightarrow> i32 option" where
  "ece391_strcmp rd s s1 s2 =
     do { a \<leftarrow> rd s s1; b \<leftarrow> rd s s2;
          if a = b then if a = 0 then Some 0 else ece391_strcmp rd s (s1 + 1) (s2 + 1)
          else Some (ucast a - ucast b) }"

fun strncmp_walk :: "('s \<Rightarrow> u32 \<Rightarrow> u8 option) \<Rightarrow> 's \<Rightarrow> u32 \<Rightarrow> u32 \<Rightarrow> nat \<Rightarrow> i32 option" where
  "strncmp_walk rd s s1 s2 0 = Some 0"
| "strncmp_walk rd s s1 s2 (Suc n) =
     do { a \<leftarrow> rd s s1; b \<leftarrow> rd s s2;
          if a = b then if a = 0 \<or> n = 0 then Some 0 else strncmp_walk rd s (s1 + 1) (s2 + 1) n
          else Some (ucast a - ucast b) }"

definition ece391_strncmp :: "('s \<Rightarrow> u32 \<Rightarrow> u8 option) \<Rightarrow> 's \<Rightarrow> u32 \<Rightarrow> u32 \<Rightarrow> u32 \<Rightarrow> i32 option" where
  "ece391_strncmp rd s s1 s2 n = (if n = 0 then Some 0 else strncmp_walk rd s s1 s2 (unat n))"

section \<open>Numbers\<close>

definition ece391_strrev :: "('s \<Rightarrow> u32 \<Rightarrow> u8 option) \<Rightarrow> ('s \<Rightarrow> u32 \<Rightarrow> u8 \<Rightarrow> 's option) \<Rightarrow>
    's \<Rightarrow> u32 \<Rightarrow> 's option" where
  "ece391_strrev rd wr s p =
     do { n \<leftarrow> ece391_strlen rd s p;
          if sint (n - 1) \<le> 0 then Some s else strrev_loop rd wr s p 0 (sint (n - 1)) }"

definition ece391_itoa :: "('s \<Rightarrow> u32 \<Rightarrow> u8 option) \<Rightarrow> ('s \<Rightarrow> u32 \<Rightarrow> u8 \<Rightarrow> 's option) \<Rightarrow>
    's \<Rightarrow> u32 \<Rightarrow> u32 \<Rightarrow> i32 \<Rightarrow> 's option" where
  "ece391_itoa rd wr s value buf radix =
     (if value = 0 then do { s' \<leftarrow> wr s buf 48; wr s' (buf + 1) 0 }
      else do { (s', newbuf) \<leftarrow> itoa_loop wr s value buf radix;
                s'' \<leftarrow> wr s' newbuf 0;
                ece391_strrev rd wr s'' buf })"

section \<open>Equivalence with the kernel's library\<close>

lemma strlen_walk_from: "strlen_walk rd s (p + len) len = strlen_from rd s p len"
proof -
  have a: "strlen_from rd s p len = Some r" if "strlen_walk rd s q len = Some r" "q = p + len" for q r
  proof -
    have "q = p + len \<longrightarrow> strlen_from rd s p len = Some r"
    proof (rule strlen_walk.raw_induct[OF _ that(1), of "\<lambda>rd s q len r. q = p + len \<longrightarrow> strlen_from rd s p len = Some r"])
      fix w rd and s :: 'a and q len r
      assume IH: "\<And>rd s q len r. w rd s q len = Some r \<Longrightarrow> q = p + len \<longrightarrow> strlen_from rd s p len = Some r"
        and w: "do { b \<leftarrow> rd s q; if b \<noteq> 0 then w rd s (q + 1) (len + 1) else Some len } = Some r"
      show "q = p + len \<longrightarrow> strlen_from rd s p len = Some r"
        using w IH[of rd s "q + 1" "len + 1" r]
        by (subst strlen_from.simps) (auto simp: bind_Some_iff add.assoc split: if_splits)
    qed
    with that(2) show ?thesis by blast
  qed
  have b: "strlen_walk rd s (p + len) len = Some r" if "strlen_from rd s p len = Some r" for r
  proof (rule strlen_from.raw_induct[OF _ that, of "\<lambda>rd s p len r. strlen_walk rd s (p + len) len = Some r"])
    fix w rd and s :: 'a and p len r
    assume IH: "\<And>rd s p len r. w rd s p len = Some r \<Longrightarrow> strlen_walk rd s (p + len) len = Some r"
      and w: "do { b \<leftarrow> rd s (p + len); if b \<noteq> 0 then w rd s p (len + 1) else Some len } = Some r"
    show "strlen_walk rd s (p + len) len = Some r"
      using w IH[of rd s p "len + 1" r]
      by (subst strlen_walk.simps) (auto simp: bind_Some_iff add.assoc split: if_splits)
  qed
  show ?thesis using a b by (metis option.exhaust)
qed

lemma ece391_strlen_eq: "ece391_strlen rd s p = strlen rd s p"
  using strlen_walk_from[of rd s p 0] by (simp add: ece391_strlen_def strlen_def)

lemma strrev_loop_stop: "en \<le> bg \<Longrightarrow> strrev_loop rd wr s p bg en = Some s"
  by (subst strrev_loop.simps) simp

lemma ece391_strrev_eq: "ece391_strrev rd wr s p = strrev rd wr s p"
  unfolding ece391_strrev_def strrev_def ece391_strlen_eq
  by (cases "strlen rd s p") (simp_all add: strrev_loop_stop)

text \<open>
  The number conversion of the user library is the kernel's: on every memory, for every value,
  buffer and radix (faults and endless loops included) both do the same.
\<close>

theorem ece391_itoa_equals_itoa: "ece391_itoa rd wr s value buf radix = itoa rd wr s value buf radix"
  by (simp add: ece391_itoa_def itoa_def ece391_strrev_eq)

section \<open>Comparison\<close>

text \<open>The sign of the difference of two bytes.\<close>

lemma byte_difference:
  fixes a b :: u8
  shows "sint (ucast a - ucast b :: i32) = int (unat a) - int (unat b)"
proof -
  have l: "unat a < 256" "unat b < 256" using unsigned_less[of a] unsigned_less[of b] by simp_all
  have p: "(2 :: int) ^ 31 = 2147483648" by simp
  have "(ucast a - ucast b :: i32) = word_of_int (int (unat a) - int (unat b))"
    by simp
  then have "sint (ucast a - ucast b :: i32) = signed_take_bit 31 (int (unat a) - int (unat b))"
    by (simp only: sint_sbintrunc') simp
  also have "\<dots> = int (unat a) - int (unat b)"
    by (rule signed_take_bit_int_eq_self; unfold p; use l in linarith)
  finally show ?thesis .
qed

lemma cstring_Cons: "cstring rd s p (x # xs) \<longleftrightarrow> x \<noteq> 0 \<and> rd s p = Some x \<and> cstring rd s (p + 1) xs"
  by (auto simp: cstring_def bind_Some_iff)

lemma cstring_Nil: "cstring rd s p [] \<longleftrightarrow> rd s p = Some 0"
  by (auto simp: cstring_def bind_Some_iff)

lemma strcmp_differ:
  assumes "rd s p = Some a" "rd s q = Some b" "a \<noteq> b"
  shows "\<exists>r. ece391_strcmp rd s p q = Some r \<and> r \<noteq> 0 \<and> (sint r < 0 \<longleftrightarrow> a < b)"
proof (intro exI conjI)
  let ?r = "ucast a - ucast b :: i32"
  show "ece391_strcmp rd s p q = Some ?r" using assms by (subst ece391_strcmp.simps) simp
  have d: "sint ?r = int (unat a) - int (unat b)" by (rule byte_difference)
  have "unat a \<noteq> unat b" using assms(3) unsigned_word_eqI[of a b] by blast
  then show "?r \<noteq> 0" using d by (metis eq_iff_diff_eq_0 of_nat_eq_iff signed_0)
  show "sint ?r < 0 \<longleftrightarrow> a < b" unfolding d word_less_nat_alt by linarith
qed

lemma strcmp_cstring:
  "cstring rd s p xs \<Longrightarrow> cstring rd s q ys \<Longrightarrow>
   \<exists>r. ece391_strcmp rd s p q = Some r \<and> (r = 0 \<longleftrightarrow> xs = ys) \<and> (sint r < 0 \<longleftrightarrow> (xs, ys) \<in> lexord {(a, b). a < b})"
proof (induction xs arbitrary: p q ys)
  case Nil
  show ?case
  proof (cases ys)
    case Nil
    with \<open>cstring rd s p []\<close> \<open>cstring rd s q ys\<close> show ?thesis
      by (subst ece391_strcmp.simps) (simp add: cstring_Nil)
  next
    case (Cons y ys')
    with Nil.prems strcmp_differ[of rd s p 0 q y] show ?thesis
      by (auto simp: cstring_Nil cstring_Cons word_gt_0)
  qed
next
  case (Cons x xs)
  show ?case
  proof (cases ys)
    case Nil
    with Cons.prems strcmp_differ[of rd s p x q 0] show ?thesis by (auto simp: cstring_Nil cstring_Cons)
  next
    case ys: (Cons y ys')
    show ?thesis
    proof (cases "x = y")
      case True
      with Cons.prems ys Cons.IH[of "p + 1" "q + 1" ys'] show ?thesis
        by (subst ece391_strcmp.simps) (auto simp: cstring_Cons)
    next
      case False
      with Cons.prems ys strcmp_differ[of rd s p x q y] show ?thesis by (auto simp: cstring_Cons)
    qed
  qed
qed

text \<open>
  \<open>ece391_strcmp\<close> orders strings.  For two strings in memory it returns zero exactly if they are
  equal and a negative number exactly if the first comes before the second in the
  lexicographic order of their bytes.
\<close>

theorem ece391_strcmp_orders:
  assumes "cstring rd s p xs" and "cstring rd s q ys"
  shows "\<exists>r. ece391_strcmp rd s p q = Some r \<and> (r = 0 \<longleftrightarrow> xs = ys) \<and>
    (sint r < 0 \<longleftrightarrow> (xs, ys) \<in> lexord {(a, b). a < b})"
  by (rule strcmp_cstring[OF assms])

end
