(* ===== verification/Files.thy ===== *)
theory Files
  imports Calls
begin

text \<open>
  A file from \<open>open\<close> to \<open>close\<close>: the system calls \<open>open\<close>, \<open>read\<close> and \<open>close\<close> (\<open>syscall.c\<close>) composed with the
  file driver and the file system (\<open>filesys.c\<close>).  The invariant \<open>reading\<close> says that a descriptor
  stands at a position of a file whose image does not overlap the reader's buffer.
\<close>

section \<open>Reading through the system call\<close>

record file_session =
  f_img :: "u8 list"
  f_buf :: u32
  f_max :: nat
  f_fd :: u32
  f_inode :: u32

definition reading :: "file_session \<Rightarrow> nat \<Rightarrow> 'z kernel_scheme \<Rightarrow> bool" where
  "reading f pos s \<longleftrightarrow> files_wf s \<and> 2 \<le> unat (f_fd f) \<and> unat (f_fd f) < 8 \<and> f_buf f \<noteq> 0 \<and>
     image_ok (geometry_of s) (f_img f) \<and> file_ok (geometry_of s) (f_img f) (unat (f_inode f)) \<and>
     vm_image_ok (FILEMEM s) (f_img f) (f_buf f) (f_max f) s \<and>
     (\<forall>i<f_max f. translate s (f_buf f + of_nat i) \<noteq> None) \<and> inj_cells translate s (f_buf f) (f_max f) \<and>
     cur_fds s ! unat (f_fd f) = \<lparr>table_pointer = FileTable, fd_inode = f_inode f, file_position = of_nat pos, flags = 1\<rparr>"

abbreviation contents :: "file_session \<Rightarrow> 'z kernel_scheme \<Rightarrow> u8 list" where
  "contents f s \<equiv> file_contents (geometry_of s) (f_img f) (unat (f_inode f))"

lemma files_wf_phys: "files_wf (s\<lparr>phys := m\<rparr>) = files_wf s"
  by (rule files_wf_cong) simp_all

lemma reading_frame:
  assumes r: "reading f pos s" and fr: "fd_frame (s\<lparr>phys := m\<rparr>) t" "files_wf t"
    and img: "load_bytes vread (s\<lparr>phys := m\<rparr>) (FILEMEM s) (length (f_img f)) = Some (f_img f)"
    and fd: "cur_fds t ! unat (f_fd f) = \<lparr>table_pointer = FileTable, fd_inode = f_inode f, file_position = of_nat q, flags = 1\<rparr>"
  shows "reading f q t" "contents f t = contents f s"
proof -
  have e: "phys t = m" "translate t = translate s" "FILEMEM t = FILEMEM s" "geometry_of t = geometry_of s"
    using fr(1) by (simp_all add: fd_frame_def geometry_of_def)
  have "load_bytes vread t (FILEMEM s) (length (f_img f)) = Some (f_img f)"
    using img load_bytes_cong[of "length (f_img f)" vread t "FILEMEM s" vread "s\<lparr>phys := m\<rparr>" "FILEMEM s"]
    by (simp add: vread_def e)
  then show "reading f q t"
    using r fr(2) fd unfolding reading_def by (simp add: e vm_image_ok_def cells_def inj_cells_def)
  show "contents f t = contents f s" by (simp add: e)
qed

text \<open>A read that delivers \<open>bs\<close> moves the descriptor and stores \<open>bs\<close>, and nothing else.\<close>

lemma sys_read_bytes:
  assumes r: "reading f pos s" and n: "0 < n" "unat n \<le> f_max f" and l: "length bs = unat n"
    and rd: "read_data s vread vwrite (f_inode f) (of_nat pos) (f_buf f) n s =
      do { s' \<leftarrow> store_bytes vwrite s (f_buf f) bs; Some (n, s') }"
  shows "\<exists>t m. sys_read env dent (f_fd f) (f_buf f) n s = Some (n, t) \<and> reading f (pos + unat n) t \<and>
    contents f t = contents f s \<and> load_bytes vread t (f_buf f) (unat n) = Some bs \<and>
    (\<forall>j<8. j \<noteq> unat (f_fd f) \<longrightarrow> cur_fds t ! j = cur_fds s ! j) \<and>
    store_bytes vwrite s (f_buf f) bs = Some (s\<lparr>phys := m\<rparr>) \<and> fd_frame (s\<lparr>phys := m\<rparr>) t"
proof -
  let ?fd = "f_fd f" and ?buf = "f_buf f"
  note R = r[unfolded reading_def]
  have wf: "files_wf s" using R by blast
  have im: "vm_image_ok (FILEMEM s) (f_img f) ?buf (unat n) s"
    using R cells_mono[OF n(2), of translate s ?buf] by (auto simp: vm_image_ok_def)
  obtain t where t: "store_bytes vwrite s ?buf bs = Some t"
    using vm.store_Some_iff[of s ?buf bs] R n(2) l by fastforce
  obtain m where m: "t = s\<lparr>phys := m\<rparr>" using store_frame[OF t] by blast
  let ?d = "\<lparr>table_pointer = FileTable, fd_inode = f_inode f, file_position = of_nat (pos + unat n), flags = 1\<rparr>"
  have ct: "cur_fds t = cur_fds s" by (simp add: m)
  have "\<exists>t'. upd_fd ?fd (\<lambda>d. d\<lparr>file_position := file_position d + n\<rparr>) t = Some t' \<and> fd_change ?fd ?d t t'"
    using upd_fd_change[of t ?fd "\<lambda>d. d\<lparr>file_position := file_position d + n\<rparr>"] R
    by (simp add: m files_wf_phys ct fd_valid_def)
  then obtain t' where t': "upd_fd ?fd (\<lambda>d. d\<lparr>file_position := file_position d + n\<rparr>) t = Some t'" "fd_change ?fd ?d t t'"
    by blast
  have c: "cur_fds t' = (cur_fds s)[unat ?fd := ?d]" using fd_change_cur[OF t'(2)] ct by simp
  have lc: "length (cur_fds s) = 8" using wf by (intro fds_length) (simp add: files_wf_def)
  have "load_bytes vread t (FILEMEM s) (length (f_img f)) = Some (f_img f)"
    using vm.store_load_other[OF t, of "FILEMEM s" "length (f_img f)"] im l by (simp add: vm_image_ok_def Int_commute)
  then have "reading f (pos + unat n) t'" "contents f t' = contents f s"
    using reading_frame[OF r, of m t' "pos + unat n"] t'(2) c lc R by (simp_all add: fd_change_def m)
  moreover have "sys_read env dent ?fd ?buf n s = Some (n, t')"
    using sys_read_write_step[OF wf refl, of env dent ?fd ?buf n] R rd t t'(1) files_get[OF wf, of ?fd]
    by (auto simp: file_read_def)
  moreover have "load_bytes vread t ?buf (unat n) = Some bs"
    using vm.store_load_same[OF t] R n(2) l by (fastforce simp: inj_cells_def)
  then have "load_bytes vread t' ?buf (unat n) = Some bs"
    using load_bytes_cong[of "unat n" vread t' ?buf vread t ?buf] t'(2) by (simp add: fd_change_def fd_frame_def vread_def)
  moreover have "store_bytes vwrite s ?buf bs = Some (s\<lparr>phys := m\<rparr>)" "fd_frame (s\<lparr>phys := m\<rparr>) t'"
    using t t'(2) by (simp_all add: m fd_change_def)
  ultimately show ?thesis using c by (intro exI[of _ t'] exI[of _ m]) (simp add: nth_list_update)
qed

lemma reading_image:
  "reading f pos s \<Longrightarrow> n \<le> f_max f \<Longrightarrow> vm_image_ok (FILEMEM s) (f_img f) (f_buf f) n s"
  using cells_mono[of n "f_max f" translate s "f_buf f"] by (auto simp: reading_def vm_image_ok_def)

lemma sys_read_file:
  assumes r: "reading f pos s" and n: "0 < n" "unat n \<le> f_max f"
    and len: "pos + unat n \<le> unat (img_length (f_img f) (unat (f_inode f)))"
  shows "\<exists>t. sys_read env dent (f_fd f) (f_buf f) n s = Some (n, t) \<and> reading f (pos + unat n) t \<and>
    contents f t = contents f s \<and> load_bytes vread t (f_buf f) (unat n) = Some (take (unat n) (drop pos (contents f s))) \<and>
    (\<forall>j<8. j \<noteq> unat (f_fd f) \<longrightarrow> cur_fds t ! j = cur_fds s ! j)"
proof -
  let ?bs = "take (unat n) (drop pos (contents f s))"
  note R = r[unfolded reading_def]
  have rd: "read_data s vread vwrite (f_inode f) (of_nat pos) (f_buf f) n s =
      do { s' \<leftarrow> store_bytes vwrite s (f_buf f) ?bs; Some (n, s') }"
    using vmimg.read_data_slice[OF refl refl _ _ reading_image[OF r n(2)] _ len order_refl] R n(1)
    by (simp add: word_less_nat_alt)
  have "length ?bs = unat n" using len R file_contents_length[of "geometry_of s" "f_img f" "unat (f_inode f)"] by simp
  from sys_read_bytes[OF r n this rd, of env dent] show ?thesis by blast
qed

text \<open>A program that reads with one call after the other into the same buffer and keeps what it got.\<close>

fun read_chunks :: "(nat \<Rightarrow> 'z kernel_scheme \<Rightarrow> 'z kernel_scheme option) \<Rightarrow> dentry \<Rightarrow> u32 \<Rightarrow> u32 \<Rightarrow> i32 list \<Rightarrow>
    'z kernel_scheme \<Rightarrow> (u8 list \<times> 'z kernel_scheme) option" where
  "read_chunks env dent fd buf [] s = Some ([], s)"
| "read_chunks env dent fd buf (n # ns) s =
     do { (r, t) \<leftarrow> sys_read env dent fd buf n s; bs \<leftarrow> load_bytes vread t buf (unat r);
          (rest, u) \<leftarrow> read_chunks env dent fd buf ns t; Some (bs @ rest, u) }"

lemma read_chunks_file:
  "reading f pos s \<Longrightarrow> \<forall>n\<in>set ns. 0 < n \<and> unat n \<le> f_max f \<Longrightarrow>
   pos + sum_list (map unat ns) \<le> unat (img_length (f_img f) (unat (f_inode f))) \<Longrightarrow>
   \<exists>t. read_chunks env dent (f_fd f) (f_buf f) ns s = Some (take (sum_list (map unat ns)) (drop pos (contents f s)), t) \<and>
     reading f (pos + sum_list (map unat ns)) t \<and> (\<forall>j<8. j \<noteq> unat (f_fd f) \<longrightarrow> cur_fds t ! j = cur_fds s ! j)"
proof (induction ns arbitrary: pos s)
  case (Cons n ns)
  obtain t where t: "sys_read env dent (f_fd f) (f_buf f) n s = Some (n, t)" "reading f (pos + unat n) t"
    "contents f t = contents f s" "load_bytes vread t (f_buf f) (unat n) = Some (take (unat n) (drop pos (contents f s)))"
    "\<forall>j<8. j \<noteq> unat (f_fd f) \<longrightarrow> cur_fds t ! j = cur_fds s ! j"
    using sys_read_file[OF Cons.prems(1), of n env dent] Cons.prems(2,3) by auto
  let ?S = "sum_list (map unat ns)"
  obtain u where u: "read_chunks env dent (f_fd f) (f_buf f) ns t = Some (take ?S (drop (pos + unat n) (contents f t)), u)"
    "reading f (pos + unat n + ?S) u" "\<forall>j<8. j \<noteq> unat (f_fd f) \<longrightarrow> cur_fds u ! j = cur_fds t ! j"
    using Cons.IH[OF t(2)] Cons.prems(2,3) by (auto simp: add.assoc)
  have "take (unat n + ?S) (drop pos (contents f s)) =
      take (unat n) (drop pos (contents f s)) @ take ?S (drop (pos + unat n) (contents f t))"
    by (simp add: t(3) take_add add.commute)
  with t(1,4,5) u show ?case by (simp add: add.assoc)
qed simp

text \<open>
  C5: Opening, reading and closing a file.  A program that opens a regular file by name and reads it
  with calls of any positive sizes that stay within the file gets, piece by piece, exactly the file's contents
  from the start; closing then frees the descriptor \<open>open\<close> returned, and no other descriptor of the
  process changes.
\<close>

theorem open_read_close:
  assumes "files_wf s" and "dir_image s ds" and "reads_string (\<lambda>j. vread s (filename + j)) xs" and "length entry = 64"
    and "find (\<lambda>k. flags (cur_fds s ! k) = 0) [2..<8] = Some k" and "find (\<lambda>d. dentry_name d = xs) ds = Some e"
    and "dentry_type e = 2" and "image_ok (geometry_of s) img" and "file_ok (geometry_of s) img (unat (dentry_inode e))"
    and "vm_image_ok (FILEMEM s) img buf cap s" and "\<forall>i<cap. translate s (buf + of_nat i) \<noteq> None"
    and "inj_cells translate s buf cap" and "buf \<noteq> 0" and "\<forall>n\<in>set ns. 0 < n \<and> unat n \<le> cap"
    and "sum_list (map unat ns) \<le> unat (img_length img (unat (dentry_inode e)))"
  shows "\<exists>s1 s2 s3. sys_open entry filename s = Some (of_nat k, s1) \<and>
    read_chunks env dent (of_nat k) buf ns s1 =
      Some (take (sum_list (map unat ns)) (file_contents (geometry_of s) img (unat (dentry_inode e))), s2) \<and>
    sys_close (of_nat k) s2 = Some (0, s3) \<and> files_wf s3 \<and> flags (cur_fds s3 ! k) = 0 \<and>
    (\<forall>j<8. j \<noteq> k \<longrightarrow> cur_fds s3 ! j = cur_fds s ! j)"
proof -
  let ?f = "\<lparr>f_img = img, f_buf = buf, f_max = cap, f_fd = of_nat k, f_inode = dentry_inode e\<rparr>"
  have k: "2 \<le> k" "k < 8" using sys_open_cases(2)[OF assms(1-6) refl refl] by blast+
  then have u: "unat (of_nat k :: u32) = k" by (simp add: unat_of_nat take_bit_nat_eq_self)
  obtain s1 where s1: "sys_open entry filename s = Some (of_nat k, s1)"
    "fd_change (of_nat k) \<lparr>table_pointer = FileTable, fd_inode = dentry_inode e, file_position = 0, flags = 1\<rparr> s s1"
    using sys_open_opens[OF assms(1-6)] assms(7) by (auto simp: type_table_def type_inode_def)
  have lc: "length (cur_fds s) = 8" using assms(1) by (intro fds_length) (simp add: files_wf_def)
  note c1 = fd_change_cur[OF s1(2)]
  have e: "phys s1 = phys s" "translate s1 = translate s" "FILEMEM s1 = FILEMEM s" "geometry_of s1 = geometry_of s"
    using s1(2) by (simp_all add: fd_change_def fd_frame_def geometry_of_def)
  have "vread s1 = vread s" by (simp add: fun_eq_iff vread_def e)
  then have "load_bytes vread s1 (FILEMEM s) (length img) = load_bytes vread s (FILEMEM s) (length img)"
    by (intro load_bytes_cong) simp
  then have "reading ?f 0 s1"
    using s1(2) assms(8-13) k lc c1 unfolding reading_def
    by (simp add: fd_change_def u e vm_image_ok_def cells_def inj_cells_def)
  from read_chunks_file[OF this, of ns env dent] assms(14,15) obtain s2 where
    s2: "read_chunks env dent (of_nat k) buf ns s1 =
      Some (take (sum_list (map unat ns)) (file_contents (geometry_of s) img (unat (dentry_inode e))), s2)"
    "reading ?f (sum_list (map unat ns)) s2" "\<forall>j<8. j \<noteq> k \<longrightarrow> cur_fds s2 ! j = cur_fds s1 ! j"
    by (auto simp: u e)
  have "files_wf s2" "flags (cur_fds s2 ! k) \<noteq> 0" using s2(2) by (simp_all add: reading_def u)
  with sys_close_step[of s2 "of_nat k", unfolded u] k obtain s3 ino where s3: "sys_close (of_nat k) s2 = Some (0, s3)"
    "fd_change (of_nat k) \<lparr>table_pointer = NullTable, fd_inode = ino, file_position = 0, flags = 0\<rparr> s2 s3" by auto
  have "length (cur_fds s2) = 8" using \<open>files_wf s2\<close> by (intro fds_length) (simp add: files_wf_def)
  then show ?thesis
    using s1(1) s2(1,3) s3 c1 fd_change_cur[OF s3(2)] lc k by (auto simp: u fd_change_def)
qed
end
