(* ===== verification/Programs.thy ===== *)
theory Programs
  imports Support Files Idt
begin

text \<open>
  The user programs (\<open>syscalls/\<close>): the system call wrappers of \<open>ece391syscall.S\<close> and the main
  functions of \<open>cat\<close>, \<open>ls\<close>, \<open>hello\<close>, \<open>counter\<close>, \<open>testprint\<close>, \<open>pingpong\<close>, \<open>shell\<close> and \<open>grep\<close>, over the kernel's state.
  A local array is an address on the user stack, a string literal an address the linker chose;
  both are arguments.
\<close>

section \<open>System calls from user mode\<close>

text \<open>
  What a program runs on: \<open>polls\<close> acts while the kernel polls, \<open>stack_dent\<close> and \<open>stack_magic\<close> are what
  the kernel's uninitialised locals hold, \<open>lit\<close> places the literals, and \<open>child\<close> runs a program that
  \<open>execute\<close> has entered until the call of \<open>execute\<close> returns.
\<close>

record 'k host =
  polls :: "nat \<Rightarrow> 'k \<Rightarrow> 'k option"
  stack_dent :: dentry
  stack_magic :: "u8 list"
  lit :: "u8 list \<Rightarrow> u32"
  child :: "u32 \<Rightarrow> u32 \<Rightarrow> 'k \<Rightarrow> (i32 \<times> 'k) option"

definition SYS_HALT :: u32 where "SYS_HALT = 1"
definition SYS_EXECUTE :: u32 where "SYS_EXECUTE = 2"
definition SYS_READ :: u32 where "SYS_READ = 3"
definition SYS_WRITE :: u32 where "SYS_WRITE = 4"
definition SYS_OPEN :: u32 where "SYS_OPEN = 5"
definition SYS_CLOSE :: u32 where "SYS_CLOSE = 6"
definition SYS_GETARGS :: u32 where "SYS_GETARGS = 7"
definition SYS_VIDMAP :: u32 where "SYS_VIDMAP = 8"
definition SYS_SET_HANDLER :: u32 where "SYS_SET_HANDLER = 9"
definition SYS_SIGRETURN :: u32 where "SYS_SIGRETURN = 10"

lemmas sys_numbers = SYS_HALT_def SYS_EXECUTE_def SYS_READ_def SYS_WRITE_def SYS_OPEN_def SYS_CLOSE_def SYS_GETARGS_def SYS_VIDMAP_def
  SYS_SET_HANDLER_def SYS_SIGRETURN_def

definition do_call :: "'z kernel_scheme host \<Rightarrow> u32 \<Rightarrow> u32 \<Rightarrow> u32 \<Rightarrow> u32 \<Rightarrow> 'z kernel_scheme \<Rightarrow>
    (i32 \<times> 'z kernel_scheme) option" where
  "do_call h number a b c s =
     do { (r, t) \<leftarrow> syscall_wrapper (polls h) (stack_dent h) (stack_magic h) number a b c s;
          (case r of SysReturn v \<Rightarrow> Some (v, t) | SysEnter eip usp \<Rightarrow> child h eip usp t | SysParent v \<Rightarrow> None) }"

text \<open>The arguments a call does not have are whatever the stack holds there; the kernel ignores them.\<close>

definition ece391_execute :: "'z kernel_scheme host \<Rightarrow> u32 \<Rightarrow> 'z kernel_scheme \<Rightarrow> (i32 \<times> 'z kernel_scheme) option" where
  "ece391_execute h command = do_call h SYS_EXECUTE command 0 0"
definition ece391_read :: "'z kernel_scheme host \<Rightarrow> u32 \<Rightarrow> u32 \<Rightarrow> i32 \<Rightarrow> 'z kernel_scheme \<Rightarrow> (i32 \<times> 'z kernel_scheme) option" where
  "ece391_read h fd buf n = do_call h SYS_READ fd buf n"
definition ece391_write :: "'z kernel_scheme host \<Rightarrow> u32 \<Rightarrow> u32 \<Rightarrow> i32 \<Rightarrow> 'z kernel_scheme \<Rightarrow> (i32 \<times> 'z kernel_scheme) option" where
  "ece391_write h fd buf n = do_call h SYS_WRITE fd buf n"
definition ece391_open :: "'z kernel_scheme host \<Rightarrow> u32 \<Rightarrow> 'z kernel_scheme \<Rightarrow> (i32 \<times> 'z kernel_scheme) option" where
  "ece391_open h filename = do_call h SYS_OPEN filename 0 0"
definition ece391_close :: "'z kernel_scheme host \<Rightarrow> u32 \<Rightarrow> 'z kernel_scheme \<Rightarrow> (i32 \<times> 'z kernel_scheme) option" where
  "ece391_close h fd = do_call h SYS_CLOSE fd 0 0"
definition ece391_getargs :: "'z kernel_scheme host \<Rightarrow> u32 \<Rightarrow> i32 \<Rightarrow> 'z kernel_scheme \<Rightarrow> (i32 \<times> 'z kernel_scheme) option" where
  "ece391_getargs h buf n = do_call h SYS_GETARGS buf n 0"
definition ece391_vidmap :: "'z kernel_scheme host \<Rightarrow> u32 \<Rightarrow> 'z kernel_scheme \<Rightarrow> (i32 \<times> 'z kernel_scheme) option" where
  "ece391_vidmap h p = do_call h SYS_VIDMAP p 0 0"
definition ece391_set_handler :: "'z kernel_scheme host \<Rightarrow> i32 \<Rightarrow> u32 \<Rightarrow> 'z kernel_scheme \<Rightarrow> (i32 \<times> 'z kernel_scheme) option" where
  "ece391_set_handler h signum handler_address = do_call h SYS_SET_HANDLER signum handler_address 0"
definition ece391_sigreturn :: "'z kernel_scheme host \<Rightarrow> 'z kernel_scheme \<Rightarrow> (i32 \<times> 'z kernel_scheme) option" where
  "ece391_sigreturn h = do_call h SYS_SIGRETURN 0 0 0"

text \<open>
  \<open>ece391_halt\<close> does not return to the program: the value is what the parent's call of \<open>execute\<close>
  returns.  \<open>program_start\<close> is the label \<open>_start\<close>, where a program begins and ends.
\<close>

definition ece391_halt :: "'z kernel_scheme host \<Rightarrow> u32 \<Rightarrow> 'z kernel_scheme \<Rightarrow> (i32 \<times> 'z kernel_scheme) option" where
  "ece391_halt h status s =
     do { (r, t) \<leftarrow> syscall_wrapper (polls h) (stack_dent h) (stack_magic h) SYS_HALT status 0 0 s;
          (case r of SysParent v \<Rightarrow> Some (v, t) | _ \<Rightarrow> None) }"

definition program_start :: "'z kernel_scheme host \<Rightarrow> ('z kernel_scheme \<Rightarrow> (i32 \<times> 'z kernel_scheme) option) \<Rightarrow>
    'z kernel_scheme \<Rightarrow> (i32 \<times> 'z kernel_scheme) option" where
  "program_start h main s = do { (eax, s) \<leftarrow> main s; ece391_halt h eax s }"

definition ece391_fdputs :: "'z kernel_scheme host \<Rightarrow> u32 \<Rightarrow> u32 \<Rightarrow> 'z kernel_scheme \<Rightarrow> 'z kernel_scheme option" where
  "ece391_fdputs h fd p s =
     do { n \<leftarrow> ece391_strlen vread s p; (_, t) \<leftarrow> ece391_write h fd p n s; Some t }"

text \<open>Print a literal on the terminal.\<close>

definition say :: "'z kernel_scheme host \<Rightarrow> u8 list \<Rightarrow> 'z kernel_scheme \<Rightarrow> 'z kernel_scheme option" where
  "say h xs = ece391_fdputs h 1 (lit h xs)"

abbreviation line :: "string \<Rightarrow> u8 list" where
  "line xs \<equiv> ascii xs @ [10]"

section \<open>cat\<close>

partial_function (option) cat_loop :: "'z kernel_scheme host \<Rightarrow> u32 \<Rightarrow> u32 \<Rightarrow> 'z kernel_scheme \<Rightarrow>
    (i32 \<times> 'z kernel_scheme) option" where
  "cat_loop h buf fd s =
     do { (cnt, s) \<leftarrow> ece391_read h fd buf 1024 s;
          if cnt = 0 then Some (0, s)
          else if cnt = -1 then do { s \<leftarrow> say h (line ''file read failed'') s; Some (3, s) }
          else do { (w, s) \<leftarrow> ece391_write h 1 buf cnt s;
                    if w = -1 then Some (3, s) else cat_loop h buf fd s } }"

definition cat_main :: "'z kernel_scheme host \<Rightarrow> u32 \<Rightarrow> 'z kernel_scheme \<Rightarrow> (i32 \<times> 'z kernel_scheme) option" where
  "cat_main h buf s =
     do { (r, s) \<leftarrow> ece391_getargs h buf 1024 s;
          if r \<noteq> 0 then do { s \<leftarrow> say h (line ''could not read arguments'') s; Some (3, s) }
          else do {
            (fd, s) \<leftarrow> ece391_open h buf s;
            if fd = -1 then do { s \<leftarrow> say h (line ''file not found'') s; Some (2, s) }
            else cat_loop h buf fd s } }"

section \<open>ls\<close>

partial_function (option) ls_loop :: "'z kernel_scheme host \<Rightarrow> u32 \<Rightarrow> u32 \<Rightarrow> 'z kernel_scheme \<Rightarrow>
    (i32 \<times> 'z kernel_scheme) option" where
  "ls_loop h buf fd s =
     do { (cnt, s) \<leftarrow> ece391_read h fd buf 32 s;
          if cnt = 0 then Some (0, s)
          else if cnt = -1 then do { s \<leftarrow> say h (line ''directory entry read failed'') s; Some (3, s) }
          else do { s \<leftarrow> vwrite s (buf + cnt) 10;
                    (w, s) \<leftarrow> ece391_write h 1 buf (cnt + 1) s;
                    if w = -1 then Some (3, s) else ls_loop h buf fd s } }"

definition ls_main :: "'z kernel_scheme host \<Rightarrow> u32 \<Rightarrow> 'z kernel_scheme \<Rightarrow> (i32 \<times> 'z kernel_scheme) option" where
  "ls_main h buf s =
     do { (fd, s) \<leftarrow> ece391_open h (lit h (ascii ''.'')) s;
          if fd = -1 then do { s \<leftarrow> say h (line ''directory open failed'') s; Some (2, s) }
          else ls_loop h buf fd s }"

section \<open>hello, testprint and counter\<close>

definition hello_main :: "'z kernel_scheme host \<Rightarrow> u32 \<Rightarrow> 'z kernel_scheme \<Rightarrow> (i32 \<times> 'z kernel_scheme) option" where
  "hello_main h buf s =
     do { s \<leftarrow> say h (ascii ''Hi, what'' @ [39] @ ascii ''s your name? '') s;
          (cnt, s) \<leftarrow> ece391_read h 0 buf 1023 s;
          if cnt = -1 then do { s \<leftarrow> say h (ascii ''Can'' @ [39] @ line ''t read name from keyboard.'') s; Some (3, s) }
          else do { s \<leftarrow> vwrite s (buf + cnt) 0;
                    s \<leftarrow> say h (ascii ''Hello, '') s;
                    s \<leftarrow> ece391_fdputs h 1 buf s;
                    Some (0, s) } }"

definition testprint_main :: "'z kernel_scheme host \<Rightarrow> 'z kernel_scheme \<Rightarrow> (i32 \<times> 'z kernel_scheme) option" where
  "testprint_main h s =
     do { s \<leftarrow> say h (line ''Hello, if this ran, the program was correct. Yay!'') s; Some (0, s) }"

definition counter_max :: "u8 \<Rightarrow> nat" where
  "counter_max c = (if c = 48 then 100 else if c = 49 then 10000 else if c = 50 then 100000 else 0)"

definition counter_main :: "'z kernel_scheme host \<Rightarrow> u32 \<Rightarrow> 'z kernel_scheme \<Rightarrow> (i32 \<times> 'z kernel_scheme) option" where
  "counter_main h buf s =
     do { s \<leftarrow> say h (line ''Enter the Test Number: (0): 100, (1): 10000, (2): 100000'') s;
          (cnt, s) \<leftarrow> ece391_read h 0 buf 1023 s;
          if cnt = -1 then do { s \<leftarrow> say h (ascii ''Can'' @ [39] @ line ''t read the number from keyboard.'') s; Some (3, s) }
          else do {
            s \<leftarrow> vwrite s (buf + cnt) 0;
            n \<leftarrow> ece391_strlen vread s buf;
            c \<leftarrow> vread s buf;
            if n > 2 \<or> n = 2 \<and> (c < 48 \<or> c > 50)
            then do { s \<leftarrow> say h (line ''Wrong Choice!'') s; Some (0, s) }
            else do {
              s \<leftarrow> for_up 0 (counter_max c) (\<lambda>i s.
                do { s \<leftarrow> ece391_itoa vread vwrite s (of_nat i + 1) buf 10;
                     s \<leftarrow> ece391_fdputs h 1 buf s;
                     say h [10] s }) s;
              Some (0, s) } } }"

section \<open>pingpong\<close>

text \<open>
  A character that bounces between two walls, one line per tick of the clock.  The line of 81 bytes,
  the frequency and the byte the clock's read stores are on the stack, at \<open>buf\<close>, \<open>freq\<close> and \<open>garbage\<close>.
\<close>

definition pingpong_draw :: "'z kernel_scheme host \<Rightarrow> u32 \<Rightarrow> u8 \<Rightarrow> nat \<Rightarrow> 'z kernel_scheme \<Rightarrow> 'z kernel_scheme option" where
  "pingpong_draw h buf curchar j s =
     do { s \<leftarrow> for_up 2 76 (\<lambda>i s. vwrite s (buf + of_nat i) 32) s;
          s \<leftarrow> vwrite s (buf + of_nat j) curchar;
          ece391_fdputs h 1 buf s }"

definition pingpong_frame :: "'z kernel_scheme host \<Rightarrow> u32 \<Rightarrow> u32 \<Rightarrow> u32 \<Rightarrow> u8 \<Rightarrow> nat \<Rightarrow> 'z kernel_scheme \<Rightarrow> 'z kernel_scheme option" where
  "pingpong_frame h buf garbage fd curchar j s =
     do { s \<leftarrow> pingpong_draw h buf curchar j s; (_, s) \<leftarrow> ece391_read h fd garbage 4 s; Some s }"

text \<open>Out from column 2 to 77, and back.\<close>

definition pingpong_turn :: "'z kernel_scheme host \<Rightarrow> u32 \<Rightarrow> u32 \<Rightarrow> u32 \<Rightarrow> u8 \<Rightarrow> 'z kernel_scheme \<Rightarrow> 'z kernel_scheme option" where
  "pingpong_turn h buf garbage fd curchar s =
     do { s \<leftarrow> for_up 2 76 (pingpong_frame h buf garbage fd curchar) s;
          for_up 0 76 (\<lambda>k. pingpong_frame h buf garbage fd curchar (77 - k)) s }"

definition next_char :: "u8 \<Rightarrow> u8" where
  "next_char c = (if c = 90 then 65 else c + 1)"

text \<open>The program does not end: \<open>n\<close> turns of its loop.\<close>

fun pingpong_turns :: "'z kernel_scheme host \<Rightarrow> u32 \<Rightarrow> u32 \<Rightarrow> u32 \<Rightarrow> nat \<Rightarrow> u8 \<Rightarrow> 'z kernel_scheme \<Rightarrow> 'z kernel_scheme option" where
  "pingpong_turns h buf garbage fd 0 curchar s = Some s"
| "pingpong_turns h buf garbage fd (Suc n) curchar s =
     do { s \<leftarrow> pingpong_turn h buf garbage fd curchar s; pingpong_turns h buf garbage fd n (next_char curchar) s }"

definition pingpong_start :: "'z kernel_scheme host \<Rightarrow> u32 \<Rightarrow> u32 \<Rightarrow> 'z kernel_scheme \<Rightarrow> (i32 \<times> 'z kernel_scheme) option" where
  "pingpong_start h buf freq s =
     do { s \<leftarrow> for_up 0 81 (\<lambda>i s. vwrite s (buf + of_nat i) 32) s;
          s \<leftarrow> vwrite s (buf + 80) 0;
          s \<leftarrow> vwrite s (buf + 79) 10;
          s \<leftarrow> vwrite s (buf + 78) 124;
          s \<leftarrow> vwrite s (buf + 1) 124;
          (fd, s) \<leftarrow> ece391_open h (lit h (ascii ''rtc'')) s;
          s \<leftarrow> store32 vwrite s freq 32;
          (r, s) \<leftarrow> ece391_write h fd freq 4 s;
          s \<leftarrow> store32 vwrite s freq r;
          Some (fd, s) }"

definition pingpong_main :: "'z kernel_scheme host \<Rightarrow> u32 \<Rightarrow> u32 \<Rightarrow> u32 \<Rightarrow> nat \<Rightarrow> 'z kernel_scheme \<Rightarrow> 'z kernel_scheme option" where
  "pingpong_main h buf freq garbage n s =
     do { (fd, s) \<leftarrow> pingpong_start h buf freq s; pingpong_turns h buf garbage fd n 65 s }"

section \<open>shell\<close>

text \<open>What the shell says about the value \<open>execute\<close> returned.\<close>

definition shell_report :: "'z kernel_scheme host \<Rightarrow> i32 \<Rightarrow> 'z kernel_scheme \<Rightarrow> 'z kernel_scheme option" where
  "shell_report h rval s =
     (if rval = -1 then say h (line ''no such command'') s
      else if rval = 256 then say h (line ''program terminated by exception'') s
      else if rval \<noteq> 0 then say h (line ''program terminated abnormally'') s
      else Some s)"

text \<open>One turn of the loop; a value stands for a return from \<open>main\<close>.\<close>

definition shell_turn :: "'z kernel_scheme host \<Rightarrow> u32 \<Rightarrow> 'z kernel_scheme \<Rightarrow> (i32 option \<times> 'z kernel_scheme) option" where
  "shell_turn h buf s =
     do { s \<leftarrow> say h (ascii ''391OS> '') s;
          (cnt, s) \<leftarrow> ece391_read h 0 buf 1023 s;
          if cnt = -1 then do { s \<leftarrow> say h (line ''read from keyboard failed'') s; Some (Some 3, s) }
          else do {
            cnt \<leftarrow> (if sint cnt > 0 then do { b \<leftarrow> vread s (buf + cnt - 1); Some (if b = 10 then cnt - 1 else cnt) }
                    else Some cnt);
            s \<leftarrow> vwrite s (buf + cnt) 0;
            r \<leftarrow> ece391_strcmp vread s buf (lit h (ascii ''exit''));
            if r = 0 then Some (Some 0, s)
            else do {
              b \<leftarrow> vread s buf;
              if b = 0 then Some (None, s)
              else do { (rval, s) \<leftarrow> ece391_execute h buf s; s \<leftarrow> shell_report h rval s; Some (None, s) } } } }"

partial_function (option) shell_loop :: "'z kernel_scheme host \<Rightarrow> u32 \<Rightarrow> 'z kernel_scheme \<Rightarrow>
    (i32 \<times> 'z kernel_scheme) option" where
  "shell_loop h buf s =
     do { (r, s) \<leftarrow> shell_turn h buf s;
          (case r of None \<Rightarrow> shell_loop h buf s | Some v \<Rightarrow> Some (v, s)) }"

definition shell_main :: "'z kernel_scheme host \<Rightarrow> u32 \<Rightarrow> 'z kernel_scheme \<Rightarrow> (i32 \<times> 'z kernel_scheme) option" where
  "shell_main h buf s = do { s \<leftarrow> say h (line ''Starting 391 Shell'') s; shell_loop h buf s }"

section \<open>grep\<close>

partial_function (option) grep_line_end :: "u32 \<Rightarrow> i32 \<Rightarrow> i32 \<Rightarrow> 'z machine_scheme \<Rightarrow> i32 option" where
  "grep_line_end data lst line_end s =
     (if sint line_end < sint lst
      then do { b \<leftarrow> vread s (data + line_end);
                if b \<noteq> 10 then grep_line_end data lst (line_end + 1) s else Some line_end }
      else Some line_end)"

text \<open>The line from \<open>line_start\<close> to \<open>line_end\<close>, already terminated, is printed at the first match.\<close>

partial_function (option) grep_search :: "'z kernel_scheme host \<Rightarrow> u32 \<Rightarrow> u32 \<Rightarrow> u32 \<Rightarrow> u32 \<Rightarrow> i32 \<Rightarrow> i32 \<Rightarrow> i32 \<Rightarrow>
    'z kernel_scheme \<Rightarrow> 'z kernel_scheme option" where
  "grep_search h pat s_len fname data line_start line_end check s =
     (if sint check < sint line_end
      then do { p \<leftarrow> vread s pat; c \<leftarrow> vread s (data + check);
                r \<leftarrow> (if p = c then ece391_strncmp vread s (data + check) pat s_len else Some 1);
                if r = 0
                then do { s \<leftarrow> ece391_fdputs h 1 fname s; s \<leftarrow> say h (ascii '':'') s;
                          s \<leftarrow> ece391_fdputs h 1 (data + line_start) s; say h [10] s }
                else grep_search h pat s_len fname data line_start line_end (check + 1) s }
      else Some s)"

text \<open>All lines that are complete; the value is the new \<open>last\<close>.\<close>

partial_function (option) grep_lines :: "'z kernel_scheme host \<Rightarrow> u32 \<Rightarrow> u32 \<Rightarrow> u32 \<Rightarrow> u32 \<Rightarrow> i32 \<Rightarrow> i32 \<Rightarrow> i32 \<Rightarrow>
    'z kernel_scheme \<Rightarrow> (i32 \<times> 'z kernel_scheme) option" where
  "grep_lines h pat s_len fname data cnt lst line_start s =
     do { line_end \<leftarrow> grep_line_end data lst line_start s;
          b \<leftarrow> vread s (data + line_end);
          if b \<noteq> 10 \<and> cnt \<noteq> 0 \<and> line_start \<noteq> 0
          then do { s \<leftarrow> vwrite s (data + line_end) 0;
                    s \<leftarrow> ece391_strcpy vread vwrite s data (data + line_start);
                    Some (lst - line_start, s) }
          else do { s \<leftarrow> vwrite s (data + line_end) 0;
                    s \<leftarrow> grep_search h pat s_len fname data line_start line_end line_start s;
                    if sint (line_end + 1) \<ge> sint lst then Some (0, s)
                    else grep_lines h pat s_len fname data cnt lst (line_end + 1) s } }"

partial_function (option) grep_loop :: "'z kernel_scheme host \<Rightarrow> u32 \<Rightarrow> u32 \<Rightarrow> u32 \<Rightarrow> u32 \<Rightarrow> u32 \<Rightarrow> i32 \<Rightarrow>
    'z kernel_scheme \<Rightarrow> (i32 \<times> 'z kernel_scheme) option" where
  "grep_loop h pat s_len fname data fd lst s =
     do { (cnt, s) \<leftarrow> ece391_read h fd (data + lst) (1024 - lst) s;
          if cnt = -1 then do { s \<leftarrow> say h (line ''file read failed'') s; Some (-1, s) }
          else do {
            (lst, s) \<leftarrow> grep_lines h pat s_len fname data cnt (lst + cnt) 0 s;
            if cnt = 0
            then do { (r, s) \<leftarrow> ece391_close h fd s;
                      if r = -1 then do { s \<leftarrow> say h (line ''file close failed'') s; Some (-1, s) } else Some (0, s) }
            else grep_loop h pat s_len fname data fd lst s } }"

definition do_one_file :: "'z kernel_scheme host \<Rightarrow> u32 \<Rightarrow> u32 \<Rightarrow> u32 \<Rightarrow> 'z kernel_scheme \<Rightarrow>
    (i32 \<times> 'z kernel_scheme) option" where
  "do_one_file h data pat fname s =
     do { s_len \<leftarrow> ece391_strlen vread s pat;
          (fd, s) \<leftarrow> ece391_open h fname s;
          if fd = -1 then do { s \<leftarrow> say h (line ''file open failed'') s; Some (-1, s) }
          else grep_loop h pat s_len fname data fd 0 s }"

partial_function (option) grep_files :: "'z kernel_scheme host \<Rightarrow> u32 \<Rightarrow> u32 \<Rightarrow> u32 \<Rightarrow> u32 \<Rightarrow> 'z kernel_scheme \<Rightarrow>
    (i32 \<times> 'z kernel_scheme) option" where
  "grep_files h data search buf fd s =
     do { (cnt, s) \<leftarrow> ece391_read h fd buf 32 s;
          if cnt = 0 then Some (0, s)
          else if cnt = -1 then do { s \<leftarrow> say h (line ''directory entry read failed'') s; Some (3, s) }
          else do {
            b \<leftarrow> vread s buf;
            if b = 46 then grep_files h data search buf fd s
            else do { s \<leftarrow> vwrite s (buf + cnt) 0;
                      (r, s) \<leftarrow> do_one_file h data search buf s;
                      if r \<noteq> 0 then Some (3, s) else grep_files h data search buf fd s } } }"

definition grep_main :: "'z kernel_scheme host \<Rightarrow> u32 \<Rightarrow> u32 \<Rightarrow> u32 \<Rightarrow> 'z kernel_scheme \<Rightarrow>
    (i32 \<times> 'z kernel_scheme) option" where
  "grep_main h data search buf s =
     do { (r, s) \<leftarrow> ece391_getargs h search 1024 s;
          if r \<noteq> 0 then do { s \<leftarrow> say h (line ''could not read argument'') s; Some (3, s) }
          else do {
            (fd, s) \<leftarrow> ece391_open h (lit h (ascii ''.'')) s;
            if fd = -1 then do { s \<leftarrow> say h (line ''directory open failed'') s; Some (2, s) }
            else grep_files h data search buf fd s } }"

end
