(* ===== verification/Syserr.thy ===== *)
theory Syserr
  imports Programs
begin

text \<open>
  The error tests \<open>syscalls/ece391syserr.c\<close>: every test calls the kernel with arguments it has to
  reject, and prints a verdict.
\<close>

section \<open>The tests\<close>

definition NEG_FD :: u32 where "NEG_FD = -1073741823"
definition BIG_FD :: u32 where "BIG_FD = 1073741823"
definition BIG_NUM :: u32 where "BIG_NUM = 1073741823"
definition NEG_NUM :: u32 where "NEG_NUM = -1073741823"

text \<open>
  \<open>call_sys\<close> sets the number only; the numbers it is used with are rejected before an argument register
  is read.
\<close>

definition call_sys :: "'z kernel_scheme host \<Rightarrow> u32 \<Rightarrow> 'z kernel_scheme \<Rightarrow> (i32 \<times> 'z kernel_scheme) option" where
  "call_sys h num = do_call h num 0 0 0"

text \<open>\<open>if (-1 != call) { fail = 2; print message }\<close>, and the verdict at the end of a test.\<close>

definition expect_fail :: "'z kernel_scheme host \<Rightarrow> ('z kernel_scheme \<Rightarrow> (i32 \<times> 'z kernel_scheme) option) \<Rightarrow> u8 list \<Rightarrow>
    i32 \<times> 'z kernel_scheme \<Rightarrow> (i32 \<times> 'z kernel_scheme) option" where
  "expect_fail h call message fs =
     do { (r, s) \<leftarrow> call (snd fs);
          if r \<noteq> -1 then do { s \<leftarrow> say h message s; Some (2, s) } else Some (fst fs, s) }"

definition verdict :: "'z kernel_scheme host \<Rightarrow> string \<Rightarrow> i32 \<times> 'z kernel_scheme \<Rightarrow> (i32 \<times> 'z kernel_scheme) option" where
  "verdict h name fs =
     do { s \<leftarrow> say h (ascii name @ (if fst fs \<noteq> 0 then line '': FAIL'' else line '': PASS'')) (snd fs);
          Some (fst fs, s) }"

definition err_bad_fd :: "'z kernel_scheme host \<Rightarrow> string \<Rightarrow> u32 \<Rightarrow> u32 \<Rightarrow> 'z kernel_scheme \<Rightarrow>
    (i32 \<times> 'z kernel_scheme) option" where
  "err_bad_fd h name fd buf s =
     do { fs \<leftarrow> expect_fail h (ece391_read h fd buf 31) (line ''read fail'') (0, s);
          fs \<leftarrow> expect_fail h (ece391_write h fd buf 31) (line ''write fail'') fs;
          fs \<leftarrow> expect_fail h (ece391_close h fd) (line ''close fail'') fs;
          verdict h name fs }"

definition err_neg_fd :: "'z kernel_scheme host \<Rightarrow> u32 \<Rightarrow> 'z kernel_scheme \<Rightarrow> (i32 \<times> 'z kernel_scheme) option" where
  "err_neg_fd h buf s = err_bad_fd h ''err_neg_fd'' NEG_FD buf s"

definition err_big_fd :: "'z kernel_scheme host \<Rightarrow> u32 \<Rightarrow> 'z kernel_scheme \<Rightarrow> (i32 \<times> 'z kernel_scheme) option" where
  "err_big_fd h buf s = err_bad_fd h ''err_big_fd'' BIG_FD buf s"

definition err_open_lots :: "'z kernel_scheme host \<Rightarrow> 'z kernel_scheme \<Rightarrow> (i32 \<times> 'z kernel_scheme) option" where
  "err_open_lots h s =
     do { (cnt, s) \<leftarrow> for_up 0 7 (\<lambda>i (cnt, s).
            do { (r, s) \<leftarrow> ece391_open h (lit h (ascii ''.'')) s;
                 Some (if r = -1 then cnt + 1 else cnt, s) }) (0 :: i32, s);
          s \<leftarrow> for_up 2 6 (\<lambda>i s. do { (_, s) \<leftarrow> ece391_close h (of_nat i) s; Some s }) s;
          if cnt = 1 then do { s \<leftarrow> say h (line ''err_open_lots: PASS'') s; Some (0, s) }
          else do { s \<leftarrow> say h (line ''err_open_lots: FAIL'') s; Some (2, s) } }"

definition err_open :: "'z kernel_scheme host \<Rightarrow> 'z kernel_scheme \<Rightarrow> (i32 \<times> 'z kernel_scheme) option" where
  "err_open h s =
     do { fs \<leftarrow> expect_fail h (ece391_open h (lit h (ascii ''helloo''))) ([39] @ ascii ''helloo'' @ [39] @ line '' fail'') (0, s);
          fs \<leftarrow> expect_fail h (ece391_open h (lit h (ascii ''shel''))) ([39] @ ascii ''shel'' @ [39] @ line '' fail'') fs;
          fs \<leftarrow> expect_fail h (ece391_open h (lit h [])) (line ''empty string fail'') fs;
          verdict h ''err_open'' fs }"

definition err_unopened :: "'z kernel_scheme host \<Rightarrow> u32 \<Rightarrow> 'z kernel_scheme \<Rightarrow> (i32 \<times> 'z kernel_scheme) option" where
  "err_unopened h buf s =
     do { fs \<leftarrow> for_up 0 8 (\<lambda>i. expect_fail h (ece391_close h (of_nat i)) (line ''close unopened or invalid fd fail'')) (0, s);
          fs \<leftarrow> for_up 2 6 (\<lambda>i. expect_fail h (ece391_read h (of_nat i) buf 31) (line ''read from unopened fd fail'')) fs;
          fs \<leftarrow> for_up 2 6 (\<lambda>i. expect_fail h (ece391_write h (of_nat i) buf 31) (line ''write to unopened fd fail'')) fs;
          verdict h ''err_unopened'' fs }"

definition err_vidmap :: "'z kernel_scheme host \<Rightarrow> 'z kernel_scheme \<Rightarrow> (i32 \<times> 'z kernel_scheme) option" where
  "err_vidmap h s =
     do { fs \<leftarrow> expect_fail h (ece391_vidmap h 0) (line ''Null pointer fail'') (0, s);
          fs \<leftarrow> expect_fail h (ece391_vidmap h 0x400000) (line ''Kernel pointer fail fail'') fs;
          verdict h ''err_vidmap'' fs }"

definition err_stdin_out :: "'z kernel_scheme host \<Rightarrow> u32 \<Rightarrow> 'z kernel_scheme \<Rightarrow> (i32 \<times> 'z kernel_scheme) option" where
  "err_stdin_out h buf s =
     do { fs \<leftarrow> expect_fail h (ece391_write h 0 buf 31) (line ''write to stdin fail'') (0, s);
          fs \<leftarrow> expect_fail h (ece391_read h 1 buf 31) (line ''read from stdout fail'') fs;
          verdict h ''err_stdin_out'' fs }"

definition err_syscall_num :: "'z kernel_scheme host \<Rightarrow> 'z kernel_scheme \<Rightarrow> (i32 \<times> 'z kernel_scheme) option" where
  "err_syscall_num h s =
     do { fs \<leftarrow> expect_fail h (call_sys h BIG_NUM) (line ''syscall 0 fail'') (0, s);
          fs \<leftarrow> expect_fail h (call_sys h NEG_NUM) (line ''big num syscall fail'') fs;
          fs \<leftarrow> expect_fail h (call_sys h 0) (line ''neg num syscall fail'') fs;
          verdict h ''err_syscall_num'' fs }"

text \<open>The eight tests in their order; \<open>buf\<close> is the local array each of them has on the stack.\<close>

definition err_tests :: "'z kernel_scheme host \<Rightarrow> u32 \<Rightarrow> ('z kernel_scheme \<Rightarrow> (i32 \<times> 'z kernel_scheme) option) list" where
  "err_tests h buf = [err_neg_fd h buf, err_big_fd h buf, err_open_lots h, err_open h, err_unopened h buf,
     err_vidmap h, err_stdin_out h buf, err_syscall_num h]"

fun run_tests :: "('k \<Rightarrow> (i32 \<times> 'k) option) list \<Rightarrow> i32 \<times> 'k \<Rightarrow> (i32 \<times> 'k) option" where
  "run_tests [] fs = Some fs"
| "run_tests (t # ts) fs = do { (r, s) \<leftarrow> t (snd fs); run_tests ts (fst fs + r, s) }"

definition syserr_select :: "'z kernel_scheme host \<Rightarrow> u32 \<Rightarrow> i32 \<Rightarrow> 'z kernel_scheme \<Rightarrow> (i32 \<times> 'z kernel_scheme) option" where
  "syserr_select h buf select s =
     (if select = 0
      then do { (r, s) \<leftarrow> run_tests (err_tests h buf) (0, s);
                s \<leftarrow> say h ([10] @ line (if r \<noteq> 0 then ''Overall Tests: FAIL'' else ''Overall Tests: PASS'')) s;
                Some (r, s) }
      else if 1 \<le> select \<and> select \<le> 8 then (err_tests h buf ! (unat select - 1)) s
      else do { s \<leftarrow> say h (ascii ''Invalid test number. Choose from tests 1-8 or 0'') s; Some (0, s) })"

definition syserr_main :: "'z kernel_scheme host \<Rightarrow> u32 \<Rightarrow> u32 \<Rightarrow> 'z kernel_scheme \<Rightarrow> (i32 \<times> 'z kernel_scheme) option" where
  "syserr_main h answer buf s =
     do { s \<leftarrow> say h (ascii ''Choose from tests 1-8. 0 to run all: '') s;
          (cnt, s) \<leftarrow> ece391_read h 0 answer 127 s;
          if cnt = -1 then do { s \<leftarrow> say h (ascii ''Can'' @ [39] @ line ''t read test #'') s; Some (2, s) }
          else do { b \<leftarrow> vread s answer; syserr_select h buf (ucast b - 48) s } }"

end
