(* ===== verification/Userland.thy ===== *)
theory Userland
  imports Syserr
begin

text \<open>
  What the user programs of \<open>syscalls/\<close> do on this kernel: a program that is ready to run in user mode,
  what it prints on its terminal (\<open>wrote\<close>), and the error tests of \<open>ece391syserr.c\<close>, which all pass.
\<close>

section \<open>The calls\<close>

lemma lift_return:
  "do { (r, t) \<leftarrow> sys_lift x; (case r of SysReturn v \<Rightarrow> Some (v, t) | SysEnter eip usp \<Rightarrow> f eip usp t | SysParent v \<Rightarrow> None) } = x"
  by (cases x) (auto simp: sys_lift_def)

lemma calls [simp]:
  "ece391_read h fd buf n s = sys_read (polls h) (stack_dent h) fd buf n s"
  "ece391_write h fd buf n s = sys_write fd buf n s"
  "ece391_open h filename s = sys_open (stack_dent h) filename s"
  "ece391_close h fd s = sys_close fd s"
  "ece391_getargs h buf n s = getargs buf n s"
  "ece391_vidmap h p s = vidmap p s"
  by (simp_all add: ece391_read_def ece391_write_def ece391_open_def ece391_close_def ece391_getargs_def ece391_vidmap_def
      do_call_def sys_numbers syscall_wrapper_def lift_return)

text \<open>A program that returns from \<open>main\<close> goes back to its parent with the low byte of its value.\<close>

lemma program_start_returns:
  assumes m: "main s = Some (r, t)" and wf: "files_wf t"
  shows "\<exists>p. program_start h main s = Some (scast (ucast r :: u8), p) \<and> back_to_parent t p \<and> files_wf p"
  using halt_step[OF wf, of "ucast r"] m
  by (auto simp: program_start_def ece391_halt_def sys_numbers syscall_wrapper_def)

section \<open>A program in user mode\<close>

text \<open>Memory where a program's text stands: mapped, not null, and not on the screen.\<close>

definition off_screen :: "'z machine_scheme \<Rightarrow> u32 \<Rightarrow> nat \<Rightarrow> bool" where
  "off_screen s p n \<longleftrightarrow> p \<noteq> 0 \<and> n < 2 ^ 31 \<and> (\<forall>j<n. \<exists>c. translate s (p + of_nat j) = Some c \<and> \<not> video_area c)"

definition program_ready :: "'z kernel_scheme host \<Rightarrow> u8 list list \<Rightarrow> u8 list \<Rightarrow> dentry list \<Rightarrow> 'z kernel_scheme \<Rightarrow> bool" where
  "program_ready h T img ds s \<longleftrightarrow> files_wf s \<and> coherent s \<and> boot_image s img ds \<and> length (stack_dent h) = 64 \<and>
     (\<forall>k<2. flags (cur_fds s ! k) \<noteq> 0 \<and> table_pointer (cur_fds s ! k) = KeyboardTable) \<and>
     (\<forall>xs\<in>set T. off_screen s (lit h xs) (Suc (length xs)) \<and> cstring vread s (lit h xs) xs)"

text \<open>What a program did, seen from outside: the text it wrote on its own terminal.\<close>

definition wrote :: "u8 list \<Rightarrow> 'z kernel_scheme \<Rightarrow> 'z kernel_scheme \<Rightarrow> bool" where
  "wrote xs s t \<longleftrightarrow> sched_ix t = sched_ix s \<and>
     (\<forall>i<3. term_view t i = (if i = sched_ix s then fold term_putc xs (term_view s i) else term_view s i))"

lemma wrote_refl [simp]: "wrote [] s s"
  by (simp add: wrote_def)

lemma wrote_trans: "wrote xs s t \<Longrightarrow> wrote ys t u \<Longrightarrow> wrote (xs @ ys) s u"
  by (simp add: wrote_def)

lemma prints_vread: "prints s t \<Longrightarrow> translate s p = Some c \<Longrightarrow> \<not> video_area c \<Longrightarrow> vread t p = vread s p"
  by (simp add: vread_def prints_fields)

lemma keyboard_write_puts:
  assumes wf: "console_wf s" and ld: "load_bytes vread s buf (length xs) = Some xs" and off: "off_screen s buf (length xs)"
  shows "keyboard_write fd buf (of_nat (length xs)) s = do { t \<leftarrow> putcs xs s; Some (of_nat (length xs), t) }"
proof -
  have l: "length xs < 2 ^ 31" using off by (simp add: off_screen_def)
  then have n: "nat (sint (of_nat (length xs) :: u32)) = length xs"
    by (simp add: signed_of_nat signed_take_bit_int_eq_self)
  let ?I = "\<lambda>k t. putcs (take k xs) s = Some t \<and> console_wf t \<and> prints s t"
  have "\<exists>t. for_up 0 (length xs) (\<lambda>i s. do { b \<leftarrow> vread s (buf + of_nat i); putc b s }) s = Some t \<and> ?I (0 + length xs) t"
  proof (rule for_up_rule)
    fix k t assume k: "k < 0 + length xs" and I: "?I k t"
    obtain c where "translate s (buf + of_nat k) = Some c" "\<not> video_area c" using off k by (auto simp: off_screen_def)
    with I have "vread t (buf + of_nat k) = vread s (buf + of_nat k)" by (intro prints_vread) auto
    then have b: "vread t (buf + of_nat k) = Some (xs ! k)" using load_bytes_nth[OF ld, of k] k by simp
    obtain t' where t': "putc (xs ! k) t = Some t'" "console_wf t'" "prints t t'" using putc_safe[of t "xs ! k"] I by blast
    have "putcs (take (Suc k) xs) s = Some t'" using I k t'(1) by (simp add: take_Suc_conv_app_nth putcs_append)
    then show "\<exists>t'. do { b \<leftarrow> vread t (buf + of_nat k); putc b t } = Some t' \<and> ?I (Suc k) t'"
      using b t' I prints_trans by fastforce
  qed (use wf in simp)
  then show ?thesis by (auto simp: keyboard_write_def n)
qed

lemma program_ready_prints:
  assumes r: "program_ready h T img ds s" and p: "prints s t" and cw: "console_wf t"
  shows "program_ready h T img ds t" "cur_fds t = cur_fds s"
proof -
  note R = r[unfolded program_ready_def]
  have wf: "files_wf t" using files_wf_prints[OF _ p cw] R by blast
  have f: "FILEMEM t = FILEMEM s" "fs_entries t = fs_entries s" "fs_inodes t = fs_inodes s" "fs_dblocks t = fs_dblocks s"
    "process_array t = process_array s" "schedule_index t = schedule_index s" "kernel_fdt t = kernel_fdt s" "pcbs t = pcbs s"
    using p by (auto simp: prints_def)
  then show c: "cur_fds t = cur_fds s" by (simp add: fds_at_def split: fd_ptr.split)
  have pg: "phys t c = phys s c" if "unat c div 0x400000 = 1" for c
  proof -
    have "\<not> video_area c" unfolding video_area_def
      using that div_mult2_eq[of "unat c" "0x1000" "0x400"] by (auto simp: Suc_le_eq)
    then show ?thesis using p by (simp add: prints_fields)
  qed
  have "boot_image t img ds"
    by (rule boot_image_transfer[OF _ _ _ f(1,3,4,2) pg]) (use R wf files_paging in auto)
  moreover have "cstring vread t (lit h xs) xs" if "off_screen s (lit h xs) (Suc (length xs))" "cstring vread s (lit h xs) xs" for xs
  proof -
    have "load_bytes vread t (lit h xs) (Suc (length xs)) = load_bytes vread s (lit h xs) (Suc (length xs))"
      by (rule load_bytes_cong) (use that(1) prints_vread[OF p] in \<open>auto simp: off_screen_def\<close>)
    then show ?thesis using that(2) unfolding cstring_def by simp
  qed
  moreover have "off_screen t = off_screen s" by (simp add: fun_eq_iff off_screen_def prints_fields[OF p])
  ultimately show "program_ready h T img ds t"
    using R wf c prints_coherent[OF p] by (simp add: program_ready_def)
qed

lemma write_stdout:
  assumes r: "program_ready h T img ds s" and ld: "load_bytes vread s buf (length xs) = Some xs"
    and off: "off_screen s buf (length xs)"
  shows "\<exists>t. sys_write 1 buf (of_nat (length xs)) s = Some (of_nat (length xs), t) \<and> program_ready h T img ds t \<and>
    wrote xs s t \<and> prints s t \<and> cur_fds t = cur_fds s"
proof -
  note R = r[unfolded program_ready_def]
  have cw: "console_wf s" using R by (simp add: files_wf_def procs_wf_def)
  obtain t where t: "putcs xs s = Some t" "console_wf t" "prints s t"
    "\<forall>i<3. term_view t i = (if i = sched_ix s then fold term_putc xs (term_view s i) else term_view s i)"
    using putcs_refines[OF cw, of xs] R by blast
  have g: "get_fd 1 s = Some (cur_fds s ! 1)" using files_get[of s 1] R by simp
  have "sys_write 1 buf (of_nat (length xs)) s = keyboard_write 1 buf (of_nat (length xs)) s"
    using R off g by (simp add: sys_write_def off_screen_def)
  moreover have "wrote xs s t" using t(3,4) by (auto simp: wrote_def prints_def)
  ultimately show ?thesis
    using t program_ready_prints[OF r t(3,2)] keyboard_write_puts[OF cw ld off] by auto
qed

lemma say_step:
  assumes r: "program_ready h T img ds s" and T: "xs \<in> set T"
  shows "\<exists>t. say h xs s = Some t \<and> program_ready h T img ds t \<and> wrote xs s t \<and> prints s t \<and> cur_fds t = cur_fds s"
proof -
  have l: "cstring vread s (lit h xs) xs" "off_screen s (lit h xs) (Suc (length xs))" using r T by (auto simp: program_ready_def)
  have "load_bytes vread s (lit h xs) (length xs) = Some xs"
    by (rule load_bytes_SomeI[OF refl]) (use cstring_nth[OF l(1)] in blast)
  moreover have "off_screen s (lit h xs) (length xs)" using l(2) by (simp add: off_screen_def)
  ultimately show ?thesis
    using write_stdout[OF r, of "lit h xs" xs] strlen_cstring[OF l(1)]
    by (auto simp: say_def ece391_fdputs_def ece391_strlen_eq)
qed

lemma program_ready_fd:
  assumes r: "program_ready h T img ds s" and fr: "fd_frame s t" and wf: "files_wf t"
    and std: "\<forall>k<2. cur_fds t ! k = cur_fds s ! k"
  shows "program_ready h T img ds t" "wrote [] s t"
proof -
  have e: "phys t = phys s" "translate t = translate s" "FILEMEM t = FILEMEM s" "fs_entries t = fs_entries s"
    "fs_inodes t = fs_inodes s" "fs_dblocks t = fs_dblocks s" "pte t = pte s" "visible_screen t = visible_screen s"
    "schedule_index t = schedule_index s" "screen_x t = screen_x s" "screen_y t = screen_y s"
    using fr by (simp_all add: fd_frame_def)
  have "vread t = vread s" by (simp add: fun_eq_iff vread_def e)
  then have "load_bytes vread t a n = load_bytes vread s a n" for a n by (intro load_bytes_cong) simp
  then have "cstring vread t p xs = cstring vread s p xs" for p xs by (simp only: cstring_def)
  moreover have "off_screen t = off_screen s" by (simp add: fun_eq_iff off_screen_def e)
  moreover have "coherent t = coherent s" by (simp add: coherent_def video_page_def term_page_def e)
  ultimately show "program_ready h T img ds t"
    using r wf std boot_image_cong[of t s img ds, OF e(1-6)] by (simp add: program_ready_def)
  show "wrote [] s t" by (simp add: wrote_def term_view_def term_page_def e)
qed

section \<open>The error tests pass\<close>

definition closed :: "'z kernel_scheme \<Rightarrow> bool" where
  "closed s \<longleftrightarrow> (\<forall>k. 2 \<le> k \<and> k < 8 \<longrightarrow> flags (cur_fds s ! k) = 0)"

definition passed :: "string \<Rightarrow> u8 list" where
  "passed name = ascii name @ line '': PASS''"

text \<open>A test that ran as it should: it returned 0 and wrote that it passed.\<close>

definition passes :: "'z kernel_scheme host \<Rightarrow> u8 list list \<Rightarrow> u8 list \<Rightarrow> dentry list \<Rightarrow>
    ('z kernel_scheme \<Rightarrow> (i32 \<times> 'z kernel_scheme) option) \<Rightarrow> string \<Rightarrow> bool" where
  "passes h T img ds f name \<longleftrightarrow> (\<forall>s. program_ready h T img ds s \<longrightarrow> closed s \<longrightarrow>
     (\<exists>t. f s = Some (0, t) \<and> program_ready h T img ds t \<and> closed t \<and> wrote (passed name) s t))"

lemma expect_fail_step: "call s = Some (-1, s) \<Longrightarrow> expect_fail h call message (fl, s) = Some (fl, s)"
  by (simp add: expect_fail_def)

lemma verdict_passes:
  assumes "passed name \<in> set T"
    and "\<And>s. program_ready h T img ds s \<Longrightarrow> closed s \<Longrightarrow> f s = verdict h name (0, s)"
  shows "passes h T img ds f name"
  unfolding passes_def
proof (intro allI impI)
  fix s assume r: "program_ready h T img ds s" "closed s"
  obtain t where t: "say h (passed name) s = Some t" "program_ready h T img ds t" "wrote (passed name) s t" "cur_fds t = cur_fds s"
    using say_step[OF r(1) assms(1)] by blast
  with assms(2)[OF r] r(2) show "\<exists>t. f s = Some (0, t) \<and> program_ready h T img ds t \<and> closed t \<and> wrote (passed name) s t"
    by (auto simp: verdict_def passed_def closed_def)
qed

lemma bad_fd_rejected:
  assumes "sint fd < 0 \<or> 7 < sint fd"
  shows "sys_read env dent fd buf n s = Some (-1, s)" "sys_write fd buf n s = Some (-1, s)" "sys_close fd s = Some (-1, s)"
  using assms by (auto simp: sys_read_def sys_write_def sys_close_def)

lemma err_bad_fd_passes:
  assumes "passed name \<in> set T" and fd: "sint fd < 0 \<or> 7 < sint fd"
  shows "passes h T img ds (err_bad_fd h name fd buf) name"
  by (rule verdict_passes[OF assms(1)]) (simp add: err_bad_fd_def expect_fail_def bad_fd_rejected[OF fd])

lemma err_vidmap_passes:
  assumes "passed ''err_vidmap'' \<in> set T" shows "passes h T img ds (err_vidmap h) ''err_vidmap''"
  by (rule verdict_passes[OF assms]) (simp add: err_vidmap_def expect_fail_def vidmap_def)

lemma err_syscall_num_passes:
  assumes "passed ''err_syscall_num'' \<in> set T" shows "passes h T img ds (err_syscall_num h) ''err_syscall_num''"
  by (rule verdict_passes[OF assms])
    (simp add: err_syscall_num_def expect_fail_def call_sys_def do_call_def syscall_wrapper_def BIG_NUM_def NEG_NUM_def)

lemma err_stdin_out_passes:
  assumes "passed ''err_stdin_out'' \<in> set T" shows "passes h T img ds (err_stdin_out h buf) ''err_stdin_out''"
proof (rule verdict_passes[OF assms])
  fix s assume r: "program_ready h T img ds s"
  then have "files_wf s" by (simp add: program_ready_def)
  then show "err_stdin_out h buf s = verdict h ''err_stdin_out'' (0, s)"
    using sys_read_write_step[of s _ 1, OF _ refl] sys_read_write_step[of s _ 0, OF _ refl]
    by (simp add: err_stdin_out_def expect_fail_def)
qed

lemma closed_rejected:
  assumes wf: "files_wf s" and c: "closed s" and i: "2 \<le> i" "i < 8"
  shows "sys_read env dent (of_nat i) buf n s = Some (-1, s)" "sys_write (of_nat i) buf n s = Some (-1, s)"
    "sys_close (of_nat i) s = Some (-1, s)"
proof -
  have u: "unat (of_nat i :: u32) = i" using i by (simp add: unat_of_nat take_bit_nat_eq_self)
  have f: "flags (cur_fds s ! i) = 0" using c i by (simp add: closed_def)
  show "sys_read env dent (of_nat i) buf n s = Some (-1, s)" "sys_write (of_nat i) buf n s = Some (-1, s)"
    using sys_read_write_step[OF wf refl, of env dent "of_nat i" buf n, unfolded u] f by simp_all
  show "sys_close (of_nat i) s = Some (-1, s)" using sys_close_step[OF wf, of "of_nat i", unfolded u] f by simp
qed

lemma err_unopened_passes:
  assumes "passed ''err_unopened'' \<in> set T" shows "passes h T img ds (err_unopened h buf) ''err_unopened''"
proof (rule verdict_passes[OF assms])
  fix s assume r: "program_ready h T img ds s" and c: "closed s"
  then have wf: "files_wf s" by (simp add: program_ready_def)
  have loop: "for_up i n (\<lambda>i. expect_fail h (call i) m) (0, s) = Some (0, s)"
    if "\<And>k. i \<le> k \<Longrightarrow> k < i + n \<Longrightarrow> call k s = Some (-1, s)" for i n call m
    using for_up_rule[of "\<lambda>_ fs. fs = (0, s)" i "(0, s)" n "\<lambda>i. expect_fail h (call i) m"] that expect_fail_step
    by (metis (no_types, lifting))
  have std: "sys_close (of_nat k) s = Some (-1, s)" if "k < 2" for k
  proof -
    have "k = 0 \<or> k = 1" using that by auto
    then show ?thesis by (auto simp: sys_close_def)
  qed
  have "sys_close (of_nat k) s = Some (-1, s)" if "k < 8" for k
    using std[of k] closed_rejected(3)[OF wf c, of k] that by (cases "k < 2") auto
  then show "err_unopened h buf s = verdict h ''err_unopened'' (0, s)"
    unfolding err_unopened_def using closed_rejected(1,2)[OF wf c] by (simp add: loop)
qed


lemma cstring_reads: "cstring vread s p xs \<Longrightarrow> reads_string (\<lambda>j. vread s (p + j)) xs"
  using cstring_nth[of vread s p xs] cstring_end[of vread s p xs] by (auto simp: reads_string_def cstring_def)

lemma open_unknown:
  assumes r: "program_ready h T img ds s" and T: "xs \<in> set T" and d: "find (\<lambda>d. dentry_name d = xs) ds = None"
  shows "sys_open (stack_dent h) (lit h xs) s = Some (-1, s)"
proof -
  note R = r[unfolded program_ready_def]
  have "dir_image s ds" using R by (simp add: boot_image_def)
  from sys_open_cases(1)[OF _ this cstring_reads _ refl d] R T show ?thesis by blast
qed

lemma err_open_passes:
  assumes T: "passed ''err_open'' \<in> set T" "ascii ''helloo'' \<in> set T" "ascii ''shel'' \<in> set T" "[] \<in> set T"
    and d: "\<forall>xs\<in>{ascii ''helloo'', ascii ''shel'', []}. find (\<lambda>d. dentry_name d = xs) ds = None"
  shows "passes h T img ds (err_open h) ''err_open''"
proof (rule verdict_passes[OF T(1)])
  fix s assume r: "program_ready h T img ds s"
  show "err_open h s = verdict h ''err_open'' (0, s)"
    using open_unknown[OF r T(2)] open_unknown[OF r T(3)] open_unknown[OF r T(4)] d
    by (simp add: err_open_def expect_fail_def)
qed

lemma fd_change_std:
  assumes "fd_change (of_nat k) d s t" "files_wf s" "2 \<le> k" "k < 8"
  shows "cur_fds t = (cur_fds s)[k := d]" "length (cur_fds s) = 8" "\<forall>j<2. cur_fds t ! j = cur_fds s ! j"
    "files_wf t" "fd_frame s t"
proof -
  have "unat (of_nat k :: u32) = k" using assms(4) by (simp add: unat_of_nat take_bit_nat_eq_self)
  then show "cur_fds t = (cur_fds s)[k := d]" using fd_change_cur[OF assms(1)] by simp
  then show "\<forall>j<2. cur_fds t ! j = cur_fds s ! j" using assms(3) by simp
  show "length (cur_fds s) = 8" using assms(2) by (intro fds_length) (simp add: files_wf_def)
  show "files_wf t" "fd_frame s t" using assms(1) by (simp_all add: fd_change_def)
qed

text \<open>Seven times \<open>open(".")\<close>: descriptors 2 to 7 in turn, and then none is left.\<close>

lemma open_dot:
  assumes r: "program_ready h T img ds s" and T: "ascii ''.'' \<in> set T"
    and d: "find (\<lambda>d. dentry_name d = ascii ''.'') ds = Some e" "dentry_type e < 3"
    and o: "m \<le> 6" "\<forall>k. 2 \<le> k \<and> k < 8 \<longrightarrow> (flags (cur_fds s ! k) = 0 \<longleftrightarrow> 2 + m \<le> k)"
  shows "\<exists>r t. sys_open (stack_dent h) (lit h (ascii ''.'')) s = Some (r, t) \<and> (r = -1 \<longleftrightarrow> m = 6) \<and>
    program_ready h T img ds t \<and> wrote [] s t \<and>
    (\<forall>k. 2 \<le> k \<and> k < 8 \<longrightarrow> (flags (cur_fds t ! k) = 0 \<longleftrightarrow> 2 + Suc m \<le> k))"
proof -
  note R = r[unfolded program_ready_def]
  have wf: "files_wf s" and dir: "dir_image s ds" and en: "length (stack_dent h) = 64"
    and nm: "reads_string (\<lambda>j. vread s (lit h (ascii ''.'') + j)) (ascii ''.'')"
    using R T by (auto simp: boot_image_def intro: cstring_reads)
  have f: "find (\<lambda>k. flags (cur_fds s ! k) = 0) [2..<8] = (if m = 6 then None else Some (2 + m))"
  proof (cases "m = 6")
    case False
    with o have "find (\<lambda>k. flags (cur_fds s ! k) = 0) [2..<8] = Some (2 + m)"
      unfolding find_Some_iff by (intro exI[of _ m]) (simp add: nth_upt del: upt_rec_numeral)
    with False show ?thesis by simp
  qed (use o(2) in \<open>auto simp: find_None_iff simp del: upt_rec_numeral\<close>)
  show ?thesis
  proof (cases "m = 6")
    case True
    have "sys_open (stack_dent h) (lit h (ascii ''.'')) s = Some (-1, s)"
      using sys_open_cases(1)[OF wf dir nm en f d(1)] True by simp
    with True r o(2) show ?thesis by auto
  next
    case False
    with f have f': "find (\<lambda>k. flags (cur_fds s ! k) = 0) [2..<8] = Some (2 + m)" by simp
    obtain t where t: "sys_open (stack_dent h) (lit h (ascii ''.'')) s = Some (of_nat (2 + m), t)"
      "fd_change (of_nat (2 + m)) \<lparr>table_pointer = type_table (dentry_type e),
        fd_inode = type_inode (dentry_type e) (dentry_inode e), file_position = 0, flags = 1\<rparr> s t"
      using sys_open_opens[OF wf dir nm en f' d] by blast
    have m: "2 \<le> 2 + m" "2 + m < 8" using False o(1) by simp_all
    note c = fd_change_std[OF t(2) wf m]
    have "(of_nat (2 + m) :: u32) \<noteq> -1" using m(2) by (rule small_not_minus1)
    moreover have "flags (cur_fds t ! k) = 0 \<longleftrightarrow> 2 + Suc m \<le> k" if "2 \<le> k" "k < 8" for k
      using o(2) that c(1,2) by (cases "k = 2 + m") auto
    ultimately show ?thesis using t(1) False program_ready_fd[OF r c(5,4,3)] by auto
  qed
qed

lemma err_open_lots_passes:
  assumes T: "passed ''err_open_lots'' \<in> set T" "ascii ''.'' \<in> set T"
    and d: "find (\<lambda>d. dentry_name d = ascii ''.'') ds = Some e" "dentry_type e < 3"
  shows "passes h T img ds (err_open_lots h) ''err_open_lots''"
  unfolding passes_def
proof (intro allI impI)
  fix s assume r: "program_ready h T img ds s" "closed s"
  let ?I = "\<lambda>m (cnt, t). program_ready h T img ds t \<and> wrote [] s t \<and> cnt = (if m = 7 then 1 else 0 :: i32) \<and>
    (\<forall>k. 2 \<le> k \<and> k < 8 \<longrightarrow> (flags (cur_fds t ! k) = 0 \<longleftrightarrow> 2 + m \<le> k))"
  let ?body = "\<lambda>i (cnt, s). do { (r, s) \<leftarrow> ece391_open h (lit h (ascii ''.'')) s; Some (if r = -1 then cnt + 1 else cnt, s) }"
  have "\<exists>ct. for_up 0 7 ?body (0 :: i32, s) = Some ct \<and> ?I (0 + 7) ct"
  proof (rule for_up_rule)
    show "?I 0 (0, s)" using r by (simp add: closed_def)
    fix m ct assume m: "m < 0 + 7" and I: "?I m ct"
    obtain cnt t where ct: "ct = (cnt, t)" by (cases ct)
    obtain v u where "sys_open (stack_dent h) (lit h (ascii ''.'')) t = Some (v, u)" "v = -1 \<longleftrightarrow> m = 6"
      "program_ready h T img ds u" "wrote [] t u" "\<forall>k. 2 \<le> k \<and> k < 8 \<longrightarrow> (flags (cur_fds u ! k) = 0 \<longleftrightarrow> 2 + Suc m \<le> k)"
      using open_dot[of h T img ds t e m, OF _ T(2) d] I m ct by auto
    then show "\<exists>ct'. ?body m ct = Some ct' \<and> ?I (Suc m) ct'"
      using I m wrote_trans[of "[]" s t "[]" u] by (auto simp: ct)
  qed
  then obtain t where t: "for_up 0 7 ?body (0 :: i32, s) = Some (1, t)" "program_ready h T img ds t" "wrote [] s t"
    "\<forall>k. 2 \<le> k \<and> k < 8 \<longrightarrow> flags (cur_fds t ! k) \<noteq> 0" by auto
  let ?J = "\<lambda>m u. program_ready h T img ds u \<and> wrote [] s u \<and>
    (\<forall>k. 2 \<le> k \<and> k < 8 \<longrightarrow> (flags (cur_fds u ! k) = 0 \<longleftrightarrow> k < m))"
  let ?close = "\<lambda>i s. do { (_, s) \<leftarrow> ece391_close h (of_nat i) s; Some s }"
  have "\<exists>u. for_up 2 6 ?close t = Some u \<and> ?J (2 + 6) u"
  proof (rule for_up_rule)
    show "?J 2 t" using t by simp
    fix m u assume m: "2 \<le> m" "m < 2 + 6" and J: "?J m u"
    have wf: "files_wf u" using J by (simp add: program_ready_def)
    have um: "unat (of_nat m :: u32) = m" using m by (simp add: unat_of_nat take_bit_nat_eq_self)
    obtain v ino where v: "sys_close (of_nat m) u = Some (0, v)"
      "fd_change (of_nat m) \<lparr>table_pointer = NullTable, fd_inode = ino, file_position = 0, flags = 0\<rparr> u v"
      using sys_close_step[OF wf, of "of_nat m", unfolded um] J m by auto
    have m8: "m < 8" using m by simp
    note c = fd_change_std[OF v(2) wf m(1) m8]
    have "flags (cur_fds v ! k) = 0 \<longleftrightarrow> k < Suc m" if "2 \<le> k" "k < 8" for k
      using J that c(1,2) by (cases "k = m") auto
    then show "\<exists>v. ?close m u = Some v \<and> ?J (Suc m) v"
      using v(1) J program_ready_fd[OF _ c(5,4,3)] wrote_trans[of "[]" s u "[]" v] by auto
  qed
  then obtain u where u: "for_up 2 6 ?close t = Some u" "program_ready h T img ds u" "wrote [] s u" "closed u"
    by (auto simp: closed_def)
  obtain w where w: "say h (passed ''err_open_lots'') u = Some w" "program_ready h T img ds w"
    "wrote (passed ''err_open_lots'') u w" "cur_fds w = cur_fds u"
    using say_step[OF u(2) T(1)] by blast
  have p: "passed ''err_open_lots'' = line ''err_open_lots: PASS''" by (simp add: passed_def ascii_def)
  have "err_open_lots h s = Some (0, w)"
    unfolding err_open_lots_def t(1) Option.bind.simps prod.case u(1) using w(1) by (simp add: p)
  moreover have "wrote (passed ''err_open_lots'') s w" using wrote_trans[OF u(3) w(3)] by simp
  ultimately show "\<exists>t. err_open_lots h s = Some (0, t) \<and> program_ready h T img ds t \<and> closed t \<and>
      wrote (passed ''err_open_lots'') s t"
    using w u(4) by (auto simp: closed_def)
qed

text \<open>The names of the tests, and everything the program prints or opens when all pass.\<close>

definition test_names :: "string list" where
  "test_names = [''err_neg_fd'', ''err_big_fd'', ''err_open_lots'', ''err_open'', ''err_unopened'', ''err_vidmap'',
     ''err_stdin_out'', ''err_syscall_num'']"

definition syserr_texts :: "u8 list list" where
  "syserr_texts = map passed test_names @ [[10] @ line ''Overall Tests: PASS'', ascii ''.'', ascii ''helloo'', ascii ''shel'', []]"

lemma run_tests_pass:
  "list_all2 (passes h T img ds) fs names \<Longrightarrow> program_ready h T img ds s \<Longrightarrow> closed s \<Longrightarrow>
   \<exists>t. run_tests fs (0, s) = Some (0, t) \<and> program_ready h T img ds t \<and> closed t \<and> wrote (concat (map passed names)) s t"
proof (induction fs names arbitrary: s rule: list_all2_induct)
  case (Cons f fs name names)
  then obtain t where t: "f s = Some (0, t)" "program_ready h T img ds t" "closed t" "wrote (passed name) s t"
    unfolding passes_def by blast
  with Cons.IH[OF t(2,3)] wrote_trans[OF t(4)] show ?case by fastforce
qed simp

lemma err_tests_pass:
  assumes "set syserr_texts \<subseteq> set T" and "\<forall>xs\<in>{ascii ''helloo'', ascii ''shel'', []}. find (\<lambda>d. dentry_name d = xs) ds = None"
    and "find (\<lambda>d. dentry_name d = ascii ''.'') ds = Some e" "dentry_type e < 3"
  shows "list_all2 (passes h T img ds) (err_tests h buf) test_names"
proof -
  have T: "passed name \<in> set T" if "name \<in> set test_names" for name using assms(1) that by (auto simp: syserr_texts_def)
  have L: "ascii ''.'' \<in> set T" "ascii ''helloo'' \<in> set T" "ascii ''shel'' \<in> set T" "[] \<in> set T"
    using assms(1) by (auto simp: syserr_texts_def)
  have n: "passes h T img ds (err_neg_fd h buf) ''err_neg_fd''" "passes h T img ds (err_big_fd h buf) ''err_big_fd''"
    using err_bad_fd_passes[of "''err_neg_fd''" T NEG_FD h img ds buf] err_bad_fd_passes[of "''err_big_fd''" T BIG_FD h img ds buf] T
    by (simp_all add: passes_def err_neg_fd_def err_big_fd_def test_names_def NEG_FD_def BIG_FD_def)
  have m: "passes h T img ds (err_open_lots h) ''err_open_lots''" "passes h T img ds (err_open h) ''err_open''"
    using T by (intro err_open_lots_passes[OF _ L(1) assms(3,4)] err_open_passes[OF _ L(2-4) assms(2)]; simp add: test_names_def)+
  have o: "passes h T img ds (err_unopened h buf) ''err_unopened''" "passes h T img ds (err_vidmap h) ''err_vidmap''"
    "passes h T img ds (err_stdin_out h buf) ''err_stdin_out''" "passes h T img ds (err_syscall_num h) ''err_syscall_num''"
    using T by (intro err_unopened_passes err_vidmap_passes err_stdin_out_passes err_syscall_num_passes; simp add: test_names_def)+
  show ?thesis
    unfolding err_tests_def test_names_def list_all2_Cons list_all2_Nil by (intro conjI n m o refl TrueI)
qed

text \<open>
  C9: The kernel passes its own error tests.  Choice 0 of \<open>syserr\<close>, run by a process with no open
  files on a kernel whose directory has an entry \<open>.\<close> of a known type and none named \<open>helloo\<close>, \<open>shel\<close> or
  with an empty name, returns 0; it prints the eight lines that the tests passed and the overall
  verdict on the terminal of its process and nothing on the others, and leaves no file open.
\<close>

theorem syserr_passes:
  assumes r: "program_ready h T img ds s" and c: "closed s" and T: "set syserr_texts \<subseteq> set T"
    and d: "\<forall>xs\<in>{ascii ''helloo'', ascii ''shel'', []}. find (\<lambda>d. dentry_name d = xs) ds = None"
    and e: "find (\<lambda>d. dentry_name d = ascii ''.'') ds = Some e" "dentry_type e < 3"
  shows "\<exists>t. syserr_select h buf 0 s = Some (0, t) \<and> files_wf t \<and> closed t \<and>
    (\<forall>i<3. term_view t i = (if i = sched_ix s
       then fold term_putc (concat (map passed test_names) @ [10] @ line ''Overall Tests: PASS'') (term_view s i)
       else term_view s i))"
proof -
  obtain t where t: "run_tests (err_tests h buf) (0, s) = Some (0, t)" "program_ready h T img ds t" "closed t"
    "wrote (concat (map passed test_names)) s t"
    using run_tests_pass[OF err_tests_pass[OF T d e] r c] by blast
  let ?o = "[10] @ line ''Overall Tests: PASS''"
  have "?o \<in> set T" using T by (auto simp: syserr_texts_def)
  from say_step[OF t(2) this] obtain u where u: "say h ?o t = Some u" "program_ready h T img ds u" "wrote ?o t u" "cur_fds u = cur_fds t"
    by blast
  have "syserr_select h buf 0 s = Some (0, u)" using t(1) u(1) by (simp add: syserr_select_def)
  moreover have "closed u" using t(3) u(4) by (simp add: closed_def)
  ultimately show ?thesis using u(2) wrote_trans[OF t(4) u(3)] by (auto simp: program_ready_def wrote_def)
qed
end
