(* ===== verification/Tools.thy ===== *)
theory Tools
  imports Userland
begin

text \<open>
  Programs that read: a buffer in user memory (\<open>user_buffer\<close>), \<open>cat\<close> with the whole way from its
  arguments over \<open>open\<close> and the block reads to the terminal, and \<open>ls\<close> with the directory.
\<close>

section \<open>A buffer in user memory\<close>

definition user_buffer :: "'z machine_scheme \<Rightarrow> u32 \<Rightarrow> nat \<Rightarrow> bool" where
  "user_buffer s buf n \<longleftrightarrow> buf \<noteq> 0 \<and> n < 2 ^ 31 \<and> inj_cells translate s buf n \<and>
     (\<forall>j<n. \<exists>c. translate s (buf + of_nat j) = Some c \<and> 0x800000 \<le> unat c)"

lemma user_not_video: "0x800000 \<le> unat c \<Longrightarrow> \<not> video_area c"
proof -
  assume "0x800000 \<le> unat c"
  then have "0x800000 div 0x1000 \<le> unat c div 0x1000" by (rule div_le_mono)
  then show ?thesis by (simp add: video_area_def)
qed

lemma user_buffer_off_screen: "user_buffer s buf n \<Longrightarrow> off_screen s buf n"
  unfolding user_buffer_def off_screen_def using user_not_video by blast

lemma user_buffer_mono: "user_buffer s buf n \<Longrightarrow> m \<le> n \<Longrightarrow> user_buffer s buf m"
  by (auto simp: user_buffer_def inj_cells_def)

lemma user_buffer_cong: "translate t = translate s \<Longrightarrow> user_buffer t buf n = user_buffer s buf n"
  by (simp add: user_buffer_def inj_cells_def)

lemma user_buffer_cells: "user_buffer s buf n \<Longrightarrow> c \<in> cells translate s buf n \<Longrightarrow> 0x800000 \<le> unat c"
  by (auto simp: user_buffer_def cells_def)

lemma user_store_low:
  assumes "user_buffer s buf (length bs)" "store_bytes vwrite s buf bs = Some t" "unat p < 0x800000"
  shows "phys t p = phys s p"
  using vm.store_cell_other[OF assms(2), of p] user_buffer_cells[OF assms(1), of p] assms(3) by fastforce

lemma user_buffer_image:
  assumes wf: "paging_wf s" and im: "boot_image s img ds" and ub: "user_buffer s buf n"
  shows "vm_image_ok (FILEMEM s) img buf n s"
proof -
  note I = im[unfolded boot_image_def fs_image_def]
  have "unat c < 0x800000" if c: "c \<in> cells translate s (FILEMEM s) (length img)" for c
  proof -
    obtain j where j: "j < length img" "translate s (FILEMEM s + of_nat j) = Some c" using c by (auto simp: cells_def)
    have k: "unat (FILEMEM s + of_nat j) = unat (FILEMEM s) + j" "unat (FILEMEM s + of_nat j) div 0x400000 = 1"
      using kernel_range[of "FILEMEM s" "length img" j] I j(1) by simp_all
    then have "c = FILEMEM s + of_nat j" using translate_kernel[OF wf k(2)] j(2) by simp
    then show ?thesis using k(1) j(1) I by simp
  qed
  then have "cells translate s buf n \<inter> cells translate s (FILEMEM s) (length img) = {}"
    using user_buffer_cells[OF ub] by fastforce
  moreover have "length img < 2 ^ 32" using I by (simp add: image_ok_def)
  ultimately show ?thesis using I by (simp add: vm_image_ok_def)
qed

lemma view_stored:
  assumes "schedule_index t = schedule_index s" "visible_screen t = visible_screen s" "screen_x t = screen_x s"
    "screen_y t = screen_y s" "\<And>p. unat p < 0x800000 \<Longrightarrow> phys t p = phys s p"
  shows "wrote [] s t"
proof -
  have "phys t (pg (term_page s i) k) = phys s (pg (term_page s i) k)" if "k < 4000" "i < 3" for k i
  proof (rule assms(5))
    have "video_area (pg (term_page s i) k)"

    proof (rule screen_page_number(2))
      have "i = 0 \<or> i = 1 \<or> i = 2" using that(2) by auto
      then show "term_page s i \<in> screen_pages" by (elim disjE) (simp_all add: term_page_def screen_pages_def VIDEO_def buffer_page_def)
    qed (use that in simp)
    then show "unat (pg (term_page s i) k) < 0x800000" using user_not_video not_less by blast
  qed
  then show ?thesis by (simp add: wrote_def term_view_def term_page_def assms(1-4))
qed

lemma program_ready_stored:
  assumes r: "program_ready h T img ds s" and fr: "fd_frame (s\<lparr>phys := m\<rparr>) t" and wf: "files_wf t"
    and m: "\<forall>p. unat p < 0x800000 \<longrightarrow> m p = phys s p" and std: "\<forall>k<2. cur_fds t ! k = cur_fds s ! k"
  shows "program_ready h [] img ds t" "wrote [] s t"
proof -
  have e: "phys t = m" "FILEMEM t = FILEMEM s" "fs_entries t = fs_entries s"
    "fs_inodes t = fs_inodes s" "fs_dblocks t = fs_dblocks s" "pte t = pte s" "visible_screen t = visible_screen s"
    "schedule_index t = schedule_index s" "screen_x t = screen_x s" "screen_y t = screen_y s"
    using fr by (simp_all add: fd_frame_def)
  have p: "paging_wf s" "paging_wf t" using r wf by (simp_all add: program_ready_def files_paging)
  have "phys t p = phys s p" if "unat p div 0x400000 = 1" for p
  proof -
    have "unat p < 0x800000" 
    proof (rule ccontr)
      assume "\<not> unat p < 0x800000"
      then have "0x800000 div 0x400000 \<le> unat p div 0x400000" by (intro div_le_mono) simp
      with that show False by simp
    qed
    then show ?thesis using m e(1) by simp
  qed
  then have "boot_image t img ds"
    using boot_image_transfer[OF _ p e(2,4,5,3)] r by (simp add: program_ready_def)
  moreover have "coherent t = coherent s" by (simp add: coherent_def video_page_def term_page_def e)
  ultimately show "program_ready h [] img ds t" using r wf std by (simp add: program_ready_def)
  show "wrote [] s t" by (rule view_stored) (use m e in simp_all)
qed

section \<open>cat prints the file\<close>

definition cat_session :: "u8 list \<Rightarrow> u32 \<Rightarrow> u32 \<Rightarrow> u32 \<Rightarrow> file_session" where
  "cat_session img buf fd ino = \<lparr>f_img = img, f_buf = buf, f_max = 1024, f_fd = fd, f_inode = ino\<rparr>"

definition catting :: "'z kernel_scheme host \<Rightarrow> u8 list \<Rightarrow> dentry list \<Rightarrow> u32 \<Rightarrow> u32 \<Rightarrow> u32 \<Rightarrow> nat \<Rightarrow> 'z kernel_scheme \<Rightarrow> bool" where
  "catting h img ds buf fd ino pos s \<longleftrightarrow> program_ready h [] img ds s \<and> user_buffer s buf 1024 \<and>
     reading (cat_session img buf fd ino) pos s"

lemma file_blocks_length:
  assumes "image_ok g img" "file_ok g img ino"
  shows "length (file_blocks g img ino) = 4096 * ((unat (img_length img ino) + 4095) div 4096)"
  using concat_blocks_length[of 0 "(unat (img_length img ino) + 4095) div 4096" "img_data g img ino"]
    img_data_length[OF assms(1)] assms(2) by (simp add: file_blocks_def file_ok_def)

lemma aligned_read:
  fixes fl pos :: nat
  assumes "0 < fl" "b = 4096 * ((fl - 1) div 4096 + 1)" "pos = 1024 * q" "pos < b"
  shows "pos mod 4096 + 1024 \<le> 4096" "pos + 1024 \<le> b" "pos div 4096 \<le> (fl - 1) div 4096"
    "fl < pos + 1024 \<Longrightarrow> pos div 4096 = (fl - 1) div 4096"
proof -
  obtain a r where a: "q = 4 * a + r" "r < 4" by (metis mod_less_divisor mult_div_mod_eq zero_less_numeral)
  have p: "pos = 4096 * a + 1024 * r" by (simp add: assms(3) a(1))
  have d: "pos div 4096 = a" "pos mod 4096 = 1024 * r" using a(2) unfolding p by simp_all
  obtain e t where e: "fl - 1 = 4096 * e + t" "t < 4096" "(fl - 1) div 4096 = e" by (rule block_split)
  have b: "b = 4096 * e + 4096" using assms(2) unfolding e(3) by simp
  have ae: "a \<le> e" using assms(4) unfolding p b by simp
  show "pos mod 4096 + 1024 \<le> 4096" using a(2) d(2) by simp
  show "pos + 1024 \<le> b" using ae a(2) unfolding p b by simp
  show "pos div 4096 \<le> (fl - 1) div 4096" using ae unfolding e(3) d(1) .
  show "pos div 4096 = (fl - 1) div 4096" if "fl < pos + 1024"
    using that assms(1) e(1,2) a(2) ae unfolding e(3) d(1) p by simp
qed

lemma catting_step:
  assumes c: "catting h img ds buf fd ino pos s" and B: "B = file_blocks (geometry_of s) img (unat ino)"
    and fl: "0 < unat (img_length img (unat ino))" and pos: "1024 dvd pos" "pos < length B"
  shows "\<exists>t u. sys_read (polls h) (stack_dent h) fd buf 1024 s = Some (1024, t) \<and> sys_write 1 buf 1024 t = Some (1024, u) \<and>
    catting h img ds buf fd ino (pos + 1024) u \<and> wrote (take 1024 (drop pos B)) s u \<and> geometry_of u = geometry_of s"
proof -
  let ?f = "cat_session img buf fd ino" and ?bs = "take 1024 (drop pos B)" and ?fl = "unat (img_length img (unat ino))"
  have r: "program_ready h [] img ds s" "user_buffer s buf 1024" and rd: "reading ?f pos s"
    using c by (simp_all add: catting_def)
  have f: "image_ok (geometry_of s) img" "file_ok (geometry_of s) img (unat ino)" and fd: "2 \<le> unat fd" "unat fd < 8"
    using rd by (simp_all add: reading_def cat_session_def)
  have im: "vm_image_ok (FILEMEM s) img buf 1024 s" using reading_image[OF rd, of 1024] by (simp add: cat_session_def)
  have K: "(?fl + 4095) div 4096 = (?fl - 1) div 4096 + 1" using fl div_add_self2[of 4096 "?fl - 1"] by simp
  have lB: "length B = 4096 * ((?fl - 1) div 4096 + 1)" using file_blocks_length[OF f] by (simp add: B K)
  obtain q where q: "pos = 1024 * q" using pos(1) by (rule dvdE)
  have blk: "pos mod 4096 + 1024 \<le> 4096" and room: "pos + 1024 \<le> length B"
    "pos div 4096 \<le> (?fl - 1) div 4096" "?fl < pos + 1024 \<Longrightarrow> pos div 4096 = (?fl - 1) div 4096"
    using aligned_read[OF fl lB q pos(2)] by blast+
  have l: "length ?bs = unat (1024 :: i32)" using room(1) by simp
  have "read_data s vread vwrite (of_nat (unat ino)) (of_nat pos) buf (of_nat 1024) s =
      do { s' \<leftarrow> store_bytes vwrite s buf ?bs; Some (of_nat 1024, s') }"
    unfolding B by (rule vmimg.read_data_in_block[OF refl refl f fl im _ blk _ room(2,3)]) simp_all
  then obtain t m where t: "sys_read (polls h) (stack_dent h) fd buf 1024 s = Some (1024, t)" "reading ?f (pos + 1024) t"
    "load_bytes vread t buf 1024 = Some ?bs" "\<forall>j<8. j \<noteq> unat fd \<longrightarrow> cur_fds t ! j = cur_fds s ! j"
    "store_bytes vwrite s buf ?bs = Some (s\<lparr>phys := m\<rparr>)" "fd_frame (s\<lparr>phys := m\<rparr>) t"
    using sys_read_bytes[OF rd _ _ l, of "polls h" "stack_dent h"] by (auto simp: cat_session_def)
  have e: "translate t = translate s" "geometry_of t = geometry_of s" using t(6) by (simp_all add: fd_frame_def geometry_of_def)
  have m: "\<forall>p. unat p < 0x800000 \<longrightarrow> m p = phys s p" using user_store_low[OF _ t(5)] r(2) l by auto
  have wf: "files_wf t" using t(2) by (simp add: reading_def)
  have "\<forall>k<2. cur_fds t ! k = cur_fds s ! k" using t(4) fd by auto
  note rt = program_ready_stored[OF r(1) t(6) wf m this]
  have ub: "user_buffer t buf 1024" using r(2) user_buffer_cong[OF e(1)] by simp
  obtain u where u: "sys_write 1 buf 1024 t = Some (1024, u)" "program_ready h [] img ds u" "wrote ?bs t u" "prints t u"
    "cur_fds u = cur_fds t"
    using write_stdout[OF rt(1), of buf ?bs] t(3) l user_buffer_off_screen[OF ub] by auto
  have eu: "translate u = translate t" "geometry_of u = geometry_of t" "FILEMEM u = FILEMEM t"
    using u(4) by (auto simp: prints_fields geometry_of_def prints_def)
  have ubu: "user_buffer u buf 1024" using ub user_buffer_cong[OF eu(1)] by simp
  have wu: "files_wf u" "boot_image u img ds" using u(2) by (simp_all add: program_ready_def)
  have "reading ?f (pos + 1024) u"
    using t(2) wu user_buffer_image[OF files_paging[OF wu(1)] wu(2) ubu] u(5) eu
    by (simp add: reading_def cat_session_def inj_cells_def)
  then have "catting h img ds buf fd ino (pos + 1024) u" using u(2) ubu by (simp add: catting_def)
  with t(1) u(1) wrote_trans[OF rt(2) u(3)] eu(2) e(2) show ?thesis by auto
qed


lemma catting_end:
  assumes c: "catting h img ds buf fd ino pos s" and fl: "0 < unat (img_length img (unat ino))"
    "unat (img_length img (unat ino)) \<le> 4096 * 1022"
    and pos: "pos = length (file_blocks (geometry_of s) img (unat ino))"
  shows "\<exists>t. sys_read (polls h) (stack_dent h) fd buf 1024 s = Some (0, t) \<and> wrote [] s t"
proof -
  let ?f = "cat_session img buf fd ino"
  have rd: "reading ?f pos s" using c by (simp add: catting_def)
  note R = rd[unfolded reading_def cat_session_def, simplified]
  have im: "vm_image_ok (FILEMEM s) img buf 1024 s" using reading_image[OF rd, of 1024] by (simp add: cat_session_def)
  have p: "pos = 4096 * ((unat (img_length img (unat ino)) + 4095) div 4096)" using pos file_blocks_length R by blast
  have z: "read_data s vread vwrite (of_nat (unat ino)) (of_nat pos) buf (of_nat 1024) s = Some (0, s)"
    by (rule vmimg.read_data_at_end[OF refl refl _ _ fl(1) im p fl(2)]) (use R in simp_all)
  have fv: "fd_valid (cur_fds s ! unat fd)" using R by (simp add: fd_valid_def)
  obtain t where t: "upd_fd fd (\<lambda>d. d\<lparr>file_position := file_position d + 0\<rparr>) s = Some t" "fd_frame s t"
    using upd_fd_change[of s fd "\<lambda>d. d\<lparr>file_position := file_position d + 0\<rparr>"] R fv by (auto simp: fd_change_def)
  have "sys_read (polls h) (stack_dent h) fd buf 1024 s = Some (0, t)"
    using sys_read_write_step[of s _ fd, OF _ refl, of "polls h" "stack_dent h" buf 1024] R z t(1) files_get[of s fd]
    by (auto simp: file_read_def)
  moreover have "wrote [] s t" using t(2) by (intro view_stored) (simp_all add: fd_frame_def)
  ultimately show ?thesis by blast
qed

lemma cat_loop_prints:
  "catting h img ds buf fd ino pos s \<Longrightarrow> B = file_blocks (geometry_of s) img (unat ino) \<Longrightarrow>
   0 < unat (img_length img (unat ino)) \<Longrightarrow> unat (img_length img (unat ino)) \<le> 4096 * 1022 \<Longrightarrow>
   pos + 1024 * n = length B \<Longrightarrow> 1024 dvd pos \<Longrightarrow>
   \<exists>t. cat_loop h buf fd s = Some (0, t) \<and> wrote (drop pos B) s t"
proof (induction n arbitrary: pos s)
  case 0
  then have "pos = length (file_blocks (geometry_of s) img (unat ino))" by simp
  from catting_end[OF 0(1,3,4) this] obtain t where "sys_read (polls h) (stack_dent h) fd buf 1024 s = Some (0, t)" "wrote [] s t"
    by blast
  with 0(5) show ?case by (subst cat_loop.simps) simp
next
  case (Suc n)
  then obtain t u where t: "sys_read (polls h) (stack_dent h) fd buf 1024 s = Some (1024, t)" "sys_write 1 buf 1024 t = Some (1024, u)"
    "catting h img ds buf fd ino (pos + 1024) u" "wrote (take 1024 (drop pos B)) s u" "geometry_of u = geometry_of s"
    using catting_step[OF Suc.prems(1,2,3,6)] by auto
  obtain v where v: "cat_loop h buf fd u = Some (0, v)" "wrote (drop (pos + 1024) B) u v"
    using Suc.IH[OF t(3) _ Suc.prems(3,4)] Suc.prems(2,5,6) t(5) by auto
  have "drop pos B = take 1024 (drop pos B) @ drop (pos + 1024) B"
    by (metis append_take_drop_id drop_drop add.commute)
  then have "wrote (drop pos B) s v" using wrote_trans[OF t(4) v(2)] by simp
  then show ?case using t(1,2) v(1) by (subst cat_loop.simps) simp
qed

lemma term_putc_padding: "fold term_putc (xs @ replicate n 0) = fold term_putc xs"
  by (induction n) (auto simp: fun_eq_iff term_putc_def replicate_append_same[symmetric])

lemma args_retrieved:
  fixes s :: "'z kernel_scheme" and a m
  defines "t \<equiv> s\<lparr>arg_retrieved := a, phys := m\<rparr>"
  shows "translate (s\<lparr>arg_retrieved := a\<rparr>) = translate s" "translate t = translate s" "geometry_of t = geometry_of s"
    "files_wf t = files_wf s" "fds_at t = fds_at s" "fd_frame (s\<lparr>phys := m\<rparr>) t"
proof -
  show tr: "translate (s\<lparr>arg_retrieved := a\<rparr>) = translate s" "translate t = translate s"
    unfolding t_def by (rule translate_cong; simp)+
  show f: "fds_at t = fds_at s" unfolding t_def by (rule fds_at_cong) simp_all
  have "console_wf t = console_wf s" unfolding t_def by (intro console_wf_cong paging_wf_cong) simp_all
  then have "procs_wf t = procs_wf s" by (simp add: procs_wf_def t_def)
  then show "files_wf t = files_wf s" using f by (intro files_wf_cong) (simp_all add: t_def)
  show "geometry_of t = geometry_of s" by (simp add: t_def geometry_of_def)
  show "fd_frame (s\<lparr>phys := m\<rparr>) t" using tr(2) by (simp add: t_def fd_frame_def)
qed

lemma arg_text_bound:
  assumes "0 \<notin> set cs" "length cs < 1024"
  shows "0 \<notin> set (arg_text cs)" "length (arg_text cs) < 1024"
proof -
  obtain ys where "cs = ys @ arg_text cs" using arg_split[of cs] by (metis append_assoc)
  then have "set (arg_text cs) \<subseteq> set cs" "length (arg_text cs) \<le> length cs"
    by (metis set_append sup_ge2, metis length_append le_add2)
  with assms show "0 \<notin> set (arg_text cs)" "length (arg_text cs) < 1024" by auto
qed

lemma name_at_buffer:
  assumes ld: "load_bytes vread t buf (length (xs @ replicate (1024 - length xs) 0)) = Some (xs @ replicate (1024 - length xs) 0)"
    and xs: "0 \<notin> set xs" "length xs < 1024"
  shows "reads_string (\<lambda>j. vread t (buf + j)) xs"
proof -
  have "vread t (buf + of_nat k) = Some ((xs @ [0]) ! k)" if "k \<le> length xs" for k
    using load_bytes_nth[OF ld, of k] that xs(2) by (auto simp: nth_append)
  then have "load_bytes vread t buf (Suc (length xs)) = Some (xs @ [0])" by (intro load_bytes_SomeI) simp_all
  then have "cstring vread t buf xs" using xs(1) by (simp only: cstring_def simp_thms)
  then show ?thesis by (rule cstring_reads)
qed

lemma wrote_padding: "wrote (xs @ replicate n 0) s t = wrote xs s t"
  by (simp only: wrote_def term_putc_padding)

text \<open>\<open>getargs\<close> puts the name into the buffer, and \<open>open\<close> finds the file.\<close>

lemma getargs_loads:
  assumes r: "program_ready h T img ds s" and ub: "user_buffer s buf 1024"
    and a: "user_buf (pcbs s (get_pcb (cur_pid (process_array s ! sched_ix s)))) = cs @ replicate (1024 - length cs) 0"
      "0 \<notin> set cs" "length cs < 1024" and ne: "arg_text cs \<noteq> []"
  shows "\<exists>t. getargs buf 1024 s = Some (0, t) \<and> program_ready h [] img ds t \<and> wrote [] s t \<and> user_buffer t buf 1024 \<and>
    reads_string (\<lambda>j. vread t (buf + j)) (arg_text cs) \<and> cur_fds t = cur_fds s \<and> geometry_of t = geometry_of s"
proof -
  let ?xs = "arg_text cs"
  let ?bs = "?xs @ replicate (1024 - length ?xs) 0"
  let ?s1 = "s\<lparr>arg_retrieved := ?bs\<rparr>"
  note R = r[unfolded program_ready_def]
  have l: "0 \<notin> set ?xs" "length ?xs < 1024" using arg_text_bound[OF a(2,3)] .
  have ub1: "user_buffer ?s1 buf (length ?bs)"
  proof -
    have "length ?bs = 1024" using l(2) by simp
    then show ?thesis using ub user_buffer_cong[OF args_retrieved(1)[of ?bs s], of buf 1024] by (simp only: simp_thms)
  qed
  obtain t where t: "store_bytes vwrite ?s1 buf ?bs = Some t"
    using vm.store_Some_iff[of ?s1 buf ?bs] ub1 by (fastforce simp: user_buffer_def)
  obtain m where m: "t = ?s1\<lparr>phys := m\<rparr>" using store_frame[OF t] by blast
  have "buf \<noteq> 0" using ub by (simp add: user_buffer_def)
  then have ga: "getargs buf 1024 s = Some (0, t)"
    using getargs_step[OF _ refl a, of buf 1024] R t ne l(2) by simp
  note am = args_retrieved(2-6)[where s = s and a = ?bs and m = m, folded m]
  have ct: "cur_fds t = cur_fds s" using am(4) by (simp add: m)
  have low: "\<forall>p. unat p < 0x800000 \<longrightarrow> m p = phys s p" using user_store_low[OF ub1 t] by (simp add: m)
  have std: "\<forall>k<2. cur_fds t ! k = cur_fds s ! k" "files_wf t" using ct R am(3) by simp_all
  have "load_bytes vread t buf (length ?bs) = Some ?bs"
    by (rule vm.store_load_same[OF t]) (use ub1 in \<open>simp add: user_buffer_def inj_cells_def\<close>)
  then have "reads_string (\<lambda>j. vread t (buf + j)) ?xs" using name_at_buffer[OF _ l] by blast
  then show ?thesis
    using ga program_ready_stored[OF r am(5) std(2) low std(1)] ub user_buffer_cong[OF am(1)] am(2) ct by blast
qed

lemma cat_opens:
  assumes r: "program_ready h [] img ds t" and ub: "user_buffer t buf 1024"
    and nm: "reads_string (\<lambda>j. vread t (buf + j)) xs"
    and e: "find (\<lambda>d. dentry_name d = xs) ds = Some e" "dentry_type e = 2"
    and k: "find (\<lambda>k. flags (cur_fds t ! k) = 0) [2..<8] = Some k"
    and f: "file_ok (geometry_of t) img (unat (dentry_inode e))"
  shows "\<exists>u. sys_open (stack_dent h) buf t = Some (of_nat k, u) \<and> (of_nat k :: i32) \<noteq> -1 \<and> wrote [] t u \<and>
    catting h img ds buf (of_nat k) (dentry_inode e) 0 u \<and> geometry_of u = geometry_of t"
proof -
  have T: "files_wf t" "dir_image t ds" "length (stack_dent h) = 64" using r by (simp_all add: program_ready_def boot_image_def)
  obtain u where u: "sys_open (stack_dent h) buf t = Some (of_nat k, u)"
    "fd_change (of_nat k) \<lparr>table_pointer = FileTable, fd_inode = dentry_inode e, file_position = 0, flags = 1\<rparr> t u"
    using sys_open_opens[OF T(1,2) nm T(3) k e(1)] e(2) by (auto simp: type_table_def type_inode_def)
  have k8: "2 \<le> k" "k < 8" using sys_open_cases(2)[OF T(1,2) nm T(3) k e(1) refl refl] by blast+
  have uk: "unat (of_nat k :: u32) = k" using k8 by (simp add: unat_of_nat take_bit_nat_eq_self)
  note c = fd_change_std[OF u(2) T(1) k8]
  note ru = program_ready_fd[OF r c(5,4,3)]
  have eu: "translate u = translate t" "geometry_of u = geometry_of t" "FILEMEM u = FILEMEM t"
    using c(5) by (simp_all add: fd_frame_def geometry_of_def)
  have ubu: "user_buffer u buf 1024" using ub user_buffer_cong[OF eu(1)] by simp
  have bu: "boot_image u img ds" "image_ok (geometry_of u) img" using ru(1) by (simp_all add: program_ready_def boot_image_def fs_image_def)
  have "reading (cat_session img buf (of_nat k) (dentry_inode e)) 0 u"
    using user_buffer_image[OF files_paging[OF c(4)] bu(1) ubu] bu(2) ubu c(1,2,4) k8 f uk
    by (auto simp: reading_def cat_session_def user_buffer_def eu)
  then show ?thesis using u(1) ru ubu eu(2) small_not_minus1[OF k8(2)] by (simp add: catting_def)
qed

text \<open>
  C4: \<open>cat\<close> prints a file.  For a process whose command line names a nonempty regular file, with a free
  descriptor and a buffer of 1024 bytes in user memory, \<open>cat\<close> returns 0 after it has printed
  exactly the contents of the file on the terminal of its process and nothing on the others.  It
  reads whole blocks, past the end of the file; what follows the end in the last block has to be
  NUL bytes, which the terminal ignores.
\<close>

theorem cat_prints:
  assumes r: "program_ready h T img ds s" and ub: "user_buffer s buf 1024"
    and a: "user_buf (pcbs s (get_pcb (cur_pid (process_array s ! sched_ix s)))) = cs @ replicate (1024 - length cs) 0"
      "0 \<notin> set cs" "length cs < 1024"
    and e: "find (\<lambda>d. dentry_name d = arg_text cs) ds = Some e" "arg_text cs \<noteq> []" "dentry_type e = 2"
    and k: "find (\<lambda>k. flags (cur_fds s ! k) = 0) [2..<8] = Some k"
    and f: "file_ok (geometry_of s) img (unat (dentry_inode e))" "0 < unat (img_length img (unat (dentry_inode e)))"
      "unat (img_length img (unat (dentry_inode e))) \<le> 4096 * 1022"
    and pad: "file_blocks (geometry_of s) img (unat (dentry_inode e)) =
      file_contents (geometry_of s) img (unat (dentry_inode e)) @ replicate p 0"
  shows "\<exists>t. cat_main h buf s = Some (0, t) \<and> wrote (file_contents (geometry_of s) img (unat (dentry_inode e))) s t"
proof -
  let ?ino = "unat (dentry_inode e)" and ?B = "file_blocks (geometry_of s) img (unat (dentry_inode e))"
  obtain t where t: "getargs buf 1024 s = Some (0, t)" "program_ready h [] img ds t" "wrote [] s t" "user_buffer t buf 1024"
    "reads_string (\<lambda>j. vread t (buf + j)) (arg_text cs)" "cur_fds t = cur_fds s" "geometry_of t = geometry_of s"
    using getargs_loads[OF r ub a e(2)] by blast
  obtain u where u: "sys_open (stack_dent h) buf t = Some (of_nat k, u)" "(of_nat k :: i32) \<noteq> -1" "wrote [] t u"
    "catting h img ds buf (of_nat k) (dentry_inode e) 0 u" "geometry_of u = geometry_of s"
    using cat_opens[OF t(2,4,5) e(1,3), of k] k f(1) t(6,7) by auto
  have "image_ok (geometry_of s) img" using r by (simp add: program_ready_def boot_image_def fs_image_def)
  then have "0 + 1024 * (4 * ((unat (img_length img ?ino) + 4095) div 4096)) = length ?B"
    using file_blocks_length f(1) by fastforce
  then obtain v where v: "cat_loop h buf (of_nat k) u = Some (0, v)" "wrote (drop 0 ?B) u v"
    using cat_loop_prints[OF u(4) _ f(2,3)] u(5) by (metis dvd_0_right)
  have "wrote (file_contents (geometry_of s) img ?ino) u v" using v(2) unfolding pad drop_0 wrote_padding .
  then have "wrote (file_contents (geometry_of s) img ?ino) s v" using wrote_trans[OF t(3) wrote_trans[OF u(3)]] by simp
  moreover have "cat_main h buf s = Some (0, v)" using t(1) u(1,2) v(1) by (simp add: cat_main_def)
  ultimately show ?thesis by blast
qed


section \<open>ls lists the directory\<close>

definition listing :: "'z kernel_scheme host \<Rightarrow> u8 list \<Rightarrow> dentry list \<Rightarrow> u32 \<Rightarrow> u32 \<Rightarrow> nat \<Rightarrow> 'z kernel_scheme \<Rightarrow> bool" where
  "listing h img ds buf fd pos s \<longleftrightarrow> program_ready h [] img ds s \<and> user_buffer s buf 33 \<and> 2 \<le> unat fd \<and> unat fd < 8 \<and>
     (\<exists>ino. cur_fds s ! unat fd = \<lparr>table_pointer = DirTable, fd_inode = ino, file_position = of_nat pos, flags = 1\<rparr>)"

text \<open>A single byte of the buffer replaced.\<close>

lemma user_poke:
  assumes r: "program_ready h [] img ds t" and ub: "user_buffer t buf n" and k: "k < n"
    and ld: "load_bytes vread t buf n = Some bs"
  shows "\<exists>u. vwrite t (buf + of_nat k) b = Some u \<and> program_ready h [] img ds u \<and> wrote [] t u \<and> cur_fds u = cur_fds t \<and>
    user_buffer u buf n \<and> load_bytes vread u buf n = Some (bs[k := b])"
proof -
  obtain c where c: "translate t (buf + of_nat k) = Some c" "0x800000 \<le> unat c" using ub k by (auto simp: user_buffer_def)
  let ?u = "t\<lparr>phys := (phys t)(c := b)\<rparr>"
  have w: "vwrite t (buf + of_nat k) b = Some ?u" using c(1) by (simp add: vwrite_def)
  have tr: "translate ?u = translate t" by simp
  have "files_wf ?u" using r by (simp add: files_wf_phys program_ready_def)
  then have p: "program_ready h [] img ds ?u" "wrote [] t ?u"
    using program_ready_stored[OF r fd_frame_refl, of "(phys t)(c := b)"] c(2) by auto
  have l: "length bs = n" using load_bytes_length[OF ld] .
  have "vread ?u (buf + of_nat j) = Some (bs[k := b] ! j)" if "j < n" for j
  proof -
    obtain d where d: "translate t (buf + of_nat j) = Some d" using ub \<open>j < n\<close> by (auto simp: user_buffer_def)
    moreover have "phys t d = bs ! j" using load_bytes_nth[OF ld that] d by (simp add: vread_def)
    moreover have "d \<noteq> c" if "j \<noteq> k"
      using ub \<open>j < n\<close> k that c(1) d unfolding user_buffer_def inj_cells_def by metis
    ultimately show ?thesis using l k c(1) by (cases "j = k") (auto simp: vread_def)
  qed
  then have "load_bytes vread ?u buf n = Some (bs[k := b])" by (intro load_bytes_SomeI) (simp_all add: l)
  then show ?thesis using w p user_buffer_cong[OF tr] ub by (intro exI[of _ ?u]) simp
qed

lemma directory_step:
  assumes c: "listing h img ds buf fd pos s" and pos: "pos < length ds"
  shows "\<exists>t. sys_read (polls h) (stack_dent h) fd buf 32 s = Some (of_nat (length (dentry_name (ds ! pos))), t) \<and>
    listing h img ds buf fd (pos + 1) t \<and> wrote [] s t \<and> load_bytes vread t buf 33 = Some (take 32 (ds ! pos) @ [0])"
proof -
  let ?e = "ds ! pos" and ?bs = "take 32 (ds ! pos) @ [0]" and ?g = "\<lambda>d. d\<lparr>file_position := file_position d + 1\<rparr>"
  note L = c[unfolded listing_def program_ready_def boot_image_def]
  have r: "program_ready h [] img ds s" and ub: "user_buffer s buf 33" using c by (simp_all add: listing_def)
  have wf: "files_wf s" "procs_wf s" using L by (simp_all add: files_wf_def)
  obtain ino where d: "cur_fds s ! unat fd = \<lparr>table_pointer = DirTable, fd_inode = ino, file_position = of_nat pos, flags = 1\<rparr>"
    using L by blast
  have "length ds \<le> 63" using L by blast
  then have p: "pos = unat (file_position (cur_fds s ! unat fd))" using pos by (simp add: d unat_of_nat take_bit_nat_eq_self)
  have le: "length ?e = 64" using L pos load_bytes_length[of vread s _ 64 ?e] by (auto simp: dir_image_def)
  then have lb: "length ?bs = 33" by simp
  have ne: "ds \<noteq> []" using pos by auto
  have mp: "\<forall>k<33. translate s (buf + of_nat k) \<noteq> None" "inj_cells translate s buf 33" using ub by (auto simp: user_buffer_def)
  obtain t where t: "store_bytes vwrite s buf ?bs = Some t" using vm.store_Some_iff[of s buf ?bs] mp lb by auto
  obtain m where m: "t = s\<lparr>phys := m\<rparr>" using store_frame[OF t] by blast
  have ct: "cur_fds t = cur_fds s" "files_wf t" using wf by (simp_all add: m files_wf_phys)
  obtain u where u: "upd_fd fd ?g t = Some u" "fd_change fd (?g (cur_fds t ! unat fd)) t u"
    using upd_fd_change[of t fd ?g] L ct by (auto simp: d fd_valid_def)
  have "directory_read (stack_dent h) fd buf 32 s = Some (of_nat (length (dentry_name ?e)), u)"
    using directory_read_run[OF wf(2) _ _ p _ ne _ mp, of "stack_dent h" 32] L pos t u(1) by auto
  then have sr: "sys_read (polls h) (stack_dent h) fd buf 32 s = Some (of_nat (length (dentry_name ?e)), u)"
    using sys_read_write_step[OF wf(1) refl, of "polls h" "stack_dent h" fd buf 32] L
    by (auto simp: d user_buffer_def)
  have cu: "cur_fds u = (cur_fds s)[unat fd := ?g (cur_fds s ! unat fd)]" using fd_change_cur[OF u(2)] by (simp only: ct(1))
  have lc: "length (cur_fds s) = 8" using wf(2) by (rule fds_length)
  have fr: "fd_frame (s\<lparr>phys := m\<rparr>) u" "files_wf u" using u(2) by (simp_all add: fd_change_def m)
  have low: "\<forall>p. unat p < 0x800000 \<longrightarrow> m p = phys s p"
    using user_store_low[OF _ t] ub lb by (auto simp: m)
  have "\<forall>k<2. cur_fds u ! k = cur_fds s ! k" using cu L by auto
  note ru = program_ready_stored[OF r fr low this]
  have tr: "translate u = translate s" using fr(1) by (simp add: fd_frame_def)
  have "load_bytes vread t buf (length ?bs) = Some ?bs"
    by (rule vm.store_load_same[OF t]) (use mp(2) lb in \<open>simp add: inj_cells_def\<close>)
  moreover have "load_bytes vread u buf 33 = load_bytes vread t buf 33"
    using fr(1) by (intro load_bytes_cong) (simp add: fd_frame_def vread_def m)
  ultimately have "load_bytes vread u buf 33 = Some ?bs" unfolding lb by simp
  moreover have "listing h img ds buf fd (pos + 1) u"
    using ru(1) ub user_buffer_cong[OF tr] L lc by (simp add: listing_def cu d add.commute)
  ultimately show ?thesis using sr ru(2) by blast
qed

lemma dentry_name_take: "length d = 64 \<Longrightarrow> dentry_name d = take (length (dentry_name d)) (take 32 d)"
  unfolding dentry_name_def by (metis takeWhile_eq_take)

lemma listing_step:
  assumes c: "listing h img ds buf fd pos s" and pos: "pos < length ds" and n: "n = length (dentry_name (ds ! pos))"
  shows "\<exists>t u v. sys_read (polls h) (stack_dent h) fd buf 32 s = Some (of_nat n, t) \<and> vwrite t (buf + of_nat n) 10 = Some u \<and>
    sys_write 1 buf (of_nat n + 1) u = Some (of_nat n + 1, v) \<and> n \<le> 32 \<and>
    listing h img ds buf fd (pos + 1) v \<and> wrote (dentry_name (ds ! pos) @ [10]) s v"
proof -
  let ?e = "ds ! pos"
  obtain t where t: "sys_read (polls h) (stack_dent h) fd buf 32 s = Some (of_nat n, t)" "listing h img ds buf fd (pos + 1) t"
    "wrote [] s t" "load_bytes vread t buf 33 = Some (take 32 ?e @ [0])"
    using directory_step[OF c pos] n by blast
  have le: "length ?e = 64"
    using c pos load_bytes_length[of vread s _ 64 ?e] by (auto simp: listing_def program_ready_def boot_image_def dir_image_def)
  have n32: "n \<le> 32" unfolding n dentry_name_def using length_takeWhile_le[of _ "take 32 ?e"] le by simp
  note L = t(2)[unfolded listing_def]
  obtain u where u: "vwrite t (buf + of_nat n) 10 = Some u" "program_ready h [] img ds u" "wrote [] t u" "cur_fds u = cur_fds t"
    "user_buffer u buf 33" "load_bytes vread u buf 33 = Some ((take 32 ?e @ [0])[n := 10])"
    using user_poke[of h img ds t buf 33 n _ 10] L n32 t(4) by fastforce
  have "take (n + 1) ((take 32 ?e @ [0])[n := 10]) = dentry_name ?e @ [10]"
    using n32 le dentry_name_take[OF le] by (simp add: n take_Suc_conv_app_nth)
  moreover have "load_bytes vread u buf (n + 1) = Some (take (n + 1) ((take 32 ?e @ [0])[n := 10]))"
    using load_bytes_nth[OF u(6)] n32 le by (intro load_bytes_SomeI) simp_all
  ultimately have ld: "load_bytes vread u buf (length (dentry_name ?e @ [10])) = Some (dentry_name ?e @ [10])" by (simp add: n)
  have off: "off_screen u buf (length (dentry_name ?e @ [10]))"
    using user_buffer_off_screen[OF user_buffer_mono[OF u(5), of "n + 1"]] n32 by (simp add: n)
  obtain v where v: "sys_write 1 buf (of_nat n + 1) u = Some (of_nat n + 1, v)" "program_ready h [] img ds v"
    "wrote (dentry_name ?e @ [10]) u v" "prints u v" "cur_fds v = cur_fds u"
    using write_stdout[OF u(2) ld off] by (auto simp: n add.commute)
  have "translate v = translate u" by (simp add: prints_fields[OF v(4)])
  then have "user_buffer v buf 33" using u(5) user_buffer_cong by blast
  then have "listing h img ds buf fd (pos + 1) v" using L v(2,5) u(4) by (simp add: listing_def)
  then show ?thesis using t(1,3) u(1,3) v(1,3) n32 wrote_trans[OF t(3) wrote_trans[OF u(3) v(3)]] by auto
qed

lemma listing_end:
  assumes c: "listing h img ds buf fd (length ds) s" and ne: "ds \<noteq> []"
  shows "sys_read (polls h) (stack_dent h) fd buf 32 s = Some (0, s)"
proof -
  note L = c[unfolded listing_def program_ready_def boot_image_def]
  have wf: "files_wf s" "procs_wf s" using L by (simp_all add: files_wf_def)
  obtain ino where d: "cur_fds s ! unat fd = \<lparr>table_pointer = DirTable, fd_inode = ino, file_position = of_nat (length ds), flags = 1\<rparr>"
    using L by blast
  have "length ds \<le> 63" using L by blast
  then have p: "length ds = unat (file_position (cur_fds s ! unat fd))" by (simp add: d unat_of_nat take_bit_nat_eq_self)
  have mp: "\<forall>k<33. translate s (buf + of_nat k) \<noteq> None" "inj_cells translate s buf 33" using L by (auto simp: user_buffer_def)
  have "directory_read (stack_dent h) fd buf 32 s = Some (0, s)"
    using directory_read_run[OF wf(2) _ _ p _ ne _ mp, of "stack_dent h" 32] L by auto
  then show ?thesis
    using sys_read_write_step[OF wf(1) refl, of "polls h" "stack_dent h" fd buf 32] L by (auto simp: d user_buffer_def)
qed

definition name_lines :: "dentry list \<Rightarrow> u8 list" where
  "name_lines ds = concat (map (\<lambda>d. dentry_name d @ [10]) ds)"

lemma ls_loop_lists:
  "listing h img ds buf fd (length ds - n) s \<Longrightarrow> n \<le> length ds \<Longrightarrow> ds \<noteq> [] \<Longrightarrow> \<forall>d\<in>set ds. dentry_name d \<noteq> [] \<Longrightarrow>
   \<exists>t. ls_loop h buf fd s = Some (0, t) \<and> wrote (name_lines (drop (length ds - n) ds)) s t"
proof (induction n arbitrary: s)
  case 0
  then show ?case using listing_end[of h img ds buf fd s] by (subst ls_loop.simps) (simp add: name_lines_def)
next
  case (Suc n)
  let ?p = "length ds - Suc n" and ?k = "length (dentry_name (ds ! (length ds - Suc n)))"
  have p: "?p < length ds" "?p + 1 = length ds - n" using Suc.prems(2) by simp_all
  obtain t u v where t: "sys_read (polls h) (stack_dent h) fd buf 32 s = Some (of_nat ?k, t)"
    "vwrite t (buf + of_nat ?k) 10 = Some u" "sys_write 1 buf (of_nat ?k + 1) u = Some (of_nat ?k + 1, v)" "?k \<le> 32"
    "listing h img ds buf fd (length ds - n) v" "wrote (dentry_name (ds ! ?p) @ [10]) s v"
    using listing_step[OF Suc.prems(1) p(1) refl] unfolding p(2) by blast
  obtain w where w: "ls_loop h buf fd v = Some (0, w)" "wrote (name_lines (drop (length ds - n) ds)) v w"
    using Suc.IH[OF t(5) _ Suc.prems(3,4)] Suc.prems(2) by auto
  have k: "0 < ?k" using Suc.prems(4) p(1) by simp
  have u: "unat (of_nat ?k :: i32) = ?k" "unat (of_nat (?k + 1) :: i32) = ?k + 1"
    using t(4) by (simp_all only: unat_of_nat) (simp_all add: take_bit_nat_eq_self)
  have m1: "unat (-1 :: i32) = 4294967295" by (simp add: unsigned_minus_1_eq_mask mask_eq_exp_minus_1)
  have "(of_nat ?k :: i32) \<noteq> 0" using u(1) k by (metis neq0_conv unsigned_0)
  moreover have "(of_nat ?k :: i32) \<noteq> -1" "(of_nat (?k + 1) :: i32) \<noteq> -1" 
  proof -
    have "unat (of_nat ?k :: i32) \<noteq> unat (-1 :: i32)" "unat (of_nat (?k + 1) :: i32) \<noteq> unat (-1 :: i32)"
      unfolding u m1 using t(4) by simp_all
    then show "(of_nat ?k :: i32) \<noteq> -1" "(of_nat (?k + 1) :: i32) \<noteq> -1" by metis+
  qed
  moreover have "drop ?p ds = ds ! ?p # drop (length ds - n) ds" using p Cons_nth_drop_Suc[of ?p ds] by simp
  then have "wrote (name_lines (drop ?p ds)) s w" using wrote_trans[OF t(6) w(2)] by (simp add: name_lines_def)
  ultimately show ?case using t(1-3) w(1) by (subst ls_loop.simps) simp
qed

text \<open>
  C14: \<open>ls\<close> lists the directory.  For a process with a free descriptor and a buffer of 33 bytes in user
  memory, \<open>ls\<close> returns 0 after it has printed the name of every directory entry, in the order of the
  directory and each on a line of its own, on the terminal of its process and nothing on the
  others; the entry \<open>.\<close> has to be a directory and no entry may have an empty name, which would end
  the listing there.
\<close>

theorem ls_lists:
  assumes r: "program_ready h T img ds s" and T: "ascii ''.'' \<in> set T" and ub: "user_buffer s buf 33"
    and e: "find (\<lambda>d. dentry_name d = ascii ''.'') ds = Some e" "dentry_type e = 1"
    and k: "find (\<lambda>k. flags (cur_fds s ! k) = 0) [2..<8] = Some k" and ne: "\<forall>d\<in>set ds. dentry_name d \<noteq> []"
  shows "\<exists>t. ls_main h buf s = Some (0, t) \<and> wrote (name_lines ds) s t"
proof -
  have T: "files_wf s" "dir_image s ds" "length (stack_dent h) = 64"
    "reads_string (\<lambda>j. vread s (lit h (ascii ''.'') + j)) (ascii ''.'')"
    using r T by (auto simp: program_ready_def boot_image_def intro: cstring_reads)
  obtain u where u: "sys_open (stack_dent h) (lit h (ascii ''.'')) s = Some (of_nat k, u)"
    "fd_change (of_nat k) \<lparr>table_pointer = DirTable, fd_inode = type_inode 1 (dentry_inode e), file_position = 0, flags = 1\<rparr> s u"
    using sys_open_opens[OF T(1,2,4,3) k e(1)] e(2) by (auto simp: type_table_def)
  have k8: "2 \<le> k" "k < 8" using sys_open_cases(2)[OF T(1,2,4,3) k e(1) refl refl] by blast+
  have uk: "unat (of_nat k :: u32) = k" using k8 by (simp add: unat_of_nat take_bit_nat_eq_self)
  note c = fd_change_std[OF u(2) T(1) k8]
  note ru = program_ready_fd[OF r c(5,4,3)]
  have tr: "translate u = translate s" using c(5) by (simp add: fd_frame_def)
  have "program_ready h [] img ds u" using ru(1) by (simp add: program_ready_def)
  then have "listing h img ds buf (of_nat k) (length ds - length ds) u"
    using ub user_buffer_cong[OF tr] k8 uk c(1,2) by (simp add: listing_def)
  moreover have "ds \<noteq> []" using e(1) by auto
  ultimately obtain t where "ls_loop h buf (of_nat k) u = Some (0, t)" "wrote (name_lines ds) u t"
    using ls_loop_lists[of h img ds buf "of_nat k" "length ds" u] ne by auto
  then show ?thesis using u(1) small_not_minus1[OF k8(2)] wrote_trans[OF ru(2)] by (auto simp: ls_main_def)
qed

end
