(* ===== verification/Shell.thy ===== *)
theory Shell
  imports Tools Lines
begin

text \<open>
  Programs that wait for input: a read of the terminal seen from user mode (\<open>read_line\<close>), one turn of the
  shell, and \<open>hello\<close>.
\<close>

section \<open>Reading a line of input\<close>

lemma line_taken:
  fixes t :: "'z kernel_scheme" and m :: "u32 \<Rightarrow> u8" and fs :: "int list"
  assumes v: "v < 3" and wf: "files_wf t"
  defines "u \<equiv> set_line v 0 (replicate 128 0) (t\<lparr>flag_keyboard := fs, phys := m\<rparr>)"
  shows "translate (t\<lparr>flag_keyboard := fs\<rparr>) = translate t" "translate u = translate t" "files_wf u" "fd_frame (t\<lparr>phys := m\<rparr>) u"
    "cur_fds u = cur_fds t" "phys u = m" "kline u v = []"
proof -
  show tr: "translate (t\<lparr>flag_keyboard := fs\<rparr>) = translate t" "translate u = translate t"
    unfolding u_def set_line_def by (rule translate_cong; simp)+
  have fd: "fds_at u = fds_at t" unfolding u_def by (rule fds_at_cong) (simp_all add: set_line_def)
  have "procs_wf (t\<lparr>flag_keyboard := fs, phys := m\<rparr>) = procs_wf t"
    unfolding procs_wf_def by (intro arg_cong2[of _ _ _ _ "(\<and>)"] console_wf_cong paging_wf_cong; simp)
  then have "procs_wf u" using wf by (simp add: u_def files_wf_def)
  then show "files_wf u" using wf fd by (simp add: files_wf_def) (simp add: u_def set_line_def)
  show "fd_frame (t\<lparr>phys := m\<rparr>) u" using tr(2) by (simp add: fd_frame_def) (simp add: u_def set_line_def)
  show "cur_fds u = cur_fds t" using fd by (simp add: u_def set_line_def)
  show "phys u = m" by (simp add: u_def)
  show "kline u v = []" using v by (simp add: kline_def u_def)
qed

text \<open>
  \<open>awaits h s t\<close>: while a read of the terminal polls from state \<open>s\<close> on, the interrupts lead to \<open>t\<close>, where
  the terminal is visible and its line finished.
\<close>

definition awaits :: "'z kernel_scheme host \<Rightarrow> 'z kernel_scheme \<Rightarrow> 'z kernel_scheme \<Rightarrow> bool" where
  "awaits h s t \<longleftrightarrow> (\<exists>n. stops_at
     (\<lambda>t. key_ready (screen_idx (pcbs t (get_pcb (cur_pid (process_array s ! sched_ix s))))) t) (polls h) 0 n s t)"

lemma read_line:
  assumes r: "program_ready h T img ds s" and w: "awaits h s t" and rt: "program_ready h T img ds t" "keyboard_wf t"
    and ub: "user_buffer t buf k" and xs: "xs = kline t (vis_ix t)" "length xs < 128" "length xs < k"
  shows "\<exists>u. sys_read (polls h) (stack_dent h) 0 buf n s = Some (of_nat (length xs), u) \<and> program_ready h [] img ds u \<and>
    wrote [] t u \<and> translate u = translate t \<and> load_bytes vread u buf (Suc (length xs)) = Some (xs @ [0]) \<and> 0 \<notin> set xs \<and>
    kline u (vis_ix t) = [] \<and> cur_fds u = cur_fds t \<and> (\<forall>p. p \<notin> cells translate t buf k \<longrightarrow> phys u p = phys t p)"
proof -
  let ?v = "vis_ix t" and ?slot = "process_array s ! sched_ix s" and ?fs = "(flag_keyboard t)[vis_ix t := 0]"
  note R = r[unfolded program_ready_def] rt(1)[unfolded program_ready_def]
  have wf: "files_wf s" "procs_wf s" "files_wf t" using R by (simp_all add: files_wf_def)
  have std: "flags (cur_fds s ! 0) \<noteq> 0" "table_pointer (cur_fds s ! 0) = KeyboardTable" using R by auto
  have v: "?v < 3" using rt(2) by (intro ix_bounds(2)) (simp add: keyboard_wf_def procs_wf_def)
  have lh: "line_holds (kcount t ?v) (kbuf t ?v) xs" using rt(2) v by (simp add: keyboard_wf_def xs(1))
  then have nz: "0 \<notin> set xs" by (simp add: line_holds_def)
  let ?t = "t\<lparr>flag_keyboard := ?fs\<rparr>"
  have tr: "translate ?t = translate t" by (rule line_taken(1)[OF v wf(3)])
  have ub1: "user_buffer ?t buf (length (xs @ [0]))"
    using user_buffer_mono[OF ub, of "Suc (length xs)"] user_buffer_cong[OF tr] xs(3) by simp
  obtain t' where t': "store_bytes vwrite ?t buf (xs @ [0]) = Some t'"
    using vm.store_Some_iff[of ?t buf "xs @ [0]"] ub1 by (fastforce simp: user_buffer_def)
  obtain m where m: "t' = ?t\<lparr>phys := m\<rparr>" using store_frame[OF t'] by blast
  let ?u = "set_line ?v 0 (replicate 128 0) t'"
  have "keyboard_read (polls h) 0 buf n s = Some (of_nat (length xs), ?u)"
  proof -
    obtain j where "stops_at (\<lambda>t. key_ready (screen_idx (pcbs t (get_pcb (cur_pid ?slot)))) t) (polls h) 0 j s t"
      using w by (auto simp: awaits_def)
    then have kw: "key_wait (polls h) (get_pcb (cur_pid ?slot)) 0 s = Some t" by (rule keyw.wait_stops)
    have g: "get_fd 0 s = Some (cur_fds s ! 0)" using files_get[OF wf(1), of 0] by simp
    from keyboard_read_eq[OF g std(1) cur_slot_eq[OF wf(2)] kw rt(2)] copy_line_step[OF lh xs(2), of buf ?t] t'
    show ?thesis by simp
  qed
  moreover have "buf \<noteq> 0" using ub by (simp add: user_buffer_def)
  ultimately have sr: "sys_read (polls h) (stack_dent h) 0 buf n s = Some (of_nat (length xs), ?u)"
    using sys_read_write_step[OF wf(1) refl, of "polls h" "stack_dent h" 0 buf n] std by simp
  note lt = line_taken(2-7)[OF v wf(3), where fs = ?fs and m = m, folded m]
  have low: "\<forall>p. unat p < 0x800000 \<longrightarrow> m p = phys t p" using user_store_low[OF ub1 t'] by (simp add: m)
  have "\<forall>k<2. cur_fds ?u ! k = cur_fds t ! k" using lt(4) by simp
  note ru = program_ready_stored[OF rt(1) lt(3,2) low this]
  have "load_bytes vread t' buf (length (xs @ [0])) = Some (xs @ [0])"
    by (rule vm.store_load_same[OF t']) (use ub1 in \<open>simp add: user_buffer_def inj_cells_def\<close>)
  moreover have "load_bytes vread ?u buf (Suc (length xs)) = load_bytes vread t' buf (Suc (length xs))"
  proof (rule load_bytes_cong)
    have "translate t' = translate t" "phys t' = m" using tr by (simp_all add: m)
    then show "vread ?u (buf + of_nat i) = vread t' (buf + of_nat i)" for i by (simp only: vread_def lt(1,5))
  qed
  ultimately have ld: "load_bytes vread ?u buf (Suc (length xs)) = Some (xs @ [0])" by simp
  have "phys ?u p = phys t p" if "p \<notin> cells translate t buf k" for p
  proof -
    have "p \<notin> cells translate ?t buf (length (xs @ [0]))"
      using that cells_mono[of "Suc (length xs)" k translate t buf] xs(3) tr by (auto simp: cells_def)
    from vm.store_cell_other[OF t' this] show ?thesis using lt(5) by (simp add: m)
  qed
  then show ?thesis using sr ru lt(1,4,6) ld nz by blast
qed


section \<open>The shell\<close>

text \<open>The command in a line of input.\<close>

definition command_of :: "u8 list \<Rightarrow> u8 list" where
  "command_of xs = (if xs \<noteq> [] \<and> List.last xs = 10 then butlast xs else xs)"

text \<open>The line is terminated in place of its newline, or once more behind its end.\<close>

lemma terminate_line:
  assumes ld: "load_bytes vread u buf (Suc (length xs)) = Some (xs @ [0])" and nz: "0 \<notin> set xs"
    and r: "program_ready h [] img ds u" and ub: "user_buffer u buf k" and k: "length xs < k"
  shows "\<exists>w. vwrite u (buf + of_nat (length (command_of xs))) 0 = Some w \<and> program_ready h [] img ds w \<and> wrote [] u w \<and>
    cstring vread w buf (command_of xs) \<and> translate w = translate u \<and> kline w i = kline u i \<and>
    (\<forall>p. p \<notin> cells translate u buf k \<longrightarrow> phys w p = phys u p)"
proof -
  let ?c = "command_of xs"
  have c: "length ?c \<le> length xs" "take (Suc (length ?c)) ((xs @ [0])[length ?c := 0]) = ?c @ [0]" "0 \<notin> set ?c"
    using nz by (cases xs rule: rev_cases; simp add: command_of_def nth_append list_update_append)+
  obtain w where w: "vwrite u (buf + of_nat (length ?c)) 0 = Some w" "program_ready h [] img ds w" "wrote [] u w"
    "load_bytes vread w buf (Suc (length xs)) = Some ((xs @ [0])[length ?c := 0])"
    using user_poke[OF r user_buffer_mono[OF ub] _ ld, of "length ?c" 0] k c(1) by auto
  have "load_bytes vread w buf (Suc (length ?c)) = Some (take (Suc (length ?c)) ((xs @ [0])[length ?c := 0]))"
    using load_bytes_nth[OF w(4)] c(1) by (intro load_bytes_SomeI) simp_all
  then have cs: "cstring vread w buf ?c" using c(2,3) by (simp only: cstring_def simp_thms)
  obtain d where d: "translate u (buf + of_nat (length ?c)) = Some d" "w = u\<lparr>phys := (phys u)(d := 0)\<rparr>"
    using w(1) by (auto simp: vwrite_def)
  have "d \<in> cells translate u buf k" using d(1) le_less_trans[OF c(1) k] unfolding cells_def by blast
  then have "\<forall>p. p \<notin> cells translate u buf k \<longrightarrow> phys w p = phys u p" by (auto simp: d(2))
  moreover have "translate w = translate u" "kline w i = kline u i" by (simp_all add: d(2) kline_def kcount_def kbuf_def)
  ultimately show ?thesis using w(1-3) cs by blast
qed

lemma cstring_apart:
  assumes cs: "cstring vread t p xs" and tr: "translate u = translate t"
    and ph: "\<forall>q. q \<notin> C \<longrightarrow> phys u q = phys t q" and ap: "cells translate t p (Suc (length xs)) \<inter> C = {}"
  shows "cstring vread u p xs"
proof -
  have "vread u (p + of_nat j) = vread t (p + of_nat j)" if "j < Suc (length xs)" for j
  proof (cases "translate t (p + of_nat j)")
    case (Some c)
    then have "c \<notin> C" using ap that unfolding cells_def by blast
    then show ?thesis using ph Some by (simp add: vread_def tr)
  qed (simp add: vread_def tr)
  then have "load_bytes vread u p (Suc (length xs)) = load_bytes vread t p (Suc (length xs))" by (rule load_bytes_cong)
  then show ?thesis using cs by (simp only: cstring_def simp_thms)
qed

text \<open>
  C15: One turn of the shell.  The shell prints its prompt on the terminal of its process and waits until the
  line typed on that terminal is finished.  Then the command, the line without a newline at its end, is a
  string in its buffer and the line is empty again; on \<open>exit\<close> the shell ends with status 0, on an
  empty command it goes on to the next turn, and every other command is given to \<open>execute\<close> and the
  value that returns is reported.
\<close>

theorem shell_turn_runs:
  assumes r: "program_ready h T img ds s" and T: "{ascii ''391OS> '', ascii ''exit''} \<subseteq> set T"
    and p: "say h (ascii ''391OS> '') s = Some s1" and w: "awaits h s1 t"
    and rt: "program_ready h T img ds t" "keyboard_wf t" and ub: "user_buffer t buf 1024"
    and ap: "cells translate t (lit h (ascii ''exit'')) 5 \<inter> cells translate t buf 1024 = {}"
    and cmd: "cmd = command_of (kline t (vis_ix t))" "length (kline t (vis_ix t)) < 128"
  shows "wrote (ascii ''391OS> '') s s1 \<and> (\<exists>u. cstring vread u buf cmd \<and> program_ready h [] img ds u \<and> wrote [] t u \<and>
    kline u (vis_ix t) = [] \<and>
    shell_turn h buf s =
      (if cmd = ascii ''exit'' then Some (Some 0, u)
       else if cmd = [] then Some (None, u)
       else do { (rval, v) \<leftarrow> ece391_execute h buf u; v \<leftarrow> shell_report h rval v; Some (None, v) }))"
proof -
  let ?xs = "kline t (vis_ix t)" and ?p = "ascii ''391OS> ''" and ?e = "ascii ''exit''"
  have s1: "program_ready h T img ds s1" "wrote ?p s s1" using say_step[OF r, of ?p] T p by auto
  obtain u where u: "sys_read (polls h) (stack_dent h) 0 buf 1023 s1 = Some (of_nat (length ?xs), u)"
    "program_ready h [] img ds u" "wrote [] t u" "translate u = translate t"
    "load_bytes vread u buf (Suc (length ?xs)) = Some (?xs @ [0])" "0 \<notin> set ?xs" "kline u (vis_ix t) = []"
    "\<forall>p. p \<notin> cells translate t buf 1024 \<longrightarrow> phys u p = phys t p"
    using read_line[OF s1(1) w rt ub refl cmd(2), of 1023] cmd(2) by auto
  have ubu: "user_buffer u buf 1024" using ub user_buffer_cong[OF u(4)] by simp
  obtain v where v: "vwrite u (buf + of_nat (length cmd)) 0 = Some v" "program_ready h [] img ds v" "wrote [] u v"
    "cstring vread v buf cmd" "translate v = translate u" "kline v (vis_ix t) = kline u (vis_ix t)"
    "\<forall>p. p \<notin> cells translate u buf 1024 \<longrightarrow> phys v p = phys u p"
    using terminate_line[OF u(5,6,2) ubu] cmd by auto
  have "cells translate u = cells translate t" by (simp add: fun_eq_iff cells_def u(4))
  then have ph: "\<forall>p. p \<notin> cells translate t buf 1024 \<longrightarrow> phys v p = phys t p" using u(8) v(7) by simp
  have lit: "cstring vread t (lit h ?e) ?e" using rt(1) T by (simp add: program_ready_def)
  have "translate v = translate t" using u(4) v(5) by simp
  moreover have "cells translate t (lit h ?e) (Suc (length ?e)) \<inter> cells translate t buf 1024 = {}"
    using ap by (simp add: ascii_def numeral_eq_Suc)
  ultimately have "cstring vread v (lit h ?e) ?e" by (rule cstring_apart[OF lit _ ph])
  from strcmp_cstring[OF v(4) this] obtain c where c: "ece391_strcmp vread v buf (lit h ?e) = Some c" "c = 0 \<longleftrightarrow> cmd = ?e" by blast
  have hd: "vread v buf = Some (if cmd = [] then 0 else hd cmd)" "cmd \<noteq> [] \<Longrightarrow> hd cmd \<noteq> 0"
    using cstring_nth[OF v(4), of 0] cstring_end[OF v(4)] by (auto simp: hd_conv_nth)
  have n: "unat (of_nat (length ?xs) :: i32) = length ?xs" "sint (of_nat (length ?xs) :: i32) = int (length ?xs)"
    using cmd(2) by (simp_all add: unat_of_nat take_bit_nat_eq_self signed_of_nat signed_take_bit_int_eq_self)
  have cnt: "(if 0 < sint (of_nat (length ?xs) :: i32) then do { b \<leftarrow> vread u (buf + of_nat (length ?xs) - 1);
       Some (if b = 10 then of_nat (length ?xs) - 1 else of_nat (length ?xs)) } else Some (of_nat (length ?xs))) =
     Some (of_nat (length cmd) :: i32)"
  proof (cases "?xs = []")
    case True
    then show ?thesis using cmd(1) by (simp add: command_of_def)
  next
    case False
    then have l: "length ?xs - 1 < Suc (length ?xs)" "(of_nat (length ?xs) - 1 :: i32) = of_nat (length ?xs - 1)"
      by (simp_all add: of_nat_diff Suc_le_eq)
    have bq: "buf + of_nat (length ?xs) - 1 = buf + of_nat (length ?xs - 1)" unfolding l(2)[symmetric] by simp
    then have "vread u (buf + of_nat (length ?xs) - 1) = Some (last ?xs)"
      unfolding bq using load_bytes_nth[OF u(5) l(1)] False by (simp add: nth_append last_conv_nth)
    then show ?thesis using False cmd(1) l(2) by (simp add: command_of_def n)
  qed
  have m1: "(of_nat (length ?xs) :: i32) \<noteq> -1" using n(2) by auto
  have "shell_turn h buf s = (if cmd = ?e then Some (Some 0, v) else if cmd = [] then Some (None, v)
       else do { (rval, v) \<leftarrow> ece391_execute h buf v; v \<leftarrow> shell_report h rval v; Some (None, v) })"
    using p u(1) cnt m1 v(1) c hd by (simp add: shell_turn_def)
  then show ?thesis using s1(2) v(2,4,6) u(7) wrote_trans[OF u(3) v(3)] by auto
qed

section \<open>hello\<close>

lemma program_ready_kept:
  assumes rt: "program_ready h T img ds t" "xs \<in> set T" and rv: "program_ready h [] img ds v"
    and tr: "translate v = translate t" and ph: "\<forall>p. p \<notin> C \<longrightarrow> phys v p = phys t p"
    and ap: "cells translate t (lit h xs) (Suc (length xs)) \<inter> C = {}"
  shows "program_ready h [xs] img ds v"
proof -
  have lit: "cstring vread t (lit h xs) xs" "off_screen t (lit h xs) (Suc (length xs))"
    using rt by (simp_all add: program_ready_def)
  have "off_screen v (lit h xs) (Suc (length xs))" using lit(2) unfolding off_screen_def tr .
  with cstring_apart[OF lit(1) tr ph ap] rv show ?thesis by (simp add: program_ready_def)
qed

lemma cstring_prints:
  assumes p: "prints v x" and off: "off_screen v a (Suc (length xs))" and cs: "cstring vread v a xs"
  shows "cstring vread x a xs"
proof -
  have "vread x (a + of_nat j) = vread v (a + of_nat j)" if "j < Suc (length xs)" for j
    using off that prints_vread[OF p] by (auto simp: off_screen_def)
  then have "load_bytes vread x a (Suc (length xs)) = load_bytes vread v a (Suc (length xs))" by (rule load_bytes_cong)
  then show ?thesis using cs by (simp only: cstring_def simp_thms)
qed

text \<open>Print the string in a buffer of user memory.\<close>

lemma puts_buffer:
  assumes r: "program_ready h T img ds s" and ub: "user_buffer s buf (Suc (length xs))" and cs: "cstring vread s buf xs"
  shows "\<exists>t. ece391_fdputs h 1 buf s = Some t \<and> wrote xs s t"
proof -
  have ld: "load_bytes vread s buf (length xs) = Some xs"
    by (rule load_bytes_SomeI[OF refl]) (use cstring_nth[OF cs] in blast)
  have "off_screen s buf (length xs)" using user_buffer_off_screen[OF user_buffer_mono[OF ub]] by simp
  from write_stdout[OF r ld this] show ?thesis
    using strlen_cstring[OF cs] by (auto simp: ece391_fdputs_def ece391_strlen_eq)
qed

text \<open>
  C16: \<open>hello\<close> answers with what was typed.  It prints its question on the terminal of its process and waits
  until the line typed on that terminal is finished; then it prints the greeting followed by exactly
  that line, on the terminal of its process and on no other, and returns 0.
\<close>

theorem hello_greets:
  assumes r: "program_ready h T img ds s"
    and T: "{ascii ''Hi, what'' @ [39] @ ascii ''s your name? '', ascii ''Hello, ''} \<subseteq> set T"
    and p: "say h (ascii ''Hi, what'' @ [39] @ ascii ''s your name? '') s = Some s1" and w: "awaits h s1 t"
    and rt: "program_ready h T img ds t" "keyboard_wf t" and ub: "user_buffer t buf 1024"
    and ap: "cells translate t (lit h (ascii ''Hello, '')) 8 \<inter> cells translate t buf 1024 = {}"
    and xs: "xs = kline t (vis_ix t)" "length xs < 128"
  shows "wrote (ascii ''Hi, what'' @ [39] @ ascii ''s your name? '') s s1 \<and>
    (\<exists>u. hello_main h buf s = Some (0, u) \<and> wrote (ascii ''Hello, '' @ xs) t u)"
proof -
  let ?p = "ascii ''Hi, what'' @ [39] @ ascii ''s your name? ''" and ?e = "ascii ''Hello, ''"
  have s1: "program_ready h T img ds s1" "wrote ?p s s1" using say_step[OF r, of ?p] T p by auto
  obtain u where u: "sys_read (polls h) (stack_dent h) 0 buf 1023 s1 = Some (of_nat (length xs), u)"
    "program_ready h [] img ds u" "wrote [] t u" "translate u = translate t"
    "load_bytes vread u buf (Suc (length xs)) = Some (xs @ [0])" "0 \<notin> set xs"
    "\<forall>p. p \<notin> cells translate t buf 1024 \<longrightarrow> phys u p = phys t p"
    using read_line[OF s1(1) w rt ub xs, of 1023] xs(2) by auto
  have ubu: "user_buffer u buf (Suc (length xs))"
    using ub user_buffer_cong[OF u(4), of buf 1024] user_buffer_mono[of u buf 1024 "Suc (length xs)"] xs(2) by simp
  obtain v where v: "vwrite u (buf + of_nat (length xs)) 0 = Some v" "program_ready h [] img ds v" "wrote [] u v"
    "user_buffer v buf (Suc (length xs))" "load_bytes vread v buf (Suc (length xs)) = Some ((xs @ [0])[length xs := 0])"
    using user_poke[OF u(2) ubu _ u(5), of "length xs" 0] by auto
  have cv: "cstring vread v buf xs" using v(5) u(6) by (simp only: cstring_def list_update_length simp_thms)
  obtain d where d: "translate u (buf + of_nat (length xs)) = Some d" "v = u\<lparr>phys := (phys u)(d := 0)\<rparr>"
    using v(1) by (auto simp: vwrite_def)
  have k: "length xs < 1024" using xs(2) by simp
  have tr: "translate v = translate t" by (simp add: d(2) u(4))
  have "d \<in> cells translate t buf 1024" using d(1) k unfolding cells_def u(4) by blast
  then have ph: "\<forall>p. p \<notin> cells translate t buf 1024 \<longrightarrow> phys v p = phys t p" using u(7) by (auto simp: d(2))
  have l: "Suc (length ?e) = 8" by (simp add: ascii_def)
  have rv: "program_ready h [?e] img ds v"
    by (rule program_ready_kept[OF rt(1) _ v(2) tr ph]) (use T ap l in simp_all)
  obtain x where x: "say h ?e v = Some x" "program_ready h [?e] img ds x" "wrote ?e v x" "prints v x"
    using say_step[OF rv, of ?e] by auto
  have "cstring vread x buf xs" by (rule cstring_prints[OF x(4) user_buffer_off_screen[OF v(4)] cv])
  moreover have "user_buffer x buf (Suc (length xs))" using v(4) user_buffer_cong prints_fields(4)[OF x(4)] by blast
  ultimately obtain y where y: "ece391_fdputs h 1 buf x = Some y" "wrote xs x y" using puts_buffer[OF x(2)] by blast
  have "wrote (?e @ xs) t y" using wrote_trans[OF u(3) wrote_trans[OF v(3) wrote_trans[OF x(3) y(2)]]] by simp
  moreover have "sint (of_nat (length xs) :: i32) = int (length xs)"
    using xs(2) by (simp add: signed_of_nat signed_take_bit_int_eq_self)
  then have "(of_nat (length xs) :: i32) \<noteq> -1" by auto
  then have "hello_main h buf s = Some (0, y)" using p u(1) v(1) x(1) y(1) by (simp add: hello_main_def)
  ultimately show ?thesis using s1(2) by blast
qed

end
