(* ===== verification/Selftest.thy ===== *)
theory Selftest
  imports Shell
begin

text \<open>
  The tests that come with the system: the kernel's self test (\<open>tests.c\<close>), which \<open>entry\<close> may run, and
  the user program \<open>sigtest\<close>, which asks for signal handlers and then stores through a null pointer.
  This kernel has no signals, so the store is a page fault and ends the program.
\<close>

section \<open>The kernel's self test\<close>

text \<open>
  \<open>klit\<close> places the string literals in the kernel's memory; \<open>file\<close> is what \<open>__FILE__\<close> expands to.  An
  assertion failure raises the interrupt 15, which has no handler.
\<close>

definition test_header :: "u8 list \<Rightarrow> (u8 list \<Rightarrow> u32) \<Rightarrow> u8 list \<Rightarrow> u8 list \<Rightarrow> u32 \<Rightarrow> 'z console_scheme \<Rightarrow> 'z console_scheme option" where
  "test_header junk klit file name at_line s =
     do { (_, s) \<leftarrow> printf junk (ascii ''[TEST %s] Running %s at %s:%d'' @ [10, 0]) [klit name, klit name, klit file, at_line] s;
          Some s }"

definition test_output :: "u8 list \<Rightarrow> (u8 list \<Rightarrow> u32) \<Rightarrow> u8 list \<Rightarrow> i32 \<Rightarrow> 'z console_scheme \<Rightarrow> 'z console_scheme option" where
  "test_output junk klit name result s =
     do { (_, s) \<leftarrow> printf junk (ascii ''[TEST %s] Result = %s'' @ [10, 0])
            [klit name, klit (if result \<noteq> 0 then ascii ''PASS'' else ascii ''FAIL'')] s;
          Some s }"

definition assertion_failure :: "'z console_scheme \<Rightarrow> 'z console_scheme option" where
  "assertion_failure s = None"

definition idt_test :: "u8 list \<Rightarrow> (u8 list \<Rightarrow> u32) \<Rightarrow> u8 list \<Rightarrow> (nat \<Rightarrow> idt_desc) \<Rightarrow> 'z console_scheme \<Rightarrow> (i32 \<times> 'z console_scheme) option" where
  "idt_test junk klit file idt s =
     do { s \<leftarrow> test_header junk klit file (ascii ''idt_test'') 35 s;
          for_up 0 10 (\<lambda>i (result, s).
            if offset_15_00 (idt i) = 0 \<and> offset_31_16 (idt i) = 0
            then do { s \<leftarrow> assertion_failure s; Some (0, s) } else Some (result, s)) (1, s) }"

text \<open>No result: the store through the null pointer is a page fault, in the state given.\<close>

definition paging_test :: "u8 list \<Rightarrow> 'z console_scheme \<Rightarrow> (i32 option \<times> 'z console_scheme) option" where
  "paging_test junk s =
     do { (_, s) \<leftarrow> printf junk (ascii ''accessing video memory : %x'' @ [10, 0]) [0xB8000] s;
          s \<leftarrow> for_up 0 3 (\<lambda>i s. store32 vwrite s (0xB8000 + 4 * of_nat i) 100) s;
          (_, s) \<leftarrow> printf junk (ascii ''accessing null'' @ [10, 0]) [] s;
          (case store32 vwrite s 0 40 of None \<Rightarrow> Some (None, s) | Some s \<Rightarrow> Some (Some 0, s)) }"

definition launch_tests :: "u8 list \<Rightarrow> (u8 list \<Rightarrow> u32) \<Rightarrow> u8 list \<Rightarrow> (nat \<Rightarrow> idt_desc) \<Rightarrow> 'z console_scheme \<Rightarrow> 'z console_scheme option" where
  "launch_tests junk klit file idt s =
     do { (r, s) \<leftarrow> idt_test junk klit file idt s; test_output junk klit (ascii ''idt_test'') r s }"

lemma offsets_of_gate: "gate_addr g \<noteq> 0 \<Longrightarrow> offset_15_00 g \<noteq> 0 \<or> offset_31_16 g \<noteq> 0"
  by (auto simp: gate_addr_def)

lemma first_gates:
  assumes "i < 10"
  shows "\<exists>e. map_of (rev idt_assignments) i = Some e \<and> gate_addr (initialize_idt addr idt i) = addr e"
proof -
  have "map_of (rev idt_assignments) i \<noteq> None" using assms by (simp add: unassigned)
  then obtain e where e: "map_of (rev idt_assignments) i = Some e" by blast
  then show ?thesis using assms unfolding initialize_idt_def fold_entries by simp
qed

text \<open>
  The self test passes: on the table \<open>initialize_idt\<close> builds over any contents, with handlers that
  are not at address 0, \<open>idt_test\<close> prints its header and returns \<open>PASS\<close>, raising no assertion, and
  \<open>launch_tests\<close> reports exactly that.
\<close>

lemma idt_test_passes:
  assumes "\<forall>e. addr e \<noteq> 0"
  shows "idt_test junk klit file (initialize_idt addr idt) s =
      map_option (Pair 1) (test_header junk klit file (ascii ''idt_test'') 35 s) \<and>
    launch_tests junk klit file (initialize_idt addr idt) s =
      do { s \<leftarrow> test_header junk klit file (ascii ''idt_test'') 35 s;
           (_, s) \<leftarrow> printf junk (ascii ''[TEST %s] Result = %s'' @ [10, 0]) [klit (ascii ''idt_test''), klit (ascii ''PASS'')] s;
           Some s }"
proof
  have g: "offset_15_00 (initialize_idt addr idt i) \<noteq> 0 \<or> offset_31_16 (initialize_idt addr idt i) \<noteq> 0" if "i < 10" for i
    using first_gates[OF that, of addr idt] assms offsets_of_gate by metis
  have "for_up 0 10 (\<lambda>i (result, s).
      if offset_15_00 (initialize_idt addr idt i) = 0 \<and> offset_31_16 (initialize_idt addr idt i) = 0
      then do { s \<leftarrow> assertion_failure s; Some (0, s) } else Some (result, s)) (1 :: i32, t) = Some (1, t)" for t :: "'a console_scheme"
    by (rule for_up_run[of 10 _ "\<lambda>_. (1, t)"]) (use g in auto)
  then show i: "idt_test junk klit file (initialize_idt addr idt) s =
      map_option (Pair 1) (test_header junk klit file (ascii ''idt_test'') 35 s)"
    by (simp add: idt_test_def map_conv_bind_option comp_def)
  show "launch_tests junk klit file (initialize_idt addr idt) s =
      do { s \<leftarrow> test_header junk klit file (ascii ''idt_test'') 35 s;
           (_, s) \<leftarrow> printf junk (ascii ''[TEST %s] Result = %s'' @ [10, 0]) [klit (ascii ''idt_test''), klit (ascii ''PASS'')] s;
           Some s }"
    by (simp add: launch_tests_def i test_output_def map_conv_bind_option comp_def)
qed

section \<open>sigtest\<close>

definition SEGFAULT :: u32 where "SEGFAULT = 1"
definition ALARM :: u32 where "ALARM = 3"

text \<open>The question; with the argument \<open>1\<close> the handlers, at the addresses \<open>segv\<close> and \<open>alrm\<close>, are installed first.\<close>

definition sigtest_ask :: "'z kernel_scheme host \<Rightarrow> u32 \<Rightarrow> u32 \<Rightarrow> u32 \<Rightarrow> 'z kernel_scheme \<Rightarrow> 'z kernel_scheme option" where
  "sigtest_ask h segv alrm buf s =
     do { b \<leftarrow> vread s buf;
          s \<leftarrow> (if b = 49 then do {
                  s \<leftarrow> say h (line ''Installing signal handlers'') s;
                  (_, s) \<leftarrow> ece391_set_handler h SEGFAULT segv s;
                  (_, s) \<leftarrow> ece391_set_handler h ALARM alrm s;
                  Some s }
                else Some s);
          say h (ascii ''Hi, what'' @ [39] @ ascii ''s your name? '') s }"

definition sigtest_answer :: "'z kernel_scheme host \<Rightarrow> u32 \<Rightarrow> u32 \<Rightarrow> i32 \<Rightarrow> 'z kernel_scheme \<Rightarrow> 'z kernel_scheme option" where
  "sigtest_answer h charbuf buf cnt s =
     do { s \<leftarrow> vwrite s (buf + cnt) 0;
          s \<leftarrow> say h (ascii ''Hello, '') s;
          s \<leftarrow> ece391_fdputs h 1 buf s;
          c \<leftarrow> vread s charbuf;
          if c = 1 then say h (line ''success'') s else say h (line ''failure'') s }"

text \<open>
  \<open>badbuf\<close> and the addresses are arguments; \<open>badbuf\<close> starts as \<open>0\<close>.  No value: the store through \<open>badbuf\<close> is
  a page fault in the state given.
\<close>

definition sigtest_main :: "'z kernel_scheme host \<Rightarrow> u32 \<Rightarrow> u32 \<Rightarrow> u32 \<Rightarrow> u32 \<Rightarrow> u32 \<Rightarrow> 'z kernel_scheme \<Rightarrow>
    (i32 option \<times> 'z kernel_scheme) option" where
  "sigtest_main h segv alrm badbuf charbuf buf s =
     do { (r, s) \<leftarrow> ece391_getargs h buf 1024 s;
          if r \<noteq> 0 then do { s \<leftarrow> say h (line ''could not read argument'') s; Some (Some 3, s) }
          else do {
            s \<leftarrow> sigtest_ask h segv alrm buf s;
            (cnt, s) \<leftarrow> ece391_read h 0 buf 1023 s;
            if cnt = -1 then do { s \<leftarrow> say h (ascii ''Can'' @ [39] @ line ''t read name from keyboard.'') s; Some (Some 3, s) }
            else (case vwrite s badbuf 1 of None \<Rightarrow> Some (None, s)
                  | Some s \<Rightarrow> do { s \<leftarrow> sigtest_answer h charbuf buf cnt s; Some (Some 0, s) }) } }"

text \<open>The handlers, for a kernel that has signals; the first one repairs \<open>badbuf\<close> and the saved \<open>eax\<close>.\<close>

definition say_signum :: "'z kernel_scheme host \<Rightarrow> i32 \<Rightarrow> 'z kernel_scheme \<Rightarrow> 'z kernel_scheme option" where
  "say_signum h signum s =
     (if signum = 0 then say h (line ''0'') s else if signum = 1 then say h (line ''1'') s
      else if signum = 2 then say h (line ''2'') s else if signum = 3 then say h (line ''3'') s
      else say h (line ''invalid'') s)"

definition segfault_sighandler :: "'z kernel_scheme host \<Rightarrow> u32 \<Rightarrow> u32 \<Rightarrow> u32 \<Rightarrow> i32 \<Rightarrow> 'z kernel_scheme \<Rightarrow>
    (u32 \<times> 'z kernel_scheme) option" where
  "segfault_sighandler h at_signum at_buf charbuf signum s =
     do { s \<leftarrow> say h (ascii ''Segfault signal handler called, signum: '') s;
          s \<leftarrow> say_signum h signum s;
          s \<leftarrow> say h (line ''Press enter to continue...'') s;
          (_, s) \<leftarrow> ece391_read h 0 at_buf 1 s;
          let badbuf = charbuf;
          s \<leftarrow> store32 vwrite s (at_signum + 28) charbuf;
          s \<leftarrow> say h (line ''Signal handler returning'') s;
          Some (badbuf, s) }"

definition alarm_sighandler :: "'z kernel_scheme host \<Rightarrow> i32 \<Rightarrow> 'z kernel_scheme \<Rightarrow> 'z kernel_scheme option" where
  "alarm_sighandler h signum s =
     do { s \<leftarrow> say h (ascii ''Alarm signal handler called, signum: '') s; say_signum h signum s }"

section \<open>What becomes of sigtest\<close>

lemma set_handler_refuses: "ece391_set_handler h signum a s = Some (-1, s)"
  by (simp add: ece391_set_handler_def do_call_def sys_numbers syscall_wrapper_def lift_return set_handler_def)

lemma sigtest_ask_writes:
  assumes r: "program_ready h T img ds s" and b: "vread s buf = Some c"
    and T: "{line ''Installing signal handlers'', ascii ''Hi, what'' @ [39] @ ascii ''s your name? ''} \<subseteq> set T"
  shows "\<exists>t. sigtest_ask h segv alrm buf s = Some t \<and> program_ready h T img ds t \<and>
    wrote ((if c = 49 then line ''Installing signal handlers'' else []) @ ascii ''Hi, what'' @ [39] @ ascii ''s your name? '') s t"
proof -
  obtain u where u: "(if c = 49 then say h (line ''Installing signal handlers'') s else Some s) = Some u"
    "program_ready h T img ds u" "wrote (if c = 49 then line ''Installing signal handlers'' else []) s u"
    using say_step[OF r, of "line ''Installing signal handlers''"] r T by (cases "c = 49") fastforce+
  obtain t where t: "say h (ascii ''Hi, what'' @ [39] @ ascii ''s your name? '') u = Some t" "program_ready h T img ds t"
    "wrote (ascii ''Hi, what'' @ [39] @ ascii ''s your name? '') u t"
    using say_step[OF u(2), of "ascii ''Hi, what'' @ [39] @ ascii ''s your name? ''"] T by auto
  show ?thesis using t u(1) wrote_trans[OF u(3) t(3)]
    by (intro exI[of _ t]) (auto simp: sigtest_ask_def b set_handler_refuses split: if_splits)
qed

text \<open>
  C21: a program that stores through a null pointer is terminated, asked-for handlers or not.  \<open>sigtest\<close>
  prints its question on its terminal (after the line about the handlers, when its argument begins
  with \<open>1\<close>) and waits for a line; when the line is there its store faults, and the page fault handler
  prints its message on that terminal and returns to the parent, with the parent's page, registers
  and descriptors.
\<close>

theorem sigtest_terminated:
  assumes g: "getargs buf 1024 s0 = Some (0, s)" and r: "program_ready h T img ds s" and b: "vread s buf = Some c"
    and T: "{line ''Installing signal handlers'', ascii ''Hi, what'' @ [39] @ ascii ''s your name? ''} \<subseteq> set T"
    and ask: "sigtest_ask h segv alrm buf s = Some s1" and w: "awaits h s1 t"
    and rt: "program_ready h T img ds t" "keyboard_wf t" and ub: "user_buffer t buf 1024"
    and xs: "xs = kline t (vis_ix t)" "length xs < 128"
  shows "wrote ((if c = 49 then line ''Installing signal handlers'' else []) @ ascii ''Hi, what'' @ [39] @ ascii ''s your name? '') s s1 \<and>
    (\<exists>u v p. sigtest_main h segv alrm 0 charbuf buf s0 = Some (None, u) \<and> wrote [] t u \<and>
      page_fault junk u = Some (ret_status u, p) \<and> prints u v \<and>
      (\<forall>i<3. term_view v i = (if i = sched_ix u then fold term_putc (ascii ''page_fault'' @ [10]) (term_view u i) else term_view u i)) \<and>
      back_to_parent v p \<and> files_wf p)"
proof -
  have s1: "program_ready h T img ds s1"
    "wrote ((if c = 49 then line ''Installing signal handlers'' else []) @ ascii ''Hi, what'' @ [39] @ ascii ''s your name? '') s s1"
    using sigtest_ask_writes[OF r b T, of segv alrm] ask by auto
  obtain u where u: "sys_read (polls h) (stack_dent h) 0 buf 1023 s1 = Some (of_nat (length xs), u)"
    "program_ready h [] img ds u" "wrote [] t u"
    using read_line[OF s1(1) w rt ub xs, of 1023] xs(2) by auto
  have R: "files_wf u" "coherent u" using u(2) by (auto simp: program_ready_def)
  have null: "vwrite u 0 1 = None" using translate_null[OF files_paging[OF R(1)], of 0] by (simp add: vwrite_def)
  have "sint (of_nat (length xs) :: i32) = int (length xs)"
    using xs(2) by (simp add: signed_of_nat signed_take_bit_int_eq_self)
  then have "(of_nat (length xs) :: i32) \<noteq> -1" by auto
  then have m: "sigtest_main h segv alrm 0 charbuf buf s0 = Some (None, u)"
    using g ask u(1) null by (simp add: sigtest_main_def)
  have msg: "0 \<notin> set (ascii ''page_fault'')" "37 \<notin> set (ascii ''page_fault'')" by (simp_all add: ascii_def)
  show ?thesis using s1(2) m u(3) exception_step[OF R msg, of junk] by (auto simp: page_fault_def)
qed

end
