(* ===== verification/Blink.thy ===== *)
theory Blink
  imports Machine
begin

unbundle bit_operations_syntax

text \<open>
  The blinking characters of the \<open>fish\<close> program: \<open>blink.S\<close> (the list of blinks, the tasklet and the
  \<open>ioctl\<close> calls) and the allocator of \<open>fish.c\<close>.  A \<open>mp1_blink_struct\<close> is a record, a pointer to one is
  the index of its cell in \<open>blink_array\<close>, and \<open>NULL\<close> is \<^term>\<open>None\<close>.  A byte written to the screen is
  written to the machine's memory at \<open>vmem_base_addr\<close>.
\<close>

section \<open>The structures\<close>

record blink =
  location :: u16
  on_char :: u8
  off_char :: u8
  on_length :: u16
  off_length :: u16
  countdown :: u16
  status :: u16

record blink_struct = blink +
  next_p :: "nat option"

definition blank_blink :: blink_struct where
  "blank_blink = \<lparr>location = 0, on_char = 0, off_char = 0, on_length = 0, off_length = 0, countdown = 0,
     status = 0, next_p = None\<rparr>"

record fish =
  blink_array :: "blink_struct list"
  mp1_list_head :: "nat option"
  vmem_base_addr :: u32

abbreviation BLINKS :: nat where
  "BLINKS \<equiv> 80 * 25"

definition blink_at :: "fish \<Rightarrow> nat \<Rightarrow> blink_struct" where
  "blink_at f i = blink_array f ! i"

definition blink_upd :: "nat \<Rightarrow> (blink_struct \<Rightarrow> blink_struct) \<Rightarrow> fish \<Rightarrow> fish" where
  "blink_upd i g f = f\<lparr>blink_array := (blink_array f)[i := g (blink_array f ! i)]\<rparr>"

section \<open>Allocation\<close>

text \<open>\<open>mp1_malloc\<close>: the first cell whose location is \<open>0\<close>.\<close>

fun malloc_scan :: "fish \<Rightarrow> nat \<Rightarrow> nat \<Rightarrow> nat option" where
  "malloc_scan f i 0 = None"
| "malloc_scan f i (Suc n) = (if location (blink_at f i) = 0 then Some i else malloc_scan f (Suc i) n)"

definition mp1_malloc :: "fish \<Rightarrow> nat option" where
  "mp1_malloc f = malloc_scan f 0 BLINKS"

definition mp1_free :: "nat \<Rightarrow> fish \<Rightarrow> fish" where
  "mp1_free i f = blink_upd i (\<lambda>_. blank_blink) f"

section \<open>The tasklet\<close>

definition mp1_poke :: "fish \<Rightarrow> u32 \<Rightarrow> u8 \<Rightarrow> 'z machine_scheme \<Rightarrow> 'z machine_scheme option" where
  "mp1_poke f eax cl s = vwrite s (vmem_base_addr f + eax) cl"

text \<open>The offset of a location: two bytes per character.\<close>

definition cell_offset :: "u16 \<Rightarrow> u32" where
  "cell_offset l = push_bit 1 (ucast l)"

partial_function (option) tasklet_loop :: "nat option \<Rightarrow> fish \<Rightarrow> 'z machine_scheme \<Rightarrow> (fish \<times> 'z machine_scheme) option" where
  "tasklet_loop ebx f s =
     (case ebx of None \<Rightarrow> Some (f, s)
      | Some p \<Rightarrow>
          let f = blink_upd p (countdown_update (\<lambda>c. c - 1)) f; b = blink_at f p in
          if sint (countdown b) > 0 then tasklet_loop (next_p b) f s
          else do {
            let (cl, dx) = (if status b AND 1 \<noteq> 0 then (off_char b, off_length b) else (on_char b, on_length b));
            s \<leftarrow> mp1_poke f (cell_offset (location b)) cl s;
            let f = blink_upd p (\<lambda>b. b\<lparr>countdown := dx, status := status b XOR 1\<rparr>) f;
            tasklet_loop (next_p (blink_at f p)) f s })"

definition mp1_rtc_tasklet :: "fish \<Rightarrow> 'z machine_scheme \<Rightarrow> (fish \<times> 'z machine_scheme) option" where
  "mp1_rtc_tasklet f s = tasklet_loop (mp1_list_head f) f s"

section \<open>The calls\<close>

text \<open>The search compares the low 16 bits of its argument.\<close>

partial_function (option) find_loop :: "u16 \<Rightarrow> nat option \<Rightarrow> fish \<Rightarrow> nat option option" where
  "find_loop ax ebx f =
     (case ebx of None \<Rightarrow> Some None
      | Some p \<Rightarrow> if location (blink_at f p) = ax then Some (Some p) else find_loop ax (next_p (blink_at f p)) f)"

definition mp1_find_helper :: "u32 \<Rightarrow> fish \<Rightarrow> nat option option" where
  "mp1_find_helper arg f = find_loop (ucast arg) (mp1_list_head f) f"

text \<open>The caller's structure is copied before it is checked, so the cell holds the copy.\<close>

definition mp1_ioctl_add :: "blink_struct \<Rightarrow> fish \<Rightarrow> 'z machine_scheme \<Rightarrow> (i32 \<times> fish \<times> 'z machine_scheme) option" where
  "mp1_ioctl_add b f s =
     (if location b \<ge> 80 * 25 then Some (-1, f, s)
      else let b = b\<lparr>status := 1, countdown := on_length b\<rparr> in
        case mp1_malloc f of None \<Rightarrow> Some (-1, f, s)
        | Some p \<Rightarrow> do {
            let f = blink_upd p (\<lambda>_. b) f;
            let f = blink_upd p (\<lambda>b. b\<lparr>next_p := mp1_list_head f\<rparr>) f;
            let f = f\<lparr>mp1_list_head := Some p\<rparr>;
            s \<leftarrow> mp1_poke f (cell_offset (location (blink_at f p))) (on_char (blink_at f p)) s;
            Some (0, f, s) })"

text \<open>
  A place that holds a pointer to a blink: the head of the list (\<^term>\<open>None\<close>) or the \<open>next\<close> field of a
  cell.  \<open>remove_find_prev\<close> walks such places; after the last one it would read through \<open>NULL\<close>.
\<close>

definition get_link :: "fish \<Rightarrow> nat option \<Rightarrow> nat option" where
  "get_link f l = (case l of None \<Rightarrow> mp1_list_head f | Some i \<Rightarrow> next_p (blink_at f i))"

definition set_link :: "nat option \<Rightarrow> nat option \<Rightarrow> fish \<Rightarrow> fish" where
  "set_link l p f = (case l of None \<Rightarrow> f\<lparr>mp1_list_head := p\<rparr> | Some i \<Rightarrow> blink_upd i (\<lambda>b. b\<lparr>next_p := p\<rparr>) f)"

partial_function (option) find_prev :: "nat \<Rightarrow> nat option \<Rightarrow> fish \<Rightarrow> nat option option" where
  "find_prev eax edx f =
     (case get_link f edx of None \<Rightarrow> None
      | Some p \<Rightarrow> if p = eax then Some edx else find_prev eax (Some p) f)"

definition mp1_ioctl_remove :: "u32 \<Rightarrow> fish \<Rightarrow> 'z machine_scheme \<Rightarrow> (i32 \<times> fish \<times> 'z machine_scheme) option" where
  "mp1_ioctl_remove arg f s =
     do { r \<leftarrow> mp1_find_helper arg f;
          (case r of None \<Rightarrow> Some (-1, f, s)
           | Some p \<Rightarrow> do {
               edx \<leftarrow> find_prev p None f;
               let f = set_link edx (next_p (blink_at f p)) f;
               Some (0, mp1_free p f, s) }) }"

text \<open>
  \<open>cmovl\<close> moves when the sign and the overflow flag differ.  The preceding \<open>testb\<close> clears the
  overflow flag and sets the sign flag to the top bit of its result.
\<close>

definition sync_char :: "blink_struct \<Rightarrow> u8" where
  "sync_char b =
     (let r = (ucast (status b) :: u8) AND 1; sf = bit r 7; ofl = False in
      if sf \<noteq> ofl then on_char b else off_char b)"

definition mp1_ioctl_sync :: "u32 \<Rightarrow> fish \<Rightarrow> 'z machine_scheme \<Rightarrow> (i32 \<times> fish \<times> 'z machine_scheme) option" where
  "mp1_ioctl_sync arg f s =
     do { r \<leftarrow> mp1_find_helper (drop_bit 16 arg) f;
          (case r of None \<Rightarrow> Some (-1, f, s)
           | Some esi \<Rightarrow> do {
               r \<leftarrow> mp1_find_helper (arg AND 0xFFFF) f;
               (case r of None \<Rightarrow> Some (-1, f, s)
                | Some edi \<Rightarrow> do {
                    let b = blink_at f esi;
                    let f = blink_upd edi (\<lambda>c. c\<lparr>on_length := on_length b, off_length := off_length b,
                      countdown := countdown b, status := status b\<rparr>) f;
                    s \<leftarrow> mp1_poke f (cell_offset (location (blink_at f edi))) (sync_char (blink_at f edi)) s;
                    Some (0, f, s) }) }) }"

text \<open>\<open>mp1_ioctl_find\<close> reads the location from the caller's structure and overwrites it with the blink.\<close>

definition mp1_ioctl_find :: "blink_struct \<Rightarrow> fish \<Rightarrow> (i32 \<times> blink_struct) option" where
  "mp1_ioctl_find b f =
     do { r \<leftarrow> mp1_find_helper (ucast (location b)) f;
          (case r of None \<Rightarrow> Some (-1, b) | Some p \<Rightarrow> Some (0, blink_at f p)) }"

text \<open>
  The dispatch through \<open>call_table\<close>: \<open>b\<close> is the structure \<open>arg\<close> points to, for the commands that take a
  pointer.  A command beyond the table jumps to whatever follows it.
\<close>

definition mp1_ioctl :: "u32 \<Rightarrow> blink_struct \<Rightarrow> u32 \<Rightarrow> fish \<Rightarrow> 'z machine_scheme \<Rightarrow>
    (i32 \<times> blink_struct \<times> fish \<times> 'z machine_scheme) option" where
  "mp1_ioctl arg b cmd f s =
     (if cmd = 0 then do { (r, f, s) \<leftarrow> mp1_ioctl_add b f s; Some (r, b, f, s) }
      else if cmd = 1 then do { (r, f, s) \<leftarrow> mp1_ioctl_remove arg f s; Some (r, b, f, s) }
      else if cmd = 2 then do { (r, b) \<leftarrow> mp1_ioctl_find b f; Some (r, b, f, s) }
      else if cmd = 3 then do { (r, f, s) \<leftarrow> mp1_ioctl_sync arg f s; Some (r, b, f, s) }
      else None)"

section \<open>The list of blinks\<close>

primrec blink_path :: "fish \<Rightarrow> nat option \<Rightarrow> nat list \<Rightarrow> bool" where
  "blink_path f p [] \<longleftrightarrow> p = None"
| "blink_path f p (i # is) \<longleftrightarrow> p = Some i \<and> i < length (blink_array f) \<and> blink_path f (next_p (blink_at f i)) is"

text \<open>
  A well-formed pool: the cells on the list are exactly those in use, and their locations are on the screen.
\<close>

definition fish_wf :: "fish \<Rightarrow> nat list \<Rightarrow> bool" where
  "fish_wf f ps \<longleftrightarrow> length (blink_array f) = BLINKS \<and> blink_path f (mp1_list_head f) ps \<and>
     (\<forall>i<BLINKS. i \<in> set ps \<longleftrightarrow> location (blink_at f i) \<noteq> 0) \<and> (\<forall>i\<in>set ps. location (blink_at f i) < 80 * 25)"

definition blinks :: "fish \<Rightarrow> nat list \<Rightarrow> blink list" where
  "blinks f ps = map (\<lambda>i. blink.truncate (blink_at f i)) ps"

lemma blink_at_upd:
  "blink_at (blink_upd i g f) j = (if j = i \<and> i < length (blink_array f) then g (blink_at f i) else blink_at f j)"
  by (cases "i < length (blink_array f)") (auto simp: blink_at_def blink_upd_def nth_list_update list_update_beyond)

lemma blink_upd_fields [simp]:
  "length (blink_array (blink_upd i g f)) = length (blink_array f)"
  "mp1_list_head (blink_upd i g f) = mp1_list_head f"
  "vmem_base_addr (blink_upd i g f) = vmem_base_addr f"
  "blink_at (mp1_list_head_update k f) j = blink_at f j"
  "blink_array (mp1_list_head_update k f) = blink_array f"
  by (simp_all add: blink_upd_def blink_at_def)

lemma blink_path_bound: "blink_path f p ps \<Longrightarrow> i \<in> set ps \<Longrightarrow> i < length (blink_array f)"
  by (induction ps arbitrary: p) auto

lemma blink_path_unique: "blink_path f p ps \<Longrightarrow> blink_path f p qs \<Longrightarrow> ps = qs"
proof (induction ps arbitrary: p qs)
  case Nil
  then show ?case by (cases qs) auto
next
  case (Cons i ps)
  then show ?case by (cases qs) auto
qed

lemma blink_path_append: "blink_path f p (ps @ i # qs) \<Longrightarrow> blink_path f (Some i) (i # qs)"
  by (induction ps arbitrary: p) auto

lemma blink_path_distinct: "blink_path f p ps \<Longrightarrow> distinct ps"
proof (induction ps arbitrary: p)
  case Nil
  then show ?case by simp
next
  case (Cons i ps)
  have "i \<notin> set ps"
  proof
    assume "i \<in> set ps"
    then obtain xs ys where ps: "ps = xs @ i # ys" by (auto simp: in_set_conv_decomp)
    with Cons.prems have "blink_path f (Some i) (i # ys)" by (intro blink_path_append[of f p "i # xs"]) simp
    with Cons.prems ps have "i # ps = i # ys" by (intro blink_path_unique[of f "Some i"]) auto
    with ps show False by (auto dest: arg_cong[where f = length])
  qed
  with Cons show ?case by auto
qed

lemma blink_path_cong:
  "length (blink_array g) = length (blink_array f) \<Longrightarrow> (\<And>i. i \<in> set ps \<Longrightarrow> next_p (blink_at g i) = next_p (blink_at f i)) \<Longrightarrow>
     blink_path g p ps = blink_path f p ps"
  by (induction ps arbitrary: p) auto

lemma blink_path_upd [simp]:
  "i \<notin> set ps \<Longrightarrow> blink_path (blink_upd i g f) p ps = blink_path f p ps"
  by (rule blink_path_cong) (auto simp: blink_at_upd)

lemma blinks_cong:
  "(\<And>i. i \<in> set ps \<Longrightarrow> blink_at g i = blink_at f i) \<Longrightarrow> blinks g ps = blinks f ps"
  by (simp add: blinks_def)

lemma fish_wf_length: "fish_wf f ps \<Longrightarrow> length (blink_array f) = BLINKS"
  by (simp add: fish_wf_def)

lemma fish_wf_distinct: "fish_wf f ps \<Longrightarrow> distinct ps"
  by (auto simp: fish_wf_def intro: blink_path_distinct)

section \<open>The tasklet on the list\<close>

definition due :: "'z blink_scheme \<Rightarrow> bool" where
  "due b \<longleftrightarrow> \<not> sint (countdown b - 1) > 0"

definition lit_up :: "'z blink_scheme \<Rightarrow> bool" where
  "lit_up b \<longleftrightarrow> status b AND 1 \<noteq> 0"

text \<open>One tick: a blink that is due changes its character and starts the other interval.\<close>

definition tick :: "'z blink_scheme \<Rightarrow> 'z blink_scheme" where
  "tick b = (if due b then b\<lparr>countdown := (if lit_up b then off_length b else on_length b), status := status b XOR 1\<rparr>
     else b\<lparr>countdown := countdown b - 1\<rparr>)"

definition draw :: "u32 \<Rightarrow> 'b blink_scheme \<Rightarrow> u8 \<Rightarrow> 'z machine_scheme \<Rightarrow> 'z machine_scheme option" where
  "draw base b c s = vwrite s (base + cell_offset (location b)) c"

primrec draw_due :: "u32 \<Rightarrow> blink list \<Rightarrow> 'z machine_scheme \<Rightarrow> 'z machine_scheme option" where
  "draw_due base [] s = Some s"
| "draw_due base (b # bs) s =
     do { s \<leftarrow> (if due b then draw base b (if lit_up b then off_char b else on_char b) s else Some s);
          draw_due base bs s }"

lemma blink_tick_fields [simp]:
  "location (tick b) = location b" "on_char (tick b) = on_char b" "off_char (tick b) = off_char b"
  "on_length (tick b) = on_length b" "off_length (tick b) = off_length b" "next_p (tick c) = next_p c"
  by (simp_all add: tick_def)

lemma truncate_simps [simp]:
  "location (blink.truncate b) = location b" "on_char (blink.truncate b) = on_char b" "off_char (blink.truncate b) = off_char b"
  "on_length (blink.truncate b) = on_length b" "off_length (blink.truncate b) = off_length b"
  "countdown (blink.truncate b) = countdown b" "status (blink.truncate b) = status b"
  "lit_up (blink.truncate b) = lit_up b" "due (blink.truncate b) = due b"
  by (simp_all add: blink.truncate_def lit_up_def due_def)

lemma truncate_tick: "blink.truncate (tick b) = tick (blink.truncate b)"
  by (cases b) (simp add: tick_def lit_up_def due_def blink.truncate_def)

definition tick_cells :: "nat list \<Rightarrow> fish \<Rightarrow> fish" where
  "tick_cells ps f = fold (\<lambda>i. blink_upd i tick) ps f"

lemma tick_cells_fields [simp]:
  "length (blink_array (tick_cells ps f)) = length (blink_array f)"
  "mp1_list_head (tick_cells ps f) = mp1_list_head f" "vmem_base_addr (tick_cells ps f) = vmem_base_addr f"
  unfolding tick_cells_def by (induction ps arbitrary: f) auto

lemma blink_at_tick:
  "distinct ps \<Longrightarrow> (\<And>i. i \<in> set ps \<Longrightarrow> i < length (blink_array f)) \<Longrightarrow>
     blink_at (tick_cells ps f) i = (if i \<in> set ps then tick (blink_at f i) else blink_at f i)"
  unfolding tick_cells_def by (induction ps arbitrary: f) (auto simp: blink_at_upd)

lemma blink_upd_cong:
  "(g (blink_at f p)) = h (blink_at f p) \<Longrightarrow> blink_upd p g f = blink_upd p h f"
  by (simp add: blink_upd_def blink_at_def)

lemma blink_upd_twice: "blink_upd p g (blink_upd p h f) = blink_upd p (\<lambda>b. g (h b)) f"
  by (cases "p < length (blink_array f)") (simp_all add: blink_upd_def list_update_beyond)

lemma tasklet_step:
  assumes "p < length (blink_array f)"
  shows "tasklet_loop (Some p) f s =
     do { s \<leftarrow> (if due (blink_at f p)
                then draw (vmem_base_addr f) (blink_at f p)
                  (if lit_up (blink_at f p) then off_char (blink_at f p) else on_char (blink_at f p)) s
                else Some s);
          tasklet_loop (next_p (blink_at f p)) (blink_upd p tick f) s }"
proof (cases "due (blink_at f p)")
  case False
  then have "blink_upd p (countdown_update (\<lambda>c. c - 1)) f = blink_upd p tick f"
    by (intro blink_upd_cong) (simp add: tick_def)
  moreover have "0 < sint (countdown (tick (blink_at f p)))" using False by (simp add: due_def tick_def)
  ultimately show ?thesis using False assms
    by (subst tasklet_loop.simps) (simp add: Let_def blink_at_upd)
next
  case True
  have up: "blink_upd p (\<lambda>b. b\<lparr>countdown := dx, status := status b XOR 1\<rparr>) (blink_upd p (countdown_update (\<lambda>c. c - 1)) f) =
     blink_upd p tick f" if "dx = (if lit_up (blink_at f p) then off_length (blink_at f p) else on_length (blink_at f p))" for dx
    unfolding blink_upd_twice by (rule blink_upd_cong) (simp add: tick_def True that)
  from True have "\<not> 0 < sint (countdown (countdown_update (\<lambda>c. c - 1) (blink_at f p)))" by (simp add: due_def)
  then show ?thesis using True assms
    by (subst tasklet_loop.simps)
      (simp add: Let_def blink_at_upd up mp1_poke_def draw_def lit_up_def split del: if_split cong: if_cong; simp add: up lit_up_def blink_at_upd)
qed

lemma tasklet_loop_ticks:
  "blink_path f p ps \<Longrightarrow> distinct ps \<Longrightarrow>
     tasklet_loop p f s = map_option (Pair (tick_cells ps f)) (draw_due (vmem_base_addr f) (blinks f ps) s)"
proof (induction ps arbitrary: p f s)
  case Nil
  then show ?case by (subst tasklet_loop.simps) (simp add: blinks_def tick_cells_def)
next
  case (Cons i ps)
  then have i: "p = Some i" "i < length (blink_array f)" "blink_path f (next_p (blink_at f i)) ps" "i \<notin> set ps" "distinct ps"
    by auto
  have b: "blinks (blink_upd i tick f) ps = blinks f ps" using i by (intro blinks_cong) (auto simp: blink_at_upd)
  have IH: "tasklet_loop (next_p (blink_at f i)) (blink_upd i tick f) t =
     map_option (Pair (tick_cells (i # ps) f)) (draw_due (vmem_base_addr f) (blinks f ps) t)" for t :: "'a machine_scheme"
    using Cons.IH[of "blink_upd i tick f" "next_p (blink_at f i)" t] i by (simp add: b tick_cells_def)
  show ?case unfolding i(1) tasklet_step[OF i(2)] IH
    by (simp add: blinks_def draw_def map_option_bind comp_def)
qed

section \<open>The calls on the list\<close>

definition started :: "'z blink_scheme \<Rightarrow> 'z blink_scheme" where
  "started b = b\<lparr>status := 1, countdown := on_length b\<rparr>"

primrec drop_at :: "u16 \<Rightarrow> blink list \<Rightarrow> blink list" where
  "drop_at l [] = []"
| "drop_at l (b # bs) = (if location b = l then bs else b # drop_at l bs)"

primrec update_at :: "u16 \<Rightarrow> (blink \<Rightarrow> blink) \<Rightarrow> blink list \<Rightarrow> blink list" where
  "update_at l g [] = []"
| "update_at l g (b # bs) = (if location b = l then g b # bs else b # update_at l g bs)"

definition blink_find :: "u16 \<Rightarrow> blink list \<Rightarrow> blink option" where
  "blink_find l bs = find (\<lambda>b. location b = l) bs"

definition synced :: "'y blink_scheme \<Rightarrow> 'z blink_scheme \<Rightarrow> 'z blink_scheme" where
  "synced b c = c\<lparr>on_length := on_length b, off_length := off_length b, countdown := countdown b, status := status b\<rparr>"

lemma drop_at_split:
  "location b = l \<Longrightarrow> \<forall>x\<in>set xs. location x \<noteq> l \<Longrightarrow> drop_at l (xs @ b # ys) = xs @ ys"
  by (induction xs) auto

lemma update_at_split:
  "location b = l \<Longrightarrow> \<forall>x\<in>set xs. location x \<noteq> l \<Longrightarrow> update_at l g (xs @ b # ys) = xs @ g b # ys"
  by (induction xs) auto

lemma find_loop_find:
  "blink_path f p ps \<Longrightarrow> find_loop l p f = Some (find (\<lambda>i. location (blink_at f i) = l) ps)"
proof (induction ps arbitrary: p)
  case Nil
  then show ?case by (subst find_loop.simps) simp
next
  case (Cons i ps)
  then show ?case by (subst find_loop.simps) simp
qed

lemma find_helper_find:
  "fish_wf f ps \<Longrightarrow> mp1_find_helper arg f = Some (find (\<lambda>i. location (blink_at f i) = ucast arg) ps)"
  by (simp add: mp1_find_helper_def fish_wf_def find_loop_find)

lemma blink_find_find:
  "blink_find l (blinks f ps) = map_option (\<lambda>i. blink.truncate (blink_at f i)) (find (\<lambda>i. location (blink_at f i) = l) ps)"
  unfolding blink_find_def blinks_def by (induction ps) auto

lemma malloc_scan_find:
  "malloc_scan f i n = find (\<lambda>j. location (blink_at f j) = 0) [i..<i + n]"
  by (induction n arbitrary: i) (auto simp: upt_conv_Cons simp del: upt_Suc)

lemma full_iff:
  assumes "set ps \<subseteq> {..<n}" "distinct ps"
  shows "length ps = n \<longleftrightarrow> (\<forall>j<n. j \<in> set ps)"
proof -
  have "length ps = n \<longleftrightarrow> card (set ps) = n" by (simp add: distinct_card[OF assms(2)])
  also have "\<dots> \<longleftrightarrow> set ps = {..<n}"
    using card_subset_eq[of "{..<n}" "set ps"] assms(1) by (metis card_lessThan finite_lessThan)
  also have "\<dots> \<longleftrightarrow> {..<n} \<subseteq> set ps" using assms(1) by blast
  finally show ?thesis by blast
qed

lemma malloc_None:
  assumes "fish_wf f ps"
  shows "mp1_malloc f = None \<longleftrightarrow> length ps = BLINKS"
proof -
  have "set ps \<subseteq> {..<BLINKS}"
    using assms blink_path_bound[of f "mp1_list_head f" ps] unfolding fish_wf_def by (metis lessThan_iff subsetI)
  then have "length ps = BLINKS \<longleftrightarrow> (\<forall>j<BLINKS. j \<in> set ps)" by (rule full_iff[OF _ fish_wf_distinct[OF assms]])
  also have "\<dots> \<longleftrightarrow> (\<forall>j<BLINKS. location (blink_at f j) \<noteq> 0)" using assms unfolding fish_wf_def by metis
  finally show ?thesis unfolding mp1_malloc_def malloc_scan_find by (simp add: find_None_iff)
qed

lemma malloc_bound: "mp1_malloc f = Some p \<Longrightarrow> p < BLINKS \<and> location (blink_at f p) = 0 \<and> (\<forall>j<p. location (blink_at f j) \<noteq> 0)"
  by (auto simp: mp1_malloc_def malloc_scan_find find_Some_iff)

lemma malloc_Some:
  assumes "fish_wf f ps" "mp1_malloc f = Some p"
  shows "p < BLINKS" "p \<notin> set ps" "location (blink_at f p) = 0"
proof -
  show "p < BLINKS" "location (blink_at f p) = 0" using malloc_bound[OF assms(2)] by auto
  then show "p \<notin> set ps" using assms(1) by (auto simp: fish_wf_def)
qed

text \<open>Adding puts the started blink in front, unless its location is off the screen or the pool is full.\<close>

definition add_blink :: "blink_struct \<Rightarrow> nat \<Rightarrow> fish \<Rightarrow> fish" where
  "add_blink b p f = (blink_upd p (\<lambda>_. (started b)\<lparr>next_p := mp1_list_head f\<rparr>) f)\<lparr>mp1_list_head := Some p\<rparr>"

lemma ioctl_add_eq:
  assumes "length (blink_array f) = BLINKS"
  shows "mp1_ioctl_add b f s =
     (if location b \<ge> 80 * 25 then Some (-1, f, s)
      else case mp1_malloc f of None \<Rightarrow> Some (-1, f, s)
        | Some p \<Rightarrow> do { s \<leftarrow> draw (vmem_base_addr f) b (on_char b) s; Some (0, add_blink b p f, s) })"
proof -
  have "p < length (blink_array f)" if "mp1_malloc f = Some p" for p
    using malloc_bound[OF that] assms by simp
  moreover have "blink_upd p (\<lambda>b. b\<lparr>next_p := q\<rparr>) (blink_upd p (\<lambda>_. c) f) = blink_upd p (\<lambda>_. c\<lparr>next_p := q\<rparr>) f" for p q c
    by (simp add: blink_upd_twice)
  ultimately show ?thesis
    by (auto simp: mp1_ioctl_add_def Let_def mp1_poke_def draw_def add_blink_def started_def blink_at_upd split: option.splits)
qed

lemma truncate_started: "blink.truncate ((started b)\<lparr>next_p := x\<rparr>) = started (blink.truncate b)"
  by (cases b) (simp add: started_def blink.truncate_def)

lemma add_blink_wf:
  assumes wf: "fish_wf f ps" and p: "mp1_malloc f = Some p" and l: "location b \<noteq> 0" "location b < 80 * 25"
  shows "fish_wf (add_blink b p f) (p # ps)" "blinks (add_blink b p f) (p # ps) = started (blink.truncate b) # blinks f ps"
proof -
  note P = malloc_Some[OF wf p] and W = wf[unfolded fish_wf_def]
  have at: "blink_at (add_blink b p f) j = (if j = p then (started b)\<lparr>next_p := mp1_list_head f\<rparr> else blink_at f j)" for j
    using P W by (simp add: add_blink_def blink_at_upd)
  have "blink_path (add_blink b p f) q ps = blink_path f q ps" for q
    by (rule blink_path_cong) (use P in \<open>auto simp: at\<close>, simp add: add_blink_def)
  then show "fish_wf (add_blink b p f) (p # ps)"
    using W P l by (auto simp: fish_wf_def at) (auto simp: add_blink_def started_def)
  show "blinks (add_blink b p f) (p # ps) = started (blink.truncate b) # blinks f ps"
    using P(2) by (auto simp: blinks_def at truncate_started)
qed

section \<open>Removal\<close>

lemma find_prev_last:
  "blink_path f (get_link f l) (xs @ q # ys) \<Longrightarrow> distinct (xs @ q # ys) \<Longrightarrow>
     find_prev q l f = Some (if xs = [] then l else Some (last xs))"
proof (induction xs arbitrary: l)
  case Nil
  then show ?case by (subst find_prev.simps) simp
next
  case (Cons i xs)
  then have "find_prev q (Some i) f = Some (if xs = [] then Some i else Some (last xs))"
    by (intro Cons.IH) (auto simp: get_link_def)
  with Cons.prems show ?case by (subst find_prev.simps) auto
qed

lemma blink_path_unlink:
  "blink_path f p (xs @ q # ys) \<Longrightarrow> distinct (xs @ q # ys) \<Longrightarrow> xs \<noteq> [] \<Longrightarrow>
     blink_path (blink_upd (last xs) (\<lambda>b. b\<lparr>next_p := next_p (blink_at f q)\<rparr>) f) p (xs @ ys)"
proof (induction xs arbitrary: p)
  case Nil
  then show ?case by simp
next
  case (Cons i xs)
  then show ?case
    by (cases "xs = []") (auto simp: blink_at_upd)
qed

definition remove_blink :: "nat list \<Rightarrow> nat \<Rightarrow> fish \<Rightarrow> fish" where
  "remove_blink xs q f = mp1_free q (set_link (if xs = [] then None else Some (last xs)) (next_p (blink_at f q)) f)"

lemma remove_blink_wf:
  assumes wf: "fish_wf f (xs @ q # ys)"
  shows "fish_wf (remove_blink xs q f) (xs @ ys)" "blinks (remove_blink xs q f) (xs @ ys) = blinks f (xs @ ys)"
    "vmem_base_addr (remove_blink xs q f) = vmem_base_addr f"
proof -
  note W = wf[unfolded fish_wf_def] and d = fish_wf_distinct[OF wf]
  have q: "q < length (blink_array f)" using W blink_path_bound[of f "mp1_list_head f" "xs @ q # ys" q] by auto
  have at: "blink.truncate (blink_at (remove_blink xs q f) i) =
      (if i = q then blink.truncate blank_blink else blink.truncate (blink_at f i))" for i
    using q by (auto simp: remove_blink_def mp1_free_def set_link_def blink_at_upd blink.truncate_def)
  have "location b = location (blink.truncate b)" for b :: blink_struct by simp
  then have loc: "location (blink_at (remove_blink xs q f) i) = (if i = q then 0 else location (blink_at f i))" for i
    using at[of i] by (auto simp: blank_blink_def simp del: truncate_simps) (simp_all add: blink.truncate_def)
  have len: "length (blink_array (remove_blink xs q f)) = length (blink_array f)"
    by (simp add: remove_blink_def mp1_free_def set_link_def)
  have path: "blink_path (remove_blink xs q f) (mp1_list_head (remove_blink xs q f)) (xs @ ys)"
  proof (cases "xs = []")
    case True
    have "blink_path (remove_blink xs q f) r ys = blink_path f r ys" for r
      using d True by (intro blink_path_cong) (auto simp: remove_blink_def mp1_free_def set_link_def blink_at_upd)
    with True W show ?thesis by (auto simp: remove_blink_def mp1_free_def set_link_def)
  next
    case False
    then have "blink_path (blink_upd (last xs) (\<lambda>b. b\<lparr>next_p := next_p (blink_at f q)\<rparr>) f) (mp1_list_head f) (xs @ ys)"
      using W d by (intro blink_path_unlink) auto
    then show ?thesis using False d by (simp add: remove_blink_def mp1_free_def set_link_def)
  qed
  show "fish_wf (remove_blink xs q f) (xs @ ys)"
    using W path d unfolding fish_wf_def loc len by auto
  show "blinks (remove_blink xs q f) (xs @ ys) = blinks f (xs @ ys)"
    using d by (auto simp: blinks_def at)
  show "vmem_base_addr (remove_blink xs q f) = vmem_base_addr f"
    by (simp add: remove_blink_def mp1_free_def set_link_def split: option.split)
qed

section \<open>The abstract list\<close>

text \<open>What the calls do on a list of blinks and the screen at \<open>base\<close>, without cells and pointers.\<close>

definition ioctl_spec :: "u32 \<Rightarrow> u32 \<Rightarrow> blink \<Rightarrow> u32 \<Rightarrow> blink list \<Rightarrow> 'z machine_scheme \<Rightarrow>
    (i32 \<times> blink \<times> blink list \<times> 'z machine_scheme) option" where
  "ioctl_spec base arg b cmd bs s =
     (if cmd = 0 then
        if location b \<ge> 80 * 25 \<or> length bs = BLINKS then Some (-1, b, bs, s)
        else do { s \<leftarrow> draw base b (on_char b) s; Some (0, b, started b # bs, s) }
      else if cmd = 1 then
        Some (if blink_find (ucast arg) bs = None then (-1, b, bs, s) else (0, b, drop_at (ucast arg) bs, s))
      else if cmd = 2 then
        Some (case blink_find (location b) bs of None \<Rightarrow> (-1, b, bs, s) | Some c \<Rightarrow> (0, c, bs, s))
      else if cmd = 3 then
        (case blink_find (ucast (drop_bit 16 arg)) bs of None \<Rightarrow> Some (-1, b, bs, s)
         | Some a \<Rightarrow> (case blink_find (ucast arg) bs of None \<Rightarrow> Some (-1, b, bs, s)
           | Some c \<Rightarrow> do { s \<leftarrow> draw base c (off_char c) s; Some (0, b, update_at (ucast arg) (synced a) bs, s) }))
      else None)"

definition represents :: "fish \<Rightarrow> blink list \<Rightarrow> bool" where
  "represents f bs \<longleftrightarrow> (\<exists>ps. fish_wf f ps \<and> blinks f ps = bs)"

definition ioctl_sim :: "fish \<Rightarrow> i32 \<times> blink_struct \<times> fish \<times> 'z machine_scheme \<Rightarrow>
    i32 \<times> blink \<times> blink list \<times> 'z machine_scheme \<Rightarrow> bool" where
  "ioctl_sim f = (\<lambda>(r, b, f', s) (r', b', bs, s'). r = r' \<and> blink.truncate b = b' \<and> represents f' bs \<and>
     vmem_base_addr f' = vmem_base_addr f \<and> s = s')"

lemma draw_truncate [simp]: "draw base (blink.truncate b) = draw base b"
  by (simp add: draw_def fun_eq_iff)

lemma draw_update [simp]:
  "draw base (b\<lparr>on_length := n\<rparr>) = draw base b" "draw base (b\<lparr>off_length := n\<rparr>) = draw base b"
  "draw base (b\<lparr>countdown := n\<rparr>) = draw base b" "draw base (b\<lparr>status := n\<rparr>) = draw base b"
  by (simp_all add: draw_def fun_eq_iff)

lemma sync_char_off: "sync_char b = off_char b"
  by (simp add: sync_char_def Let_def bit_and_iff bit_1_iff)

text \<open>Splitting the cells of the list at the first blink with a location.\<close>

lemma find_split:
  assumes "find P ps = Some p"
  obtains xs ys where "ps = xs @ p # ys" "P p" "\<forall>x\<in>set xs. \<not> P x"
proof -
  from assms obtain i where i: "i < length ps" "P (ps ! i)" "p = ps ! i" "\<forall>j<i. \<not> P (ps ! j)"
    by (auto simp: find_Some_iff)
  have "\<forall>x\<in>set (take i ps). \<not> P x" using i by (auto simp: in_set_conv_nth)
  with i that[of "take i ps" "drop (Suc i) ps"] show thesis by (simp add: id_take_nth_drop)
qed

lemma represents_length: "represents f bs \<Longrightarrow> fish_wf f ps \<Longrightarrow> length bs = length ps"
  unfolding represents_def fish_wf_def blinks_def by (metis blink_path_unique length_map)

lemma low_half: "(ucast (arg AND 0xFFFF) :: u16) = ucast (arg :: u32)"
proof -
  have m: "(0xFFFF :: u32) = mask 16" by (simp add: mask_eq_exp_minus_1)
  show ?thesis unfolding m by (rule bit_word_eqI) (auto simp: bit_simps)
qed

lemma half_back [simp]: "(ucast (ucast (l :: u16) :: u32) :: u16) = l"
  by (rule bit_word_eqI) (auto simp: bit_simps)

lemma ioctl_add_sim:
  assumes wf: "fish_wf f ps" and l: "location b \<noteq> 0"
  shows "rel_option (ioctl_sim f) (mp1_ioctl arg b 0 f s) (ioctl_spec (vmem_base_addr f) arg (blink.truncate b) 0 (blinks f ps) s)"
proof -
  have len: "length (blinks f ps) = length ps" by (simp add: blinks_def)
  have r: "represents f (blinks f ps)" using wf by (auto simp: represents_def)
  show ?thesis
  proof (cases "location b \<ge> 80 * 25 \<or> mp1_malloc f = None")
    case True
    then show ?thesis using malloc_None[OF wf] r
      by (auto simp: mp1_ioctl_def ioctl_add_eq[OF fish_wf_length[OF wf]] ioctl_spec_def len ioctl_sim_def)
  next
    case False
    then obtain p where p: "mp1_malloc f = Some p" and l': "location b < 80 * 25" by auto
    have "represents (add_blink b p f) (started (blink.truncate b) # blinks f ps)"
      using add_blink_wf[OF wf p l l'] by (auto simp: represents_def)
    moreover have "length ps \<noteq> BLINKS" using malloc_None[OF wf] p by simp
    moreover have "vmem_base_addr (add_blink b p f) = vmem_base_addr f" by (simp add: add_blink_def)
    ultimately show ?thesis using l'[unfolded not_le[symmetric]] p
      by (cases "draw (vmem_base_addr f) b (on_char b) s")
        (simp_all add: mp1_ioctl_def ioctl_add_eq[OF fish_wf_length[OF wf]] ioctl_spec_def len ioctl_sim_def)
  qed
qed

lemma ioctl_remove_sim:
  assumes wf: "fish_wf f ps"
  shows "rel_option (ioctl_sim f) (mp1_ioctl arg b 1 f s) (ioctl_spec (vmem_base_addr f) arg (blink.truncate b) 1 (blinks f ps) s)"
proof (cases "find (\<lambda>i. location (blink_at f i) = ucast arg) ps")
  case None
  then show ?thesis using wf
    by (auto simp: mp1_ioctl_def mp1_ioctl_remove_def find_helper_find[OF wf] ioctl_spec_def blink_find_find ioctl_sim_def represents_def)
next
  case (Some q)
  then obtain xs ys where ps: "ps = xs @ q # ys" and q: "location (blink_at f q) = ucast arg"
    and xs: "\<forall>x\<in>set xs. location (blink_at f x) \<noteq> ucast arg" by (rule find_split)
  note wf' = wf[unfolded ps]
  have pr: "find_prev q None f = Some (if xs = [] then None else Some (last xs))"
    using wf' fish_wf_distinct[OF wf'] by (intro find_prev_last) (auto simp: fish_wf_def get_link_def)
  have m: "mp1_ioctl_remove arg f s = Some (0, remove_blink xs q f, s)"
    unfolding mp1_ioctl_remove_def find_helper_find[OF wf] Some
    by (cases "xs = []") (simp_all add: pr remove_blink_def Let_def)
  have dr: "drop_at (ucast arg) (blinks f ps) = blinks f (xs @ ys)"
    unfolding ps blinks_def map_append list.map using q xs by (intro drop_at_split) auto
  have "represents (remove_blink xs q f) (blinks f (xs @ ys))"
    using remove_blink_wf[OF wf'] by (auto simp: represents_def)
  then show ?thesis using remove_blink_wf(3)[OF wf'] dr Some
    by (auto simp: mp1_ioctl_def m ioctl_spec_def blink_find_find ioctl_sim_def)
qed

lemma ioctl_find_sim:
  assumes wf: "fish_wf f ps"
  shows "rel_option (ioctl_sim f) (mp1_ioctl arg b 2 f s) (ioctl_spec (vmem_base_addr f) arg (blink.truncate b) 2 (blinks f ps) s)"
  using wf by (auto simp: mp1_ioctl_def mp1_ioctl_find_def find_helper_find[OF wf] ioctl_spec_def blink_find_find ioctl_sim_def
      represents_def split: option.splits)

lemma truncate_synced: "blink.truncate (synced b c) = synced b (blink.truncate c)"
  by (cases c) (simp add: synced_def blink.truncate_def)

lemma synced_truncate: "synced (blink.truncate b) = synced b"
  by (simp add: synced_def fun_eq_iff)

lemma synced_fields [simp]: "next_p (synced b c) = next_p c" "location (synced b d) = location d"
  "on_char (synced b d) = on_char d" "off_char (synced b d) = off_char d"
  "draw base (synced b d) = draw base d"
  by (simp_all add: synced_def draw_def)

lemma sync_blink_wf:
  assumes wf: "fish_wf f (xs @ q # ys)"
  shows "fish_wf (blink_upd q (synced b) f) (xs @ q # ys)"
    "blinks (blink_upd q (synced b) f) (xs @ q # ys) = blinks f xs @ synced b (blink.truncate (blink_at f q)) # blinks f ys"
proof -
  note W = wf[unfolded fish_wf_def] and d = fish_wf_distinct[OF wf]
  have q: "q < length (blink_array f)" using W blink_path_bound[of f "mp1_list_head f" "xs @ q # ys" q] by auto
  have loc: "location (blink_at (blink_upd q (synced b) f) i) = location (blink_at f i)" for i
    by (simp add: blink_at_upd)
  have "blink_path (blink_upd q (synced b) f) p zs = blink_path f p zs" for p zs
    by (rule blink_path_cong) (simp_all add: blink_at_upd)
  then show "fish_wf (blink_upd q (synced b) f) (xs @ q # ys)" using W by (simp add: fish_wf_def loc)
  show "blinks (blink_upd q (synced b) f) (xs @ q # ys) = blinks f xs @ synced b (blink.truncate (blink_at f q)) # blinks f ys"
    using d q by (auto simp: blinks_def blink_at_upd truncate_synced)
qed

lemma ioctl_sync_eq:
  assumes wf: "fish_wf f ps" and e: "find (\<lambda>i. location (blink_at f i) = ucast (drop_bit 16 arg)) ps = Some e"
    and q: "find (\<lambda>i. location (blink_at f i) = ucast arg) ps = Some q"
  shows "mp1_ioctl_sync arg f s =
     do { s \<leftarrow> draw (vmem_base_addr f) (blink_at f q) (off_char (blink_at f q)) s; Some (0, blink_upd q (synced (blink_at f e)) f, s) }"
proof -
  have lt: "q < length (blink_array f)"
    using find_Some_iff[of "\<lambda>i. location (blink_at f i) = ucast arg" ps q] q wf blink_path_bound[of f "mp1_list_head f" ps q]
    by (auto simp: fish_wf_def)
  have "(\<lambda>c :: blink_struct. c\<lparr>on_length := on_length b, off_length := off_length b, countdown := countdown b, status := status b\<rparr>) = synced b"
    for b :: blink_struct by (simp add: synced_def fun_eq_iff)
  then show ?thesis using lt
    by (simp add: mp1_ioctl_sync_def find_helper_find[OF wf] low_half e q Let_def blink_at_upd mp1_poke_def draw_def sync_char_off)
qed

lemma ioctl_sync_sim:
  assumes wf: "fish_wf f ps"
  shows "rel_option (ioctl_sim f) (mp1_ioctl arg b 3 f s) (ioctl_spec (vmem_base_addr f) arg (blink.truncate b) 3 (blinks f ps) s)"
proof (cases "find (\<lambda>i. location (blink_at f i) = ucast (drop_bit 16 arg)) ps")
  case None
  then show ?thesis using wf
    by (auto simp: mp1_ioctl_def mp1_ioctl_sync_def find_helper_find[OF wf] ioctl_spec_def blink_find_find ioctl_sim_def represents_def)
next
  case (Some e)
  have r: "represents f (blinks f ps)" using wf by (auto simp: represents_def)
  show ?thesis
  proof (cases "find (\<lambda>i. location (blink_at f i) = ucast arg) ps")
    case None
    with Some r show ?thesis
      by (simp add: mp1_ioctl_def mp1_ioctl_sync_def find_helper_find[OF wf] low_half ioctl_spec_def blink_find_find ioctl_sim_def)
  next
    case q: (Some q)
    then obtain xs ys where ps: "ps = xs @ q # ys" and lq: "location (blink_at f q) = ucast arg"
      and xs: "\<forall>x\<in>set xs. location (blink_at f x) \<noteq> ucast arg" by (rule find_split)
    have up: "update_at (ucast arg) g (blinks f ps) = blinks f xs @ g (blink.truncate (blink_at f q)) # blinks f ys" for g
      unfolding ps blinks_def map_append list.map using lq xs by (intro update_at_split) auto
    have "represents (blink_upd q (synced (blink_at f e)) f) (update_at (ucast arg) (synced (blink_at f e)) (blinks f ps))"
      using sync_blink_wf[OF wf[unfolded ps]] unfolding up by (auto simp: represents_def)
    then show ?thesis
      by (cases "draw (vmem_base_addr f) (blink_at f q) (off_char (blink_at f q)) s")
        (simp_all add: mp1_ioctl_def ioctl_sync_eq[OF wf Some q] ioctl_spec_def blink_find_find Some q ioctl_sim_def synced_truncate)
  qed
qed

text \<open>
  C17: the calls implement operations on a list.  For every pool that represents a list of blinks, every
  command (an addition at location \<open>0\<close> apart) and every argument, \<open>mp1_ioctl\<close> returns what \<open>ioctl_spec\<close> returns
  on the list, leaves the caller's structure and the screen as that does, and leaves a well-formed pool
  that represents the resulting list; where one faults, so does the other.
\<close>

theorem mp1_ioctl_refines:
  assumes r: "represents f bs" and l: "cmd = 0 \<longrightarrow> location b \<noteq> 0"
  shows "rel_option (ioctl_sim f) (mp1_ioctl arg b cmd f s) (ioctl_spec (vmem_base_addr f) arg (blink.truncate b) cmd bs s)"
proof -
  obtain ps where ps: "fish_wf f ps" "bs = blinks f ps" using r by (auto simp: represents_def)
  consider "cmd = 0" | "cmd = 1" | "cmd = 2" | "cmd = 3" | "cmd \<notin> {0, 1, 2, 3}" by blast
  then show ?thesis
  proof cases
    case 1
    with l have "location b \<noteq> 0" by simp
    then show ?thesis unfolding 1 ps(2) by (rule ioctl_add_sim[OF ps(1)])
  next
    case 2
    show ?thesis unfolding 2 ps(2) by (rule ioctl_remove_sim[OF ps(1)])
  next
    case 3
    show ?thesis unfolding 3 ps(2) by (rule ioctl_find_sim[OF ps(1)])
  next
    case 4
    show ?thesis unfolding 4 ps(2) by (rule ioctl_sync_sim[OF ps(1)])
  next
    case 5
    then show ?thesis by (simp add: mp1_ioctl_def ioctl_spec_def)
  qed
qed

section \<open>The screen\<close>

text \<open>\<open>vmem_base_addr\<close> maps the 4000 bytes of the screen at the physical address \<open>c\<close>.\<close>

definition maps_screen :: "u32 \<Rightarrow> u32 \<Rightarrow> 'z machine_scheme \<Rightarrow> bool" where
  "maps_screen base c s \<longleftrightarrow> (\<forall>k<4000. translate s (base + of_nat k) = Some (c + of_nat k))"

definition shown_char :: "'z blink_scheme \<Rightarrow> u8" where
  "shown_char b = (if lit_up b then on_char b else off_char b)"

definition shows_blinks :: "u32 \<Rightarrow> blink list \<Rightarrow> 'z machine_scheme \<Rightarrow> bool" where
  "shows_blinks c bs s \<longleftrightarrow> (\<forall>b\<in>set bs. phys s (c + cell_offset (location b)) = shown_char b)"

definition on_screen :: "blink list \<Rightarrow> bool" where
  "on_screen bs \<longleftrightarrow> distinct (map location bs) \<and> (\<forall>b\<in>set bs. location b < 80 * 25)"

lemma unat_cell_offset: "unat (cell_offset l) = 2 * unat l"
proof -
  have "unat l < 2 ^ 16" using unsigned_less[of l] by simp
  then show ?thesis
    by (simp add: cell_offset_def push_bit_eq_mult unat_mult_lem[THEN iffD1] unsigned_ucast_eq take_bit_nat_eq_self)
qed

lemma cell_offset_nat: "cell_offset l = of_nat (2 * unat l)"
  using unat_cell_offset[of l] by (metis of_nat_unat ucast_id)

lemma cell_offset_inj: "cell_offset l = cell_offset m \<longleftrightarrow> l = m"
  using unat_cell_offset[of l] unat_cell_offset[of m] by (auto simp: word_unat_eq_iff)

lemma draw_phys:
  assumes "maps_screen base c s" "location b < 80 * 25"
  shows "draw base b ch s = Some (s\<lparr>phys := (phys s)(c + cell_offset (location b) := ch)\<rparr>)"
proof -
  have "2 * unat (location b) < 4000" using assms(2) by (simp add: word_less_nat_alt)
  with assms(1) have "translate s (base + cell_offset (location b)) = Some (c + cell_offset (location b))"
    unfolding maps_screen_def cell_offset_nat by blast
  then show ?thesis by (simp add: draw_def vwrite_def)
qed

lemma maps_screen_phys [simp]: "maps_screen base c (s\<lparr>phys := p\<rparr>) = maps_screen base c s"
  by (simp add: maps_screen_def)

lemma odd_flip: "((w :: u16) XOR 1) AND 1 \<noteq> 0 \<longleftrightarrow> w AND 1 = 0"
proof -
  have "(w XOR 1) AND 1 \<noteq> 0 \<longleftrightarrow> odd (w XOR 1)" "w AND 1 = 0 \<longleftrightarrow> even w"
    by (simp_all add: and_one_eq mod_2_eq_odd)
  then show ?thesis by (simp add: even_xor_iff)
qed

lemma lit_up_tick: "lit_up (tick b) \<longleftrightarrow> (if due b then \<not> lit_up b else lit_up b)"
  using odd_flip[of "status b"] by (simp add: tick_def lit_up_def)

lemma shown_tick: "shown_char (tick b) = (if due b then if lit_up b then off_char b else on_char b else shown_char b)"
  by (simp add: shown_char_def lit_up_tick)

lemma draw_due_shows:
  assumes "maps_screen base c s" "on_screen bs"
  shows "\<exists>p. draw_due base bs s = Some (s\<lparr>phys := p\<rparr>) \<and>
    (\<forall>b\<in>set bs. p (c + cell_offset (location b)) =
       (if due b then shown_char (tick b) else phys s (c + cell_offset (location b)))) \<and>
    (\<forall>l. l \<notin> location ` set bs \<longrightarrow> p (c + cell_offset l) = phys s (c + cell_offset l))"
  using assms
proof (induction bs arbitrary: s)
  case Nil
  show ?case by (intro exI[of _ "phys s"]) simp
next
  case (Cons b bs)
  define q where "q = (if due b then (phys s)(c + cell_offset (location b) := shown_char (tick b)) else phys s)"
  have st: "(if due b then draw base b (if lit_up b then off_char b else on_char b) s else Some s) = Some (s\<lparr>phys := q\<rparr>)"
    using Cons.prems by (simp add: q_def draw_phys on_screen_def shown_tick)
  have "on_screen bs" using Cons.prems(2) by (simp add: on_screen_def)
  with Cons.IH[of "s\<lparr>phys := q\<rparr>"] Cons.prems(1) obtain p where p: "draw_due base bs (s\<lparr>phys := q\<rparr>) = Some (s\<lparr>phys := p\<rparr>)"
    "\<forall>b\<in>set bs. p (c + cell_offset (location b)) = (if due b then shown_char (tick b) else q (c + cell_offset (location b)))"
    "\<forall>l. l \<notin> location ` set bs \<longrightarrow> p (c + cell_offset l) = q (c + cell_offset l)" by auto
  have b: "location b \<notin> location ` set bs" using Cons.prems(2) by (simp add: on_screen_def)
  have q: "q (c + cell_offset l) = phys s (c + cell_offset l)" if "l \<noteq> location b" for l
    using that by (simp add: q_def cell_offset_inj)
  have "p (c + cell_offset (location x)) = (if due x then shown_char (tick x) else phys s (c + cell_offset (location x)))"
    if "x \<in> set bs" for x
  proof -
    have "location x \<noteq> location b" using that b by (metis image_eqI)
    with p(2) that q show ?thesis by simp
  qed
  moreover have "p (c + cell_offset (location b)) = (if due b then shown_char (tick b) else phys s (c + cell_offset (location b)))"
    using p(3) b by (auto simp: q_def)
  ultimately show ?case
    using p(1,3) q by (intro exI[of _ p]) (simp add: st)
qed

lemma tasklet_represents:
  assumes "represents f bs"
  shows "\<exists>f'. represents f' (map tick bs) \<and> vmem_base_addr f' = vmem_base_addr f \<and>
    mp1_rtc_tasklet f s = map_option (Pair f') (draw_due (vmem_base_addr f) bs s)"
proof -
  from assms obtain ps where ps: "fish_wf f ps" "bs = blinks f ps" by (auto simp: represents_def)
  note W = ps(1)[unfolded fish_wf_def]
  have path: "blink_path f (mp1_list_head f) ps" using W by blast
  note d = blink_path_distinct[OF path] and at = blink_at_tick[OF blink_path_distinct[OF path] blink_path_bound[OF path]]
  have "blink_path (tick_cells ps f) p qs = blink_path f p qs" for p qs
    by (rule blink_path_cong) (auto simp: at)
  then have "fish_wf (tick_cells ps f) ps" using W by (auto simp: fish_wf_def at)
  moreover have "blinks (tick_cells ps f) ps = map tick (blinks f ps)"
    by (simp add: blinks_def at truncate_tick)
  ultimately have "represents (tick_cells ps f) (map tick bs)" unfolding represents_def ps(2) by blast
  then show ?thesis
    using tasklet_loop_ticks[OF path d, of s] ps(2) by (intro exI[of _ "tick_cells ps f"]) (simp add: mp1_rtc_tasklet_def)
qed

text \<open>A pool whose blinks are distinct places of the screen, each showing its current character.\<close>

definition fish_shows :: "u32 \<Rightarrow> fish \<times> 'z machine_scheme \<Rightarrow> blink list \<Rightarrow> bool" where
  "fish_shows c = (\<lambda>(f, s) bs. represents f bs \<and> maps_screen (vmem_base_addr f) c s \<and> on_screen bs \<and> shows_blinks c bs s)"

lemma tasklet_shows:
  assumes "fish_shows c (f, s) bs"
  shows "\<exists>f' s'. mp1_rtc_tasklet f s = Some (f', s') \<and> fish_shows c (f', s') (map tick bs)"
proof -
  from assms have a: "represents f bs" "maps_screen (vmem_base_addr f) c s" "on_screen bs" "shows_blinks c bs s"
    by (auto simp: fish_shows_def)
  obtain f' where f': "represents f' (map tick bs)" "vmem_base_addr f' = vmem_base_addr f"
    "mp1_rtc_tasklet f s = map_option (Pair f') (draw_due (vmem_base_addr f) bs s)"
    using tasklet_represents[OF a(1)] by blast
  obtain p where p: "draw_due (vmem_base_addr f) bs s = Some (s\<lparr>phys := p\<rparr>)"
    "\<forall>b\<in>set bs. p (c + cell_offset (location b)) = (if due b then shown_char (tick b) else phys s (c + cell_offset (location b)))"
    using draw_due_shows[OF a(2,3)] by blast
  have "shows_blinks c (map tick bs) (s\<lparr>phys := p\<rparr>)"
    using p(2) a(4) by (auto simp: shows_blinks_def shown_tick)
  moreover have "on_screen (map tick bs)" using a(3) by (auto simp: on_screen_def comp_def)
  ultimately show ?thesis
    using f' p(1) a(2) by (auto simp: fish_shows_def)
qed

lemma add_shows:
  assumes sh: "fish_shows c (f, s) bs" and l: "location b \<noteq> 0" and fresh: "location b \<notin> location ` set bs"
  shows "\<exists>r f' s' bs'. mp1_ioctl arg b 0 f s = Some (r, b, f', s') \<and> fish_shows c (f', s') bs' \<and>
     (if location b < 80 * 25 \<and> length bs < BLINKS
      then r = 0 \<and> bs' = started (blink.truncate b) # bs \<and> s' = s\<lparr>phys := (phys s)(c + cell_offset (location b) := on_char b)\<rparr>
      else r = -1 \<and> f' = f \<and> s' = s \<and> bs' = bs)"
proof -
  from sh have a: "represents f bs" "maps_screen (vmem_base_addr f) c s" "on_screen bs" "shows_blinks c bs s"
    by (auto simp: fish_shows_def)
  then obtain ps where wf: "fish_wf f ps" and bs: "bs = blinks f ps" by (auto simp: represents_def)
  have len: "length bs = length ps" by (simp add: bs blinks_def)
  show ?thesis
  proof (cases "location b < 80 * 25 \<and> length bs < BLINKS")
    case True
    then obtain p where p: "mp1_malloc f = Some p" using malloc_None[OF wf] len by (cases "mp1_malloc f") auto
    let ?s = "s\<lparr>phys := (phys s)(c + cell_offset (location b) := on_char b)\<rparr>"
    have d: "draw (vmem_base_addr f) b (on_char b) s = Some ?s" using True by (intro draw_phys[OF a(2)]) simp
    have "represents (add_blink b p f) (started (blink.truncate b) # bs)"
      using add_blink_wf[OF wf p l] True bs by (auto simp: represents_def)
    moreover have "shows_blinks c (started (blink.truncate b) # bs) ?s"
      using a(4) fresh by (auto simp: shows_blinks_def started_def shown_char_def lit_up_def cell_offset_inj image_iff)
    moreover have "on_screen (started (blink.truncate b) # bs)"
      using a(3) fresh True by (auto simp: on_screen_def started_def)
    ultimately have "fish_shows c (add_blink b p f, ?s) (started (blink.truncate b) # bs)"
      using a(2) by (simp add: fish_shows_def add_blink_def)
    then show ?thesis using True p d
      by (intro exI[of _ 0] exI[of _ "add_blink b p f"] exI[of _ ?s]) (auto simp: mp1_ioctl_def ioctl_add_eq[OF fish_wf_length[OF wf]])
  next
    case False
    have "length ps \<le> BLINKS"
    proof -
      have "set ps \<subseteq> {..<BLINKS}"
        using wf blink_path_bound[of f "mp1_list_head f" ps] unfolding fish_wf_def by (metis lessThan_iff subsetI)
      then have "card (set ps) \<le> card {..<BLINKS}" by (intro card_mono) simp_all
      then show ?thesis by (simp add: distinct_card[OF fish_wf_distinct[OF wf]])
    qed
    then have "location b \<ge> 80 * 25 \<or> mp1_malloc f = None" using False malloc_None[OF wf] len by (auto simp: not_less)
    then have "mp1_ioctl arg b 0 f s = Some (-1, b, f, s)" by (auto simp: mp1_ioctl_def ioctl_add_eq[OF fish_wf_length[OF wf]])
    with sh False show ?thesis by auto
  qed
qed

section \<open>Runs\<close>

text \<open>The pool after \<open>main\<close> has cleared it.\<close>

definition empty_fish :: "u32 \<Rightarrow> fish" where
  "empty_fish base = \<lparr>blink_array = replicate BLINKS blank_blink, mp1_list_head = None, vmem_base_addr = base\<rparr>"

text \<open>
  The steps of a client that adds at places of the screen where there is no blink yet, other than the
  first one.
\<close>

inductive fish_step :: "fish \<times> 'z machine_scheme \<Rightarrow> fish \<times> 'z machine_scheme \<Rightarrow> bool" where
  fish_add: "mp1_ioctl arg b 0 f s = Some (r, b', f', s') \<Longrightarrow> location b \<noteq> 0 \<Longrightarrow>
      mp1_find_helper (ucast (location b)) f = Some None \<Longrightarrow> fish_step (f, s) (f', s')"
| fish_remove: "mp1_ioctl arg b 1 f s = Some (r, b', f', s') \<Longrightarrow> fish_step (f, s) (f', s')"
| fish_find: "mp1_ioctl arg b 2 f s = Some (r, b', f', s') \<Longrightarrow> fish_step (f, s) (f', s')"
| fish_tick: "mp1_rtc_tasklet f s = Some (f', s') \<Longrightarrow> fish_step (f, s) (f', s')"

lemma empty_fish_represents: "represents (empty_fish base) []"
proof -
  have "fish_wf (empty_fish base) []"
    by (simp add: fish_wf_def empty_fish_def blink_at_def blank_blink_def)
  then show ?thesis by (auto simp: represents_def blinks_def)
qed

lemma find_none_fresh:
  assumes "represents f bs" "mp1_find_helper (ucast l) f = Some None"
  shows "l \<notin> location ` set bs"
proof -
  obtain ps where ps: "fish_wf f ps" "bs = blinks f ps" using assms(1) by (auto simp: represents_def)
  have "find (\<lambda>i. location (blink_at f i) = l) ps = None" using assms(2) by (simp add: find_helper_find[OF ps(1)])
  then show ?thesis by (auto simp: ps(2) blinks_def find_None_iff)
qed

lemma drop_at_subset: "set (drop_at l bs) \<subseteq> set bs"
  by (induction bs) auto

lemma drop_at_on_screen: "on_screen bs \<Longrightarrow> on_screen (drop_at l bs)"
proof -
  have "distinct (map location (drop_at l bs))" if "distinct (map location bs)"
    using that drop_at_subset[of l] by (induction bs) (auto simp: image_iff subset_iff)
  then show "on_screen bs \<Longrightarrow> on_screen (drop_at l bs)" using drop_at_subset[of l bs] by (auto simp: on_screen_def)
qed

lemma fish_step_shows:
  assumes "fish_step (f, s) (f', s')" "fish_shows c (f, s) bs"
  shows "\<exists>bs'. fish_shows c (f', s') bs'"
proof -
  from assms(2) have a: "represents f bs" "maps_screen (vmem_base_addr f) c s" "on_screen bs" "shows_blinks c bs s"
    by (auto simp: fish_shows_def)
  from assms(1) show ?thesis
  proof cases
    case (fish_add arg b r b')
    then show ?thesis using add_shows[OF assms(2) _ find_none_fresh[OF a(1)], of b arg] by auto
  next
    case (fish_remove arg b r b')
    have "rel_option (ioctl_sim f) (mp1_ioctl arg b 1 f s) (ioctl_spec (vmem_base_addr f) arg (blink.truncate b) 1 bs s)"
      using a(1) ioctl_remove_sim by (auto simp: represents_def)
    with fish_remove have "s' = s" "vmem_base_addr f' = vmem_base_addr f" "represents f' bs \<or> represents f' (drop_at (ucast arg) bs)"
      by (auto simp: ioctl_sim_def ioctl_spec_def split: if_splits)
    with a show ?thesis using drop_at_subset[of "ucast arg" bs] drop_at_on_screen[of bs "ucast arg"]
      by (auto simp: fish_shows_def shows_blinks_def)
  next
    case (fish_find arg b r b')
    then have "f' = f" "s' = s" by (auto simp: mp1_ioctl_def bind_Some_iff)
    with assms(2) show ?thesis by blast
  next
    case fish_tick
    then show ?thesis using tasklet_shows[OF assms(2)] by auto
  qed
qed

text \<open>
  The blinks stay on the screen: after any number of additions at free places, removals, searches
  and ticks, the list is well formed, its blinks stand at different places of the screen, every one of
  them shows the character its status names, and the next tick returns.
\<close>

lemma fish_runs_show_screen:
  assumes run: "fish_step\<^sup>*\<^sup>* (empty_fish base, s0) (f, s)" and m: "maps_screen base c s0"
  shows "\<exists>bs f' s'. represents f bs \<and> distinct (map location bs) \<and>
    (\<forall>b\<in>set bs. phys s (c + cell_offset (location b)) = (if lit_up b then on_char b else off_char b)) \<and>
    mp1_rtc_tasklet f s = Some (f', s') \<and> represents f' (map tick bs)"
proof -
  have "fish_shows c (empty_fish base, s0) []"
    using m empty_fish_represents by (simp add: fish_shows_def on_screen_def shows_blinks_def) (simp add: empty_fish_def)
  with run have "\<exists>bs. fish_shows c (f, s) bs"
    by (induction "(f, s)" arbitrary: f s rule: rtranclp_induct) (auto dest: fish_step_shows)
  then obtain bs where bs: "fish_shows c (f, s) bs" by blast
  from tasklet_shows[OF this] bs show ?thesis
    by (fastforce simp: fish_shows_def on_screen_def shows_blinks_def shown_char_def)
qed

section \<open>Synchronisation\<close>

lemma blink_find_unique:
  "distinct (map location bs) \<Longrightarrow> b \<in> set bs \<Longrightarrow> blink_find (location b) bs = Some b"
  unfolding blink_find_def by (induction bs) (auto simp: image_iff)

lemma set_update_at:
  "distinct (map location bs) \<Longrightarrow> b \<in> set bs \<Longrightarrow> set (update_at (location b) g bs) = insert (g b) (set bs - {b})"
  by (induction bs) (auto simp: image_iff)

text \<open>
  C37: \<open>RTC_SYNC\<close> of two blinks gives the second one the intervals, the countdown and the status of the
  first, and writes its \<open>off_char\<close> whatever that status is: the screen is right after it only if the
  first blink is off or the second looks the same in both states.
\<close>

theorem mp1_sync_shows_off:
  assumes sh: "fish_shows c (f, s) bs" and a: "a \<in> set bs" and d: "d \<in> set bs"
    and arg: "ucast (drop_bit 16 arg) = location a" "ucast arg = location d"
  shows "\<exists>f' s' bs'. mp1_ioctl arg b 3 f s = Some (0, b, f', s') \<and> represents f' bs' \<and>
    set bs' = insert (synced a d) (set bs - {d}) \<and> phys s' (c + cell_offset (location d)) = off_char d \<and>
    (shows_blinks c bs' s' \<longleftrightarrow> \<not> lit_up a \<or> on_char d = off_char d)"
proof -
  from sh have A: "represents f bs" "maps_screen (vmem_base_addr f) c s" "on_screen bs" "shows_blinks c bs s"
    by (auto simp: fish_shows_def)
  then have di: "distinct (map location bs)" by (simp add: on_screen_def)
  let ?s = "s\<lparr>phys := (phys s)(c + cell_offset (location d) := off_char d)\<rparr>" and ?bs = "update_at (location d) (synced a) bs"
  have dr: "draw (vmem_base_addr f) d (off_char d) s = Some ?s" using A(3) d by (intro draw_phys[OF A(2)]) (simp add: on_screen_def)
  have "rel_option (ioctl_sim f) (mp1_ioctl arg b 3 f s) (ioctl_spec (vmem_base_addr f) arg (blink.truncate b) 3 bs s)"
    using A(1) ioctl_sync_sim by (auto simp: represents_def)
  moreover have "ioctl_spec (vmem_base_addr f) arg (blink.truncate b) 3 bs s = Some (0, blink.truncate b, ?bs, ?s)"
    using dr by (simp add: ioctl_spec_def arg blink_find_unique[OF di a] blink_find_unique[OF di d])
  ultimately obtain b' f' where m: "mp1_ioctl arg b 3 f s = Some (0, b', f', ?s)" "represents f' ?bs"
    by (auto simp: ioctl_sim_def elim!: option.rel_cases)
  then have b': "b' = b" by (auto simp: mp1_ioctl_def bind_Some_iff)
  have sb: "set ?bs = insert (synced a d) (set bs - {d})" by (rule set_update_at[OF di d])
  have other: "location x \<noteq> location d" if "x \<in> set bs - {d}" for x
    using that d di by (auto simp: distinct_map inj_on_def)
  have "shows_blinks c ?bs ?s \<longleftrightarrow> off_char d = shown_char (synced a d)"
    using A(4) other by (auto simp: shows_blinks_def sb cell_offset_inj)
  also have "\<dots> \<longleftrightarrow> \<not> lit_up a \<or> on_char d = off_char d"
    by (auto simp: shown_char_def lit_up_def synced_def)
  finally show ?thesis using m b' sb by (intro exI[of _ f'] exI[of _ ?s] exI[of _ ?bs]) simp
qed

section \<open>Location 0\<close>

lemma tasklet_self_loop:
  assumes "next_p (blink_at f p) = Some p"
  shows "tasklet_loop (Some p) f s = None"
proof -
  have "False" if "tasklet_loop e f s = Some r" "e = Some p" "next_p (blink_at f p) = Some p" for e f r and s :: "'z machine_scheme"
  proof -
    have "e = Some p \<and> next_p (blink_at f p) = Some p \<longrightarrow> False"
    proof (rule tasklet_loop.raw_induct[OF _ that(1), of "\<lambda>e f s r. e = Some p \<and> next_p (blink_at f p) = Some p \<longrightarrow> False"])
      fix w :: "nat option \<Rightarrow> fish \<Rightarrow> 'z machine_scheme \<Rightarrow> (fish \<times> 'z machine_scheme) option" and e f s r
      assume IH: "\<And>e f s r. w e f s = Some r \<Longrightarrow> e = Some p \<and> next_p (blink_at f p) = Some p \<longrightarrow> False"
        and W: "(case e of None \<Rightarrow> Some (f, s)
          | Some p \<Rightarrow>
              let f = blink_upd p (countdown_update (\<lambda>c. c - 1)) f; b = blink_at f p in
              if sint (countdown b) > 0 then w (next_p b) f s
              else do {
                let (cl, dx) = (if status b AND 1 \<noteq> 0 then (off_char b, off_length b) else (on_char b, on_length b));
                s \<leftarrow> mp1_poke f (cell_offset (location b)) cl s;
                let f = blink_upd p (\<lambda>b. b\<lparr>countdown := dx, status := status b XOR 1\<rparr>) f;
                w (next_p (blink_at f p)) f s }) = Some r"
      show "e = Some p \<and> next_p (blink_at f p) = Some p \<longrightarrow> False"
      proof (rule impI, elim conjE)
        assume e: "e = Some p" and n: "next_p (blink_at f p) = Some p"
        define g where "g = blink_upd p (countdown_update (\<lambda>c. c - 1)) f"
        have ng: "next_p (blink_at (blink_upd p h g) p) = Some p" "next_p (blink_at g p) = Some p"
          if "\<And>b. next_p (h b) = next_p b" for h using n that by (simp_all add: g_def blink_at_upd)
        show False
        proof (cases "sint (countdown (blink_at g p)) > 0")
          case True
          then have "w (Some p) g s = Some r" using W ng(2)[of id] by (simp add: e g_def[symmetric] Let_def)
          from IH[OF this] ng(2)[of id] show False by simp
        next
          case False
          then obtain dx t where "w (Some p) (blink_upd p (\<lambda>b. b\<lparr>countdown := dx, status := status b XOR 1\<rparr>) g) t = Some r"
            using W ng(1)
            by (cases "status (blink_at g p) AND 1 \<noteq> 0") (auto simp: e g_def[symmetric] Let_def bind_Some_iff)
          from IH[OF this] ng(1) show False by simp
        qed
      qed
    qed
    with that(2,3) show False by blast
  qed
  with assms show ?thesis by (metis option.exhaust)
qed

lemma malloc_again:
  assumes "mp1_malloc f = Some p" "length (blink_array f) = BLINKS" "location b = 0"
  shows "mp1_malloc (add_blink b p f) = Some p"
proof -
  note P = malloc_bound[OF assms(1)]
  have at: "location (blink_at (add_blink b p f) j) = (if j = p then 0 else location (blink_at f j))" for j
    using P assms by (simp add: add_blink_def blink_at_upd started_def)
  show ?thesis using P unfolding mp1_malloc_def malloc_scan_find find_Some_iff
    by (intro exI[of _ p]) (simp add: at)
qed

text \<open>
  C38: \<open>RTC_ADD\<close> accepts location \<open>0\<close>, which is how \<open>mp1_malloc\<close> recognises a free cell.  The next addition
  takes the same cell and links it to itself, and from then on \<open>mp1_rtc_tasklet\<close> does not return.
\<close>

theorem mp1_zero_location_hangs:
  assumes r: "represents f bs" "length bs < BLINKS" and m: "maps_screen (vmem_base_addr f) c s"
    and b: "location b = 0" and d: "location d < 80 * 25"
  shows "\<exists>f1 s1 f2 s2 p. mp1_ioctl arg b 0 f s = Some (0, b, f1, s1) \<and> mp1_ioctl arg d 0 f1 s1 = Some (0, d, f2, s2) \<and>
    mp1_list_head f2 = Some p \<and> next_p (blink_at f2 p) = Some p \<and> mp1_rtc_tasklet f2 s2 = None"
proof -
  obtain ps where wf: "fish_wf f ps" and bs: "bs = blinks f ps" using r(1) by (auto simp: represents_def)
  obtain p where p: "mp1_malloc f = Some p" using malloc_None[OF wf] r(2) bs by (cases "mp1_malloc f") (auto simp: blinks_def)
  note len = fish_wf_length[OF wf]
  let ?f1 = "add_blink b p f" and ?f2 = "add_blink d p (add_blink b p f)"
  have len1: "length (blink_array ?f1) = BLINKS" using len by (simp add: add_blink_def)
  have base: "vmem_base_addr ?f1 = vmem_base_addr f" by (simp add: add_blink_def)
  obtain s1 where s1: "draw (vmem_base_addr f) b (on_char b) s = Some s1" "maps_screen (vmem_base_addr f) c s1"
    using draw_phys[OF m, of b "on_char b"] b m by auto
  obtain s2 where s2: "draw (vmem_base_addr f) d (on_char d) s1 = Some s2" using draw_phys[OF s1(2) d] by auto
  have a1: "mp1_ioctl arg b 0 f s = Some (0, b, ?f1, s1)" using b p s1 by (simp add: mp1_ioctl_def ioctl_add_eq[OF len])
  have a2: "mp1_ioctl arg d 0 ?f1 s1 = Some (0, d, ?f2, s2)"
    using d[unfolded not_le[symmetric]] s2 malloc_again[OF p len b] by (simp add: mp1_ioctl_def ioctl_add_eq[OF len1] base)
  have h: "mp1_list_head ?f2 = Some p" by (simp add: add_blink_def)
  have h1: "mp1_list_head ?f1 = Some p" by (simp add: add_blink_def)
  have n: "next_p (blink_at ?f2 p) = Some p"
    unfolding add_blink_def[of d] using malloc_bound[OF p] len1 h1 by (simp add: blink_at_upd)
  show ?thesis using a1 a2 h n tasklet_self_loop[OF n] by (auto simp: mp1_rtc_tasklet_def)
qed

end
