(* ===== verification/Fish.thy ===== *)
theory Fish
  imports Blink Userland
begin

unbundle bit_operations_syntax

text \<open>
  The \<open>fish\<close> program (\<open>fish/fish.c\<close>): its memory routines, the layout of \<open>mp1_blink_struct\<close> in memory,
  and the main function, which reads the two frames of the animation, adds a blink for every
  character and ticks the tasklet with the real-time clock.  The list of blinks is in \<open>Blink\<close>.
\<close>

section \<open>Memory routines\<close>

definition ece391_memset :: "('s \<Rightarrow> u32 \<Rightarrow> u8 \<Rightarrow> 's option) \<Rightarrow> 's \<Rightarrow> u32 \<Rightarrow> u8 \<Rightarrow> i32 \<Rightarrow> 's option" where
  "ece391_memset wr s p c n = for_up 0 (nat (sint n)) (\<lambda>i s. wr s (p + of_nat i) c) s"

definition ece391_memcpy :: "('s \<Rightarrow> u32 \<Rightarrow> u8 option) \<Rightarrow> ('s \<Rightarrow> u32 \<Rightarrow> u8 \<Rightarrow> 's option) \<Rightarrow>
    's \<Rightarrow> u32 \<Rightarrow> u32 \<Rightarrow> i32 \<Rightarrow> (i32 \<times> 's) option" where
  "ece391_memcpy rd wr s dest src n =
     do { s \<leftarrow> for_up 0 (nat (sint n)) (\<lambda>i s. do { b \<leftarrow> rd s (src + of_nat i); wr s (dest + of_nat i) b }) s;
          Some (0, s) }"

section \<open>The program\<close>

text \<open>The addresses of the variables the kernel writes or reads for the program.\<close>

record fish_vars =
  at_c0 :: u32
  at_c1 :: u32
  at_ret_val :: u32
  at_garbage :: u32
  at_blink :: u32
  at_vmem :: u32

definition mp1_set_video_mode :: "'z kernel_scheme host \<Rightarrow> fish_vars \<Rightarrow> fish \<Rightarrow> 'z kernel_scheme \<Rightarrow>
    (u32 \<times> fish \<times> 'z kernel_scheme) option" where
  "mp1_set_video_mode h l f s =
     do { (r, s) \<leftarrow> ece391_vidmap h (at_vmem l) s;
          v \<leftarrow> load32 vread s (at_vmem l);
          let f = f\<lparr>vmem_base_addr := v\<rparr>;
          Some (if r = -1 then 0 else v, f, s) }"

text \<open>The next character of a frame, unless its line has ended; the end of the file ends the line.\<close>

definition frame_char :: "'z kernel_scheme host \<Rightarrow> u32 \<Rightarrow> u32 \<Rightarrow> bool \<Rightarrow> 'z kernel_scheme \<Rightarrow> (bool \<times> 'z kernel_scheme) option" where
  "frame_char h fd p eof s =
     do { c \<leftarrow> vread s p;
          if c \<noteq> 10 then do {
            (num_bytes, s) \<leftarrow> ece391_read h fd p 1 s;
            if num_bytes = 0 then do { s \<leftarrow> vwrite s p 10; Some (True, s) } else Some (eof, s) }
          else Some (eof, s) }"

definition frame_blink :: "u8 \<Rightarrow> u8 \<Rightarrow> i32 \<Rightarrow> i32 \<Rightarrow> blink_struct \<Rightarrow> blink_struct" where
  "frame_blink c0 c1 row col b =
     b\<lparr>on_char := (if c0 = 10 then 32 else c0), off_char := (if c1 = 10 then 32 else c1),
       location := ucast (row * 80 + col + 40)\<rparr>"

partial_function (option) add_row :: "'z kernel_scheme host \<Rightarrow> fish_vars \<Rightarrow> u32 \<Rightarrow> u32 \<Rightarrow> i32 \<Rightarrow> i32 \<Rightarrow> bool \<Rightarrow> bool \<Rightarrow>
    blink_struct \<Rightarrow> fish \<Rightarrow> 'z kernel_scheme \<Rightarrow> (bool \<times> bool \<times> blink_struct \<times> fish \<times> 'z kernel_scheme) option" where
  "add_row h l fd0 fd1 row col eof0 eof1 b f s =
     do { (eof0, s) \<leftarrow> frame_char h fd0 (at_c0 l) eof0 s;
          (eof1, s) \<leftarrow> frame_char h fd1 (at_c1 l) eof1 s;
          c0 \<leftarrow> vread s (at_c0 l);
          c1 \<leftarrow> vread s (at_c1 l);
          if c0 = 10 \<and> c1 = 10 then Some (eof0, eof1, b, f, s)
          else do {
            (b, f, s) \<leftarrow>
              (if (c0 \<noteq> 32 \<and> c0 \<noteq> 10) \<or> (c1 \<noteq> 32 \<and> c1 \<noteq> 10)
               then do { (_, b, f, s) \<leftarrow> mp1_ioctl (at_blink l) (frame_blink c0 c1 row col b) 0 f s; Some (b, f, s) }
               else Some (b, f, s));
            add_row h l fd0 fd1 row (col + 1) eof0 eof1 b f s } }"

text \<open>At the end of a line a file that has ended is closed, and its next line is empty.\<close>

definition next_line :: "'z kernel_scheme host \<Rightarrow> u32 \<Rightarrow> u32 \<Rightarrow> bool \<Rightarrow> 'z kernel_scheme \<Rightarrow> 'z kernel_scheme option" where
  "next_line h fd p eof s =
     (if eof then do { s \<leftarrow> vwrite s p 10; (_, s) \<leftarrow> ece391_close h fd s; Some s } else vwrite s p 48)"

partial_function (option) add_rows :: "'z kernel_scheme host \<Rightarrow> fish_vars \<Rightarrow> u32 \<Rightarrow> u32 \<Rightarrow> i32 \<Rightarrow> bool \<Rightarrow> bool \<Rightarrow>
    blink_struct \<Rightarrow> fish \<Rightarrow> 'z kernel_scheme \<Rightarrow> (fish \<times> 'z kernel_scheme) option" where
  "add_rows h l fd0 fd1 row eof0 eof1 b f s =
     (if eof0 \<and> eof1 then Some (f, s)
      else do {
        (eof0, eof1, b, f, s) \<leftarrow> add_row h l fd0 fd1 row 0 eof0 eof1 b f s;
        s \<leftarrow> next_line h fd0 (at_c0 l) eof0 s;
        s \<leftarrow> next_line h fd1 (at_c1 l) eof1 s;
        add_rows h l fd0 fd1 (row + 1) eof0 eof1 b f s })"

text \<open>No pool in the result: the program called \<open>ece391_halt(-1)\<close>.\<close>

definition add_frames :: "'z kernel_scheme host \<Rightarrow> fish_vars \<Rightarrow> u32 \<Rightarrow> u32 \<Rightarrow> blink_struct \<Rightarrow> fish \<Rightarrow> 'z kernel_scheme \<Rightarrow>
    (fish option \<times> 'z kernel_scheme) option" where
  "add_frames h l f0 f1 b f s =
     do { s \<leftarrow> vwrite s (at_c0 l) 48;
          s \<leftarrow> vwrite s (at_c1 l) 48;
          let b = b\<lparr>on_length := 15, off_length := 15\<rparr>;
          (fd0, s) \<leftarrow> ece391_open h f0 s;
          if sint fd0 < 0 then Some (None, s)
          else do {
            (fd1, s) \<leftarrow> ece391_open h f1 s;
            if sint fd1 < 0 then Some (None, s)
            else do { (f, s) \<leftarrow> add_rows h l fd0 fd1 0 False False b f s; Some (Some f, s) } } }"

definition WAIT :: nat where "WAIT = 100"

definition fish_wait :: "'z kernel_scheme host \<Rightarrow> fish_vars \<Rightarrow> u32 \<Rightarrow> fish \<Rightarrow> 'z kernel_scheme \<Rightarrow> (fish \<times> 'z kernel_scheme) option" where
  "fish_wait h l rtc_fd f s =
     for_up 0 WAIT (\<lambda>i (f, s). do { (_, s) \<leftarrow> ece391_read h rtc_fd (at_garbage l) 4 s; mp1_rtc_tasklet f s }) (f, s)"

definition im_blink :: "blink_struct \<Rightarrow> blink_struct" where
  "im_blink b = b\<lparr>on_char := 73, off_char := 77, on_length := 7, off_length := 6, location := 6 * 80 + 60\<rparr>"

text \<open>The second half of \<open>main\<close>: one more blink, synchronised with the first place of the frame, and removed.\<close>

definition fish_show :: "'z kernel_scheme host \<Rightarrow> fish_vars \<Rightarrow> u32 \<Rightarrow> blink_struct \<Rightarrow> fish \<Rightarrow> 'z kernel_scheme \<Rightarrow>
    (i32 \<times> 'z kernel_scheme) option" where
  "fish_show h l rtc_fd b f s =
     do { (f, s) \<leftarrow> fish_wait h l rtc_fd f s;
          (_, b, f, s) \<leftarrow> mp1_ioctl (at_blink l) (im_blink b) 0 f s;
          (f, s) \<leftarrow> fish_wait h l rtc_fd f s;
          (_, b, f, s) \<leftarrow> mp1_ioctl (push_bit 16 40 OR (6 * 80 + 60)) b 3 f s;
          (f, s) \<leftarrow> fish_wait h l rtc_fd f s;
          (_, b, f, s) \<leftarrow> mp1_ioctl (6 * 80 + 60) b 1 f s;
          (f, s) \<leftarrow> fish_wait h l rtc_fd f s;
          (_, s) \<leftarrow> ece391_close h rtc_fd s;
          Some (0, s) }"

definition fish_main :: "'z kernel_scheme host \<Rightarrow> fish_vars \<Rightarrow> blink_struct \<Rightarrow> blink_struct \<Rightarrow> fish \<Rightarrow> 'z kernel_scheme \<Rightarrow>
    (i32 \<times> 'z kernel_scheme) option" where
  "fish_main h l b b' f s =
     do { let f = f\<lparr>blink_array := replicate BLINKS blank_blink\<rparr>;
          (v, f, s) \<leftarrow> mp1_set_video_mode h l f s;
          if v = 0 then Some (-1, s)
          else do {
            (rtc_fd, s) \<leftarrow> ece391_open h (lit h (ascii ''rtc'')) s;
            (r, s) \<leftarrow> add_frames h l (lit h (ascii ''frame0.txt'')) (lit h (ascii ''frame1.txt'')) b' f s;
            (case r of None \<Rightarrow> Some (-1, s)
             | Some f \<Rightarrow> do {
                 s \<leftarrow> store32 vwrite s (at_ret_val l) 32;
                 (r, s) \<leftarrow> ece391_write h rtc_fd (at_ret_val l) 4 s;
                 s \<leftarrow> store32 vwrite s (at_ret_val l) r;
                 fish_show h l rtc_fd b f s }) } }"

section \<open>The memory routines and the kernel's\<close>

lemma for_up_store:
  "for_up i n (\<lambda>k s. wr s (p + of_nat k) c) s = store_bytes wr s (p + of_nat i) (replicate n c)"
  by (induction n arbitrary: i s) (simp_all add: ac_simps cong: bind_option_cong)

lemma for_up_movsb:
  "for_up i n (\<lambda>k s. do { b \<leftarrow> rd s (src + of_nat k); wr s (dest + of_nat k) b }) s =
     rep_movsb rd wr s (dest + of_nat i) (src + of_nat i) n"
  by (induction n arbitrary: i s) (simp_all add: ac_simps cong: bind_option_cong)

lemma signed_count: "0 \<le> sint n \<Longrightarrow> nat (sint n) = unat (n :: i32)"
proof -
  obtain k where "unat n = k" "uint n = int k" "k < 4294967296" by (rule u32_nat)
  then show "0 \<le> sint n \<Longrightarrow> nat (sint n) = unat n" by (simp add: sint_u32 split: if_splits)
qed

text \<open>
  C36: the byte loops of \<open>fish.c\<close> do what the kernel's word-wise routines do.  \<open>ece391_memset\<close> equals
  \<open>memset\<close> on every memory, faults included; \<open>ece391_memcpy\<close> equals \<open>memcpy\<close> wherever the two ranges
  denote different cells.
\<close>

theorem fish_memory_equals_kernel:
  assumes n: "0 \<le> sint n" and ap: "cells translate s dest (unat n) \<inter> cells translate s src (unat n) = {}"
  shows "ece391_memset wr t p c n = memset wr t p (ucast c) n \<and>
    ece391_memcpy vread vwrite s dest src n = map_option (Pair 0) (memcpy vread vwrite s dest src n)"
proof
  show "ece391_memset wr t p c n = memset wr t p (ucast c) n"
    using for_up_store[of 0 "unat n" wr p c t] by (simp add: ece391_memset_def memset_fill signed_count[OF n])
  have "ece391_memcpy vread vwrite s dest src n = map_option (Pair 0) (rep_movsb vread vwrite s dest src (unat n))"
    using for_up_movsb[of 0 "unat n" vread src vwrite dest s]
    by (simp add: ece391_memcpy_def signed_count[OF n] map_conv_bind_option comp_def)
  then show "ece391_memcpy vread vwrite s dest src n = map_option (Pair 0) (memcpy vread vwrite s dest src n)"
    using ap by (simp add: vm.rep_movsb_copy vm.memcpy_copy)
qed

section \<open>The layout of a blink\<close>

text \<open>The offsets of \<open>blink.S\<close>; \<open>base\<close> is the address of \<open>blink_array\<close>.\<close>

definition bytes16 :: "u16 \<Rightarrow> u8 list" where
  "bytes16 w = [ucast w, ucast (drop_bit 8 w)]"

definition le16 :: "u8 \<Rightarrow> u8 \<Rightarrow> u16" where
  "le16 b0 b1 = ucast b0 OR push_bit 8 (ucast b1)"

definition link_word :: "u32 \<Rightarrow> nat option \<Rightarrow> u32" where
  "link_word base p = (case p of None \<Rightarrow> 0 | Some i \<Rightarrow> base + 16 * of_nat i)"

definition word_link :: "u32 \<Rightarrow> u32 \<Rightarrow> nat option" where
  "word_link base a = (if a = 0 then None else Some (unat (a - base) div 16))"

definition word_bytes :: "u32 \<Rightarrow> u8 list" where
  "word_bytes w = [byte_of w 0, byte_of w 1, byte_of w 2, byte_of w 3]"

definition blink_bytes :: "u32 \<Rightarrow> blink_struct \<Rightarrow> u8 list" where
  "blink_bytes base b = bytes16 (location b) @ [on_char b, off_char b] @ bytes16 (on_length b) @ bytes16 (off_length b) @
     bytes16 (countdown b) @ bytes16 (status b) @ word_bytes (link_word base (next_p b))"

definition blink_of_bytes :: "u32 \<Rightarrow> u8 list \<Rightarrow> blink_struct" where
  "blink_of_bytes base bs = \<lparr>location = le16 (bs ! 0) (bs ! 1), on_char = bs ! 2, off_char = bs ! 3,
     on_length = le16 (bs ! 4) (bs ! 5), off_length = le16 (bs ! 6) (bs ! 7), countdown = le16 (bs ! 8) (bs ! 9),
     status = le16 (bs ! 10) (bs ! 11), next_p = word_link base (le32 (bs ! 12) (bs ! 13) (bs ! 14) (bs ! 15))\<rparr>"

definition load_blink :: "u32 \<Rightarrow> 'z machine_scheme \<Rightarrow> u32 \<Rightarrow> blink_struct option" where
  "load_blink base s p = map_option (blink_of_bytes base) (load_bytes vread s p 16)"

lemma bytes16_le16 [simp]: "le16 (ucast w) (ucast (drop_bit 8 w)) = w"
  by (rule bit_word_eqI) (auto simp: le16_def bit_simps)

lemma word_link_back:
  assumes "case p of None \<Rightarrow> True | Some i \<Rightarrow> i < BLINKS" "base \<noteq> 0" "unat base + 16 * BLINKS \<le> 2 ^ 32"
  shows "word_link base (link_word base p) = p"
proof (cases p)
  case None
  then show ?thesis by (simp add: word_link_def link_word_def)
next
  case (Some i)
  with assms(1) have i: "i < 2000" by simp
  have m: "unat (16 * of_nat i :: u32) = 16 * i"
  proof -
    have "(16 * of_nat i :: u32) = of_nat (16 * i)" by simp
    then show ?thesis using i by (simp only: unat_of_nat) (simp add: take_bit_nat_eq_self)
  qed
  have "unat (base + 16 * of_nat i) = unat base + 16 * i"
    using assms(3) i by (subst unat_add_lem[THEN iffD1]) (simp_all add: m)
  moreover have "unat base \<noteq> 0" using assms(2) by (simp add: unat_eq_0)
  ultimately have "base + 16 * of_nat i \<noteq> 0" by (metis add_is_0 unat_0)
  then show ?thesis using Some by (simp add: word_link_def link_word_def m)
qed

lemma blink_bytes_back:
  assumes "case next_p b of None \<Rightarrow> True | Some i \<Rightarrow> i < BLINKS" "base \<noteq> 0" "unat base + 16 * BLINKS \<le> 2 ^ 32"
  shows "blink_of_bytes base (blink_bytes base b) = b" "length (blink_bytes base b) = 16"
  using word_link_back[OF assms]
  by (simp_all add: blink_of_bytes_def blink_bytes_def bytes16_def word_bytes_def bytes_le32)

lemma blank_bytes: "blink_of_bytes base (replicate 16 0) = blank_blink"
  by (simp add: blink_of_bytes_def blank_blink_def le16_def le32_def word_link_def)


section \<open>The blinks on the screen\<close>

lemma mp1_set_video_mode_maps:
  assumes wf: "files_wf s" and e: "pdt s EXEC = START_ADDRESS + FOURMB * of_nat i"
    and p: "0x08000000 \<le> unat (at_vmem l)" "unat (at_vmem l) + 4 \<le> 0x08400000"
  shows "\<exists>t. mp1_set_video_mode h l f s = Some (0x10000000, f\<lparr>vmem_base_addr := 0x10000000\<rparr>, t) \<and>
    maps_screen 0x10000000 0xB8000 t"
proof -
  obtain t where t: "vidmap (at_vmem l) s = Some (1, t)" "load32 vread t (at_vmem l) = Some 0x10000000"
    "\<forall>k<0x1000. translate t (0x10000000 + of_nat k) = Some (0xB8000 + of_nat k)"
    using vidmap_screen[OF wf e p refl] by blast
  then show ?thesis by (auto simp: mp1_set_video_mode_def maps_screen_def)
qed


end
