(* ===== verification/Sample.thy ===== *)
theory Sample
  imports Entry Blocks Selftest Fish
begin

text \<open>
  A concrete kernel state: paging as \<open>init_paging\<close> leaves it, a file system image with a directory
  entry \<open>.\<close> and a two-block executable \<open>shell\<close>, and one process on the first terminal; with the texts
  of a program in its memory it is \<open>sample_user_kernel\<close>.  The
  properties of the development are instantiated on it, which shows that their hypotheses can be
  met together.
\<close>

definition sample_image :: "(u32 \<times> u8) list" where
  "sample_image =
     [(0x410000, 2), (0x410004, 1), (0x410008, 2),
      (0x410040, 46), (0x410060, 1),
      (0x410080, 115), (0x410081, 104), (0x410082, 101), (0x410083, 108), (0x410084, 108), (0x4100A0, 2),
      (0x411000, 0x88), (0x411001, 0x13), (0x411004, 1), (0x411008, 0),
      (0x412000, 0xAA), (0x412001, 0xBB),
      (0x413000, 0x7F), (0x413001, 0x45), (0x413002, 0x4C), (0x413003, 0x46),
      (0x413018, 0x18), (0x413019, 0x80), (0x41301A, 0x04), (0x41301B, 0x08)]"

definition sample_phys :: "u32 \<Rightarrow> u8" where
  "sample_phys p = (case map_of sample_image p of None \<Rightarrow> 0 | Some b \<Rightarrow> b)"

definition fd_closed :: fd_t where
  "fd_closed = \<lparr>table_pointer = NullTable, fd_inode = 0, file_position = 0, flags = 0\<rparr>"

definition fd_terminal :: fd_t where
  "fd_terminal = \<lparr>table_pointer = KeyboardTable, fd_inode = 0, file_position = 0, flags = 1\<rparr>"

definition fd_file :: fd_t where
  "fd_file = \<lparr>table_pointer = FileTable, fd_inode = 0, file_position = 4094, flags = 1\<rparr>"

definition fd_directory :: fd_t where
  "fd_directory = \<lparr>table_pointer = DirTable, fd_inode = 0, file_position = 1, flags = 1\<rparr>"

definition sample_pcb :: pcb_t where
  "sample_pcb = \<lparr>pcb_use = 0, parent_pid = -1, parent_esp0 = 0x800000, parent_esp = 0x7FFF00,
     parent_ebp = 0x7FFF40, parent_fd = KernelFdt, fd_table = replicate 8 fd_closed,
     user_buf = replicate 1024 0, vid_set = 0, screen_idx = 0\<rparr>"

definition sample_slot :: "u32 \<Rightarrow> fd_ptr \<Rightarrow> switch_table_t" where
  "sample_slot pid p = \<lparr>cur_pid = pid, cur_esp0 = 0x7FDFFC, cur_esp = 0x7FDF00, cur_ebp = 0x7FDF40,
     cur_fd_ptr = p\<rparr>"

definition sample_kernel :: kernel where
  "sample_kernel = init_paging
     \<lparr>phys = sample_phys, pdt = (\<lambda>_. 0), pte = (\<lambda>_. 0), pte_vid = (\<lambda>_. 0),
      addr_pte = 0x404000, addr_pte_vid = 0x405000, paging_on = False, tlb_stale = False,
      esp = 0x7FDF00, ebp = 0x7FDF40, tss_esp0 = 0x7FDFFC, iflag = True,
      port_in = (\<lambda>_. 0), port_out = [],
      screen_x = [0, 0, 0], screen_y = [0, 0, 0], visible_screen = 0, schedule_index = 0,
      counter1 = 0, counter2 = 0, counter3 = 0,
      pcbs = (\<lambda>_. sample_pcb)(get_pcb 0 := sample_pcb\<lparr>pcb_use := 1,
        fd_table := [fd_terminal, fd_terminal, fd_file, fd_directory] @ replicate 4 fd_closed\<rparr>),
      process_array = [sample_slot 0 (PcbFdt (get_pcb 0)), sample_slot (-1) KernelFdt,
        sample_slot (-1) KernelFdt],
      kernel_fdt = replicate 8 fd_closed, three_shells_executed = 0,
      FILEMEM = 0x410000, fs_entries = 2, fs_inodes = 1, fs_dblocks = 2,
      rate = 15, flag_rtc = 0, num_ticks = 0, arr_index = 0,
      key_status = 0, key_flag = 0, terminal_flag = 0, flag_keyboard = [0, 0, 0],
      terminal1_buffer = replicate 128 0, terminal2_buffer = replicate 128 0,
      terminal3_buffer = replicate 128 0, ret_status = 0, arg_retrieved = replicate 1024 0\<rparr>"

lemma sample_paging_wf: "paging_wf sample_kernel"
  unfolding sample_kernel_def by (rule init_paging_wf) simp_all

lemma init_paging_fields:
  "schedule_index (init_paging s) = schedule_index s" "visible_screen (init_paging s) = visible_screen s"
  "screen_x (init_paging s) = screen_x s" "screen_y (init_paging s) = screen_y s"
  by (simp_all add: init_paging_def init_tables_eq Let_def set_pdt_def set_pte_def load_cr3_def)

lemma sample_console_wf: "console_wf sample_kernel"
proof -
  have "cursor_ok ([0, 0, 0] ! i) ([0, 0, 0] ! i)" if "i < 3" for i :: nat
    using that by (auto simp: cursor_ok_def less_Suc_eq numeral_3_eq_3)
  then show ?thesis
    using sample_paging_wf by (simp add: console_wf_def sample_kernel_def init_paging_fields)
qed

lemma sample_coherent: "coherent sample_kernel"
  by (simp add: coherent_def video_page_def sample_kernel_def init_paging_fields init_pte term_page_def
      VIDEO_MEMORY_def video_entry_def paging_consts VIDEO_def)

theorem putc_refines_witness:
  "\<exists>s'. putc 65 sample_kernel = Some s' \<and> console_wf s' \<and> coherent s' \<and> prints sample_kernel s' \<and>
    (\<forall>i<3. term_view s' i = (if i = sched_ix sample_kernel then term_putc 65 (term_view sample_kernel i)
      else term_view sample_kernel i))"
  by (rule putc_refines[OF sample_console_wf sample_coherent])

section \<open>The sample state is well formed\<close>

text \<open>The fields \<open>init_paging\<close> leaves alone.\<close>

lemma init_paging_more:
  "init_paging s = s\<lparr>pdt := pdt (init_paging s), pte := pte (init_paging s), tlb_stale := False, paging_on := True\<rparr>"
  by (simp add: init_paging_def init_tables_eq Let_def set_pdt_def set_pte_def load_cr3_def)

lemma sample_fields [simp]:
  "schedule_index sample_kernel = 0" "visible_screen sample_kernel = 0"
  "process_array sample_kernel = [sample_slot 0 (PcbFdt (get_pcb 0)), sample_slot (-1) KernelFdt, sample_slot (-1) KernelFdt]"
  "kernel_fdt sample_kernel = replicate 8 fd_closed"
  "pcbs sample_kernel = (\<lambda>_. sample_pcb)(get_pcb 0 := sample_pcb\<lparr>pcb_use := 1,
      fd_table := [fd_terminal, fd_terminal, fd_file, fd_directory] @ replicate 4 fd_closed\<rparr>)"
  "FILEMEM sample_kernel = 0x410000" "fs_entries sample_kernel = 2" "fs_inodes sample_kernel = 1"
  "fs_dblocks sample_kernel = 2" "phys sample_kernel = sample_phys" "key_status sample_kernel = 0"
  "key_flag sample_kernel = 0" "terminal_flag sample_kernel = 0" "flag_keyboard sample_kernel = [0, 0, 0]"
  "terminal1_buffer sample_kernel = replicate 128 0" "terminal2_buffer sample_kernel = replicate 128 0"
  "terminal3_buffer sample_kernel = replicate 128 0" "counter1 sample_kernel = 0" "counter2 sample_kernel = 0"
  "counter3 sample_kernel = 0" "tss_esp0 sample_kernel = 0x7FDFFC" "ret_status sample_kernel = 0"
  "esp sample_kernel = 0x7FDF00" "ebp sample_kernel = 0x7FDF40"
  unfolding sample_kernel_def by (subst init_paging_more, simp)+

lemma sample_procs_wf: "procs_wf sample_kernel"
  using sample_console_wf by (simp add: procs_wf_def sample_pcb_def)

lemma sample_fds: "cur_fds sample_kernel = [fd_terminal, fd_terminal, fd_file, fd_directory] @ replicate 4 fd_closed"
  by (simp add: fds_at_def sample_slot_def)

lemma sample_fd: "fd_file = cur_fds sample_kernel ! unat (2 :: u32)" "fd_directory = cur_fds sample_kernel ! unat (3 :: u32)"
  unfolding sample_fds by simp_all

lemma sample_keyboard_wf: "keyboard_wf sample_kernel"
proof -
  have "line_holds (kcount sample_kernel i) (kbuf sample_kernel i) (kline sample_kernel i)" for i
    by (simp add: kcount_def kbuf_def kline_def)
  with sample_procs_wf show ?thesis by (simp add: keyboard_wf_def)
qed

section \<open>The sample image\<close>

definition sample_img :: "u8 list" where
  "sample_img = map (\<lambda>k. sample_phys (0x410000 + of_nat k)) [0..<16384]"

lemma kernel_page: "k < 0x3F0000 \<Longrightarrow> unat (0x410000 + of_nat k :: u32) div 0x400000 = 1"
proof -
  assume k: "k < 0x3F0000"
  then have "unat (0x410000 + of_nat k :: u32) = 0x410000 + k"
    by (simp add: unat_word_ariths unat_of_nat take_bit_nat_eq_self)
  with k show ?thesis by simp
qed

lemma sample_translate: "k < 0x3F0000 \<Longrightarrow> translate sample_kernel (0x410000 + of_nat k) = Some (0x410000 + of_nat k)"
  by (rule translate_kernel[OF sample_paging_wf kernel_page])

lemma sample_vread: "k < 0x3F0000 \<Longrightarrow> vread sample_kernel (0x410000 + of_nat k) = Some (sample_phys (0x410000 + of_nat k))"
  by (simp add: vread_def sample_translate)

lemma sample_img_nth: "k < 16384 \<Longrightarrow> sample_img ! k = sample_phys (0x410000 + of_nat k)"
  by (simp add: sample_img_def del: upt_rec_numeral)

lemma sample_img_length: "length sample_img = 16384"
  by (simp add: sample_img_def del: upt_rec_numeral)

lemma sample_load: "load_bytes vread sample_kernel 0x410000 (length sample_img) = Some sample_img"
  by (rule load_bytes_SomeI[OF refl]) (simp add: sample_img_length sample_img_nth sample_vread)

lemma sample_geometry: "geometry_of sample_kernel = \<lparr>g_inodes = 1, g_dblocks = 2\<rparr>"
  by (simp add: geometry_of_def)

lemma sample_image_ok: "image_ok (geometry_of sample_kernel) sample_img"
  by (simp add: sample_geometry image_ok_def sample_img_length)

lemma sample_img_inode:
  "img_length sample_img 0 = 5000" "img_block sample_img 0 0 = 1" "img_block sample_img 0 1 = 0"
  by (simp_all add: img_length_def img_block_def img_word_def sample_img_nth sample_phys_def sample_image_def le32_def)

lemma sample_file_ok: "file_ok (geometry_of sample_kernel) sample_img 0"
proof -
  have "unat (img_block sample_img 0 k) < 2" if "k < 2" for k
    using that sample_img_inode by (cases "k = 0") (auto simp: less_2_cases_iff)
  then show ?thesis by (simp add: file_ok_def sample_geometry sample_img_inode)
qed

text \<open>User memory of process 0, from \<open>0x8000000\<close>, is physical memory from \<open>0x800000\<close>.\<close>

lemma sample_user:
  assumes "k < 0x3B8000"
  shows "translate sample_kernel (0x08048000 + of_nat k) = Some (0x848000 + of_nat k)"
proof -
  have "unat (0x08048000 + of_nat k :: u32) = 0x08048000 + k"
    using assms by (simp add: unat_word_ariths unat_of_nat take_bit_nat_eq_self)
  then have "unat (0x08048000 + of_nat k :: u32) div 0x400000 = 32" using assms by simp
  moreover have "pdt sample_kernel EXEC = START_ADDRESS + FOURMB * 0"
    by (simp add: sample_kernel_def init_pdt EXEC_def)
  ultimately show ?thesis using translate_exec[OF sample_paging_wf, of "0x08048000 + of_nat k" 0] by simp
qed

lemma sample_user_nat: "k < 0x3B8000 \<Longrightarrow> unat (0x848000 + of_nat k :: u32) = 0x848000 + k"
  by (simp add: unat_word_ariths unat_of_nat take_bit_nat_eq_self)

lemma sample_user_buffer:
  assumes "n \<le> 0x3B8000"
  shows "\<forall>i<n. translate sample_kernel (0x08048000 + of_nat i) \<noteq> None"
    "inj_cells translate sample_kernel 0x08048000 n"
    "cells translate sample_kernel 0x08048000 n \<inter> cells translate sample_kernel 0x410000 (length sample_img) = {}"
proof -
  show "\<forall>i<n. translate sample_kernel (0x08048000 + of_nat i) \<noteq> None" using assms by (simp add: sample_user)
  show "inj_cells translate sample_kernel 0x08048000 n"
    unfolding inj_cells_def
  proof (intro allI impI)
    fix i j :: nat assume ij: "i < n" "j < n" "i \<noteq> j"
    have "(0x848000 + of_nat i :: u32) \<noteq> 0x848000 + of_nat j"
      using ij assms sample_user_nat[of i] sample_user_nat[of j] by auto
    with ij assms show "translate sample_kernel (0x08048000 + of_nat i) \<noteq> translate sample_kernel (0x08048000 + of_nat j)"
      by (simp add: sample_user)
  qed
  have "(0x848000 + of_nat i :: u32) \<noteq> 0x410000 + of_nat j" if "i < n" "j < 16384" for i j
  proof
    assume e: "(0x848000 + of_nat i :: u32) = 0x410000 + of_nat j"
    have "unat (0x410000 + of_nat j :: u32) = 0x410000 + j"
      using that(2) by (simp add: unat_word_ariths unat_of_nat take_bit_nat_eq_self)
    then show False using sample_user_nat[of i] that assms e by simp
  qed
  then show "cells translate sample_kernel 0x08048000 n \<inter> cells translate sample_kernel 0x410000 (length sample_img) = {}"
    using assms by (fastforce simp: cells_def sample_user sample_translate sample_img_length)
qed

lemma sample_vm_image_ok: "n \<le> 0x3B8000 \<Longrightarrow> vm_image_ok (FILEMEM sample_kernel) sample_img 0x08048000 n sample_kernel"
  using sample_load sample_user_buffer(3)[of n] by (simp add: vm_image_ok_def sample_img_length)


section \<open>Instances\<close>

theorem putc_keyboard_refines_witness:
  "\<exists>s'. putc_keyboard 65 sample_kernel = Some s' \<and> console_wf s' \<and> prints sample_kernel s' \<and>
    (\<forall>i<3. term_view s' i = (if i = vis_ix sample_kernel then term_putc 65 (term_view sample_kernel i)
      else term_view sample_kernel i))"
  by (rule putc_keyboard_refines[OF sample_console_wf])

theorem switch_vid_preserves_terminals_witness:
  "\<exists>s'. switch_vid 1 sample_kernel = Some (1, s') \<and> console_wf s' \<and> visible_screen s' = 1 \<and>
    (\<forall>i<3. term_view s' i = term_view sample_kernel i)"
proof -
  have "(1 :: u32) < 3" by simp
  from switch_vid_preserves_terminals[OF sample_console_wf this] show ?thesis by blast
qed

theorem switch_vid_breaks_coherence_witness:
  "\<exists>s'. switch_vid 1 sample_kernel = Some (1, s') \<and> \<not> coherent s'"
  by (rule switch_vid_breaks_coherence[OF sample_console_wf sample_coherent]) simp_all

theorem process_blocks_disjoint_witness:
  "{unat (get_pcb (of_nat 0))..<unat (get_esp0 (of_nat 0)) + 4} \<inter>
    {unat (get_pcb (of_nat 1))..<unat (get_esp0 (of_nat 1)) + 4} = {}"
  using process_blocks_disjoint[of 0 1] by linarith

theorem get_avail_fd_first_witness: "get_avail_fd sample_kernel = Some 4"
  using get_avail_fd_first[OF sample_procs_wf] unfolding sample_fds
  by (simp add: fd_file_def fd_directory_def fd_closed_def upt_rec)

theorem irq_masks_witness:
  "\<exists>m m'. enable_irq 1 sample_kernel = Some (sample_kernel\<lparr>port_out := port_out sample_kernel @ [(irq_port 1, m)]\<rparr>) \<and>
    disable_irq 1 sample_kernel = Some (sample_kernel\<lparr>port_out := port_out sample_kernel @ [(irq_port 1, m')]\<rparr>)"
proof -
  have "(1 :: u32) < 16" by simp
  from irq_masks[OF this, of sample_kernel] show ?thesis by blast
qed

theorem pit_divisor_witness:
  "\<exists>lo hi. pit_program 100 sample_kernel =
      Some (sample_kernel\<lparr>port_out := port_out sample_kernel @ [(0x43, 0x36), (0x40, lo), (0x40, hi)]\<rparr>) \<and>
    uint lo + 256 * uint hi = 11931"
  using pit_divisor[of 100 sample_kernel] by simp

section \<open>Files\<close>

definition sample_dir :: "dentry list" where
  "sample_dir = [take 64 (drop 64 sample_img), take 64 (drop 128 sample_img)]"

lemma sample_dir_image: "dir_image sample_kernel sample_dir"
proof -
  have "load_bytes vread sample_kernel (0x410000 + of_nat p) 64 = Some (take 64 (drop p sample_img))" if "p \<le> 4096" for p
    by (rule load_bytes_SomeI)
      (use that in \<open>simp_all add: sample_img_length sample_img_nth sample_vread add.assoc flip: of_nat_add\<close>)
  from this[of 64] this[of 128]
  have ld: "load_bytes vread sample_kernel 0x410040 64 = Some (take 64 (drop 64 sample_img))"
    "load_bytes vread sample_kernel 0x410080 64 = Some (take 64 (drop 128 sample_img))" by simp_all
  have "load_bytes vread sample_kernel (dentry_addr sample_kernel (of_nat i)) 64 = Some (sample_dir ! i)" if "i < 2" for i
  proof -
    have "i = 0 \<or> i = 1" using that by auto
    then show ?thesis using ld by (elim disjE) (simp_all add: dentry_addr_def DENTRYSIZE_def sample_dir_def)
  qed
  then show ?thesis by (simp add: dir_image_def sample_dir_def)
qed

definition sample_name :: "u8 list" where
  "sample_name = [115, 104, 101, 108, 108]"

lemma sample_dir_names: "dentry_name (sample_dir ! 0) = [46]" "dentry_name (sample_dir ! 1) = sample_name"
proof -
  have t: "take 32 (take 64 (drop p sample_img)) = map (\<lambda>k. sample_phys (0x410000 + of_nat (p + k))) [0..<32]"
    if "p \<le> 4096" for p
    by (rule nth_equalityI) (use that in \<open>simp_all add: sample_img_length sample_img_nth del: upt_rec_numeral\<close>)
  show "dentry_name (sample_dir ! 0) = [46]" "dentry_name (sample_dir ! 1) = sample_name"
    unfolding dentry_name_def sample_dir_def nth_Cons_0 nth_Cons_Suc One_nat_def
    by (subst t, simp, simp add: upt_rec sample_phys_def sample_image_def sample_name_def)+
qed

lemma sample_reads: "reads_string (array_rd (sample_name @ [0])) sample_name"
  by (rule array_reads_string) (simp_all add: sample_name_def array_rd_def)

theorem read_dentry_by_name_finds_witness:
  "read_dentry_by_name sample_kernel (array_rd (sample_name @ [0])) (Some (replicate 64 0)) =
    Some (0, Some (sample_dir ! 1))"
proof -
  have "find (\<lambda>d. dentry_name d = sample_name) sample_dir = Some (sample_dir ! 1)"
    using sample_dir_names by (simp add: sample_dir_def sample_name_def)
  then show ?thesis
    using read_dentry_by_name_finds[OF sample_dir_image sample_reads, of "replicate 64 0"] by simp
qed

theorem read_dentry_by_index_nth_witness:
  "read_dentry_by_index sample_kernel 1 (Some (replicate 64 0)) = Some (0, Some (sample_dir ! 1)) \<and>
    read_dentry_by_index sample_kernel 2 (Some (replicate 64 0)) = Some (-1, Some (replicate 64 0))"
proof -
  have d: "sample_dir \<noteq> []" "length sample_dir = 2" by (simp_all add: sample_dir_def)
  show ?thesis
    using read_dentry_by_index_nth[OF sample_dir_image d(1), of "replicate 64 0" 1]
      read_dentry_by_index_nth[OF sample_dir_image d(1), of "replicate 64 0" 2] d(2) by simp
qed

theorem read_data_reads_file_witness:
  "read_data sample_kernel vread vwrite 0 4094 0x08048000 4 sample_kernel =
    do { s' \<leftarrow> store_bytes vwrite sample_kernel 0x08048000
           (take 4 (drop 4094 (file_contents (geometry_of sample_kernel) sample_img 0)));
         Some (4, s') }"
  using read_data_reads_file[OF sample_image_ok, of 0 "0x08048000" 4 4094] sample_file_ok sample_vm_image_ok[of 4]
  by (simp add: sample_img_inode)

theorem read_data_passes_end_witness:
  "\<exists>bs. length bs = 100 \<and> read_data sample_kernel vread vwrite 0 4990 0x08048000 100 sample_kernel =
    do { s' \<leftarrow> store_bytes vwrite sample_kernel 0x08048000 bs; Some (100, s') }"
  using read_data_passes_end[OF sample_image_ok, of 0 "0x08048000" 100 4990 1] sample_file_ok sample_vm_image_ok[of 100]
  by (simp add: sample_img_inode sample_img_inode(3)[unfolded One_nat_def] sample_img_length block_off_def sample_geometry)

theorem file_read_sequential_witness:
  "\<exists>s'. file_read 2 0x08048000 4 sample_kernel = Some (4, s') \<and>
    fd_stored 2 (\<lambda>d. d\<lparr>file_position := file_position d + 4\<rparr>) 0x08048000
      (take 4 (drop 4094 (file_contents (geometry_of sample_kernel) sample_img 0))) sample_kernel s'"
  using file_read_sequential[OF sample_procs_wf _ sample_fd(1) _ sample_image_ok, of "0x08048000" 4]
    sample_file_ok sample_vm_image_ok[of 4] sample_user_buffer(1,2)[of 4]
  by (simp add: fd_file_def sample_img_inode)

theorem directory_read_lists_witness:
  "\<exists>s'. directory_read (replicate 64 0) 3 0x08048000 33 sample_kernel = Some (5, s') \<and>
    fd_stored 3 (\<lambda>d. d\<lparr>file_position := file_position d + 1\<rparr>) 0x08048000
      (take 32 (sample_dir ! 1) @ [0]) sample_kernel s'"
proof -
  have d: "sample_dir \<noteq> []" "length sample_dir = 2" by (simp_all add: sample_dir_def)
  show ?thesis
    using directory_read_lists[OF sample_procs_wf _ _ _ sample_dir_image d(1) _ sample_user_buffer(1,2),
        of 3 1 "replicate 64 0" 33, folded sample_fd(2)] d(2) sample_dir_names
    by (simp add: fd_directory_def sample_name_def)
qed

section \<open>Devices\<close>

lemma sample_word: "load32 vread sample_kernel 0x410000 = Some 2"
  using sample_vread[of 0] sample_vread[of 1] sample_vread[of 2] sample_vread[of 3]
  by (simp add: load32_def le32_def sample_phys_def sample_image_def)

theorem rtc_write_accepts_powers_witness:
  "rtc_write 2 0x410000 4 sample_kernel = Some (0, sample_kernel\<lparr>rate := 15\<rparr>)"
  using rtc_write_accepts_powers[OF sample_word, of 2 4] by (simp add: upt_rec)

theorem interrupt_rtc_programs_witness:
  "\<exists>t (a :: u8) r. rtc_write 2 0x410000 4 sample_kernel = Some (0, t) \<and> a AND 0x0F = of_nat r \<and>
    32768 div 2 ^ (r - 1) = (2 :: nat) ^ 1 \<and> flag_rtc (interrupt_rtc t) = 1"
  using interrupt_rtc_programs[OF sample_word, of 1 2] by simp blast

theorem interrupt_keyboard_safe_witness:
  "\<exists>s'. interrupt_keyboard (\<lambda>_. 0x1E) sample_kernel = Some s' \<and> keyboard_wf s'"
  by (rule interrupt_keyboard_safe[OF sample_keyboard_wf]) (simp_all add: kcount_def)

lemma sample_key: "key_pos ! 0 ! 30 = 97"
  by (simp add: key_pos_def ascii_def)

theorem interrupt_keyboard_types_witness:
  "\<exists>s'. interrupt_keyboard (\<lambda>_. 0x1E) sample_kernel = Some s' \<and> keyboard_wf s' \<and>
    (\<forall>i<3. kline s' i = (if i = vis_ix sample_kernel then kline sample_kernel i @ [97] else kline sample_kernel i)) \<and>
    (\<forall>i<3. term_view s' i = (if i = vis_ix sample_kernel then term_putc 97 (term_view sample_kernel i)
      else term_view sample_kernel i)) \<and> ((97 :: u8) = 10 \<longrightarrow> flag_keyboard s' ! vis_ix sample_kernel = 1)"
  by (rule interrupt_keyboard_types[OF sample_keyboard_wf, of "0x1E"])
    (simp_all add: plain_key_def kcount_def sample_key)

theorem interrupt_keyboard_overflow_witness:
  "interrupt_keyboard (\<lambda>_. 0x1E) (set_line 0 128 (replicate 128 65) sample_kernel) = None"
proof (rule interrupt_keyboard_overflow[of _ "0x1E" _ 97])
  show "keyboard_wf (set_line 0 128 (replicate 128 65) sample_kernel)"
    by (rule set_line_wf(1)[OF sample_keyboard_wf, of 0 128 "replicate 128 65" "replicate 128 65"])
      (simp_all add: line_holds_def)
qed (simp_all add: plain_key_def sample_key set_line_def kcount_def)

section \<open>Descriptors and system calls\<close>

lemma sample_valid: "\<forall>p. \<forall>d\<in>set (fds_at sample_kernel p). fd_valid d \<and> (d = fd_closed \<or> p = PcbFdt (get_pcb 0))"
  by (auto simp: fds_at_def sample_pcb_def fd_valid_def fd_terminal_def fd_file_def fd_directory_def fd_closed_def
      split: fd_ptr.split)

lemma sample_files_wf: "files_wf sample_kernel"
  using sample_procs_wf sample_valid by (simp add: files_wf_def)

lemma sample_free_fd: "find (\<lambda>k. flags (cur_fds sample_kernel ! k) = 0) [2..<8] = Some 4"
  unfolding sample_fds by (simp add: fd_file_def fd_directory_def fd_closed_def upt_rec)

lemma sample_free_pcb: "find (pcb_free sample_kernel) [0..<8] = Some 1"
proof -
  have "get_pcb 1 \<noteq> get_pcb 0" by (simp add: get_pcb_def process_consts)
  then show ?thesis by (simp add: upt_rec sample_pcb_def)
qed

lemma sample_name_at: "reads_string (\<lambda>j. vread sample_kernel (0x410080 + j)) sample_name"
proof -
  have r: "vread sample_kernel (0x410080 + of_nat k) = Some (sample_phys (0x410080 + of_nat k))" if "k < 32" for k
    using sample_vread[of "128 + k"] that by (simp flip: add.assoc)
  have "map (\<lambda>k. sample_phys (0x410080 + of_nat k)) [0..<5] = sample_name"
    by (simp add: upt_rec sample_phys_def sample_image_def sample_name_def)
  then have "sample_phys (0x410080 + of_nat k) = sample_name ! k" if "k < 5" for k
    using that by (metis (no_types, lifting) add_0 length_map length_upt minus_nat.diff_0 nth_map nth_upt)
  moreover have "sample_phys 0x410085 = 0" by (simp add: sample_phys_def sample_image_def)
  ultimately show ?thesis
    using r[of 5] by (simp add: reads_string_def r sample_name_def)
qed

lemma sample_found: "find (\<lambda>d. dentry_name d = sample_name) sample_dir = Some (sample_dir ! 1)"
  using sample_dir_names by (simp add: sample_dir_def sample_name_def)

lemma sample_entry: "dentry_type (sample_dir ! Suc 0) = 2" "dentry_inode (sample_dir ! Suc 0) = 0"
  by (simp_all add: dentry_word_def sample_dir_def sample_img_length sample_img_nth le32_def
      sample_phys_def sample_image_def)

theorem sys_open_spec_witness:
  "\<exists>s'. sys_open (replicate 64 0) 0x410080 sample_kernel = Some (4, s') \<and>
    fd_change 4 \<lparr>table_pointer = FileTable, fd_inode = 0, file_position = 0, flags = 1\<rparr> sample_kernel s'"
  using sys_open_spec[OF sample_files_wf sample_dir_image sample_name_at, of "replicate 64 0"]
  unfolding sample_free_fd option.case sample_found
  by (simp add: sample_entry type_table_def type_inode_def)

theorem sys_close_frees_witness:
  "(\<exists>s' ino. sys_close 2 sample_kernel = Some (0, s') \<and>
      fd_change 2 \<lparr>table_pointer = NullTable, fd_inode = ino, file_position = 0, flags = 0\<rparr> sample_kernel s') \<and>
    sys_close 5 sample_kernel = Some (-1, sample_kernel)"
  using sys_close_frees[OF sample_files_wf, of 2] sys_close_frees[OF sample_files_wf, of 5]
  unfolding sample_fds by (simp add: fd_file_def fd_closed_def)

definition idle :: "nat \<Rightarrow> kernel \<Rightarrow> kernel option" where
  "idle k s = Some s"

theorem sys_read_write_dispatch_witness:
  "sys_read idle (replicate 64 0) 2 0x08048000 4 sample_kernel = table_read idle (replicate 64 0) FileTable 2 0x08048000 4 sample_kernel \<and>
    sys_write 0 0x08048000 4 sample_kernel = Some (-1, sample_kernel)"
  using sys_read_write_dispatch[OF sample_files_wf refl, of idle "replicate 64 0" 2 "0x08048000" 4]
    sys_read_write_dispatch[OF sample_files_wf refl, of idle "replicate 64 0" 0 "0x08048000" 4]
  unfolding sample_fds by (simp add: fd_file_def)

lemma sample_exec: "pdt sample_kernel EXEC = START_ADDRESS + FOURMB * of_nat 0"
  by (simp add: sample_kernel_def init_pdt EXEC_def)

theorem vidmap_maps_screen_witness:
  "(\<exists>s'. vidmap 0x08048000 sample_kernel = Some (1, s') \<and> load32 vread s' 0x08048000 = Some 0x10000000) \<and>
    vidmap 0 sample_kernel = Some (-1, sample_kernel)"
  using vidmap_maps_screen[OF sample_files_wf sample_exec, of "0x08048000" _ 0] by (auto simp del: sample_fields)


section \<open>Processes\<close>

definition sample_prog :: "u8 list" where
  "sample_prog = file_contents (geometry_of sample_kernel) sample_img 0"

lemma sample_boot_image: "boot_image sample_kernel sample_img sample_dir"
  using sample_image_ok sample_load sample_dir_image
  by (simp add: boot_image_def fs_image_def sample_img_length sample_dir_def)

lemma sample_prog_nth: "length sample_prog = 5000" "k < 4096 \<Longrightarrow> sample_prog ! k = sample_phys (0x413000 + of_nat k)"
proof -
  show l: "length sample_prog = 5000"
    unfolding sample_prog_def using file_contents_length[OF sample_image_ok sample_file_ok] by (simp add: sample_img_inode)
  assume k: "k < 4096"
  have "sample_prog = take 5000 (img_data (geometry_of sample_kernel) sample_img 0 0) @
      take (5000 - length (img_data (geometry_of sample_kernel) sample_img 0 0)) (img_data (geometry_of sample_kernel) sample_img 0 1)"
    by (simp add: sample_prog_def file_contents_def sample_img_inode upt_rec)
  moreover have "img_data (geometry_of sample_kernel) sample_img 0 0 = drop 12288 sample_img"
    by (simp add: img_data_def block_off_def sample_geometry sample_img_inode sample_img_length)
  ultimately have "sample_prog = drop 12288 sample_img @ take 904 (img_data (geometry_of sample_kernel) sample_img 0 1)"
    by (simp add: sample_img_length)
  then have "sample_prog ! k = (drop 12288 sample_img @ take 904 (img_data (geometry_of sample_kernel) sample_img 0 1)) ! k"
    by (rule arg_cong)
  with k show "sample_prog ! k = sample_phys (0x413000 + of_nat k)"
    by (simp add: nth_append sample_img_length sample_img_nth)
qed

lemma sample_executable: "executable sample_kernel sample_img sample_dir sample_name (sample_dir ! 1) sample_prog"
proof -
  have "take 4 sample_prog = map (\<lambda>k. sample_prog ! k) [0..<4]"
    by (rule nth_equalityI) (simp_all add: sample_prog_nth del: upt_rec_numeral)
  moreover have "file_contents (geometry_of sample_kernel) sample_img 0 = sample_prog" by (simp add: sample_prog_def)
  ultimately show ?thesis using sample_found sample_file_ok
    by (simp add: executable_def sample_entry sample_prog_nth upt_rec sample_phys_def sample_image_def)
qed

lemma sample_entry_point: "entry_point sample_prog = 0x08048018"
  by (simp add: entry_point_def sample_prog_nth sample_phys_def sample_image_def le32_def)

lemma sample_command: "cstring vread sample_kernel 0x410080 sample_name"
  unfolding cstring_def
proof
  show "0 \<notin> set sample_name" by (simp add: sample_name_def)
  show "load_bytes vread sample_kernel 0x410080 (Suc (length sample_name)) = Some (sample_name @ [0])"
    by (rule load_bytes_SomeI)
      (use sample_name_at in \<open>auto simp: reads_string_def nth_append less_Suc_eq\<close>)
qed

lemma sample_command_word: "takeWhile word_char sample_name = sample_name"
  by (simp add: sample_name_def)

theorem halt_returns_to_parent_witness:
  "\<exists>s'. halt 255 sample_kernel = Some (-1, s') \<and> back_to_parent sample_kernel s' \<and> files_wf s'"
  using halt_returns_to_parent[OF sample_files_wf, of 255] by simp

lemma sample_word_length: "length (takeWhile word_char sample_name) < 128" "length sample_name < 1024"
  by (simp_all add: sample_name_def)

lemma sample_executable_word:
  "executable sample_kernel sample_img sample_dir (takeWhile word_char sample_name) (sample_dir ! 1) sample_prog"
  unfolding sample_command_word by (rule sample_executable)

lemmas sample_starts = sample_files_wf sample_boot_image sample_command sample_word_length(2,1)
  sample_executable_word sample_free_pcb

theorem execute_starts_program_witness:
  "\<exists>t. execute vread (replicate 64 0) (replicate 4 0) 0x410080 sample_kernel =
      Some (EnteredUser 0x08048018 0x083FFFFC, t) \<and> load_bytes vread t 0x08048000 5000 = Some sample_prog"
  using execute_starts_program[OF sample_starts, of "replicate 64 0" "replicate 4 0"]
  by (auto simp: sample_entry_point sample_prog_nth simp del: sample_fields)

theorem execute_halt_roundtrip_witness:
  "\<exists>t s'. execute vread (replicate 64 0) (replicate 4 0) 0x410080 sample_kernel =
      Some (EnteredUser 0x08048018 0x083FFFFC, t) \<and>
    halt 7 (t\<lparr>phys := \<lambda>_. 0\<rparr>) = Some (7, s') \<and> esp s' = 0x7FDF00 \<and> pcb_free s' 1 \<and> files_wf s'"
  using execute_halt_roundtrip[OF sample_starts, of "replicate 64 0" "replicate 4 0" 7 "\<lambda>_. 0"]
  by (auto simp: sample_entry_point simp del: sample_fields(3-10))

theorem execute_fails_cleanly_witness:
  "execute vread (replicate 64 0) (replicate 4 0) 0x410085 sample_kernel =
    Some (Returned (-1), sample_kernel\<lparr>iflag := False\<rparr>)"
proof -
  have "cstring vread sample_kernel 0x410085 []"
    using cstring_end[OF sample_command] by (simp add: cstring_def sample_name_def)
  moreover have "find (\<lambda>d. dentry_name d = []) sample_dir = None"
    using sample_dir_names by (simp add: sample_dir_def sample_name_def)
  ultimately show ?thesis
    using execute_fails_cleanly[OF sample_files_wf sample_boot_image, of "0x410085" "[]" "replicate 64 0" "replicate 4 0"]
    by simp
qed

definition sample_args :: kernel where
  "sample_args = sample_kernel\<lparr>pcbs := (pcbs sample_kernel)(get_pcb 0 :=
     (pcbs sample_kernel (get_pcb 0))\<lparr>user_buf := [97, 32, 98] @ replicate 1021 0\<rparr>)\<rparr>"

lemma sample_args_wf: "files_wf sample_args"
proof -
  have "console_wf sample_args = console_wf sample_kernel"
    by (intro console_wf_cong paging_wf_cong) (simp_all add: sample_args_def)
  then have "procs_wf sample_args" using sample_console_wf by (simp add: procs_wf_def sample_args_def sample_pcb_def)
  moreover have "fds_at sample_args = fds_at sample_kernel"
    by (simp add: fun_eq_iff fds_at_def sample_args_def split: fd_ptr.split)
  ultimately show ?thesis using sample_files_wf by (simp add: files_wf_def sample_args_def)
qed

theorem getargs_delivers_witness:
  "getargs 0x08048000 4 sample_args =
    do { s' \<leftarrow> store_bytes vwrite (sample_args\<lparr>arg_retrieved := [98] @ replicate 1023 0\<rparr>) 0x08048000 [98, 0, 0, 0];
         Some (0, s') }"
proof -
  have u: "user_buf (pcbs sample_args (get_pcb (cur_pid (process_array sample_args ! sched_ix sample_args)))) =
    [97, 32, 98] @ replicate (1024 - length [97, 32, 98]) 0"
    by (simp add: sample_args_def sample_slot_def)
  have a: "arg_text [97, 32, 98] = [98]" by (simp add: arg_text_def)
  have r: "replicate 3 (0 :: u8) = [0, 0, 0]" by (simp add: eval_nat_numeral)
  show ?thesis
    using getargs_delivers[OF sample_args_wf refl u, of "0x08048000" 4] by (simp add: a r)
qed

section \<open>Scheduling\<close>

definition sample_three :: kernel where
  "sample_three = sample_kernel\<lparr>process_array := [sample_slot 0 (PcbFdt (get_pcb 0)), sample_slot 1 (PcbFdt (get_pcb 1)),
     sample_slot 2 (PcbFdt (get_pcb 2))]\<rparr>"

lemma sample_three_wf: "files_wf sample_three" "all_running sample_three"
proof -
  have "console_wf sample_three = console_wf sample_kernel"
    by (intro console_wf_cong paging_wf_cong) (simp_all add: sample_three_def)
  then have "procs_wf sample_three" using sample_procs_wf by (simp add: procs_wf_def sample_three_def)
  moreover have "fds_at sample_three = fds_at sample_kernel" by (rule fds_at_cong) (simp_all add: sample_three_def)
  ultimately show "files_wf sample_three" using sample_files_wf by (simp add: files_wf_def sample_three_def)
  show "all_running sample_three" by (simp add: all_running_def sample_three_def sample_slot_def)
qed

theorem timer_round_robin_witness:
  "\<exists>s'. timer_ticks 3 (replicate 64 0) (replicate 4 0) sample_three = Some s' \<and> sched_ix s' = 0 \<and>
    register_file s' = register_file sample_three"
  using timer_round_robin[OF sample_three_wf, of 3 "replicate 64 0" "replicate 4 0"]
  by (auto simp: sample_three_def)

theorem context_switch_resumes_witness:
  "\<exists>s'. context_switch (replicate 64 0) (replicate 4 0) sample_three = Some (Resumed, s') \<and> schedule_index s' = 1 \<and>
    esp s' = 0x7FDF00 \<and> coherent s'"
  using context_switch_resumes[OF sample_three_wf(1) refl refl, of "replicate 64 0" "replicate 4 0"]
  by (auto simp: sample_three_def next_schedule_def sample_slot_def)

theorem context_switch_boots_witness:
  "\<exists>s'. context_switch (replicate 64 0) (replicate 4 0) sample_kernel = Some (Booted 0x08048018 0x083FFFFC, s') \<and>
    sched_ix s' = 1 \<and> cur_pid (process_array s' ! 1) = 1"
proof -
  have "executable sample_kernel sample_img sample_dir (ascii ''shell'') (sample_dir ! 1) sample_prog"
    using sample_executable by (simp add: ascii_def sample_name_def)
  from context_switch_boots[OF sample_files_wf refl _ sample_boot_image this sample_free_pcb, of "replicate 64 0" "replicate 4 0"]
  show ?thesis by (auto simp: next_schedule_def sample_slot_def sample_entry_point)
qed

section \<open>Interrupts and exceptions\<close>


definition gate_zero :: idt_desc where
  "gate_zero = \<lparr>offset_15_00 = 0, seg_selector = 0, reserved4 = 0, reserved3 = False, reserved2 = False, reserved1 = False,
     gate_size = False, reserved0 = False, dpl = 0, present = False, offset_31_16 = 0\<rparr>"

theorem initialize_idt_gates_witness:
  "gate_addr (initialize_idt (\<lambda>_. 0x400100) (\<lambda>_. gate_zero) 128) = 0x400100 \<and> dpl (initialize_idt (\<lambda>_. 0x400100) (\<lambda>_. gate_zero) 128) = 3"
proof -
  have "(128 :: nat) < 256" by simp
  from initialize_idt_gates[OF this refl, of "\<lambda>_. 0x400100" "\<lambda>_. gate_zero"] show ?thesis by (elim conjE) (auto split: option.splits)
qed

definition sample_line :: kernel where
  "sample_line = set_line 0 1 (97 # replicate 127 0) (sample_kernel\<lparr>flag_keyboard := [1, 0, 0]\<rparr>)"

lemma sample_line_wf: "keyboard_wf sample_line" "kline sample_line 0 = [97]"
proof -
  have "line_holds 1 (97 # replicate 127 0) [97]" by (simp add: line_holds_def)
  from set_line_wf[OF _ _ this, of "sample_kernel\<lparr>flag_keyboard := [1, 0, 0]\<rparr>" 0] sample_keyboard_wf
  show "keyboard_wf sample_line" "kline sample_line 0 = [97]" by (simp_all add: sample_line_def)
qed

lemma sample_line_fields:
  "visible_screen sample_line = 0" "flag_keyboard sample_line = [1, 0, 0]" "process_array sample_line = process_array sample_kernel"
  "schedule_index sample_line = 0" "pcbs sample_line = pcbs sample_kernel" "kernel_fdt sample_line = kernel_fdt sample_kernel"
  by (simp_all add: sample_line_def set_line_def)

theorem interrupt_keyboard_modifiers_witness:
  "\<exists>s'. interrupt_keyboard (\<lambda>_. 0x2A) sample_kernel = Some s' \<and> mods s' = (True, False, False, False)"
proof -
  obtain s' where s': "interrupt_keyboard (\<lambda>_. 0x2A) sample_kernel = Some s'"
    using interrupt_keyboard_total[OF sample_keyboard_wf, of "\<lambda>_. 0x2A"] by (auto simp: kcount_def)
  have "first_code (\<lambda>_. 0x2A) 0 = Some 0x2A" using first_code_now[of "\<lambda>_. 0x2A"] by simp
  from interrupt_keyboard_modifiers[OF sample_keyboard_wf this s']
  have "mods s' = (True, False, False, False)" by (simp add: mods_def[of sample_kernel] mod_step_def)
  with s' show ?thesis by blast
qed

theorem interrupt_keyboard_deletes_witness:
  "\<exists>s'. interrupt_keyboard (\<lambda>_. 0x0E) sample_line = Some s' \<and> kline s' 0 = []"
  using interrupt_keyboard_deletes[OF sample_line_wf(1), of "\<lambda>_. 0x0E"] sample_line_wf(2)
  by (auto simp: sample_line_fields)

theorem keyboard_read_delivers_witness:
  "keyboard_read idle 0 0x08048000 128 sample_line =
    do { s' \<leftarrow> store_bytes vwrite (sample_line\<lparr>flag_keyboard := [0, 0, 0]\<rparr>) 0x08048000 [97, 0];
         Some (1, set_line 0 0 (replicate 128 0) s') }"
proof -
  have f: "get_fd 0 sample_line = Some fd_terminal" "flags fd_terminal \<noteq> 0"
    by (simp_all add: get_fd_def cur_slot_def arr_get_def fds_at_def sample_line_fields sample_slot_def fd_terminal_def)
  have c: "cur_slot sample_line = Some (sample_slot 0 (PcbFdt (get_pcb 0)))"
    by (simp add: cur_slot_def arr_get_def sample_line_fields)
  have "stops_at (\<lambda>s. key_ready (screen_idx (pcbs s (get_pcb (cur_pid (sample_slot 0 (PcbFdt (get_pcb 0))))))) s) idle 0 0
      sample_line sample_line"
    by (simp add: key_ready_def arr_get_def sample_line_fields sample_slot_def sample_pcb_def)
  from keyboard_read_delivers[OF f c this sample_line_wf(1), of "0x08048000" 128] show ?thesis
    using sample_line_wf(2) by (simp add: sample_line_fields)
qed

section \<open>A whole file\<close>

theorem open_read_close_witness:
  "\<exists>s1 s2 s3. sys_open (replicate 64 0) 0x410080 sample_kernel = Some (4, s1) \<and>
    read_chunks idle (replicate 64 0) 4 0x08048000 [4, 100] s1 = Some (take 104 sample_prog, s2) \<and> sys_close 4 s2 = Some (0, s3) \<and>
    flags (cur_fds s3 ! 4) = 0"
proof -
  have n: "\<forall>n\<in>set [4, 100 :: i32]. 0 < n \<and> unat n \<le> 100" by simp
  have len: "sum_list (map unat [4, 100 :: i32]) \<le> unat (img_length sample_img (unat (dentry_inode (sample_dir ! 1))))"
    by (simp add: sample_entry sample_img_inode)
  have f: "file_ok (geometry_of sample_kernel) sample_img (unat (dentry_inode (sample_dir ! 1)))"
    using sample_file_ok by (simp add: sample_entry)
  have k: "dentry_type (sample_dir ! 1) = 2" "(0x08048000 :: u32) \<noteq> 0" "(100 :: nat) \<le> 0x3B8000" by (simp_all add: sample_entry)
  have "file_contents (geometry_of sample_kernel) sample_img (unat (dentry_inode (sample_dir ! 1))) = sample_prog"
    by (simp add: sample_entry sample_prog_def)
  then show ?thesis
    using open_read_close[OF sample_files_wf sample_dir_image sample_name_at _ sample_free_fd sample_found k(1) sample_image_ok f
        sample_vm_image_ok[OF k(3)] sample_user_buffer(1,2)[OF k(3)] k(2) n len, of "replicate 64 0" idle "replicate 64 0"]
    by (auto simp del: sample_fields)
qed

section \<open>Start of the kernel\<close>

definition seg_zero :: seg_desc where
  "seg_zero = \<lparr>seg_lim_15_00 = 0, base_15_00 = 0, base_23_16 = 0, seg_type = 0, seg_sys = 0, seg_dpl = 0, seg_present = 0,
     seg_lim_19_16 = 0, seg_avail = 0, seg_reserved = 0, seg_opsize = 0, seg_granularity = 0, base_31_24 = 0\<rparr>"

definition sample_linked :: linked where
  "sample_linked = \<lparr>ldt_addr = 0x406000, ldt_size = 0x4F, tss_addr = 0x406100, tss_size = 104,
     keyboard_table_addr = 0x406200, handler_addr = (\<lambda>_. 0x400100)\<rparr>"

definition sample_boot :: cpu where
  "sample_boot = kernel.extend (sample_kernel\<lparr>paging_on := False, process_array := replicate 3 (sample_slot (-1) KernelFdt),
     pcbs := \<lambda>_. sample_pcb\<rparr>) (cpu.fields seg_zero seg_zero 0 0 0 0 (\<lambda>_. gate_zero))"

lemma sample_boot_ready: "boot_ready sample_boot"
proof -
  have p: "pte_vid sample_kernel = (\<lambda>_. 0)" "addr_pte sample_kernel = 0x404000" "addr_pte_vid sample_kernel = 0x405000"
    "screen_x sample_kernel = [0, 0, 0]" "screen_y sample_kernel = [0, 0, 0]"
    unfolding sample_kernel_def by (subst init_paging_more, simp)+
  note b = sample_boot_def kernel.extend_def
  have "cursor_ok ([0, 0, 0] ! i) ([0, 0, 0] ! i)" if "i < 3" for i :: nat
    using that by (auto simp: cursor_ok_def less_Suc_eq numeral_3_eq_3)
  moreover have "fds_at sample_boot q = replicate 8 fd_closed" for q
    by (simp add: fds_at_def b sample_pcb_def split: fd_ptr.split)
  moreover have "kbuf sample_boot i = replicate 128 0" for i by (simp add: kbuf_def b)
  ultimately show ?thesis
    unfolding boot_ready_def by (simp add: p b fd_valid_def fd_closed_def sample_pcb_def)
qed

theorem entry_init_establishes_witness:
  "\<exists>s'. entry_init sample_linked seg_zero (replicate 64 0) sample_boot = Some s' \<and> kernel_inv s' \<and> iflag s'"
  using entry_init_establishes[OF sample_boot_ready, of sample_linked seg_zero "replicate 64 0"] by blast

section \<open>Blocks of memory\<close>

lemma sample_span:
  "inj_on (translate sample_kernel) (span 0x08048000 12)" "a \<in> span 0x08048000 12 \<Longrightarrow> translate sample_kernel a \<noteq> None"
proof -
  have a: "\<exists>k<12. a = 0x08048000 + of_nat k" if "a \<in> span 0x08048000 12" for a
  proof (intro exI conjI)
    show "unat a - 0x08048000 < 12" using that by (auto simp: span_def)
    show "a = 0x08048000 + of_nat (unat a - 0x08048000)" using that by (simp add: span_def of_nat_diff)
  qed
  show "a \<in> span 0x08048000 12 \<Longrightarrow> translate sample_kernel a \<noteq> None" using a[of a] sample_user by fastforce
  show "inj_on (translate sample_kernel) (span 0x08048000 12)"
  proof (rule inj_onI)
    fix x y assume "x \<in> span 0x08048000 12" "y \<in> span 0x08048000 12" and e: "translate sample_kernel x = translate sample_kernel y"
    then obtain k l where "k < 12" "l < 12" and x: "x = 0x08048000 + of_nat k" "y = 0x08048000 + of_nat l" using a by blast
    with e show "x = y" using sample_user[of k] sample_user[of l] by auto
  qed
qed

theorem memmove_moves_witness:
  "\<exists>s'. memmove vread vwrite sample_kernel 0x08048004 0x08048000 8 = Some (s', True) \<and>
    load_bytes vread s' 0x08048004 8 = load_bytes vread sample_kernel 0x08048000 8"
proof -
  have sub: "span 0x08048004 (unat (8 :: u32)) \<union> span 0x08048000 (unat (8 :: u32)) \<subseteq> span 0x08048000 12" by (auto simp: span_def)
  have m: "\<forall>a\<in>span 0x08048004 (unat (8 :: u32)) \<union> span 0x08048000 (unat (8 :: u32)). translate sample_kernel a \<noteq> None"
    using sub sample_span(2) by blast
  show ?thesis
    using memmove_moves[OF _ _ m inj_on_subset[OF sample_span(1) sub]] by simp blast
qed

theorem memcpy_copies_witness:
  "\<exists>s'. memcpy vread vwrite sample_kernel 0x08048000 0x410000 8 = Some s' \<and>
    load_bytes vread s' 0x08048000 8 = Some [2, 0, 0, 0, 1, 0, 0, 0]"
proof -
  have "map (\<lambda>k. sample_phys (0x410000 + of_nat k)) [0..<8] = [2, 0, 0, 0, 1, 0, 0, 0]"
    by (simp add: upt_rec sample_phys_def sample_image_def)
  moreover have "load_bytes vread sample_kernel 0x410000 8 = Some (map (\<lambda>k. sample_phys (0x410000 + of_nat k)) [0..<8])"
    by (rule load_bytes_SomeI) (simp_all add: sample_vread del: upt_rec_numeral)
  moreover have "cells translate sample_kernel 0x08048000 8 \<inter> cells translate sample_kernel 0x410000 8 = {}"
    using sample_user_buffer(3)[of 8] cells_mono[of 8 "length sample_img" translate sample_kernel "0x410000"]
    by (auto simp: sample_img_length)
  moreover have "inj_cells translate sample_kernel 0x08048000 8" by (rule sample_user_buffer(2)) simp
  ultimately show ?thesis
    using memcpy_copies[of sample_kernel "0x08048000" 8 "0x410000"] by (auto simp: sample_user sample_translate)
qed

theorem itoa_roundtrip_witness:
  "\<exists>s' ds. itoa vread vwrite sample_kernel 1234 0x08048000 10 = Some s' \<and>
    cstring vread s' 0x08048000 (map digit_char ds) \<and> radix_value 10 ds = 1234"
  using itoa_roundtrip[of 10 sample_kernel "0x08048000" 1234] sample_user_buffer(1,2)[of 34] by auto

section \<open>User programs\<close>

text \<open>
  A user process with the given texts in its memory, 64 bytes apart, with no file open and the
  command line \<open>cat shell\<close>.
\<close>

definition text_index :: "u8 list list \<Rightarrow> u8 list \<Rightarrow> nat" where
  "text_index ts xs = length (takeWhile (\<lambda>ys. ys \<noteq> xs) ts)"

definition text_byte :: "u8 list list \<Rightarrow> nat \<Rightarrow> u8" where
  "text_byte ts k = (let xs = ts ! (k div 64) in if k div 64 < length ts \<and> k mod 64 < length xs then xs ! (k mod 64) else 0)"

definition sample_user_kernel :: "u8 list list \<Rightarrow> kernel" where
  "sample_user_kernel ts = sample_kernel\<lparr>
     phys := \<lambda>p. if 0x848000 \<le> unat p then text_byte ts (unat p - 0x848000) else sample_phys p,
     pcbs := (\<lambda>_. sample_pcb)(get_pcb 0 := sample_pcb\<lparr>pcb_use := 1,
        fd_table := [fd_terminal, fd_terminal] @ replicate 6 fd_closed,
        user_buf := ascii ''cat shell'' @ replicate 1015 0\<rparr>)\<rparr>"


definition sample_host :: "u8 list list \<Rightarrow> kernel host" where
  "sample_host ts = \<lparr>polls = idle, stack_dent = replicate 64 0, stack_magic = replicate 4 0,
     lit = \<lambda>xs. 0x08048000 + of_nat (64 * text_index ts xs), child = \<lambda>_ _ _. None\<rparr>"

lemma text_index: "xs \<in> set ts \<Longrightarrow> text_index ts xs < length ts \<and> ts ! text_index ts xs = xs"
  by (induction ts) (auto simp: text_index_def)

lemma text_byte: "xs \<in> set ts \<Longrightarrow> k < 64 \<Longrightarrow>
    text_byte ts (64 * text_index ts xs + k) = (if k < length xs then xs ! k else 0)"
  using text_index[of xs ts] by (simp add: text_byte_def Let_def)

lemma sample_user_frame:
  fixes ts defines "s \<equiv> sample_user_kernel ts"
  shows "files_wf s" "coherent s" "boot_image s sample_img sample_dir" "translate s = translate sample_kernel"
    "cur_fds s = [fd_terminal, fd_terminal] @ replicate 6 fd_closed" "closed s"
proof -
  note d = s_def sample_user_kernel_def
  have "paging_wf s = paging_wf sample_kernel" by (rule paging_wf_cong) (simp_all add: d)
  then have p: "paging_wf s" using sample_paging_wf by simp
  have "console_wf s = console_wf sample_kernel" by (intro console_wf_cong paging_wf_cong) (simp_all add: d)
  then have "procs_wf s" using sample_procs_wf by (simp add: procs_wf_def d sample_pcb_def ascii_def)
  moreover have "fds_at s q = (if q = PcbFdt (get_pcb 0) then [fd_terminal, fd_terminal] @ replicate 6 fd_closed else replicate 8 fd_closed)" for q
    by (simp add: fds_at_def d sample_pcb_def split: fd_ptr.split)
  ultimately show "files_wf s"
    by (auto simp: files_wf_def fd_valid_def fd_terminal_def fd_closed_def d)
  show "coherent s" using sample_coherent by (simp add: coherent_def video_page_def term_page_def d)
  show "translate s = translate sample_kernel" by (simp add: fun_eq_iff d translate_def)
  show c: "cur_fds s = [fd_terminal, fd_terminal] @ replicate 6 fd_closed"
    by (simp add: fds_at_def d sample_slot_def)
  show "closed s" unfolding closed_def c by (auto simp: nth_append nth_Cons' fd_closed_def)
  show "boot_image s sample_img sample_dir"
    by (rule boot_image_transfer[OF sample_boot_image sample_paging_wf p]) (auto simp: d)
qed

lemma sample_user_ready:
  assumes ts: "64 * length ts \<le> 0x10000" "\<forall>xs\<in>set ts. length xs < 64 \<and> 0 \<notin> set xs"
  shows "program_ready (sample_host ts) ts sample_img sample_dir (sample_user_kernel ts)"
proof -
  let ?s = "sample_user_kernel ts"
  note f = sample_user_frame[of ts]
  have "off_screen ?s (lit (sample_host ts) xs) (Suc (length xs)) \<and> cstring vread ?s (lit (sample_host ts) xs) xs"
    if xs: "xs \<in> set ts" for xs
  proof -
    let ?i = "64 * text_index ts xs" and ?p = "lit (sample_host ts) xs"
    have l: "length xs < 64" "0 \<notin> set xs" and i: "?i + 64 \<le> 0x10000" using ts text_index[OF xs] xs by fastforce+
    have p: "?p + of_nat k = 0x08048000 + of_nat (?i + k)" for k by (simp add: sample_host_def)
    have tr: "translate ?s (?p + of_nat k) = Some (0x848000 + of_nat (?i + k))" if "k < 64" for k
      unfolding p f(4) by (rule sample_user) (use i that in linarith)
    have u: "unat (0x848000 + of_nat (?i + k) :: u32) = 0x848000 + (?i + k)" if "k < 64" for k
      by (rule sample_user_nat) (use i that in linarith)
    have v: "vread ?s (?p + of_nat k) = Some (if k < length xs then xs ! k else 0)" if "k < 64" for k
    proof -
      have "phys ?s (0x848000 + of_nat (?i + k)) = text_byte ts (?i + k)"
        unfolding sample_user_kernel_def by (simp add: u[OF that] del: of_nat_add of_nat_mult)
      then show ?thesis using text_byte[OF xs that] by (simp only: vread_def tr[OF that] option.map)
    qed
    have "?p \<noteq> 0"
    proof
      assume "?p = 0"
      then have "unat (0x08048000 + of_nat ?i :: u32) = 0" using p[of 0] by simp
      then show False using i by (simp add: unat_word_ariths unat_of_nat take_bit_nat_eq_self)
    qed
    moreover have "\<not> video_area (0x848000 + of_nat (?i + k))" if "k < 64" for k
    proof -
      have "188 \<le> (0x848000 + (?i + k)) div 4096" by (simp add: less_eq_div_iff_mult_less_eq)
      then show ?thesis unfolding video_area_def u[OF that] by linarith
    qed
    moreover have "load_bytes vread ?s ?p (Suc (length xs)) = Some (xs @ [0])"
      by (rule load_bytes_SomeI) (use v l(1) in \<open>auto simp: nth_append\<close>)
    ultimately show ?thesis using l tr by (auto simp: off_screen_def cstring_def)
  qed
  moreover have "flags (cur_fds ?s ! k) \<noteq> 0 \<and> table_pointer (cur_fds ?s ! k) = KeyboardTable" if "k < 2" for k
    using that unfolding f(5) by (auto simp: less_2_cases_iff fd_terminal_def)
  ultimately show ?thesis
    using f(1-3) by (simp add: program_ready_def sample_host_def)
qed

theorem syserr_passes_witness:
  "\<exists>t. syserr_select (sample_host syserr_texts) 0x08060000 0 (sample_user_kernel syserr_texts) = Some (0, t) \<and> closed t"
proof -
  have "(0 :: u8) \<notin> set xs \<and> length xs < 64" if "xs \<in> set syserr_texts" for xs
    using that by (auto simp: syserr_texts_def passed_def test_names_def ascii_def)
  then have r: "program_ready (sample_host syserr_texts) syserr_texts sample_img sample_dir (sample_user_kernel syserr_texts)"
    by (intro sample_user_ready) (simp_all add: syserr_texts_def test_names_def)
  have n: "\<forall>xs\<in>{ascii ''helloo'', ascii ''shel'', []}. find (\<lambda>d. dentry_name d = xs) sample_dir = None"
    using sample_dir_names by (auto simp: sample_dir_def sample_name_def ascii_def)
  have e: "find (\<lambda>d. dentry_name d = ascii ''.'') sample_dir = Some (sample_dir ! 0)" "dentry_type (sample_dir ! 0) < 3"
    using sample_dir_names
    by (simp_all add: ascii_def dentry_word_def sample_dir_def sample_img_length sample_img_nth le32_def
        sample_phys_def sample_image_def)
  show ?thesis
    using syserr_passes[OF r sample_user_frame(6) order_refl n e, of "0x08060000"] by blast
qed

lemma sample_buffer: "n \<le> 0x10000 \<Longrightarrow> user_buffer (sample_user_kernel ts) 0x08060000 n"
proof -
  assume n: "n \<le> 0x10000"
  have tr: "translate (sample_user_kernel ts) (0x08060000 + of_nat j) = Some (0x860000 + of_nat j)"
    "unat (0x860000 + of_nat j :: u32) = 0x860000 + j" if "j < n" for j
    using sample_user[of "0x18000 + j"] sample_user_nat[of "0x18000 + j"] that n sample_user_frame(4)[of ts]
    by (simp_all add: add.assoc[symmetric])
  have "inj_cells translate (sample_user_kernel ts) 0x08060000 n"
    unfolding inj_cells_def
  proof (intro allI impI)
    fix i j :: nat assume ij: "i < n" "j < n" "i \<noteq> j"
    then have "(0x860000 + of_nat i :: u32) \<noteq> 0x860000 + of_nat j" using tr(2) by (metis add_left_cancel)
    then show "translate (sample_user_kernel ts) (0x08060000 + of_nat i) \<noteq> translate (sample_user_kernel ts) (0x08060000 + of_nat j)"
      using tr(1) ij by simp
  qed
  then show ?thesis using tr n by (auto simp: user_buffer_def)
qed

lemma sample_first_fd: "find (\<lambda>k. flags (cur_fds (sample_user_kernel ts) ! k) = 0) [2..<8] = Some 2"
  unfolding sample_user_frame(5) by (simp add: fd_closed_def upt_rec)

lemma sample_dot: "find (\<lambda>d. dentry_name d = ascii ''.'') sample_dir = Some (sample_dir ! 0)" "dentry_type (sample_dir ! 0) = 1"
  using sample_dir_names
  by (simp_all add: ascii_def dentry_word_def sample_dir_def sample_img_length sample_img_nth le32_def
      sample_phys_def sample_image_def)

theorem ls_lists_witness:
  "\<exists>t. ls_main (sample_host [ascii ''.'']) 0x08060000 (sample_user_kernel [ascii ''.'']) = Some (0, t) \<and>
    wrote (ascii ''.'' @ [10] @ ascii ''shell'' @ [10]) (sample_user_kernel [ascii ''.'']) t"
proof -
  have "program_ready (sample_host [ascii ''.'']) [ascii ''.''] sample_img sample_dir (sample_user_kernel [ascii ''.''])"
    by (rule sample_user_ready) (simp_all add: ascii_def)
  moreover have "name_lines sample_dir = ascii ''.'' @ [10] @ ascii ''shell'' @ [10]" "\<forall>d\<in>set sample_dir. dentry_name d \<noteq> []"
    using sample_dir_names by (simp_all add: name_lines_def sample_dir_def ascii_def sample_name_def)
  ultimately show ?thesis using ls_lists[OF _ _ sample_buffer sample_dot sample_first_fd] by auto
qed

lemma sample_phys_gap: "0x412002 \<le> unat p \<Longrightarrow> unat p < 0x413000 \<Longrightarrow> sample_phys p = 0"
  by (auto simp: sample_phys_def sample_image_def)

lemma sample_padding: "file_blocks (geometry_of sample_kernel) sample_img 0 = sample_prog @ replicate 3192 0"
proof -
  have l: "length (file_blocks (geometry_of sample_kernel) sample_img 0) = 8192"
    using file_blocks_length[OF sample_image_ok sample_file_ok] by (simp add: sample_img_inode)
  have "drop 5000 (file_blocks (geometry_of sample_kernel) sample_img 0) = replicate 3192 0"
  proof (rule nth_equalityI)
    fix k assume "k < length (drop 5000 (file_blocks (geometry_of sample_kernel) sample_img 0))"
    then have k: "k < 3192" using l by simp
    have b: "file_blocks (geometry_of sample_kernel) sample_img 0 = drop 12288 sample_img @ take 4096 (drop 8192 sample_img)"
      by (simp add: file_blocks_def sample_img_inode sample_img_inode(3)[unfolded One_nat_def] upt_rec img_data_def block_off_def sample_geometry sample_img_length)
    have "unat (0x410000 + of_nat (9096 + k) :: u32) = 0x410000 + (9096 + k)"
      using k by (simp only: unat_word_ariths unat_of_nat) (simp add: take_bit_nat_eq_self)
    then have "sample_phys (0x410000 + of_nat (9096 + k)) = 0" using k by (intro sample_phys_gap) simp_all
    then have "sample_img ! (9096 + k) = 0" using sample_img_nth[of "9096 + k"] k by simp
    with k l show "drop 5000 (file_blocks (geometry_of sample_kernel) sample_img 0) ! k = replicate 3192 0 ! k"
      by (simp add: b nth_append sample_img_length)
  qed (simp add: l)
  moreover have "take 5000 (file_blocks (geometry_of sample_kernel) sample_img 0) = sample_prog"
    by (simp add: sample_prog_def file_contents_def file_blocks_def sample_img_inode)
  ultimately show ?thesis by (metis append_take_drop_id)
qed

theorem cat_prints_witness:
  "\<exists>t. cat_main (sample_host []) 0x08060000 (sample_user_kernel []) = Some (0, t) \<and>
    wrote sample_prog (sample_user_kernel []) t"
proof -
  let ?s = "sample_user_kernel []"
  have r: "program_ready (sample_host []) [] sample_img sample_dir ?s" by (rule sample_user_ready) simp_all
  have a: "user_buf (pcbs ?s (get_pcb (cur_pid (process_array ?s ! sched_ix ?s)))) =
      ascii ''cat shell'' @ replicate (1024 - length (ascii ''cat shell'')) 0"
    "0 \<notin> set (ascii ''cat shell'')" "length (ascii ''cat shell'') < 1024"
    by (simp_all add: sample_user_kernel_def sample_slot_def ascii_def)
  have t: "arg_text (ascii ''cat shell'') = sample_name" by (simp add: arg_text_def ascii_def sample_name_def)
  have g: "geometry_of ?s = geometry_of sample_kernel" by (simp add: sample_user_kernel_def geometry_of_def)
  have i: "unat (dentry_inode (sample_dir ! 1)) = 0" by (simp add: sample_entry)
  have f: "file_ok (geometry_of ?s) sample_img (unat (dentry_inode (sample_dir ! 1)))"
    "0 < unat (img_length sample_img (unat (dentry_inode (sample_dir ! 1))))"
    "unat (img_length sample_img (unat (dentry_inode (sample_dir ! 1)))) \<le> 4096 * 1022"
    using sample_file_ok unfolding g i by (simp_all add: sample_img_inode)
  have p: "file_blocks (geometry_of ?s) sample_img (unat (dentry_inode (sample_dir ! 1))) =
      file_contents (geometry_of ?s) sample_img (unat (dentry_inode (sample_dir ! 1))) @ replicate 3192 0"
    unfolding g i using sample_padding by (simp add: sample_prog_def)
  have b: "user_buffer ?s 0x08060000 1024" by (rule sample_buffer) simp
  have e: "find (\<lambda>d. dentry_name d = arg_text (ascii ''cat shell'')) sample_dir = Some (sample_dir ! 1)"
    "arg_text (ascii ''cat shell'') \<noteq> []" "dentry_type (sample_dir ! 1) = 2"
    unfolding t using sample_found by (simp_all add: sample_entry sample_name_def)
  from cat_prints[OF r b a e sample_first_fd f p] show ?thesis unfolding g i sample_prog_def .
qed

text \<open>The same process with a finished line on its terminal.\<close>

definition sample_typed :: "u8 list list \<Rightarrow> u8 list \<Rightarrow> kernel" where
  "sample_typed ts xs = set_line 0 (int (length xs)) (xs @ replicate (128 - length xs) 0)
     ((sample_user_kernel ts)\<lparr>flag_keyboard := [1, 0, 0]\<rparr>)"

lemma sample_typed:
  assumes ts: "64 * length ts \<le> 0x10000" "\<forall>xs\<in>set ts. length xs < 64 \<and> 0 \<notin> set xs"
    and xs: "length xs \<le> 128" "0 \<notin> set xs"
  defines "s \<equiv> sample_typed ts xs"
  shows "program_ready (sample_host ts) ts sample_img sample_dir s" "keyboard_wf s" "kline s 0 = xs"
    "translate s = translate sample_kernel" "flag_keyboard s = [1, 0, 0]" "visible_screen s = 0"
    "schedule_index s = 0" "cur_pid (process_array s ! 0) = 0" "screen_idx (pcbs s p) = 0"
proof -
  let ?u = "sample_user_kernel ts"
  note d = s_def sample_typed_def set_line_def
  have wu: "files_wf ?u" "key_status ?u = 0" by (rule sample_user_frame(1)) (simp add: sample_user_kernel_def)
  have tr: "translate s = translate ?u" unfolding d by (simp, rule translate_cong; simp)
  have fd: "fds_at s = fds_at ?u" unfolding d by (simp, rule fds_at_cong; simp)
  have "console_wf (?u\<lparr>flag_keyboard := [1, 0, 0]\<rparr>) = console_wf ?u" by (intro console_wf_cong paging_wf_cong) simp_all
  then have "procs_wf (?u\<lparr>flag_keyboard := [1, 0, 0]\<rparr>) = procs_wf ?u" by (simp add: procs_wf_def)
  then have pw: "procs_wf s" using wu(1) unfolding s_def sample_typed_def by (simp add: files_wf_def)
  then have wf: "files_wf s" using wu(1) fd xs by (simp add: files_wf_def) (simp add: d)
  have fr: "fd_frame ?u s" using tr by (simp add: fd_frame_def) (simp add: d)
  have "cur_fds s = cur_fds ?u" using fd by (simp add: d)
  then show "program_ready (sample_host ts) ts sample_img sample_dir s"
    using program_ready_fd(1)[OF sample_user_ready[OF ts] fr wf] by simp
  have lh: "line_holds (kcount s i) (kbuf s i) (if i = 0 then xs else [])" if "i < 3" for i
    using that xs by (auto simp: line_holds_def d kcount_def kbuf_def sample_user_kernel_def)
  moreover have k: "kline s i = (if i = 0 then xs else [])" if "i < 3" for i
    using line_holds_unique[OF lh[OF that]] by (simp only: kline_def)
  ultimately show "keyboard_wf s" using pw wu(2) by (simp add: keyboard_wf_def) (simp add: d)
  show "kline s 0 = xs" using k by simp
  show "translate s = translate sample_kernel" using tr sample_user_frame(4) by simp
  show "flag_keyboard s = [1, 0, 0]" "visible_screen s = 0" "schedule_index s = 0" "cur_pid (process_array s ! 0) = 0" "screen_idx (pcbs s p) = 0"
    by (simp_all add: d sample_user_kernel_def sample_slot_def sample_pcb_def)
qed

text \<open>A prompt is printed on it, and the read that follows does not have to wait.\<close>

lemma sample_prompt_from:
  assumes s: "program_ready (sample_host ts) ts sample_img sample_dir s" "keyboard_wf s" "kline s 0 = xs"
    "translate s = translate sample_kernel" "flag_keyboard s = [1, 0, 0]" "visible_screen s = 0"
    "schedule_index s = 0" "cur_pid (process_array s ! 0) = 0" "\<forall>p. screen_idx (pcbs s p) = 0" and p: "p \<in> set ts"
  shows "\<exists>t. say (sample_host ts) p s = Some t \<and> awaits (sample_host ts) t t \<and>
    program_ready (sample_host ts) ts sample_img sample_dir t \<and> keyboard_wf t \<and> user_buffer t 0x08060000 1024 \<and>
    translate t = translate sample_kernel \<and> kline t (vis_ix t) = xs"
proof -
  obtain t where t: "say (sample_host ts) p s = Some t" "program_ready (sample_host ts) ts sample_img sample_dir t"
    "prints s t" using say_step[OF s(1) p] by blast
  have "console_wf t" using t(2) by (simp add: program_ready_def files_wf_def procs_wf_def)
  then have kf: "key_frame s t" using t(3) prints_key_frame by blast
  have f: "visible_screen t = 0" "schedule_index t = 0" "flag_keyboard t = [1, 0, 0]" "cur_pid (process_array t ! 0) = 0"
    "screen_idx (pcbs t q) = 0" "translate t = translate sample_kernel" for q
    using prints_fields(1,2,4)[OF t(3)] kf s(4-9) by (simp_all add: key_frame_def)
  have "awaits (sample_host ts) t t"
    unfolding awaits_def by (rule exI[of _ 0]) (simp add: key_ready_def f arr_get_def)
  moreover have "user_buffer t 0x08060000 1024"
    using sample_buffer[of 1024 ts] user_buffer_cong[of t "sample_user_kernel ts"] f(6) sample_user_frame(4)[of ts] by simp
  ultimately show ?thesis using t(1,2) key_frame_wf[OF kf s(2)] s(3) f(1,6) by simp
qed

lemma sample_prompt:
  assumes ts: "64 * length ts \<le> 0x10000" "\<forall>xs\<in>set ts. length xs < 64 \<and> 0 \<notin> set xs"
    and xs: "length xs \<le> 128" "0 \<notin> set xs" and p: "p \<in> set ts"
  shows "\<exists>t. say (sample_host ts) p (sample_typed ts xs) = Some t \<and> awaits (sample_host ts) t t \<and>
    program_ready (sample_host ts) ts sample_img sample_dir t \<and> keyboard_wf t \<and> user_buffer t 0x08060000 1024 \<and>
    translate t = translate sample_kernel \<and> kline t (vis_ix t) = xs"
  using sample_typed[OF ts xs] p by (intro sample_prompt_from) auto

text \<open>The literals and the buffer do not overlap.\<close>

lemma sample_apart_buffer:
  assumes "translate t = translate sample_kernel" "64 * text_index ts xs + n \<le> 0x10000" "m \<le> 0x10000"
  shows "cells translate t (lit (sample_host ts) xs) n \<inter> cells translate t 0x08060000 m = {}"
proof -
  let ?i = "64 * text_index ts xs"
  have a: "c = 0x848000 + of_nat (?i + j)" "unat c = 0x848000 + (?i + j)"
    if "translate t (lit (sample_host ts) xs + of_nat j) = Some c" "j < n" for c j
    using that sample_user[of "?i + j"] sample_user_nat[of "?i + j"] assms by (simp_all add: sample_host_def add.assoc)
  have b: "unat c = 0x860000 + j" if "translate t (0x08060000 + of_nat j) = Some c" "j < m" for c j
    using that sample_user[of "0x18000 + j"] sample_user_nat[of "0x18000 + j"] assms(1,3) by (simp add: add.assoc[symmetric])
  show ?thesis using a(2) b assms(2) unfolding cells_def by fastforce
qed

lemmas sample_apart = sample_apart_buffer[where m = 1024, simplified]

theorem shell_turn_runs_witness:
  "\<exists>u. shell_turn (sample_host [ascii ''391OS> '', ascii ''exit'']) 0x08060000
      (sample_typed [ascii ''391OS> '', ascii ''exit''] (ascii ''exit'')) = Some (Some 0, u)"
proof -
  let ?ts = "[ascii ''391OS> '', ascii ''exit'']"
  have ts: "64 * length ?ts \<le> 0x10000" "\<forall>xs\<in>set ?ts. length xs < 64 \<and> 0 \<notin> set xs"
    "length (ascii ''exit'') \<le> 128" "0 \<notin> set (ascii ''exit'')" "ascii ''391OS> '' \<in> set ?ts" by (simp_all add: ascii_def)
  obtain t where t: "say (sample_host ?ts) (ascii ''391OS> '') (sample_typed ?ts (ascii ''exit'')) = Some t"
    "awaits (sample_host ?ts) t t" "program_ready (sample_host ?ts) ?ts sample_img sample_dir t" "keyboard_wf t"
    "user_buffer t 0x08060000 1024" "translate t = translate sample_kernel" "kline t (vis_ix t) = ascii ''exit''"
    using sample_prompt[OF ts] by blast
  have ap: "cells translate t (lit (sample_host ?ts) (ascii ''exit'')) 5 \<inter> cells translate t 0x08060000 1024 = {}"
    by (rule sample_apart[OF t(6)]) (simp add: text_index_def ascii_def)
  have c: "command_of (kline t (vis_ix t)) = ascii ''exit''" "length (kline t (vis_ix t)) < 128"
    unfolding t(7) by (simp_all add: command_of_def ascii_def)
  show ?thesis
    using shell_turn_runs[OF sample_typed(1)[OF ts(1-4)] _ t(1-5) ap refl c(2)] by (auto simp: c(1))
qed

theorem hello_greets_witness:
  "\<exists>s t u. say (sample_host [ascii ''Hi, what'' @ [39] @ ascii ''s your name? '', ascii ''Hello, '']) (ascii ''Hi, what'' @ [39] @ ascii ''s your name? '') s = Some t \<and>
    hello_main (sample_host [ascii ''Hi, what'' @ [39] @ ascii ''s your name? '', ascii ''Hello, '']) 0x08060000 s = Some (0, u) \<and>
    wrote (ascii ''Hello, Ann'') t u"
proof -
  let ?p = "ascii ''Hi, what'' @ [39] @ ascii ''s your name? ''"
  let ?ts = "[?p, ascii ''Hello, '']"
  have ts: "64 * length ?ts \<le> 0x10000" "\<forall>xs\<in>set ?ts. length xs < 64 \<and> 0 \<notin> set xs"
    "length (ascii ''Ann'') \<le> 128" "0 \<notin> set (ascii ''Ann'')" "?p \<in> set ?ts" by (simp_all add: ascii_def)
  obtain t where t: "say (sample_host ?ts) ?p (sample_typed ?ts (ascii ''Ann'')) = Some t"
    "awaits (sample_host ?ts) t t" "program_ready (sample_host ?ts) ?ts sample_img sample_dir t" "keyboard_wf t"
    "user_buffer t 0x08060000 1024" "translate t = translate sample_kernel" "kline t (vis_ix t) = ascii ''Ann''"
    using sample_prompt[OF ts] by blast
  have ap: "cells translate t (lit (sample_host ?ts) (ascii ''Hello, '')) 8 \<inter> cells translate t 0x08060000 1024 = {}"
    by (rule sample_apart[OF t(6)]) (simp add: text_index_def ascii_def)
  have x: "ascii ''Ann'' = kline t (vis_ix t)" "length (ascii ''Ann'') < 128" unfolding t(7) by (simp_all add: ascii_def)
  have "ascii ''Hello, '' @ ascii ''Ann'' = ascii ''Hello, Ann''" by (simp add: ascii_def)
  then show ?thesis
    using hello_greets[OF sample_typed(1)[OF ts(1-4)] _ t(1-5) ap x] t(1) by auto
qed

theorem ece391_strcmp_orders_witness:
  "\<exists>r. ece391_strcmp array_rd [97, 98, 0, 97, 99, 0] 0 3 = Some r \<and> r \<noteq> 0 \<and> sint r < 0"
proof -
  have "cstring array_rd [97, 98, 0, 97, 99, 0] 0 [97, 98]" "cstring array_rd [97, 98, 0, 97, 99, 0] 3 [97, 99]"
    unfolding cstring_def by (intro conjI load_bytes_SomeI; auto simp: array_rd_def less_Suc_eq)+
  from ece391_strcmp_orders[OF this] show ?thesis by (auto simp: word_less_nat_alt)
qed

end
