(* ===== verification/Counter.thy ===== *)
theory Counter
  imports Shell
begin

text \<open>
  What the \<open>counter\<close> program does: the number conversion touches its buffer only, so the program counts
  on its terminal from 1 to the bound its user chose.
\<close>

section \<open>The conversion stays in its buffer\<close>

text \<open>A property of the memory that every write to one of the first \<open>n\<close> bytes at \<open>p\<close> keeps.\<close>

definition kept_at :: "('s \<Rightarrow> u32 \<Rightarrow> u8 \<Rightarrow> 's option) \<Rightarrow> u32 \<Rightarrow> nat \<Rightarrow> ('s \<Rightarrow> bool) \<Rightarrow> bool" where
  "kept_at wr p n P \<longleftrightarrow> (\<forall>t t' i b. P t \<longrightarrow> i < n \<longrightarrow> wr t (p + of_nat i) b = Some t' \<longrightarrow> P t')"

lemma kept_at_step: "kept_at wr p n P \<Longrightarrow> P t \<Longrightarrow> i < n \<Longrightarrow> wr t (p + of_nat i) b = Some t' \<Longrightarrow> P t'"
  by (auto simp: kept_at_def)

lemma store_kept:
  assumes k: "kept_at wr p n P"
  shows "store_bytes wr s (p + of_nat i) bs = Some s' \<Longrightarrow> i + length bs \<le> n \<Longrightarrow> P s \<Longrightarrow> P s'"
proof (induction bs arbitrary: s i)
  case Nil
  then show ?case by simp
next
  case (Cons b bs)
  then obtain t where t: "wr s (p + of_nat i) b = Some t" "store_bytes wr t (p + of_nat (Suc i)) bs = Some s'"
    by (auto simp: bind_Some_iff ac_simps)
  have "P t" using kept_at_step[OF k _ _ t(1)] Cons.prems by simp
  then show ?case using Cons.IH[OF t(2)] Cons.prems by simp
qed

lemma strrev_loop_kept:
  assumes k: "kept_at wr p n P"
  shows "strrev_loop rd wr s p bg en = Some s' \<Longrightarrow> 0 \<le> bg \<Longrightarrow> en < int n \<Longrightarrow> P s \<Longrightarrow> P s'"
proof (induction "nat (en - bg)" arbitrary: s bg en rule: less_induct)
  case less
  show ?case
  proof (cases "bg < en")
    case False
    with less.prems show ?thesis by (simp add: strrev_loop.simps)
  next
    case True
    have ix: "p + of_int bg = p + of_nat (nat bg)" "p + of_int en = p + of_nat (nat en)" "nat bg < n" "nat en < n"
      using True less.prems by auto
    obtain b c s1 s2 where w: "wr s (p + of_nat (nat en)) b = Some s1" "wr s1 (p + of_nat (nat bg)) c = Some s2"
      "strrev_loop rd wr s2 p (bg + 1) (en - 1) = Some s'"
      using less.prems(1) True unfolding ix(1,2)[symmetric] by (subst (asm) strrev_loop.simps) (auto simp: bind_Some_iff)
    have "P s2" using kept_at_step[OF k kept_at_step[OF k less.prems(4) ix(4) w(1)] ix(3) w(2)] .
    with less.hyps[of "en - 1" "bg + 1" s2] w(3) True less.prems show ?thesis by simp
  qed
qed

lemma strrev_kept:
  assumes k: "kept_at wr p n P" and str: "cstring rd s p xs" and len: "length xs \<le> n" "length xs < 2 ^ 31"
    and r: "strrev rd wr s p = Some s'" and s: "P s"
  shows "P s'"
proof -
  have "of_nat (length xs) - 1 = (of_int (int (length xs) - 1) :: u32)" by simp
  then have e: "sint (of_nat (length xs) - 1 :: u32) = int (length xs) - 1"
    using len(2) by (simp only: sint_sbintrunc') (simp add: signed_take_bit_int_eq_self)
  then have "strrev_loop rd wr s p 0 (int (length xs) - 1) = Some s'"
    using r strlen_cstring[OF str] by (simp add: strrev_def)
  then show ?thesis by (rule strrev_loop_kept[OF k]) (use len s in auto)
qed

context memory
begin

lemma itoa_kept:
  assumes r: "2 \<le> unat radix" "unat radix \<le> 36" and inj: "inj_cells tr s buf 34"
    and k: "kept_at wr buf 34 P" and i: "itoa rd wr s v buf radix = Some s'" and s: "P s"
  shows "P s'"
proof (cases "v = 0")
  case True
  then obtain t where "wr s (buf + of_nat 0) 48 = Some t" "wr t (buf + of_nat 1) 0 = Some s'"
    using i by (auto simp: itoa_def bind_Some_iff)
  then show ?thesis using kept_at_step[OF k] s by (meson one_less_numeral_iff semiring_norm(76) zero_less_numeral)
next
  case False
  define ds where "ds = digits (unat radix) (unat v)"
  define cs where "cs = map digit_char (rev ds)"
  have pos: "0 < unat v" using False by (simp add: unat_gt_0)
  have "unat v < 2 ^ 32" using unsigned_less[of v] by simp
  then have len: "length ds \<le> 32" unfolding ds_def using r by (intro digits_length) auto
  have nz: "0 \<notin> set cs"
    using digits_less[OF r(1)] r(2) digit_char_nonzero unfolding cs_def ds_def by (fastforce simp: less_le_trans)
  obtain t where t: "store_bytes wr s buf (cs @ [0]) = Some t" "strrev rd wr t buf = Some s'"
    using i False unfolding store_bytes_append
    by (auto simp: itoa_def itoa_loop_digits[OF r pos, folded ds_def, folded cs_def] cs_def bind_Some_iff)
  have pt: "P t" using store_kept[OF k, of s 0 "cs @ [0]" t] t(1) s len by (simp add: cs_def)
  have "load_bytes rd t buf (length (cs @ [0])) = Some (cs @ [0])"
    by (rule store_load_same[OF t(1)]) (use inj len in \<open>simp add: inj_cells_def cs_def\<close>)
  with nz have "cstring rd t buf cs" by (simp add: cstring_def)
  then show ?thesis by (rule strrev_kept[OF k _ _ _ t(2) pt]) (use len in \<open>simp_all add: cs_def\<close>)
qed

end

section \<open>Counting\<close>

definition decimal :: "nat \<Rightarrow> u8 list" where
  "decimal n = map digit_char (digits 10 n)"

lemma itoa_decimal:
  assumes r: "program_ready h T img ds t" "x \<in> set T" and ub: "user_buffer t buf 1024" and k: "k < 2 ^ 32"
    and ap: "cells translate t (lit h x) (Suc (length x)) \<inter> cells translate t buf 1024 = {}"
  shows "\<exists>u. ece391_itoa vread vwrite t (of_nat k) buf 10 = Some u \<and> program_ready h [x] img ds u \<and> wrote [] t u \<and>
    translate u = translate t \<and> cstring vread u buf (decimal k) \<and> length (decimal k) \<le> 32"
proof -
  have m: "\<forall>i<34. translate t (buf + of_nat i) \<noteq> None" "inj_cells translate t buf 34"
  proof -
    have "translate t (buf + of_nat i) \<noteq> None" if "i < 1024" for i using ub that by (force simp: user_buffer_def)
    then show "\<forall>i<34. translate t (buf + of_nat i) \<noteq> None" by simp
    show "inj_cells translate t buf 34" using ub by (auto simp: user_buffer_def elim: inj_cells_le)
  qed
  have uk: "unat (of_nat k :: u32) = k" using k by (simp only: unat_of_nat) (simp add: take_bit_nat_eq_self)
  obtain u where u: "itoa vread vwrite t (of_nat k) buf 10 = Some u" "cstring vread u buf (decimal k)"
    using vm.itoa_cstring[OF _ _ m, of 10 "of_nat k"] by (auto simp: uk decimal_def)
  let ?P = "\<lambda>s. s = t\<lparr>phys := phys s\<rparr> \<and> (\<forall>c. c \<notin> cells translate t buf 1024 \<longrightarrow> phys s c = phys t c)"
  have "kept_at vwrite buf 34 ?P"
    unfolding kept_at_def
  proof (intro allI impI)
    fix s s' i b assume s: "?P s" and i: "i < (34 :: nat)" and w: "vwrite s (buf + of_nat i) b = Some s'"
    obtain q where q: "s = t\<lparr>phys := q\<rparr>" using s by blast
    then obtain c where c: "translate t (buf + of_nat i) = Some c" "s' = t\<lparr>phys := (phys s)(c := b)\<rparr>"
      using w by (auto simp: vwrite_def)
    have "c \<in> cells translate t buf 1024" using c(1) i unfolding cells_def by (auto intro!: exI[of _ i])
    then show "?P s'" using s c(2) by auto
  qed
  from vm.itoa_kept[OF _ _ m(2) this u(1)] have p: "?P u" by simp
  then obtain q where q: "u = t\<lparr>phys := q\<rparr>" "\<forall>c. c \<notin> cells translate t buf 1024 \<longrightarrow> q c = phys t c" by (metis)
  have tr: "translate u = translate t" by (simp add: q(1))
  have low: "\<forall>c. unat c < 0x800000 \<longrightarrow> q c = phys t c" using q(2) user_buffer_cells[OF ub] by fastforce
  have wf: "files_wf u" using r(1) by (simp add: q(1) files_wf_phys program_ready_def)
  have r0: "program_ready h [] img ds u" "wrote [] t u"
    using program_ready_stored[OF r(1), of q u] wf low by (simp_all add: q(1))
  have "program_ready h [x] img ds u"
    by (rule program_ready_kept[OF r r0(1) tr _ ap]) (use q in simp)
  moreover have "length (decimal k) \<le> 32"
    unfolding decimal_def length_map using k by (intro digits_length) simp_all
  ultimately show ?thesis using u r0(2) tr by (auto simp: ece391_itoa_equals_itoa)
qed

text \<open>One number, on a line of its own.\<close>

lemma counter_line:
  assumes r: "program_ready h [[10]] img ds t" and ub: "user_buffer t buf 1024" and k: "k < 2 ^ 32"
    and ap: "cells translate t (lit h [10]) 2 \<inter> cells translate t buf 1024 = {}"
  shows "\<exists>u. do { s \<leftarrow> ece391_itoa vread vwrite t (of_nat k) buf 10; s \<leftarrow> ece391_fdputs h 1 buf s; say h [10] s } = Some u \<and>
    program_ready h [[10]] img ds u \<and> wrote (decimal k @ [10]) t u \<and> translate u = translate t"
proof -
  obtain v where v: "ece391_itoa vread vwrite t (of_nat k) buf 10 = Some v" "program_ready h [[10]] img ds v" "wrote [] t v"
    "translate v = translate t" "cstring vread v buf (decimal k)" "length (decimal k) \<le> 32"
    using itoa_decimal[OF r _ ub k, of "[10]"] ap by (auto simp: numeral_2_eq_2)
  have ubv: "user_buffer v buf (Suc (length (decimal k)))"
    using ub user_buffer_cong[OF v(4), of buf 1024] user_buffer_mono[of v buf 1024 "Suc (length (decimal k))"] v(6) by simp
  have ld: "load_bytes vread v buf (length (decimal k)) = Some (decimal k)"
    by (rule load_bytes_SomeI[OF refl]) (use cstring_nth[OF v(5)] in blast)
  have off: "off_screen v buf (length (decimal k))" using user_buffer_off_screen[OF user_buffer_mono[OF ubv]] by simp
  obtain w where w: "sys_write 1 buf (of_nat (length (decimal k))) v = Some (of_nat (length (decimal k)), w)"
    "program_ready h [[10]] img ds w" "wrote (decimal k) v w" "prints v w"
    using write_stdout[OF v(2) ld off] by blast
  have fw: "ece391_fdputs h 1 buf v = Some w" using w(1) strlen_cstring[OF v(5)] by (simp add: ece391_fdputs_def ece391_strlen_eq)
  obtain u where u: "say h [10] w = Some u" "program_ready h [[10]] img ds u" "wrote [10] w u" "prints w u"
    using say_step[OF w(2), of "[10]"] by auto
  have "translate u = translate t" using v(4) prints_fields(4)[OF w(4)] prints_fields(4)[OF u(4)] by simp
  then show ?thesis using v(1) fw u(1,2) wrote_trans[OF v(3) wrote_trans[OF w(3) u(3)]] by simp
qed

definition count_lines :: "nat \<Rightarrow> u8 list" where
  "count_lines n = concat (map (\<lambda>i. decimal (Suc i) @ [10]) [0..<n])"

lemma counter_loop:
  assumes r: "program_ready h [[10]] img ds t" and ub: "user_buffer t buf 1024" and n: "n < 2 ^ 32"
    and ap: "cells translate t (lit h [10]) 2 \<inter> cells translate t buf 1024 = {}"
  shows "\<exists>u. for_up 0 n (\<lambda>i s. do { s \<leftarrow> ece391_itoa vread vwrite s (of_nat i + 1) buf 10;
      s \<leftarrow> ece391_fdputs h 1 buf s; say h [10] s }) t = Some u \<and> wrote (count_lines n) t u"
proof -
  let ?I = "\<lambda>k u. program_ready h [[10]] img ds u \<and> translate u = translate t \<and> wrote (count_lines k) t u"
  have "\<exists>u. for_up 0 n (\<lambda>i s. do { s \<leftarrow> ece391_itoa vread vwrite s (of_nat i + 1) buf 10;
      s \<leftarrow> ece391_fdputs h 1 buf s; say h [10] s }) t = Some u \<and> ?I (0 + n) u"
  proof (rule for_up_rule)
    show "?I 0 t" using r by (simp add: count_lines_def)
    fix k v assume k: "k < 0 + n" and I: "?I k v"
    have tr: "translate v = translate t" using I by simp
    have ubv: "user_buffer v buf 1024" using ub user_buffer_cong[OF tr] by simp
    have apv: "cells translate v (lit h [10]) 2 \<inter> cells translate v buf 1024 = {}" using ap tr by (simp add: cells_def)
    have s: "Suc k < 2 ^ 32" using k n by simp
    obtain u where u: "do { s \<leftarrow> ece391_itoa vread vwrite v (of_nat (Suc k)) buf 10; s \<leftarrow> ece391_fdputs h 1 buf s; say h [10] s } = Some u"
      "program_ready h [[10]] img ds u" "wrote (decimal (Suc k) @ [10]) v u" "translate u = translate v"
      using counter_line[OF _ ubv s apv] I by blast
    have "wrote (count_lines (Suc k)) t u" using wrote_trans[of "count_lines k" t v] I u(3) by (simp add: count_lines_def)
    then show "\<exists>u. do { s \<leftarrow> ece391_itoa vread vwrite v (of_nat k + 1) buf 10; s \<leftarrow> ece391_fdputs h 1 buf s; say h [10] s } = Some u \<and>
        ?I (Suc k) u" using u tr by (intro exI[of _ u]) (simp add: add.commute)
  qed
  then show ?thesis by auto
qed

abbreviation counter_question :: "u8 list" where
  "counter_question \<equiv> line ''Enter the Test Number: (0): 100, (1): 10000, (2): 100000''"

text \<open>
  C19: \<open>counter\<close> counts.  It prints its question on its terminal and waits for a line; when the line typed
  there is one character, it prints the numbers from 1 to the bound of that choice (100, 10000, 100000),
  in decimal and one per line, on its terminal and on no other, and returns 0.  A single character
  that is no choice is not reported: the test for it wants the newline that this kernel's terminal
  leaves out of the line, so nothing is printed.
\<close>

theorem counter_counts:
  assumes r: "program_ready h T img ds s" and T: "{counter_question, [10]} \<subseteq> set T"
    and p: "say h counter_question s = Some s1" and w: "awaits h s1 t"
    and rt: "program_ready h T img ds t" "keyboard_wf t" and ub: "user_buffer t buf 1024"
    and ap: "cells translate t (lit h [10]) 2 \<inter> cells translate t buf 1024 = {}"
    and xs: "[c] = kline t (vis_ix t)"
  shows "wrote counter_question s s1 \<and>
    (\<exists>u. counter_main h buf s = Some (0, u) \<and> wrote (count_lines (counter_max c)) t u \<and>
      (c \<notin> {48, 49, 50} \<longrightarrow> wrote [] t u))"
proof -
  have s1: "program_ready h T img ds s1" "wrote counter_question s s1" using say_step[OF r, of counter_question] T p by auto
  obtain u where u: "sys_read (polls h) (stack_dent h) 0 buf 1023 s1 = Some (1, u)"
    "program_ready h [] img ds u" "wrote [] t u" "translate u = translate t"
    "load_bytes vread u buf 2 = Some [c, 0]" "c \<noteq> 0"
    "\<forall>p. p \<notin> cells translate t buf 1024 \<longrightarrow> phys u p = phys t p"
    using read_line[OF s1(1) w rt ub xs, of 1023] by (auto simp: numeral_2_eq_2)
  have ubu: "user_buffer u buf 1024" using ub user_buffer_cong[OF u(4)] by simp
  obtain v where v: "vwrite u (buf + of_nat 1) 0 = Some v" "program_ready h [] img ds v" "wrote [] u v"
    "load_bytes vread v buf 2 = Some ([c, 0][1 := 0])"
    using user_poke[OF u(2) user_buffer_mono[OF ubu, of 2] _ u(5), of 1 0] by auto
  have cv: "cstring vread v buf [c]" using v(4) u(6) by (simp add: cstring_def numeral_2_eq_2)
  obtain d where d: "translate u (buf + of_nat 1) = Some d" "v = u\<lparr>phys := (phys u)(d := 0)\<rparr>"
    using v(1) by (auto simp: vwrite_def)
  have tr: "translate v = translate t" by (simp add: d(2) u(4))
  have "d \<in> cells translate t buf 1024" using d(1) unfolding cells_def u(4) by (auto intro!: exI[of _ 1])
  then have ph: "\<forall>p. p \<notin> cells translate t buf 1024 \<longrightarrow> phys v p = phys t p" using u(7) by (auto simp: d(2))
  have rv: "program_ready h [[10]] img ds v"
    by (rule program_ready_kept[OF rt(1) _ v(2) tr ph]) (use T ap in \<open>simp_all add: numeral_2_eq_2\<close>)
  have ubv: "user_buffer v buf 1024" using ub user_buffer_cong[OF tr] by simp
  have apv: "cells translate v (lit h [10]) 2 \<inter> cells translate v buf 1024 = {}" using ap tr by (simp add: cells_def)
  have n: "counter_max c < 2 ^ 32" by (simp add: counter_max_def)
  obtain x where x: "for_up 0 (counter_max c) (\<lambda>i s. do { s \<leftarrow> ece391_itoa vread vwrite s (of_nat i + 1) buf 10;
      s \<leftarrow> ece391_fdputs h 1 buf s; say h [10] s }) v = Some x" "wrote (count_lines (counter_max c)) v x"
    using counter_loop[OF rv ubv n apv] by blast
  have "ece391_strlen vread v buf = Some 1" using strlen_cstring[OF cv] by (simp add: ece391_strlen_eq)
  moreover have "vread v buf = Some c" using cstring_nth[OF cv, of 0] by simp
  ultimately have "counter_main h buf s = Some (0, x)" using p u(1) v(1) x(1) by (simp add: counter_main_def)
  moreover have "wrote (count_lines (counter_max c)) t x" using wrote_trans[OF u(3) wrote_trans[OF v(3) x(2)]] by simp
  moreover have "count_lines (counter_max c) = []" if "c \<notin> {48, 49, 50}" using that by (simp add: counter_max_def count_lines_def)
  ultimately show ?thesis using s1(2) by auto
qed

end
