(* ===== verification/Grep.thy ===== *)
theory Grep
  imports Shell "HOL-Library.Sublist"
begin

text \<open>
  What the \<open>grep\<close> program does with a buffer of text: \<open>grep_lines\<close> prints the lines that contain the pattern and
  moves the unfinished line at the end to the front.  \<open>beside\<close> is a string outside the buffer, \<open>grepping\<close> a
  state in which the program works on the buffer, \<open>match_line\<close> the output for one line.
\<close>

section \<open>Comparing a prefix\<close>

lemma cstring_hd: "cstring rd s p xs \<Longrightarrow> rd s p = Some (if xs = [] then 0 else hd xs)"
  by (cases xs) (simp_all add: cstring_Nil cstring_Cons)

lemma strncmp_walk_prefix:
  "cstring rd s p xs \<Longrightarrow> cstring rd s q ys \<Longrightarrow>
    \<exists>r. strncmp_walk rd s p q (length ys) = Some r \<and> (r = 0 \<longleftrightarrow> prefix ys xs)"
proof (induction ys arbitrary: p q xs)
  case Nil
  then show ?case by simp
next
  case (Cons y ys)
  have d: "ucast a - ucast b \<noteq> (0 :: i32)" if "a \<noteq> b" for a b :: u8
  proof
    assume "ucast a - ucast b = (0 :: i32)"
    then have "int (unat a) - int (unat b) = 0" unfolding byte_difference[symmetric] by (simp only: signed_0)
    then have "unat a = unat b" by linarith
    with that show False by (simp add: word_unat_eq_iff)
  qed
  show ?case
  proof (cases xs)
    case Nil
    with Cons.prems d[of 0 y] show ?thesis by (auto simp: cstring_Nil cstring_Cons)
  next
    case (Cons x xs')
    with Cons.prems d[of x y] Cons.IH[of "p + 1" xs' "q + 1"] show ?thesis by (auto simp: cstring_Cons)
  qed
qed

lemma strncmp_prefix:
  assumes "cstring rd s p xs" "cstring rd s q ys" "length ys < 2 ^ 32"
  shows "\<exists>r. ece391_strncmp rd s p q (of_nat (length ys)) = Some r \<and> (r = 0 \<longleftrightarrow> prefix ys xs)"
proof (cases "ys = []")
  case False
  have u: "unat (of_nat (length ys) :: u32) = length ys"
    using assms(3) by (simp only: unat_of_nat) (simp add: take_bit_nat_eq_self)
  then have "(of_nat (length ys) :: u32) \<noteq> 0" using False by (metis length_0_conv unsigned_0)
  with u strncmp_walk_prefix[OF assms(1,2)] show ?thesis by (simp add: ece391_strncmp_def)
qed (simp add: ece391_strncmp_def)

section \<open>The buffer and the strings beside it\<close>

definition beside :: "u32 \<Rightarrow> 'z machine_scheme \<Rightarrow> u32 \<times> u8 list \<Rightarrow> bool" where
  "beside data s = (\<lambda>(p, xs). off_screen s p (Suc (length xs)) \<and> cstring vread s p xs \<and>
     cells translate s p (Suc (length xs)) \<inter> cells translate s data 1025 = {})"

definition grepping :: "'z kernel_scheme host \<Rightarrow> u8 list \<Rightarrow> dentry list \<Rightarrow> u32 \<Rightarrow> (u32 \<times> u8 list) list \<Rightarrow> u8 list \<Rightarrow>
    'z kernel_scheme \<Rightarrow> bool" where
  "grepping h img ds data texts D s \<longleftrightarrow> program_ready h [] img ds s \<and> user_buffer s data 1025 \<and>
     load_bytes vread s data 1025 = Some D \<and> (\<forall>x\<in>set texts. beside data s x)"

lemma beside_literal:
  "program_ready h T img ds s \<Longrightarrow> xs \<in> set T \<Longrightarrow> cells translate s (lit h xs) (Suc (length xs)) \<inter> cells translate s data 1025 = {} \<Longrightarrow>
   beside data s (lit h xs, xs)"
  by (simp add: beside_def program_ready_def)

lemma beside_prints:
  assumes p: "prints s t" and b: "beside data s x"
  shows "beside data t x"
proof -
  obtain q xs where x: "x = (q, xs)" by (cases x)
  have tr: "translate t = translate s" by (rule prints_fields(4)[OF p])
  have "cstring vread t q xs" using b cstring_prints[OF p] by (simp add: beside_def x)
  then show ?thesis using b by (simp add: beside_def x off_screen_def cells_def tr)
qed

lemma beside_kept:
  assumes b: "beside data s x" and tr: "translate t = translate s"
    and ph: "\<forall>c. c \<notin> cells translate s data 1025 \<longrightarrow> phys t c = phys s c"
  shows "beside data t x"
proof -
  obtain q xs where x: "x = (q, xs)" by (cases x)
  have "cstring vread t q xs" using b cstring_apart[OF _ tr ph] by (simp add: beside_def x)
  then show ?thesis using b by (simp add: beside_def x off_screen_def cells_def tr)
qed

lemma grepping_prints:
  assumes g: "grepping h img ds data texts D s" and p: "prints s t" and r: "program_ready h [] img ds t"
  shows "grepping h img ds data texts D t"
proof -
  note G = g[unfolded grepping_def]
  have "vread t (data + of_nat j) = vread s (data + of_nat j)" if "j < 1025" for j
    using user_buffer_off_screen[of s data 1025] G that prints_vread[OF p] by (auto simp: off_screen_def)
  then have "load_bytes vread t data 1025 = load_bytes vread s data 1025" by (rule load_bytes_cong)
  then show ?thesis
    using G r beside_prints[OF p] user_buffer_cong[OF prints_fields(4)[OF p]] by (simp add: grepping_def)
qed

lemma grepping_puts:
  assumes g: "grepping h img ds data texts D s" and o: "off_screen s p (length xs)" and c: "cstring vread s p xs"
  shows "\<exists>t. ece391_fdputs h 1 p s = Some t \<and> grepping h img ds data texts D t \<and> wrote xs s t \<and> prints s t"
proof -
  have r: "program_ready h [] img ds s" using g by (simp add: grepping_def)
  have ld: "load_bytes vread s p (length xs) = Some xs"
    by (rule load_bytes_SomeI[OF refl]) (use cstring_nth[OF c] in blast)
  from write_stdout[OF r ld o] show ?thesis
    using strlen_cstring[OF c] grepping_prints[OF g] by (auto simp: ece391_fdputs_def ece391_strlen_eq)
qed

lemma grepping_say:
  assumes g: "grepping h img ds data texts D s" and x: "(p, xs) \<in> set texts"
  shows "\<exists>t. ece391_fdputs h 1 p s = Some t \<and> grepping h img ds data texts D t \<and> wrote xs s t \<and> prints s t"
proof -
  have "beside data s (p, xs)" using g x by (auto simp: grepping_def)
  then show ?thesis by (intro grepping_puts[OF g]) (auto simp: beside_def off_screen_def)
qed

lemma grepping_poke:
  assumes g: "grepping h img ds data texts D s" and k: "k < 1025"
  shows "\<exists>t. vwrite s (data + of_nat k) b = Some t \<and> grepping h img ds data texts (D[k := b]) t \<and> wrote [] s t"
proof -
  note G = g[unfolded grepping_def]
  obtain t where t: "vwrite s (data + of_nat k) b = Some t" "program_ready h [] img ds t" "wrote [] s t"
    "user_buffer t data 1025" "load_bytes vread t data 1025 = Some (D[k := b])"
    using user_poke[of h img ds s data 1025 k D b] G k by blast
  obtain d where d: "translate s (data + of_nat k) = Some d" "t = s\<lparr>phys := (phys s)(d := b)\<rparr>"
    using t(1) by (auto simp: vwrite_def)
  have "d \<in> cells translate s data 1025" using d(1) k unfolding cells_def by blast
  then have "beside data t x" if "x \<in> set texts" for x
    using beside_kept[of data s x t] G that by (auto simp: d(2))
  then show ?thesis using t by (auto simp: grepping_def)
qed

lemma grepping_nth:
  "grepping h img ds data texts D s \<Longrightarrow> k < 1025 \<Longrightarrow> vread s (data + of_nat k) = Some (D ! k)"
  "grepping h img ds data texts D s \<Longrightarrow> length D = 1025"
  unfolding grepping_def by (blast intro: load_bytes_nth) (blast dest: load_bytes_length)

lemma grepping_cstring:
  assumes g: "grepping h img ds data texts D s" and D: "take (Suc (length xs)) (drop k D) = xs @ [0]" "0 \<notin> set xs"
  shows "cstring vread s (data + of_nat k) xs" "off_screen s (data + of_nat k) (length xs)"
proof -
  have l: "Suc (length xs) \<le> length D - k" using arg_cong[OF D(1), of length] by simp
  then have k: "k + length xs < 1025" using grepping_nth(2)[OF g] by simp
  have n: "(xs @ [0]) ! i = D ! (k + i)" if "i < Suc (length xs)" for i
    unfolding D(1)[symmetric] using that l by simp
  have "load_bytes vread s (data + of_nat k) (Suc (length xs)) = Some (xs @ [0])"
  proof (rule load_bytes_SomeI)
    fix i assume i: "i < Suc (length xs)"
    then show "vread s (data + of_nat k + of_nat i) = Some ((xs @ [0]) ! i)"
      using grepping_nth(1)[OF g, of "k + i"] k n[OF i] by (simp add: add.assoc)
  qed simp
  then show "cstring vread s (data + of_nat k) xs" using D(2) by (simp add: cstring_def)
  have "user_buffer s data 1025" using g by (simp add: grepping_def)
  then have ub: "off_screen s data 1025" by (rule user_buffer_off_screen)
  then have c: "\<exists>c. translate s (data + of_nat (k + j)) = Some c \<and> \<not> video_area c" if "j \<le> length xs" for j
    using that k unfolding off_screen_def by (meson add_le_mono1 le_less_trans nat_add_left_cancel_le)
  have "translate s 0 = None"
    using translate_null[of s 0] g by (simp add: grepping_def program_ready_def files_paging)
  with c[of 0] have "data + of_nat k \<noteq> 0" by auto
  then show "off_screen s (data + of_nat k) (length xs)"
    using c k unfolding off_screen_def by (simp add: add.assoc)
qed


section \<open>One line\<close>

lemma sint_small: "k < 2 ^ 31 \<Longrightarrow> sint (of_nat k :: i32) = int k"
  by (simp add: signed_of_nat signed_take_bit_int_eq_self)

definition grep_texts :: "'z kernel_scheme host \<Rightarrow> u32 \<Rightarrow> u8 list \<Rightarrow> u32 \<Rightarrow> u8 list \<Rightarrow> (u32 \<times> u8 list) list" where
  "grep_texts h pat ys fname fs = [(lit h (ascii '':''), ascii '':''), (lit h [10], [10]), (pat, ys), (fname, fs)]"

text \<open>What \<open>grep\<close> prints for a line.\<close>

definition match_line :: "u8 list \<Rightarrow> u8 list \<Rightarrow> u8 list \<Rightarrow> u8 list" where
  "match_line fs ys xs = (if sublist ys xs then fs @ ascii '':'' @ xs @ [10] else [])"

lemma grep_report:
  assumes g: "grepping h img ds data (grep_texts h pat ys fname fs) D s"
    and D: "take (Suc (length xs)) (drop k D) = xs @ [0]" "0 \<notin> set xs"
  shows "\<exists>t. do { s \<leftarrow> ece391_fdputs h 1 fname s; s \<leftarrow> say h (ascii '':'') s;
        s \<leftarrow> ece391_fdputs h 1 (data + of_nat k) s; say h [10] s } = Some t \<and>
     grepping h img ds data (grep_texts h pat ys fname fs) D t \<and> wrote (fs @ ascii '':'' @ xs @ [10]) s t"
proof -
  let ?g = "grepping h img ds data (grep_texts h pat ys fname fs) D"
  obtain a where a: "ece391_fdputs h 1 fname s = Some a" "?g a" "wrote fs s a"
    using grepping_say[OF g, of fname fs] by (auto simp: grep_texts_def)
  obtain b where b: "ece391_fdputs h 1 (lit h (ascii '':'')) a = Some b" "?g b" "wrote (ascii '':'') a b"
    using grepping_say[OF a(2), of "lit h (ascii '':'')" "ascii '':''"] by (auto simp: grep_texts_def)
  obtain c where c: "ece391_fdputs h 1 (data + of_nat k) b = Some c" "?g c" "wrote xs b c"
    using grepping_puts[OF b(2) grepping_cstring(2,1)[OF b(2) D]] by blast
  obtain d where d: "ece391_fdputs h 1 (lit h [10]) c = Some d" "?g d" "wrote [10] c d"
    using grepping_say[OF c(2), of "lit h [10]" "[10]"] by (auto simp: grep_texts_def)
  show ?thesis using a(1) b(1) c(1) d(1,2) wrote_trans[OF a(3) wrote_trans[OF b(3) wrote_trans[OF c(3) d(3)]]]
    by (simp add: say_def)
qed

lemma take_shift: "take (Suc (length xs)) (drop k D) = xs @ [0] \<Longrightarrow> i \<le> length xs \<Longrightarrow>
    take (Suc (length (drop i xs))) (drop (k + i) D) = drop i xs @ [0]"
proof -
  assume a: "take (Suc (length xs)) (drop k D) = xs @ [0]" "i \<le> length xs"
  have "drop i (take (Suc (length xs)) (drop k D)) = take (Suc (length xs) - i) (drop (i + k) D)" by (simp add: drop_take)
  then show ?thesis using a by (simp add: add.commute Suc_diff_le)
qed

lemma grep_search_line:
  assumes g: "grepping h img ds data (grep_texts h pat ys fname fs) D s" and ys: "ys \<noteq> []"
    and D: "take (Suc (length xs)) (drop k D) = xs @ [0]" "0 \<notin> set xs"
  shows "i \<le> length xs \<Longrightarrow> \<exists>t. grep_search h pat (of_nat (length ys)) fname data (of_nat k) (of_nat (k + length xs)) (of_nat (k + i)) s = Some t \<and>
     grepping h img ds data (grep_texts h pat ys fname fs) D t \<and>
     wrote (if sublist ys (drop i xs) then fs @ ascii '':'' @ xs @ [10] else []) s t"
proof (induction "length xs - i" arbitrary: i)
  case 0
  then have "drop i xs = []" "i = length xs" by simp_all
  then show ?case using g ys by (subst grep_search.simps) simp
next
  case (Suc n)
  have i: "i < length xs" using Suc.hyps(2) by simp
  have "Suc (length xs) \<le> length D - k" using arg_cong[OF D(1), of length] by simp
  then have k: "k + length xs < 1025" using grepping_nth(2)[OF g] by simp
  have lt: "sint (of_nat (k + i) :: i32) < sint (of_nat (k + length xs) :: i32)"
    using i k by (simp add: sint_small del: of_nat_add)
  have b: "beside data s (pat, ys)" using g by (simp add: grepping_def grep_texts_def)
  then have p: "cstring vread s pat ys" "length ys < 2 ^ 32" by (simp_all add: beside_def off_screen_def)
  have nz: "0 \<notin> set (drop i xs)" using D(2) by (auto dest: in_set_dropD)
  have c: "cstring vread s (data + of_nat (k + i)) (drop i xs)"
    by (rule grepping_cstring(1)[OF g take_shift[OF D(1)] nz]) (use i in simp)
  obtain r where r: "ece391_strncmp vread s (data + of_nat (k + i)) pat (of_nat (length ys)) = Some r"
    "r = 0 \<longleftrightarrow> prefix ys (drop i xs)"
    using strncmp_prefix[OF c p] by blast
  have h: "vread s pat = Some (hd ys)" "vread s (data + of_nat (k + i)) = Some (xs ! i)" "drop i xs = xs ! i # drop (Suc i) xs"
    using cstring_hd[OF p(1)] cstring_hd[OF c] ys i by (simp_all add: hd_drop_conv_nth Cons_nth_drop_Suc)
  have sub: "sublist ys (drop i xs) \<longleftrightarrow> prefix ys (drop i xs) \<or> sublist ys (drop (Suc i) xs)"
    unfolding h(3) by (rule sublist_Cons_right)
  show ?case
  proof (cases "prefix ys (drop i xs)")
    case True
    then have "hd ys = xs ! i" using ys h(3) by (metis list.sel(1) prefix_Cons neq_Nil_conv list.sel(1))
    then show ?thesis using grep_report[OF g D] lt h(1,2) r True sub by (subst grep_search.simps) simp
  next
    case False
    obtain t where t: "grep_search h pat (of_nat (length ys)) fname data (of_nat k) (of_nat (k + length xs)) (of_nat (k + Suc i)) s = Some t"
      "grepping h img ds data (grep_texts h pat ys fname fs) D t"
      "wrote (if sublist ys (drop (Suc i) xs) then fs @ ascii '':'' @ xs @ [10] else []) s t"
    proof -
      have "n = length xs - Suc i" "Suc i \<le> length xs" using Suc.hyps(2) i by auto
      from Suc.hyps(1)[OF this] show thesis by (elim exE conjE) (rule that)
    qed
    have "(of_nat (k + Suc i) :: u32) = of_nat (k + i) + 1" by simp
    note t' = t(1)[unfolded this]
    show ?thesis using lt h(1,2) r False sub t' t(2,3)
      by (subst grep_search.simps) (cases "sublist ys (drop (Suc i) xs)"; simp del: of_nat_add)
  qed
qed

section \<open>The lines of a buffer\<close>

lemma grep_line_end_at:
  assumes g: "grepping h img ds data texts D s" and e: "e \<le> n" "n \<le> 1024" "e < n \<longrightarrow> D ! e = 10"
  shows "k \<le> e \<Longrightarrow> \<forall>j. k \<le> j \<and> j < e \<longrightarrow> D ! j \<noteq> 10 \<Longrightarrow> grep_line_end data (of_nat n) (of_nat k) s = Some (of_nat e)"
proof (induction "e - k" arbitrary: k)
  case 0
  then have k: "k = e" by simp
  have "e = n \<or> e < n" using e(1) by auto
  then show ?case using e(2,3) grepping_nth(1)[OF g, of e] unfolding k
    by (subst grep_line_end.simps) (auto simp: sint_small)
next
  case (Suc m)
  have k: "k < e" "D ! k \<noteq> 10" using Suc.hyps(2) Suc.prems by auto
  have "grep_line_end data (of_nat n) (of_nat (Suc k)) s = Some (of_nat e)"
    by (rule Suc.hyps(1)) (use Suc.hyps(2) Suc.prems in auto)
  then show ?case using k e(1,2) grepping_nth(1)[OF g, of k]
    by (subst grep_line_end.simps) (simp add: sint_small add.commute)
qed

lemma strcpy_down:
  "grepping h img ds data texts D s \<Longrightarrow> take (Suc (length xs)) (drop (k + i) D) = xs @ [0] \<Longrightarrow> 0 \<notin> set xs \<Longrightarrow> 0 < k \<Longrightarrow>
   \<exists>t D'. ece391_strcpy vread vwrite s (data + of_nat i) (data + of_nat (k + i)) = Some t \<and>
     grepping h img ds data texts D' t \<and> wrote [] s t \<and> take (i + Suc (length xs)) D' = take i D @ xs @ [0]"
proof (induction xs arbitrary: i D s)
  case Nil
  have "Suc 0 \<le> length D - (k + i)" using arg_cong[OF Nil(2), of length] by simp
  then have l: "k + i < 1025" "length D = 1025" using grepping_nth(2)[OF Nil(1)] by simp_all
  have z: "D ! (k + i) = 0" using arg_cong[OF Nil(2), of "\<lambda>l. l ! 0"] l by simp
  obtain t where t: "vwrite s (data + of_nat i) 0 = Some t" "grepping h img ds data texts (D[i := 0]) t" "wrote [] s t"
    using grepping_poke[OF Nil(1), of i 0] l by auto
  show ?case using grepping_nth(1)[OF Nil(1) l(1)] z t l
    by (subst ece391_strcpy.simps) (auto simp: take_Suc_conv_app_nth intro!: exI[of _ "D[i := 0]"])
next
  case (Cons x xs)
  have "Suc (Suc (length xs)) \<le> length D - (k + i)" using arg_cong[OF Cons.prems(2), of length] by simp
  then have l: "k + i < 1025" "length D = 1025" using grepping_nth(2)[OF Cons.prems(1)] by simp_all
  have z: "D ! (k + i) = x" using arg_cong[OF Cons.prems(2), of "\<lambda>l. l ! 0"] l by simp
  obtain t where t: "vwrite s (data + of_nat i) x = Some t" "grepping h img ds data texts (D[i := x]) t" "wrote [] s t"
    using grepping_poke[OF Cons.prems(1), of i x] l by auto
  have "take (Suc (length xs)) (drop (k + Suc i) (D[i := x])) = xs @ [0]"
    using take_shift[OF Cons.prems(2), of 1] by simp
  from Cons.IH[OF t(2) this] Cons.prems(3,4) obtain u D' where
    u: "ece391_strcpy vread vwrite t (data + of_nat (Suc i)) (data + of_nat (k + Suc i)) = Some u"
      "grepping h img ds data texts D' u" "wrote [] t u" "take (Suc i + Suc (length xs)) D' = take (Suc i) (D[i := x]) @ xs @ [0]"
    by auto
  have "take (Suc i) (D[i := x]) = take i D @ [x]" using l by (simp add: take_Suc_conv_app_nth)
  then show ?case using grepping_nth(1)[OF Cons.prems(1) l(1)] z t(1) u wrote_trans[OF t(3) u(3)] Cons.prems(3)
    by (subst ece391_strcpy.simps) (auto simp: ac_simps intro!: exI[of _ D'])
qed


text \<open>Lines, each with its newline.\<close>

definition unlines :: "u8 list list \<Rightarrow> u8 list" where
  "unlines ls = concat (map (\<lambda>l. l @ [10]) ls)"

lemma unlines_simps: "unlines [] = []" "unlines (l # ls) = l @ 10 # unlines ls"
  by (simp_all add: unlines_def)

lemma buffer_rest:
  assumes D: "drop k (take n D) = xs @ ys" and n: "n \<le> 1024" "length D = 1025" and k: "k \<le> n"
  shows "k + length xs \<le> n" "\<And>j. k \<le> j \<Longrightarrow> j < k + length xs \<Longrightarrow> D ! j = xs ! (j - k)"
    "take (Suc (length xs)) (drop k (D[k + length xs := b])) = xs @ [b]"
    "drop (Suc (k + length xs)) (take n (D[k + length xs := b])) = drop 1 ys"
    "ys = y # zs \<Longrightarrow> k + length xs < n \<and> D ! (k + length xs) = y"
proof -
  have l: "n - k = length xs + length ys" using arg_cong[OF D, of length] n by simp
  then show le: "k + length xs \<le> n" using k by simp
  show nth: "D ! j = xs ! (j - k)" if "k \<le> j" "j < k + length xs" for j
    using arg_cong[OF D, of "\<lambda>l. l ! (j - k)"] that n le by (simp add: nth_append less_diff_conv2)
  show "take (Suc (length xs)) (drop k (D[k + length xs := b])) = xs @ [b]"
    by (rule nth_equalityI) (use nth le n in \<open>auto simp: nth_append less_Suc_eq\<close>)
  have "drop (length xs) (drop k (take n D)) = ys" using D by simp
  then have y: "drop (k + length xs) (take n D) = ys" by (simp add: add.commute)
  then show "drop (Suc (k + length xs)) (take n (D[k + length xs := b])) = drop 1 ys"
    by (simp add: take_update_swap drop_update_cancel flip: y)
  show "k + length xs < n \<and> D ! (k + length xs) = y" if "ys = y # zs"
    using arg_cong[OF y, of "\<lambda>l. l ! 0"] l that n k le by simp
qed

lemma grep_lines_from:
  assumes ys: "ys \<noteq> []" and n: "n \<le> 1024"
  shows "grepping h img ds data (grep_texts h pat ys fname fs) D s \<Longrightarrow> drop k (take n D) = unlines ls @ rest \<Longrightarrow>
    \<forall>l\<in>insert rest (set ls). 0 \<notin> set l \<and> 10 \<notin> set l \<Longrightarrow> D ! n \<noteq> 10 \<Longrightarrow> k < n \<or> k = 0 \<Longrightarrow>
    \<exists>t D'. grep_lines h pat (of_nat (length ys)) fname data cnt (of_nat n) (of_nat k) s =
      Some (if cnt \<noteq> 0 \<and> rest \<noteq> [] \<and> (k \<noteq> 0 \<or> ls \<noteq> []) then of_nat (length rest) else 0, t) \<and>
     grepping h img ds data (grep_texts h pat ys fname fs) D' t \<and>
     wrote (concat (map (match_line fs ys) (if cnt \<noteq> 0 \<and> rest \<noteq> [] \<and> (k \<noteq> 0 \<or> ls \<noteq> []) then ls else ls @ [rest]))) s t \<and>
     (cnt \<noteq> 0 \<and> rest \<noteq> [] \<and> (k \<noteq> 0 \<or> ls \<noteq> []) \<longrightarrow> take (Suc (length rest)) D' = rest @ [0])"
proof (induction ls arbitrary: k D s)
  case Nil
  let ?g = "grepping h img ds data (grep_texts h pat ys fname fs)"
  have k: "k \<le> n" using Nil.prems(5) by auto
  have D: "drop k (take n D) = rest @ []" "length D = 1025"
    using Nil.prems(2) grepping_nth(2)[OF Nil.prems(1)] by (simp_all add: unlines_simps)
  note B = buffer_rest[OF D(1) n D(2) k]
  have e: "n = k + length rest" using arg_cong[OF D(1), of length] n D(2) k by simp
  have "\<forall>j. k \<le> j \<and> j < n \<longrightarrow> D ! j \<noteq> 10"
    using B(2) Nil.prems(3) e by (metis insertI1 list.set_sel nth_mem nat_less_le less_diff_conv2 add.commute)
  then have le: "grep_line_end data (of_nat n) (of_nat k) s = Some (of_nat n)"
    by (intro grep_line_end_at[OF Nil.prems(1)]) (use n k in auto)
  have v: "vread s (data + of_nat n) = Some (D ! n)" using grepping_nth(1)[OF Nil.prems(1)] n by simp
  obtain t where t: "vwrite s (data + of_nat n) 0 = Some t" "?g (D[n := 0]) t" "wrote [] s t"
    using grepping_poke[OF Nil.prems(1), of n 0] n by auto
  have tk: "take (Suc (length rest)) (drop k (D[n := 0])) = rest @ [0]" "0 \<notin> set rest"
    using B(3)[of 0] Nil.prems(3) e by simp_all
  show ?case
  proof (cases "cnt \<noteq> 0 \<and> k \<noteq> 0")
    case True
    then have r: "rest \<noteq> []" "0 < k" using Nil.prems(5) e by auto
    obtain u D' where u: "ece391_strcpy vread vwrite t (data + of_nat 0) (data + of_nat (k + 0)) = Some u" "?g D' u" "wrote [] t u"
      "take (0 + Suc (length rest)) D' = take 0 (D[n := 0]) @ rest @ [0]"
      using strcpy_down[OF t(2) _ tk(2) r(2), of 0] tk(1) by auto
    have kw: "(of_nat k :: u32) \<noteq> 0" using sint_small[of k] k n r(2) by auto
    have "(of_nat n - of_nat k :: u32) = of_nat (length rest)" by (simp add: e)
    then show ?thesis using le v t(1) u True r Nil.prems(4) kw wrote_trans[OF t(3) u(3)]
      by (subst grep_lines.simps) auto
  next
    case False
    obtain u where u: "grep_search h pat (of_nat (length ys)) fname data (of_nat k) (of_nat (k + length rest)) (of_nat (k + 0)) t = Some u"
      "?g (D[n := 0]) u" "wrote (if sublist ys (drop 0 rest) then fs @ ascii '':'' @ rest @ [10] else []) t u"
      using grep_search_line[OF t(2) ys tk, of 0] by blast
    have "sint (of_nat n + 1 :: i32) = int (Suc n)" using sint_small[of "Suc n"] n by (simp add: add.commute)
    then have ge: "\<not> sint (of_nat n + 1 :: i32) < sint (of_nat n :: i32)" using n by (simp add: sint_small)
    have w: "wrote (match_line fs ys rest) s u" using wrote_trans[OF t(3) u(3)] by (simp add: match_line_def)
    show ?thesis using le v t(1) u(1,2) w ge False
      by (subst grep_lines.simps) (auto simp: e[symmetric])
  qed
next
  case (Cons l ls)
  let ?g = "grepping h img ds data (grep_texts h pat ys fname fs)" and ?e = "k + length l"
  have k: "k \<le> n" using Cons.prems(5) by auto
  have D: "drop k (take n D) = l @ (10 # unlines ls @ rest)" "length D = 1025"
    using Cons.prems(2) grepping_nth(2)[OF Cons.prems(1)] by (simp_all add: unlines_simps)
  note B = buffer_rest[OF D(1) n D(2) k]
  have e: "?e < n" "D ! ?e = 10" using B(5) by auto
  have nl: "0 \<notin> set l" "10 \<notin> set l" using Cons.prems(3) by auto
  have "\<forall>j. k \<le> j \<and> j < ?e \<longrightarrow> D ! j \<noteq> 10"
    using B(2) nl(2) by (metis nth_mem less_diff_conv2 add.commute)
  then have le: "grep_line_end data (of_nat n) (of_nat k) s = Some (of_nat ?e)"
    by (intro grep_line_end_at[OF Cons.prems(1)]) (use n e in auto)
  have v: "vread s (data + of_nat ?e) = Some 10" using grepping_nth(1)[OF Cons.prems(1), of ?e] n e by simp
  obtain t where t: "vwrite s (data + of_nat ?e) 0 = Some t" "?g (D[?e := 0]) t" "wrote [] s t"
    using grepping_poke[OF Cons.prems(1), of ?e 0] n e by auto
  obtain u where u: "grep_search h pat (of_nat (length ys)) fname data (of_nat k) (of_nat ?e) (of_nat (k + 0)) t = Some u"
    "?g (D[?e := 0]) u" "wrote (if sublist ys (drop 0 l) then fs @ ascii '':'' @ l @ [10] else []) t u"
    using grep_search_line[OF t(2) ys B(3) nl(1), of 0] by blast
  have w: "wrote (match_line fs ys l) s u" using wrote_trans[OF t(3) u(3)] by (simp add: match_line_def)
  have sc: "(of_nat ?e + 1 :: u32) = of_nat (Suc ?e)" by simp
  have ge: "sint (of_nat (Suc ?e) :: i32) \<ge> sint (of_nat n :: i32) \<longleftrightarrow> n \<le> Suc ?e"
    using e n by (simp add: sint_small del: of_nat_Suc of_nat_add)
  have dr: "drop (Suc ?e) (take n (D[?e := 0])) = unlines ls @ rest" using B(4)[of 0] by simp
  have step: "grep_lines h pat (of_nat (length ys)) fname data cnt (of_nat n) (of_nat k) s =
      (if n \<le> Suc ?e then Some (0, u) else grep_lines h pat (of_nat (length ys)) fname data cnt (of_nat n) (of_nat (Suc ?e)) u)"
    using le v t(1) u(1) ge by (subst grep_lines.simps) (simp add: sc del: of_nat_Suc of_nat_add)
  show ?case
  proof (cases "n \<le> Suc ?e")
    case True
    then have "unlines ls @ rest = []" using dr by simp
    then have "ls = []" "rest = []" by (cases ls; simp add: unlines_simps)+
    then show ?thesis using step True u(2) w ys by (auto simp: match_line_def)
  next
    case False
    obtain x D' where x: "grep_lines h pat (of_nat (length ys)) fname data cnt (of_nat n) (of_nat (Suc ?e)) u =
        Some (if cnt \<noteq> 0 \<and> rest \<noteq> [] then of_nat (length rest) else 0, x)" "?g D' x"
      "wrote (concat (map (match_line fs ys) (if cnt \<noteq> 0 \<and> rest \<noteq> [] then ls else ls @ [rest]))) u x"
      "cnt \<noteq> 0 \<and> rest \<noteq> [] \<longrightarrow> take (Suc (length rest)) D' = rest @ [0]"
      using Cons.IH[OF u(2) dr] Cons.prems(3,4) False e(1) by auto
    show ?thesis using step False x wrote_trans[OF w x(3)] by (auto split: if_splits)
  qed
qed

text \<open>
  C20: \<open>grep\<close> prints the matching lines.  Take a buffer that holds the lines \<open>ls\<close>, each with its newline, and an
  unfinished line \<open>rest\<close>, no NULs among them and no newline in the byte behind them.  Then the search
  of the buffer ends; it has printed, on the terminal of its process only, the file's name, a colon and
  the line for exactly those lines that contain the pattern, in order.  An unfinished line behind others is
  not searched but moved to the front, where the next read continues it, unless the file is at its end.
\<close>

theorem grep_prints_matches:
  assumes g: "grepping h img ds data (grep_texts h pat ys fname fs) D s" and ys: "ys \<noteq> []"
    and n: "n \<le> 1024" "take n D = unlines ls @ rest" "D ! n \<noteq> 10"
    and ls: "\<forall>l\<in>insert rest (set ls). 0 \<notin> set l \<and> 10 \<notin> set l"
    and kp: "kept \<longleftrightarrow> cnt \<noteq> 0 \<and> ls \<noteq> [] \<and> rest \<noteq> []"
  shows "\<exists>t D'. grep_lines h pat (of_nat (length ys)) fname data cnt (of_nat n) 0 s =
      Some (if kept then of_nat (length rest) else 0, t) \<and>
     wrote (concat (map (match_line fs ys) (if kept then ls else ls @ [rest]))) s t \<and>
     grepping h img ds data (grep_texts h pat ys fname fs) D' t \<and>
     (kept \<longrightarrow> take (Suc (length rest)) D' = rest @ [0])"
  using grep_lines_from[OF ys n(1) g, of 0 ls rest cnt] n(2,3) ls kp by auto

end
