(* ===== verification/Sample_Programs.thy ===== *)
theory Sample_Programs
  imports Sample Counter Grep
begin

unbundle bit_operations_syntax

text \<open>
  The sample state for the programs of \<open>Fish\<close>, \<open>Selftest\<close> and \<open>Counter\<close>: a pool of blinks over flat memory and over
  the sample kernel, and the process of \<open>Sample\<close> with a typed line and an argument.
\<close>

section \<open>Fish\<close>

text \<open>The sample machine with paging off, and a blink.\<close>

definition sample_flat :: kernel where
  "sample_flat = sample_kernel\<lparr>paging_on := False\<rparr>"

definition sample_blink :: "u16 \<Rightarrow> blink_struct" where
  "sample_blink l = \<lparr>location = l, on_char = 73, off_char = 77, on_length = 7, off_length = 6, countdown = 0, status = 0,
     next_p = Some 3\<rparr>"

lemma sample_flat_screen: "maps_screen 0xB8000 0xB8000 sample_flat"
  by (simp add: maps_screen_def translate_def sample_flat_def)

lemma sample_fish_empty: "fish_shows 0xB8000 (empty_fish 0xB8000, sample_flat) []"
  using sample_flat_screen empty_fish_represents[of "0xB8000"]
  by (simp add: fish_shows_def on_screen_def shows_blinks_def empty_fish_def)

theorem mp1_ioctl_refines_witness:
  "rel_option (ioctl_sim (empty_fish 0xB8000)) (mp1_ioctl 0 (sample_blink 540) 0 (empty_fish 0xB8000) sample_flat)
     (ioctl_spec 0xB8000 0 (blink.truncate (sample_blink 540)) 0 [] sample_flat)"
  using mp1_ioctl_refines[OF empty_fish_represents[of "0xB8000"], of 0 "sample_blink 540" 0 sample_flat]
  by (simp add: sample_blink_def) (simp add: empty_fish_def)

theorem mp1_zero_location_hangs_witness:
  "\<exists>f1 s1 f2 s2 p. mp1_ioctl 0 (sample_blink 0) 0 (empty_fish 0xB8000) sample_flat = Some (0, sample_blink 0, f1, s1) \<and>
    mp1_ioctl 0 (sample_blink 5) 0 f1 s1 = Some (0, sample_blink 5, f2, s2) \<and>
    mp1_list_head f2 = Some p \<and> next_p (blink_at f2 p) = Some p \<and> mp1_rtc_tasklet f2 s2 = None"
  using mp1_zero_location_hangs[OF empty_fish_represents[of "0xB8000"], of "0xB8000" sample_flat "sample_blink 0" "sample_blink 5" 0]
    sample_flat_screen
  by (simp add: sample_blink_def) (simp add: empty_fish_def)

lemma sample_two_blinks:
  "\<exists>f (s :: kernel) bs. fish_shows 0xB8000 (f, s) bs \<and> set bs = {started (blink.truncate (sample_blink 100)), started (blink.truncate (sample_blink 540))}"
proof -
  obtain f and s :: kernel where a: "fish_shows 0xB8000 (f, s) [started (blink.truncate (sample_blink 540))]"
    using add_shows[OF sample_fish_empty, of "sample_blink 540" 0] by (auto simp: sample_blink_def)
  obtain f' and s' :: kernel where "fish_shows 0xB8000 (f', s') [started (blink.truncate (sample_blink 100)), started (blink.truncate (sample_blink 540))]"
    using add_shows[OF a, of "sample_blink 100" 0] by (auto simp: sample_blink_def started_def)
  then show ?thesis by (intro exI[of _ f'] exI[of _ s'] exI[of _ "[_, _]"]) auto
qed

theorem mp1_sync_shows_off_witness:
  "\<exists>f (s :: kernel) b f' s' bs'. mp1_ioctl (push_bit 16 100 OR 540) b 3 f s = Some (0, b, f', s') \<and> represents f' bs' \<and>
    phys s' (0xB8000 + cell_offset 540) = 77 \<and> \<not> shows_blinks 0xB8000 bs' s'"
proof -
  let ?a = "started (blink.truncate (sample_blink 100))" and ?d = "started (blink.truncate (sample_blink 540))"
  obtain f and s :: kernel and bs where s: "fish_shows 0xB8000 (f, s) bs" "set bs = {?a, ?d}" using sample_two_blinks by blast
  have l: "(ucast (drop_bit 16 (push_bit 16 100 OR 540 :: u32)) :: u16) = location ?a"
    "(ucast (push_bit 16 100 OR 540 :: u32) :: u16) = location ?d" by (simp_all add: started_def sample_blink_def)
  have "lit_up ?a" "on_char ?d \<noteq> off_char ?d" "off_char ?d = 77" "location ?d = 540"
    by (simp_all add: started_def sample_blink_def lit_up_def)
  then obtain f' s' bs' where "mp1_ioctl (push_bit 16 100 OR 540) (sample_blink 0) 3 f s = Some (0, sample_blink 0, f', s')"
    "represents f' bs'" "phys s' (0xB8000 + cell_offset 540) = 77" "\<not> shows_blinks 0xB8000 bs' s'"
    using mp1_sync_shows_off[OF s(1) _ _ l, of "sample_blink 0"] s(2) by auto
  then show ?thesis by blast
qed


lemma sample_user_apart:
  "cells translate sample_kernel 0x08048000 16 \<inter> cells translate sample_kernel 0x08048100 16 = {}"
proof -
  have a: "unat c = 0x848000 + j" if "translate sample_kernel (0x08048000 + of_nat j) = Some c" "j < 16" for c j
    using that sample_user[of j] sample_user_nat[of j] by auto
  have b: "unat c = 0x848100 + j" if "translate sample_kernel (0x08048100 + of_nat j) = Some c" "j < 16" for c j
    using that sample_user[of "0x100 + j"] sample_user_nat[of "0x100 + j"] by (simp add: add.assoc[symmetric])
  show ?thesis using a b unfolding cells_def by fastforce
qed

theorem fish_memory_equals_kernel_witness:
  "ece391_memset vwrite sample_kernel 0x08048000 65 16 = memset vwrite sample_kernel 0x08048000 65 16 \<and>
    ece391_memcpy vread vwrite sample_kernel 0x08048000 0x08048100 16 =
      map_option (Pair 0) (memcpy vread vwrite sample_kernel 0x08048000 0x08048100 16)"
  using fish_memory_equals_kernel[of 16 sample_kernel "0x08048000" "0x08048100" vwrite sample_kernel "0x08048000" 65]
    sample_user_apart by (simp add: sint_u32 del: sample_fields)


section \<open>sigtest\<close>

text \<open>The same process with its argument fetched into the buffer.\<close>

lemma sample_arguments:
  assumes ts: "64 * length ts \<le> 0x10000" "\<forall>xs\<in>set ts. length xs < 64 \<and> 0 \<notin> set xs"
    and xs: "length xs \<le> 128" "0 \<notin> set xs"
    and ap: "\<forall>x\<in>set ts. cells translate (sample_typed ts xs) (lit (sample_host ts) x) (Suc (length x)) \<inter>
      cells translate (sample_typed ts xs) 0x08060000 1024 = {}"
  shows "\<exists>s. getargs 0x08060000 1024 (sample_typed ts xs) = Some (0, s) \<and> vread s 0x08060000 = Some 115 \<and>
    program_ready (sample_host ts) ts sample_img sample_dir s \<and> keyboard_wf s \<and> kline s 0 = xs \<and>
    translate s = translate sample_kernel \<and> flag_keyboard s = [1, 0, 0] \<and> visible_screen s = 0 \<and>
    schedule_index s = 0 \<and> cur_pid (process_array s ! 0) = 0 \<and> (\<forall>p. screen_idx (pcbs s p) = 0)"
proof -
  let ?s0 = "sample_typed ts xs" and ?b = "0x08060000 :: u32"
  note T = sample_typed[OF ts xs]
  have a: "user_buf (pcbs ?s0 (get_pcb (cur_pid (process_array ?s0 ! sched_ix ?s0)))) =
      ascii ''cat shell'' @ replicate (1024 - length (ascii ''cat shell'')) 0"
    "0 \<notin> set (ascii ''cat shell'')" "length (ascii ''cat shell'') < 1024"
    by (simp_all add: sample_typed_def set_line_def sample_user_kernel_def sample_slot_def ascii_def)
  have n: "arg_text (ascii ''cat shell'') = sample_name" by (simp add: arg_text_def ascii_def sample_name_def)
  have ub: "user_buffer ?s0 ?b 1024"
    using sample_buffer[of 1024 ts] user_buffer_cong[of ?s0 "sample_user_kernel ts"] T(4) sample_user_frame(4)[of ts] by simp
  obtain s where s: "getargs ?b 1024 ?s0 = Some (0, s)" "program_ready (sample_host ts) [] sample_img sample_dir s"
    "reads_string (\<lambda>j. vread s (?b + j)) sample_name"
    using getargs_loads[OF T(1) ub a] unfolding n by (auto simp: sample_name_def)
  define ar where "ar = sample_name @ replicate (1024 - length sample_name) 0"
  have wf: "files_wf ?s0" using T(1) by (simp add: program_ready_def)
  have ne: "sample_name \<noteq> []" "length sample_name < 1024" by (simp_all add: sample_name_def)
  then have l: "length ar = 1024" by (simp add: ar_def)
  have ga: "getargs ?b 1024 ?s0 = do { s' \<leftarrow> store_bytes vwrite (?s0\<lparr>arg_retrieved := ar\<rparr>) ?b ar; Some (0, s') }"
    using getargs_step[OF wf refl a, of ?b 1024] ne unfolding n by (simp add: ar_def)
  have st: "store_bytes vwrite (?s0\<lparr>arg_retrieved := ar\<rparr>) ?b ar = Some s"
    using s(1)[unfolded ga] by (auto simp: bind_Some_iff)
  obtain m where m: "s = ?s0\<lparr>arg_retrieved := ar, phys := m\<rparr>" using store_frame[OF st] by auto
  note tr = args_retrieved(1)[where s = ?s0 and a = ar] args_retrieved(2)[where s = ?s0 and a = ar and m = m, folded m]
  have ph: "\<forall>c. c \<notin> cells translate ?s0 ?b 1024 \<longrightarrow> phys s c = phys ?s0 c"
    using vm.store_cell_other[OF st] l tr(1) by (simp add: cells_def)
  have "program_ready (sample_host ts) [x] sample_img sample_dir s" if "x \<in> set ts" for x
    by (rule program_ready_kept[OF T(1) that s(2) tr(2) ph]) (use ap that in blast)
  then have r: "program_ready (sample_host ts) ts sample_img sample_dir s" using s(2) by (simp add: program_ready_def)
  have "console_wf s" using s(2) by (simp add: program_ready_def files_wf_def procs_wf_def)
  then have kf: "key_frame ?s0 s" by (simp add: key_frame_def m kcount_def kbuf_def fun_eq_iff)
  have "vread s (?b + of_nat 0) = Some (sample_name ! 0)"
    using s(3) ne(1) unfolding reads_string_def by (metis length_greater_0_conv)
  then have b: "vread s ?b = Some 115" by (simp add: sample_name_def)
  then show ?thesis
    using s(1) b r key_frame_wf[OF kf T(2)] T(3-9) tr(2) by (intro exI[of _ s]) (simp add: m)
qed

theorem sigtest_terminated_witness:
  "\<exists>s u v p. sigtest_main (sample_host [line ''Installing signal handlers'', ascii ''Hi, what'' @ [39] @ ascii ''s your name? ''])
      0 0 0 0 0x08060000 s = Some (None, u) \<and>
    page_fault (replicate 64 0) u = Some (ret_status u, p) \<and> back_to_parent v p \<and> files_wf p"
proof -
  let ?i = "line ''Installing signal handlers''" and ?p = "ascii ''Hi, what'' @ [39] @ ascii ''s your name? ''"
  let ?ts = "[?i, ?p]" and ?s0 = "sample_typed [?i, ?p] (ascii ''Ann'')"
  have ts: "64 * length ?ts \<le> 0x10000" "\<forall>xs\<in>set ?ts. length xs < 64 \<and> 0 \<notin> set xs"
    "length (ascii ''Ann'') \<le> 128" "0 \<notin> set (ascii ''Ann'')" by (simp_all add: ascii_def)
  have "cells translate ?s0 (lit (sample_host ?ts) x) (Suc (length x)) \<inter> cells translate ?s0 0x08060000 1024 = {}"
    if "x \<in> set ?ts" for x
    by (rule sample_apart[OF sample_typed(4)[OF ts]]) (use that in \<open>auto simp: text_index_def ascii_def\<close>)
  then obtain s where s: "getargs 0x08060000 1024 ?s0 = Some (0, s)" "vread s 0x08060000 = Some 115"
    "program_ready (sample_host ?ts) ?ts sample_img sample_dir s" "keyboard_wf s" "kline s 0 = ascii ''Ann''"
    "translate s = translate sample_kernel" "flag_keyboard s = [1, 0, 0]" "visible_screen s = 0"
    "schedule_index s = 0" "cur_pid (process_array s ! 0) = 0" "\<forall>p. screen_idx (pcbs s p) = 0"
    using sample_arguments[OF ts] by blast
  have p: "?p \<in> set ?ts" by simp
  obtain t where t: "say (sample_host ?ts) ?p s = Some t" "awaits (sample_host ?ts) t t"
    "program_ready (sample_host ?ts) ?ts sample_img sample_dir t" "keyboard_wf t" "user_buffer t 0x08060000 1024"
    "kline t (vis_ix t) = ascii ''Ann''"
    using sample_prompt_from[OF s(3-11) p] by blast
  have x: "ascii ''Ann'' = kline t (vis_ix t)" "length (ascii ''Ann'') < 128" unfolding t(6) by (simp_all add: ascii_def)
  have ask: "sigtest_ask (sample_host ?ts) 0 0 0x08060000 s = Some t" using s(2) t(1) by (simp add: sigtest_ask_def)
  have T: "{?i, ?p} \<subseteq> set ?ts" by simp
  from sigtest_terminated[OF s(1,3,2) T ask t(2-5) x, of 0 "replicate 64 0"] show ?thesis by blast
qed

section \<open>counter\<close>

theorem counter_counts_witness:
  "\<exists>s t u. say (sample_host [counter_question, [10]]) counter_question s = Some t \<and>
    counter_main (sample_host [counter_question, [10]]) 0x08060000 s = Some (0, u) \<and> wrote (count_lines 100) t u"
proof -
  let ?ts = "[counter_question, [10 :: u8]]"
  have ts: "64 * length ?ts \<le> 0x10000" "\<forall>xs\<in>set ?ts. length xs < 64 \<and> 0 \<notin> set xs"
    "length [48 :: u8] \<le> 128" "0 \<notin> set [48 :: u8]" "counter_question \<in> set ?ts" by (simp_all add: ascii_def)
  obtain t where t: "say (sample_host ?ts) counter_question (sample_typed ?ts [48]) = Some t"
    "awaits (sample_host ?ts) t t" "program_ready (sample_host ?ts) ?ts sample_img sample_dir t" "keyboard_wf t"
    "user_buffer t 0x08060000 1024" "translate t = translate sample_kernel" "kline t (vis_ix t) = [48]"
    using sample_prompt[OF ts] by blast
  have ap: "cells translate t (lit (sample_host ?ts) [10]) 2 \<inter> cells translate t 0x08060000 1024 = {}"
    by (rule sample_apart[OF t(6)]) (simp add: text_index_def ascii_def)
  have T: "{counter_question, [10]} \<subseteq> set ?ts" by simp
  have c: "counter_max 48 = 100" by (simp add: counter_max_def)
  show ?thesis
    using counter_counts[OF sample_typed(1)[OF ts(1-4)] T t(1-5) ap t(7)[symmetric], unfolded c] t(1) by blast
qed

section \<open>grep\<close>

text \<open>A buffer of 1025 bytes that holds the text given at its start.\<close>

lemma sample_grepping:
  fixes xs :: "u8 list"
  assumes ts: "64 * length ts \<le> 0x10000" "\<forall>xs\<in>set ts. length xs < 64 \<and> 0 \<notin> set xs"
    and T: "{ascii '':'', [10], ys, fs} \<subseteq> set ts" and xs: "length xs \<le> 1024"
  shows "\<exists>s D. grepping (sample_host ts) sample_img sample_dir 0x08060000
      (grep_texts (sample_host ts) (lit (sample_host ts) ys) ys (lit (sample_host ts) fs) fs) (xs @ 0 # D) s"
proof -
  let ?a = "0x08060000 :: u32" and ?h = "sample_host ts" and ?s = "sample_user_kernel ts"
  let ?g = "grepping ?h sample_img sample_dir ?a (grep_texts ?h (lit ?h ys) ys (lit ?h fs) fs)"
  have r: "program_ready ?h ts sample_img sample_dir ?s" by (rule sample_user_ready[OF ts])
  have ub: "user_buffer ?s ?a 1025" by (rule sample_buffer) simp
  have "\<exists>c. vread ?s (?a + of_nat j) = Some c" if "j < 1025" for j
    using ub that by (force simp: user_buffer_def vread_def)
  then obtain f where f: "\<forall>j<1025. vread ?s (?a + of_nat j) = Some (f j)" by metis
  have ld: "load_bytes vread ?s ?a 1025 = Some (map f [0..<1025])" by (rule load_bytes_SomeI) (use f in simp_all)
  have b: "beside ?a ?s (lit ?h zs, zs)" if "zs \<in> set ts" for zs
  proof (rule beside_literal[OF r that])
    have "length zs < 64" "64 * text_index ts zs + 64 \<le> 0x10000" using ts text_index[OF that] that by fastforce+
    then have "64 * text_index ts zs + Suc (length zs) \<le> 0x10000" by simp
    then show "cells translate ?s (lit ?h zs) (Suc (length zs)) \<inter> cells translate ?s ?a 1025 = {}"
      by (rule sample_apart_buffer[OF sample_user_frame(4)]) simp
  qed
  have g: "?g (map f [0..<1025]) ?s"
    using r ub ld b T by (simp add: grepping_def grep_texts_def program_ready_def)
  have "\<exists>s D. ?g (take k (xs @ [0]) @ D) s" if "k \<le> Suc (length xs)" for k
    using that
  proof (induction k)
    case 0
    then show ?case using g by auto
  next
    case (Suc k)
    then obtain s D where s: "?g (take k (xs @ [0]) @ D) s" by auto
    have k: "k < 1025" "length (take k (xs @ [0])) = k" using Suc.prems xs by simp_all
    have "length (take k (xs @ [0]) @ D) = 1025" using grepping_nth(2)[OF s] .
    then obtain d D' where d: "D = d # D'" using k by (cases D) simp_all
    obtain t where "?g ((take k (xs @ [0]) @ D)[k := (xs @ [0]) ! k]) t"
      using grepping_poke[OF s k(1)] by blast
    moreover have "(take k (xs @ [0]) @ D)[k := (xs @ [0]) ! k] = take (Suc k) (xs @ [0]) @ D'"
      using k(2) Suc.prems by (simp add: d list_update_append take_Suc_conv_app_nth del: take_append)
    ultimately show ?case by metis
  qed
  from this[of "Suc (length xs)"] show ?thesis by simp
qed

theorem grep_prints_matches_witness:
  "\<exists>s t. grep_lines (sample_host [ascii '':'', [10], [98], sample_name]) (lit (sample_host [ascii '':'', [10], [98], sample_name]) [98]) 1
      (lit (sample_host [ascii '':'', [10], [98], sample_name]) sample_name) 0x08060000 1 4 0 s = Some (1, t) \<and>
    load_bytes vread s 0x08060000 5 = Some [97, 98, 10, 99, 0] \<and>
    wrote (sample_name @ ascii '':'' @ [97, 98] @ [10]) s t"
proof -
  define ts where "ts = [ascii '':'', [10], [98 :: u8], sample_name]"
  have T: "{ascii '':'', [10], [98], sample_name} \<subseteq> set ts" by (simp add: ts_def)
  have ts: "64 * length ts \<le> 0x10000" "\<forall>xs\<in>set ts. length xs < 64 \<and> 0 \<notin> set xs"
    by (simp_all add: ts_def ascii_def sample_name_def)
  obtain s D where g: "grepping (sample_host ts) sample_img sample_dir 0x08060000
      (grep_texts (sample_host ts) (lit (sample_host ts) [98]) [98] (lit (sample_host ts) sample_name) sample_name)
      ([97, 98, 10, 99] @ 0 # D) s"
    using sample_grepping[OF ts T, of "[97, 98, 10, 99]"] by auto
  have "load_bytes vread s 0x08060000 5 = Some [97, 98, 10, 99, 0]"
  proof (rule load_bytes_SomeI)
    fix i :: nat assume i: "i < 5"
    then have "([97, 98, 10, 99] @ 0 # D) ! i = [97, 98, 10, 99, 0] ! i" by (auto simp: nth_Cons split: nat.split)
    with grepping_nth(1)[OF g, of i] i show "vread s (0x08060000 + of_nat i) = Some ([97, 98, 10, 99, 0] ! i)" by simp
  qed simp
  moreover have "take 4 ([97, 98, 10, 99] @ 0 # D) = unlines [[97, 98]] @ [99]" by (simp add: unlines_simps)
  moreover have "sublist [98] [97, 98 :: u8]" by (simp add: sublist_Cons_right)
  then have "concat (map (match_line sample_name [98]) [[97, 98]]) = sample_name @ ascii '':'' @ [97, 98] @ [10]"
    by (simp add: match_line_def)
  ultimately show ?thesis unfolding ts_def[symmetric]
    using grep_prints_matches[OF g, of 4 "[[97, 98]]" "[99]" True 1] by auto
qed

end
