(* ===== verification/Ports.thy ===== *)
theory Ports
  imports Machine
begin

unbundle bit_operations_syntax

text \<open>
  The port and flag macros of \<open>lib.h\<close> that \<open>Machine\<close> does not need: accesses of two and four bytes, which
  address consecutive ports, and the pair that saves and restores the interrupt flag.
\<close>

section \<open>Wide port access\<close>

definition inw :: "'z machine_scheme \<Rightarrow> u16 \<Rightarrow> u32" where
  "inw s port = le32 (port_in s port) (port_in s (port + 1)) 0 0"

definition inl :: "'z machine_scheme \<Rightarrow> u16 \<Rightarrow> u32" where
  "inl s port = le32 (port_in s port) (port_in s (port + 1)) (port_in s (port + 2)) (port_in s (port + 3))"

definition outw :: "u32 \<Rightarrow> u16 \<Rightarrow> 'z machine_scheme \<Rightarrow> 'z machine_scheme" where
  "outw data port s = s\<lparr>port_out := port_out s @ [(port, byte_of data 0), (port + 1, byte_of data 1)]\<rparr>"

definition outl :: "u32 \<Rightarrow> u16 \<Rightarrow> 'z machine_scheme \<Rightarrow> 'z machine_scheme" where
  "outl data port s = s\<lparr>port_out := port_out s @
     [(port, byte_of data 0), (port + 1, byte_of data 1), (port + 2, byte_of data 2), (port + 3, byte_of data 3)]\<rparr>"

text \<open>A wide access is the sequence of the byte accesses.\<close>

lemma inw_bytes: "inw s port = inb s port + 256 * inb s (port + 1)"
  by (simp add: inw_def inb_def le32_def)

lemma outw_bytes: "outw data port s = outb (drop_bit 8 data) (port + 1) (outb data port s)"
  by (simp add: outw_def outb_def byte_of_def)

lemma outl_words: "outl data port s = outw (drop_bit 16 data) (port + 2) (outw data port s)"
  by (simp add: outl_def outw_def byte_of_def drop_bit_drop_bit add.assoc)

section \<open>Saving the interrupt flag\<close>

text \<open>
  The flags register: bit 9 is the interrupt flag, the other bits are an argument.
\<close>

definition eflags :: "u32 \<Rightarrow> 'z machine_scheme \<Rightarrow> u32" where
  "eflags others s = (if iflag s then set_bit 9 others else unset_bit 9 others)"

definition cli_and_save :: "u32 \<Rightarrow> 'z machine_scheme \<Rightarrow> u32 \<times> 'z machine_scheme" where
  "cli_and_save others s = (eflags others s, cli s)"

definition restore_flags :: "u32 \<Rightarrow> 'z machine_scheme \<Rightarrow> 'z machine_scheme" where
  "restore_flags saved s = s\<lparr>iflag := bit saved 9\<rparr>"

text \<open>A critical section gives back the interrupt flag it found, and interrupts are off in it.\<close>

lemma critical_section:
  assumes c: "cli_and_save others s = (saved, s1)" and b: "body s1 = s1\<lparr>phys := m\<rparr>"
  shows "\<not> iflag (body s1) \<and> restore_flags saved (body s1) = s\<lparr>phys := m\<rparr>"
  using c by (auto simp: b cli_and_save_def eflags_def restore_flags_def cli_def bit_set_bit_iff bit_unset_bit_iff)

end
